(* ===== verification/Tom_Prelude.thy ===== *)
theory Tom_Prelude
  imports Complex_Main "HOL-Library.AList" "HOL-Library.Sublist" "HOL-Library.Product_Lexorder"
begin

text \<open>
  Shared vocabulary of the development. Python's dictionaries keep insertion order, so they are
  association lists with the operations of \<^theory_text>\<open>HOL-Library.AList\<close> (updating keeps the
  position of an existing key and appends a new one, as \<open>d[k] = v\<close> does). Times and other
  floats that the code only compares, adds and floor-divides are \<^typ>\<open>rat\<close>. Strings are
  character lists; \<open>lower\<close>, \<open>upper\<close> and \<open>strip\<close> are the ASCII part of the Python methods.
  A raised exception is the left summand of a sum.
\<close>

named_theorems handler_simps "unfoldings of the handlers' branches"
named_theorems keeps_inv "one preservation fact per operation"

subsection \<open>Dictionaries\<close>

type_synonym ('k, 'v) dict = "('k \<times> 'v) list"

abbreviation dict_get :: "('k, 'v) dict \<Rightarrow> 'k \<Rightarrow> 'v option" where
  "dict_get d k \<equiv> map_of d k"

abbreviation dict_set :: "'k \<Rightarrow> 'v \<Rightarrow> ('k, 'v) dict \<Rightarrow> ('k, 'v) dict" where
  "dict_set k v d \<equiv> AList.update k v d"

abbreviation dict_del :: "'k \<Rightarrow> ('k, 'v) dict \<Rightarrow> ('k, 'v) dict" where
  "dict_del k d \<equiv> AList.delete k d"

abbreviation dict_keys :: "('k, 'v) dict \<Rightarrow> 'k list" where
  "dict_keys d \<equiv> map fst d"

abbreviation dict_values :: "('k, 'v) dict \<Rightarrow> 'v list" where
  "dict_values d \<equiv> map snd d"

lemma dict_set_fresh:
  "k \<notin> set (dict_keys d) \<Longrightarrow> dict_set k v d = d @ [(k, v)]"
  by (induction d) auto

lemma dict_del_absent [simp]:
  "k \<notin> set (dict_keys d) \<Longrightarrow> dict_del k d = d"
  by (induction d) (auto simp: AList.delete_eq)

lemma dict_del_undoes_set:
  "k \<notin> set (dict_keys d) \<Longrightarrow> dict_del k (dict_set k v d) = d"
  using dict_del_absent [of k d] by (simp add: dict_set_fresh AList.delete_eq)

lemma dict_del_set: "set (dict_del k d) = {p \<in> set d. fst p \<noteq> k}"
  by (auto simp: AList.delete_eq)

lemma dict_get_SomeD: "dict_get d k = Some v \<Longrightarrow> (k, v) \<in> set d"
  by (rule map_of_SomeD)

lemma dict_get_in:
  "distinct (dict_keys d) \<Longrightarrow> dict_get d k = Some v \<longleftrightarrow> (k, v) \<in> set d"
  by (rule map_of_eq_Some_iff)

lemma dict_get_set [simp]:
  "dict_get (dict_set k v d) k' = (if k' = k then Some v else dict_get d k')"
  by (simp add: AList.update_conv')

lemma dict_get_del [simp]:
  "dict_get (dict_del k d) k' = (if k' = k then None else dict_get d k')"
  by (simp add: AList.delete_conv')

lemma dict_keys_set [simp]:
  "set (dict_keys (dict_set k v d)) = insert k (set (dict_keys d))"
  using AList.dom_update [of k v d] by (simp add: dom_map_of_conv_image_fst)

lemma dict_distinct_set [simp]:
  "distinct (dict_keys d) \<Longrightarrow> distinct (dict_keys (dict_set k v d))"
  by (rule AList.distinct_update)

lemma dict_distinct_del [simp]:
  "distinct (dict_keys d) \<Longrightarrow> distinct (dict_keys (dict_del k d))"
  by (rule AList.distinct_delete)

lemma dict_keys_del [simp]:
  "set (dict_keys (dict_del k d)) = set (dict_keys d) - {k}"
  by (auto simp: AList.delete_eq image_iff)

lemma dict_keys_image [simp]:
  "fst ` set (dict_set k v d) = insert k (fst ` set d)"
  "fst ` set (dict_del k d) = fst ` set d - {k}"
  using dict_keys_set [of k v d] dict_keys_del [of k d] by simp_all

text \<open>A total over the values moves by exactly the entry that is added or removed.\<close>

lemma sum_list_del:
  fixes f :: "'v \<Rightarrow> int"
  assumes "distinct (dict_keys d)" and "dict_get d k = Some v"
  shows "sum_list (map f (dict_values (dict_del k d))) = sum_list (map f (dict_values d)) - f v"
  using assms
proof (induction d)
  case (Cons p d)
  show ?case
  proof (cases "fst p = k")
    case True
    with Cons.prems have "dict_del k d = d" and "v = snd p"
      by (auto intro: dict_del_absent)
    with True show ?thesis by simp
  next
    case False
    with Cons show ?thesis by simp
  qed
qed simp

lemma sum_list_set_fresh:
  fixes f :: "'v \<Rightarrow> int"
  assumes "k \<notin> set (dict_keys d)"
  shows "sum_list (map f (dict_values (dict_set k v d))) = sum_list (map f (dict_values d)) + f v"
  using assms by (simp add: dict_set_fresh)

subsection \<open>Stable sorting and first match\<close>

text \<open>
  Python's \<open>sorted(xs, key=f)\<close> is stable, as \<^const>\<open>sort_key\<close> is. A loop that returns the first
  element satisfying a guard is \<^const>\<open>find\<close>.
\<close>

lemma find_sort_key_Some:
  assumes "find P (sort_key f xs) = Some x"
  shows "x \<in> set xs" and "P x" and "\<And>y. y \<in> set xs \<Longrightarrow> P y \<Longrightarrow> f x \<le> f y"
proof -
  obtain i where i: "i < length (sort_key f xs)" "P (sort_key f xs ! i)"
      "x = sort_key f xs ! i" and before: "\<forall>j<i. \<not> P (sort_key f xs ! j)"
    using assms by (auto simp: find_Some_iff)
  have members: "set (sort_key f xs) = set xs" by simp
  show "P x" using i by simp
  show "x \<in> set xs" using i nth_mem members by metis
  fix y assume y: "y \<in> set xs" "P y"
  then obtain j where j: "j < length (sort_key f xs)" "sort_key f xs ! j = y"
    using members by (metis in_set_conv_nth)
  with y before have "i \<le> j" by (metis not_le)
  moreover have "sorted (map f (sort_key f xs))" by simp
  ultimately show "f x \<le> f y"
    using i j sorted_nth_mono [of "map f (sort_key f xs)" i j] by simp
qed

lemma find_sort_key_None:
  "find P (sort_key f xs) = None \<longleftrightarrow> (\<forall>x\<in>set xs. \<not> P x)"
  by (auto simp: find_None_iff)

subsection \<open>Strings\<close>

definition lower_char :: "char \<Rightarrow> char" where
  "lower_char c = (let n = (of_char c :: nat) in if 65 \<le> n \<and> n \<le> 90 then char_of (n + 32) else c)"

definition upper_char :: "char \<Rightarrow> char" where
  "upper_char c = (let n = (of_char c :: nat) in if 97 \<le> n \<and> n \<le> 122 then char_of (n - 32) else c)"

definition lower :: "string \<Rightarrow> string" where
  "lower s = map lower_char s"

definition upper :: "string \<Rightarrow> string" where
  "upper s = map upper_char s"

definition is_space :: "char \<Rightarrow> bool" where
  "is_space c \<longleftrightarrow> c = CHR '' '' \<or> (of_char c :: nat) \<in> {9, 10, 11, 12, 13, 28, 29, 30, 31}"

definition lstrip :: "string \<Rightarrow> string" where
  "lstrip s = dropWhile is_space s"

definition rstrip :: "string \<Rightarrow> string" where
  "rstrip s = rev (dropWhile is_space (rev s))"

definition strip :: "string \<Rightarrow> string" where
  "strip s = rstrip (lstrip s)"

lemma dropWhile_end: "\<not> P c \<Longrightarrow> dropWhile P (xs @ [c]) = dropWhile P xs @ [c]"
  by (induction xs) simp_all

lemma dropWhile_again: "dropWhile P (dropWhile P xs) = dropWhile P xs"
  by (induction xs) simp_all

lemma strip_idem: "strip (strip s) = strip s"
proof (cases "lstrip s")
  case Nil
  then have "strip s = []" by (simp add: strip_def rstrip_def)
  moreover have "strip [] = []" by (simp add: strip_def rstrip_def lstrip_def)
  ultimately show ?thesis by simp
next
  case (Cons c t)
  then have c: "\<not> is_space c" unfolding lstrip_def by (metis hd_dropWhile list.sel(1) list.distinct(1))
  then have r: "rstrip (c # u) = c # rstrip u" for u by (simp add: rstrip_def dropWhile_end)
  have "rstrip (rstrip (c # t)) = rstrip (c # t)" by (simp add: rstrip_def dropWhile_again)
  moreover have "lstrip (rstrip (c # t)) = rstrip (c # t)" using c by (simp add: r lstrip_def)
  ultimately show ?thesis using Cons by (simp add: strip_def)
qed

text \<open>\<open>s.split()\<close> and \<open>c.isdigit()\<close>.\<close>

fun words_from :: "string \<Rightarrow> string \<Rightarrow> string list" where
  "words_from w [] = (if w = [] then [] else [w])"
| "words_from w (x # xs) =
     (if is_space x then (if w = [] then words_from [] xs else w # words_from [] xs)
      else words_from (w @ [x]) xs)"

definition split_ws :: "string \<Rightarrow> string list" where
  "split_ws s = words_from [] s"

text \<open>\<open>s.split(c)\<close>.\<close>

fun split_on :: "char \<Rightarrow> string \<Rightarrow> string list" where
  "split_on sep [] = [[]]"
| "split_on sep (c # s) =
     (if c = sep then [] # split_on sep s
      else case split_on sep s of [] \<Rightarrow> [[c]] | w # ws \<Rightarrow> (c # w) # ws)"

definition is_digit :: "char \<Rightarrow> bool" where
  "is_digit c \<longleftrightarrow> (of_char c :: nat) \<in> {48..57}"

abbreviation contains_sub :: "string \<Rightarrow> string \<Rightarrow> bool" where
  "contains_sub needle text \<equiv> sublist needle text"

abbreviation startswith :: "string \<Rightarrow> string \<Rightarrow> bool" where
  "startswith s p \<equiv> prefix p s"

abbreviation endswith :: "string \<Rightarrow> string \<Rightarrow> bool" where
  "endswith s p \<equiv> suffix p s"

subsection \<open>Bounded queues\<close>

text \<open>\<open>deque(maxlen=n).append\<close>.\<close>

definition push_bounded :: "nat \<Rightarrow> 'a \<Rightarrow> 'a list \<Rightarrow> 'a list" where
  "push_bounded n x xs = drop (length xs + 1 - n) (xs @ [x])"

lemma list_all_push_bounded: "list_all P xs \<Longrightarrow> P x \<Longrightarrow> list_all P (push_bounded n x xs)"
  unfolding push_bounded_def list_all_iff by (metis Un_iff in_set_dropD set_append set_ConsD append_Nil2 in_set_conv_decomp)

lemma length_push_bounded: "length (push_bounded n x xs) = min n (length xs + 1)"
  by (simp add: push_bounded_def)

lemma last_push_bounded: "0 < n \<Longrightarrow> last (push_bounded n x xs) = x"
  by (simp add: push_bounded_def)

subsection \<open>Transition tables\<close>

text \<open>
  Three components guard every change of a state field by a table from a state to its permitted
  targets. The interface is the table and the set of states the code calls terminal; the law is
  that exactly the terminal states have no successor.
\<close>

locale transition_table =
  fixes allowed :: "'s \<Rightarrow> 's list"
    and terminal :: "'s \<Rightarrow> bool"
  assumes terminal_iff: "terminal s \<longleftrightarrow> allowed s = []"
begin

lemma no_step_from_terminal: "terminal s \<Longrightarrow> t \<notin> set (allowed s)"
  by (simp add: terminal_iff)

lemma progress_unless_terminal: "\<not> terminal s \<Longrightarrow> \<exists>t. t \<in> set (allowed s)"
  using terminal_iff [of s] by (cases "allowed s") auto

lemma terminal_reaches_itself_only:
  assumes "terminal s" and "(\<lambda>a b. b \<in> set (allowed a))\<^sup>*\<^sup>* s t"
  shows "t = s"
  using assms(2,1) by (induction rule: rtranclp_induct) (auto dest: no_step_from_terminal)

lemma chain_stops_at_terminal:
  assumes "terminal s" and "successively (\<lambda>a b. b \<in> set (allowed a)) (s # ss)"
  shows "ss = []"
  using assms by (cases ss) (auto dest: no_step_from_terminal)

end

subsection \<open>Machines that run on events\<close>

text \<open>
  The concurrent components are a step that an event may or may not take, and the runs of such steps. The
  interface is the two functions, the law is that a run takes its steps one after the other.
\<close>

locale event_machine =
  fixes step :: "'e \<Rightarrow> 's \<Rightarrow> 's option"
    and run :: "'e list \<Rightarrow> 's \<Rightarrow> 's option"
  assumes run_nothing: "run [] s = Some s"
    and run_more: "run (e # es) s = Option.bind (step e s) (run es)"
begin

lemma run_append: "run (es @ es') s = Option.bind (run es s) (run es')"
proof (induction es arbitrary: s)
  case (Cons e es)
  then show ?case by (cases "step e s") (simp_all add: run_more)
qed (simp add: run_nothing)

lemma run_invariant:
  assumes "run es s = Some s'" and "I s" and "\<And>e s s'. e \<in> set es \<Longrightarrow> I s \<Longrightarrow> step e s = Some s' \<Longrightarrow> I s'"
  shows "I s'"
  using assms
proof (induction es arbitrary: s)
  case (Cons e es)
  then obtain t where t: "step e s = Some t" "run es t = Some s'" by (auto simp: run_more bind_eq_Some_conv)
  have "I t" using Cons.prems(2,3) t(1) by (meson list.set_intros(1))
  then show ?case using Cons.IH [OF t(2)] Cons.prems(3) by (meson list.set_intros(2))
qed (simp add: run_nothing)

lemma run_preorder:
  assumes "run es s = Some s'" and "\<And>s. R s s" and "\<And>s t u. R s t \<Longrightarrow> R t u \<Longrightarrow> R s u"
    and "\<And>e s s'. step e s = Some s' \<Longrightarrow> R s s'"
  shows "R s s'"
  using assms(1)
proof (induction es arbitrary: s)
  case (Cons e es)
  then obtain t where "step e s = Some t" "run es t = Some s'" by (auto simp: run_more bind_eq_Some_conv)
  then show ?case using Cons.IH assms(3,4) by blast
qed (use assms(2) in \<open>simp add: run_nothing\<close>)

end

end
