(* ===== verification/Resource_Queue.thy ===== *)
theory Resource_Queue
  imports Tom_Prelude
begin

text \<open>
  Models \<open>python/tom/resources/types.py\<close> and \<open>python/tom/resources/policies.py\<close>: the model roles,
  the task priorities, the waiter record with its starvation ageing, and
  \<open>PriorityResourceQueue\<close>. The queue's own \<open>asyncio.Lock\<close> is held over sections that never
  suspend, so each method is one function. \<open>uuid4\<close> identifiers and clock readings are arguments.
\<close>

subsection \<open>Data\<close>

datatype model_role = ROUTER | REASONING | VLM | GENERAL | STT

datatype task_priority =
    VOICE_INTERACTIVE | USER_INTERACTIVE | PRIO_ROUTING | PRIO_REASONING | PRIO_VISION | BACKGROUND

fun priority_value :: "task_priority \<Rightarrow> int" where
  "priority_value VOICE_INTERACTIVE = 0"
| "priority_value USER_INTERACTIVE = 1"
| "priority_value PRIO_ROUTING = 2"
| "priority_value PRIO_REASONING = 3"
| "priority_value PRIO_VISION = 4"
| "priority_value BACKGROUND = 5"

text \<open>\<open>TaskPriority(n)\<close>: the enumeration member with that value; other values raise \<open>ValueError\<close>.\<close>

definition task_priority_of :: "int \<Rightarrow> task_priority option" where
  "task_priority_of n = find (\<lambda>p. priority_value p = n)
     [VOICE_INTERACTIVE, USER_INTERACTIVE, PRIO_ROUTING, PRIO_REASONING, PRIO_VISION, BACKGROUND]"

type_synonym uuid = string

record waiter =
  waiter_id :: uuid
  w_priority :: task_priority
  created_at :: rat
  w_sequence :: nat
  w_role :: model_role
  w_vram :: int
  w_ram :: int
  w_granted :: bool
  w_cancelled :: bool

definition get_effective_priority :: "waiter \<Rightarrow> rat \<Rightarrow> rat \<Rightarrow> int" where
  "get_effective_priority w now threshold =
     (if threshold \<le> 0 then priority_value (w_priority w)
      else let waited = max 0 (now - created_at w);
               boost = \<lfloor>waited / threshold\<rfloor>
           in max 0 (priority_value (w_priority w) - boost))"

record resource_queue =
  aging_threshold :: rat
  q_waiters :: "(uuid, waiter) dict"
  next_sequence :: nat

definition empty_queue :: "rat \<Rightarrow> resource_queue" where
  "empty_queue threshold = \<lparr>aging_threshold = threshold, q_waiters = [], next_sequence = 0\<rparr>"

subsection \<open>Operations\<close>

definition enqueue ::
  "uuid \<Rightarrow> rat \<Rightarrow> model_role \<Rightarrow> int \<Rightarrow> int \<Rightarrow> task_priority \<Rightarrow> resource_queue \<Rightarrow> waiter \<times> resource_queue"
  where
  "enqueue wid now role vram ram prio q =
     (let w = \<lparr>waiter_id = wid, w_priority = prio, created_at = now,
               w_sequence = next_sequence q, w_role = role, w_vram = vram, w_ram = ram,
               w_granted = False, w_cancelled = False\<rparr>
      in (w, q\<lparr>next_sequence := next_sequence q + 1,
               q_waiters := dict_set (waiter_id w) w (q_waiters q)\<rparr>))"

text \<open>
  \<open>remove\<close> pops the entry and marks the shared waiter object as cancelled: the object, if there
  was one, is returned beside the code's boolean result.
\<close>

definition remove :: "uuid \<Rightarrow> resource_queue \<Rightarrow> (bool \<times> waiter option) \<times> resource_queue" where
  "remove wid q =
     (case dict_get (q_waiters q) wid of
        None \<Rightarrow> ((False, None), q)
      | Some w \<Rightarrow> ((True, Some (w\<lparr>w_cancelled := True\<rparr>)),
                    q\<lparr>q_waiters := dict_del wid (q_waiters q)\<rparr>))"

definition queue_key :: "resource_queue \<Rightarrow> rat \<Rightarrow> waiter \<Rightarrow> int \<times> nat" where
  "queue_key q now w = (get_effective_priority w now (aging_threshold q), w_sequence w)"

definition sorted_waiters :: "resource_queue \<Rightarrow> rat \<Rightarrow> waiter list" where
  "sorted_waiters q now = sort_key (queue_key q now) (dict_values (q_waiters q))"

definition peek_next :: "resource_queue \<Rightarrow> rat \<Rightarrow> waiter option" where
  "peek_next q now =
     (if q_waiters q = [] then None
      else case sorted_waiters q now of [] \<Rightarrow> None | w # _ \<Rightarrow> Some w)"

definition pop_admissible ::
  "(waiter \<Rightarrow> bool) \<Rightarrow> rat \<Rightarrow> resource_queue \<Rightarrow> waiter option \<times> resource_queue" where
  "pop_admissible can_admit now q =
     (if q_waiters q = [] then (None, q)
      else case find (\<lambda>w. \<not> w_cancelled w \<and> can_admit w) (sorted_waiters q now) of
             None \<Rightarrow> (None, q)
           | Some w \<Rightarrow> (Some (w\<lparr>w_granted := True\<rparr>),
                         q\<lparr>q_waiters := dict_del (waiter_id w) (q_waiters q)\<rparr>))"

definition get_waiters_count :: "resource_queue \<Rightarrow> nat" where
  "get_waiters_count q = length (q_waiters q)"

definition list_waiters :: "resource_queue \<Rightarrow> waiter list" where
  "list_waiters q = dict_values (q_waiters q)"

subsection \<open>Ageing\<close>

lemma priority_value_range: "0 \<le> priority_value p \<and> priority_value p \<le> 5"
  by (cases p) simp_all

lemma task_priority_of_value [simp]: "task_priority_of (priority_value p) = Some p"
  by (cases p) (simp_all add: task_priority_of_def)

lemma task_priority_of_None: "task_priority_of n = None \<longleftrightarrow> n < 0 \<or> 5 < n"
  by (auto simp: task_priority_of_def split: if_splits)

lemma effective_priority_bounds:
  "0 \<le> get_effective_priority w now thr \<and>
   get_effective_priority w now thr \<le> priority_value (w_priority w)"
  using priority_value_range [of "w_priority w"]
  by (auto simp: get_effective_priority_def Let_def)

lemma effective_priority_mono:
  assumes "w_priority w = w_priority v" and "created_at w \<le> created_at v"
  shows "get_effective_priority w now thr \<le> get_effective_priority v now thr"
proof -
  have "0 < thr \<Longrightarrow> max 0 (now - created_at v) / thr \<le> max 0 (now - created_at w) / thr"
    using assms(2) by (intro divide_right_mono) auto
  then have "0 < thr \<Longrightarrow>
      \<lfloor>max 0 (now - created_at v) / thr\<rfloor> \<le> \<lfloor>max 0 (now - created_at w) / thr\<rfloor>"
    by (rule floor_mono)
  with assms(1) show ?thesis
    by (auto simp: get_effective_priority_def Let_def)
qed

lemma effective_priority_antimono_time:
  assumes "t \<le> t'"
  shows "get_effective_priority w t' thr \<le> get_effective_priority w t thr"
proof -
  have "0 < thr \<Longrightarrow> max 0 (t - created_at w) / thr \<le> max 0 (t' - created_at w) / thr"
    using assms by (intro divide_right_mono) auto
  then have "0 < thr \<Longrightarrow>
      \<lfloor>max 0 (t - created_at w) / thr\<rfloor> \<le> \<lfloor>max 0 (t' - created_at w) / thr\<rfloor>"
    by (rule floor_mono)
  then show ?thesis
    by (auto simp: get_effective_priority_def Let_def)
qed

lemma effective_priority_aged:
  assumes "0 < thr" and "of_int (priority_value (w_priority w)) * thr \<le> now - created_at w"
  shows "get_effective_priority w now thr = 0"
proof -
  have "0 \<le> (of_int (priority_value (w_priority w)) :: rat) * thr"
    using assms(1) priority_value_range [of "w_priority w"] by simp
  with assms(2) have waited: "max 0 (now - created_at w) = now - created_at w" by simp
  have "of_int (priority_value (w_priority w)) \<le> (now - created_at w) / thr"
    using assms by (simp add: field_simps)
  then have "priority_value (w_priority w) \<le> \<lfloor>(now - created_at w) / thr\<rfloor>"
    by (simp add: le_floor_iff)
  with assms(1) waited show ?thesis
    by (simp add: get_effective_priority_def Let_def)
qed

subsection \<open>The queue's invariant\<close>

text \<open>
  Keys are the waiters' own identifiers, entries stand in the order of their sequence numbers,
  and every number is below the next one to be given out.
\<close>

definition queue_inv :: "resource_queue \<Rightarrow> bool" where
  "queue_inv q \<longleftrightarrow>
     distinct (dict_keys (q_waiters q)) \<and>
     list_all (\<lambda>(k, w). k = waiter_id w \<and> w_sequence w < next_sequence q \<and> \<not> w_cancelled w)
       (q_waiters q) \<and>
     sorted_wrt (\<lambda>v w. w_sequence v < w_sequence w) (list_waiters q)"

lemma queue_inv_empty [simp]: "queue_inv (empty_queue thr)"
  by (simp add: queue_inv_def empty_queue_def list_waiters_def)

lemma queue_inv_entry:
  assumes "queue_inv q" and "(k, w) \<in> set (q_waiters q)"
  shows "k = waiter_id w" and "w_sequence w < next_sequence q" and "\<not> w_cancelled w"
  using assms by (auto simp: queue_inv_def list_all_iff)

lemma list_waiters_entry:
  assumes "queue_inv q" and "w \<in> set (list_waiters q)"
  shows "(waiter_id w, w) \<in> set (q_waiters q)"
  using assms queue_inv_entry(1) by (fastforce simp: list_waiters_def)

lemma queue_inv_dict_del:
  "queue_inv q \<Longrightarrow> queue_inv (q\<lparr>q_waiters := dict_del wid (q_waiters q)\<rparr>)"
  by (auto simp: queue_inv_def list_waiters_def AList.delete_eq list_all_iff sorted_wrt_map
      intro: sorted_wrt_filter distinct_map_filter)

lemma queue_inv_enqueue [keeps_inv]:
  assumes "queue_inv q" and "wid \<notin> set (dict_keys (q_waiters q))"
    and "enqueue wid now role vram ram prio q = (w, q')"
  shows "queue_inv q'"
  using assms
  by (auto simp: enqueue_def Let_def queue_inv_def list_waiters_def dict_set_fresh
      sorted_wrt_append list_all_iff less_Suc_eq; fastforce)

lemma queue_inv_remove [keeps_inv]:
  "queue_inv q \<Longrightarrow> remove wid q = (r, q') \<Longrightarrow> queue_inv q'"
  by (auto simp: remove_def intro: queue_inv_dict_del split: option.splits)

lemma queue_inv_pop [keeps_inv]:
  "queue_inv q \<Longrightarrow> pop_admissible adm now q = (r, q') \<Longrightarrow> queue_inv q'"
  by (auto simp: pop_admissible_def intro: queue_inv_dict_del split: option.splits if_splits)

subsection \<open>What the pop grants\<close>

lemma pop_admissible_Some:
  assumes inv: "queue_inv q" and pop: "pop_admissible adm now q = (Some w', q')"
  obtains w where "w \<in> set (list_waiters q)" and "w' = w\<lparr>w_granted := True\<rparr>" and "adm w"
    and "q' = q\<lparr>q_waiters := dict_del (waiter_id w) (q_waiters q)\<rparr>"
    and "\<And>v. v \<in> set (list_waiters q) \<Longrightarrow> adm v \<Longrightarrow> queue_key q now w \<le> queue_key q now v"
proof -
  obtain w where found: "find (\<lambda>w. \<not> w_cancelled w \<and> adm w) (sorted_waiters q now) = Some w"
      and w': "w' = w\<lparr>w_granted := True\<rparr>"
      and q': "q' = q\<lparr>q_waiters := dict_del (waiter_id w) (q_waiters q)\<rparr>"
    using pop by (auto simp: pop_admissible_def split: option.splits if_splits)
  note picked = find_sort_key_Some [OF found [unfolded sorted_waiters_def]]
  have uncancelled: "\<not> w_cancelled v" if "v \<in> set (list_waiters q)" for v
    using list_waiters_entry [OF inv that] queue_inv_entry(3) [OF inv] by blast
  show ?thesis
  proof (rule that [OF _ w' _ q'])
    show "w \<in> set (list_waiters q)" and "adm w"
      using picked by (auto simp: list_waiters_def)
    fix v assume "v \<in> set (list_waiters q)" and "adm v"
    with uncancelled picked(3) [of v] show "queue_key q now w \<le> queue_key q now v"
      by (auto simp: list_waiters_def)
  qed
qed

lemma pop_admissible_None:
  assumes inv: "queue_inv q" and pop: "pop_admissible adm now q = (None, q')"
  shows "q' = q" and "\<And>w. w \<in> set (list_waiters q) \<Longrightarrow> \<not> adm w"
proof -
  show "q' = q"
    using pop by (auto simp: pop_admissible_def split: option.splits if_splits)
  have none: "q_waiters q = [] \<or>
      (\<forall>w\<in>set (list_waiters q). \<not> (\<not> w_cancelled w \<and> adm w))"
    using pop by (auto simp: pop_admissible_def sorted_waiters_def find_sort_key_None
        list_waiters_def split: option.splits if_splits)
  fix w assume w: "w \<in> set (list_waiters q)"
  with none list_waiters_entry [OF inv w] queue_inv_entry(3) [OF inv] show "\<not> adm w"
    by (auto simp: list_waiters_def)
qed

lemma same_sequence_same_waiter:
  assumes "queue_inv q" and "v \<in> set (list_waiters q)" and "w \<in> set (list_waiters q)"
    and "w_sequence v = w_sequence w"
  shows "v = w"
proof -
  obtain i j where ij: "i < length (list_waiters q)" "list_waiters q ! i = v"
      "j < length (list_waiters q)" "list_waiters q ! j = w"
    using assms(2,3) by (auto simp: in_set_conv_nth)
  have sorted: "sorted_wrt (\<lambda>v w. w_sequence v < w_sequence w) (list_waiters q)"
    using assms(1) by (simp add: queue_inv_def)
  have "\<not> i < j" and "\<not> j < i"
    using sorted_wrt_nth_less [OF sorted] ij assms(4) by fastforce+
  with ij show ?thesis by auto
qed

lemma list_waiters_after_pop:
  assumes inv: "queue_inv q" and pop: "pop_admissible adm now q = (Some w, q')"
  shows "set (list_waiters q') = {v \<in> set (list_waiters q). waiter_id v \<noteq> waiter_id w}"
proof -
  obtain w\<^sub>0 where "w = w\<^sub>0\<lparr>w_granted := True\<rparr>"
      and "q' = q\<lparr>q_waiters := dict_del (waiter_id w\<^sub>0) (q_waiters q)\<rparr>"
    by (rule pop_admissible_Some [OF assms])
  moreover have "k = waiter_id v" if "(k, v) \<in> set (q_waiters q)" for k v
    using queue_inv_entry(1) [OF inv that] .
  ultimately show ?thesis
    by (force simp: list_waiters_def dict_del_set)
qed

subsection \<open>The queue interface\<close>

text \<open>
  What the resource governor relies on: a new waiter is added, a removal and a grant take exactly
  one waiter away, a grant goes to an admissible waiter, and no waiter is admissible when there is
  none to grant. A predicate on the waiting requests therefore survives every operation.
\<close>

locale grant_queue =
  fixes pop :: "('w \<Rightarrow> bool) \<Rightarrow> 't \<Rightarrow> 'q \<Rightarrow> 'w option \<times> 'q"
    and del :: "'id \<Rightarrow> 'q \<Rightarrow> 'q"
    and items :: "'q \<Rightarrow> 'w list"
    and inv :: "'q \<Rightarrow> bool"
    and mark :: "'w \<Rightarrow> 'w"
  assumes pop_inv: "inv q \<Longrightarrow> inv (snd (pop adm now q))"
    and del_inv: "inv q \<Longrightarrow> inv (del i q)"
    and pop_some: "inv q \<Longrightarrow> pop adm now q = (Some w, q') \<Longrightarrow>
          \<exists>v\<in>set (items q). w = mark v \<and> adm v"
    and pop_shrinks: "inv q \<Longrightarrow> set (items (snd (pop adm now q))) \<subseteq> set (items q)"
    and pop_none: "inv q \<Longrightarrow> pop adm now q = (None, q') \<Longrightarrow>
          q' = q \<and> (\<forall>v\<in>set (items q). \<not> adm v)"
    and del_shrinks: "inv q \<Longrightarrow> set (items (del i q)) \<subseteq> set (items q)"
begin

lemma pop_keeps_all:
  assumes "inv q" and "\<forall>v\<in>set (items q). P v" and "pop adm now q = (r, q')"
  shows "\<forall>v\<in>set (items q'). P v"
  using pop_shrinks [OF assms(1), of adm now] assms(2,3) by auto

lemma del_keeps_all:
  "inv q \<Longrightarrow> \<forall>v\<in>set (items q). P v \<Longrightarrow> \<forall>v\<in>set (items (del i q)). P v"
  using del_shrinks by blast

lemma granted_from_queue:
  assumes "inv q" and "\<forall>v\<in>set (items q). P v" and "pop adm now q = (Some w, q')"
  obtains v where "P v" and "adm v" and "w = mark v" and "v \<in> set (items q)"
  using pop_some [OF assms(1,3)] assms(2) by blast

lemma admissible_is_granted:
  assumes "inv q" and "v \<in> set (items q)" and "adm v"
  shows "\<exists>w q'. pop adm now q = (Some w, q')"
proof (cases "pop adm now q")
  case (Pair r q')
  with pop_none [OF assms(1), of adm now q'] assms(2,3) show ?thesis
    by (cases r) auto
qed

end

interpretation rq: grant_queue pop_admissible "\<lambda>i q. snd (remove i q)" list_waiters queue_inv
  "\<lambda>w. w\<lparr>w_granted := True\<rparr>"
proof unfold_locales
  fix q adm and now :: rat and i
  assume inv: "queue_inv q"
  show "queue_inv (snd (pop_admissible adm now q))"
    using queue_inv_pop [OF inv] by (metis prod.collapse)
  show "queue_inv (snd (remove i q))"
    using queue_inv_remove [OF inv] by (metis prod.collapse)
  show "set (list_waiters (snd (pop_admissible adm now q))) \<subseteq> set (list_waiters q)"
    by (auto simp: pop_admissible_def list_waiters_def dict_del_set split: option.splits)
  show "set (list_waiters (snd (remove i q))) \<subseteq> set (list_waiters q)"
    by (auto simp: remove_def list_waiters_def dict_del_set split: option.splits)
  fix w q'
  {
    assume "pop_admissible adm now q = (Some w, q')"
    then show "\<exists>v\<in>set (list_waiters q). w = v\<lparr>w_granted := True\<rparr> \<and> adm v"
      by (metis pop_admissible_Some [OF inv])
  next
    assume "pop_admissible adm now q = (None, q')"
    with pop_admissible_None [OF inv] show "q' = q \<and> (\<forall>v\<in>set (list_waiters q). \<not> adm v)"
      by blast
  }
qed

subsection \<open>Properties of the queue\<close>

text \<open>An old background request behind a newer routing request.\<close>

definition demo_queue :: resource_queue where
  "demo_queue = snd (enqueue ''b'' 60 ROUTER 10 10 PRIO_ROUTING
     (snd (enqueue ''a'' 0 GENERAL 100 100 BACKGROUND (empty_queue 15))))"

lemma demo_queue_inv: "queue_inv demo_queue"
  unfolding demo_queue_def by code_simp

text \<open>A grant goes to the admissible waiter with the least pair of aged priority and arrival
  number, takes exactly that waiter out of the queue and keeps the queue's invariant.\<close>

theorem pop_grants_best:
  assumes "queue_inv q" and "pop_admissible adm now q = (Some w, q')"
  shows "queue_inv q' \<and>
    (\<exists>v\<in>set (list_waiters q). w = v\<lparr>w_granted := True\<rparr> \<and> adm v \<and>
       set (list_waiters q') = set (list_waiters q) - {v} \<and>
       (\<forall>u\<in>set (list_waiters q). adm u \<longrightarrow>
          (get_effective_priority v now (aging_threshold q), w_sequence v)
            \<le> (get_effective_priority u now (aging_threshold q), w_sequence u)))"
proof -
  obtain v where v: "v \<in> set (list_waiters q)" "w = v\<lparr>w_granted := True\<rparr>" "adm v"
    "\<And>u. u \<in> set (list_waiters q) \<Longrightarrow> adm u \<Longrightarrow> queue_key q now v \<le> queue_key q now u"
    using pop_admissible_Some [OF assms] by metis
  have "u = v" if "u \<in> set (list_waiters q)" "waiter_id u = waiter_id v" for u
  proof -
    have "distinct (dict_keys (q_waiters q))" using assms(1) by (simp add: queue_inv_def)
    with list_waiters_entry [OF assms(1) that(1)] list_waiters_entry [OF assms(1) v(1)] that(2)
    show ?thesis by (metis eq_key_imp_eq_value)
  qed
  then have "set (list_waiters q') = set (list_waiters q) - {v}"
    using list_waiters_after_pop [OF assms] v(2) by auto
  with v queue_inv_pop [OF assms] show ?thesis
    by (intro conjI bexI [of _ v]) (auto simp: queue_key_def)
qed

lemma pop_grants_best_witness:
  "(\<exists>v\<in>set (list_waiters demo_queue). waiter_id v = ''a'')"
proof -
  obtain w q where pop: "pop_admissible (\<lambda>w. w_vram w \<le> 100) 75 demo_queue = (Some w, q)"
      and "waiter_id w = ''a''"
  proof -
    have "map_option waiter_id (fst (pop_admissible (\<lambda>w. w_vram w \<le> 100) 75 demo_queue)) = Some ''a''"
      unfolding demo_queue_def by code_simp
    then show ?thesis
      using that by (cases "pop_admissible (\<lambda>w. w_vram w \<le> 100) 75 demo_queue") auto
  qed
  with pop_grants_best [OF demo_queue_inv pop] show ?thesis by auto
qed

text \<open>No starvation: once a waiter has waited for its priority times the ageing threshold and is
  admissible, the next grant succeeds and goes to it or to an older waiter.\<close>

theorem aged_waiter_is_next:
  assumes inv: "queue_inv q" and mem: "w \<in> set (list_waiters q)" and adm: "adm w"
    and thr: "0 < aging_threshold q"
    and aged: "of_int (priority_value (w_priority w)) * aging_threshold q \<le> now - created_at w"
  shows "\<exists>v q'. pop_admissible adm now q = (Some v, q') \<and> w_sequence v \<le> w_sequence w"
proof -
  obtain v q' where pop: "pop_admissible adm now q = (Some v, q')"
    using rq.admissible_is_granted [where adm = adm, OF inv mem adm] by blast
  obtain u where u: "v = u\<lparr>w_granted := True\<rparr>"
      and least: "\<And>x. x \<in> set (list_waiters q) \<Longrightarrow> adm x \<Longrightarrow> queue_key q now u \<le> queue_key q now x"
    using pop_admissible_Some [OF inv pop] by metis
  have "get_effective_priority w now (aging_threshold q) = 0"
    by (rule effective_priority_aged [OF thr aged])
  moreover have "0 \<le> get_effective_priority u now (aging_threshold q)"
    using effective_priority_bounds by blast
  ultimately have "w_sequence u \<le> w_sequence w"
    using least [OF mem adm] by (auto simp: queue_key_def less_eq_prod_def)
  with pop u show ?thesis by auto
qed

lemma aged_waiter_is_next_witness:
  "\<exists>v q'. pop_admissible (\<lambda>w. True) 75 demo_queue = (Some v, q') \<and> w_sequence v \<le> 0"
proof -
  define w where "w = hd (list_waiters demo_queue)"
  have "w \<in> set (list_waiters demo_queue)" and "0 < aging_threshold demo_queue"
    and "of_int (priority_value (w_priority w)) * aging_threshold demo_queue \<le> 75 - created_at w"
    and "w_sequence w = 0"
    unfolding w_def demo_queue_def by code_simp+
  with aged_waiter_is_next [OF demo_queue_inv, of w "\<lambda>w. True" 75] show ?thesis by auto
qed

end
