(* ===== verification/Resource_Governor.thy ===== *)
theory Resource_Governor
  imports Resource_Queue
begin

text \<open>
  Models \<open>ResourceManager\<close> and \<open>ResourceLease\<close> of \<open>python/tom/resources/manager.py\<close>. A section
  under \<open>_state_lock\<close> has no suspension point (the queue's lock is never contended), so each such
  section is one function; where an acquirer waits for \<open>ready_event\<close>, the sections before and
  after the wait are separate functions and separate steps of \<open>gov_step\<close>. Every call of the
  telemetry provider has its own argument: \<open>Some\<close> snapshot or, when the provider raises,
  \<open>None\<close>. Identifiers made by \<open>uuid4\<close> and the clock are arguments too.
\<close>

subsection \<open>State\<close>

record telemetry =
  vram_free_mb :: rat
  ram_free_mb :: rat
  gpu_available :: bool

record lease =
  lease_id :: uuid
  l_role :: model_role
  l_vram :: int
  l_ram :: int

datatype res_error =
    NegativeRequirement | InvalidPriority | InsufficientResourceError | ResourceLockError
  | NoLeaseAssigned

record governor =
  max_vram :: int
  max_ram :: int
  safety_headroom :: int
  allocated_vram :: int
  allocated_ram :: int
  active_leases :: "(uuid, lease) dict"
  heavy_locked :: bool
  heavy_reserved :: bool
  current_heavy_vram :: int
  resident_vram :: "(model_role, int) dict"
  priority_queue :: resource_queue
  assigned :: "(uuid, lease) dict" \<comment> \<open>\<open>waiter.lease\<close> of granted waiters not yet resumed\<close>

definition init_governor :: "int \<Rightarrow> int \<Rightarrow> int \<Rightarrow> governor" where
  "init_governor vram ram headroom =
     \<lparr>max_vram = vram, max_ram = ram, safety_headroom = headroom, allocated_vram = 0,
      allocated_ram = 0, active_leases = [], heavy_locked = False, heavy_reserved = False,
      current_heavy_vram = 0, resident_vram = [], priority_queue = empty_queue 15, assigned = []\<rparr>"

definition is_heavy :: "model_role \<Rightarrow> bool" where
  "is_heavy r \<longleftrightarrow> r \<in> {REASONING, VLM}"

definition vram_ceiling :: "governor \<Rightarrow> int" where
  "vram_ceiling g = max 0 (max_vram g - safety_headroom g)"

subsection \<open>Resident models and telemetry\<close>

definition register_resident_model :: "model_role \<Rightarrow> int \<Rightarrow> governor \<Rightarrow> governor" where
  "register_resident_model r vram g = g\<lparr>resident_vram := dict_set r vram (resident_vram g)\<rparr>"

definition clear_resident_model :: "model_role \<Rightarrow> governor \<Rightarrow> governor" where
  "clear_resident_model r g =
     (if dict_get (resident_vram g) r \<noteq> None
      then g\<lparr>resident_vram := dict_del r (resident_vram g)\<rparr> else g)"

definition get_resident_vram :: "model_role \<Rightarrow> governor \<Rightarrow> int" where
  "get_resident_vram r g = (case dict_get (resident_vram g) r of None \<Rightarrow> 0 | Some v \<Rightarrow> v)"

definition get_telemetry :: "telemetry option \<Rightarrow> governor \<Rightarrow> telemetry" where
  "get_telemetry provider g =
     (case provider of
        Some t \<Rightarrow> t
      | None \<Rightarrow> \<lparr>vram_free_mb = of_int (max 0 (max_vram g - allocated_vram g)),
                 ram_free_mb = of_int (max 0 (max_ram g - allocated_ram g)),
                 gpu_available = False\<rparr>)"

subsection \<open>Budget checks\<close>

definition check_budget :: "int \<Rightarrow> int \<Rightarrow> telemetry option \<Rightarrow> governor \<Rightarrow> res_error + bool" where
  "check_budget vram ram provider g =
     (if vram < 0 \<or> ram < 0 then Inl NegativeRequirement
      else if allocated_vram g + vram > vram_ceiling g then Inr False
      else if allocated_ram g + ram > max_ram g then Inr False
      else let t = get_telemetry provider g;
               total_resident = sum_list (dict_values (resident_vram g));
               available = vram_free_mb t + of_int total_resident - of_int (safety_headroom g)
           in if gpu_available t \<and> vram > 0 \<and> of_int vram > available then Inr False
              else if ram > 0 \<and> of_int ram > ram_free_mb t then Inr False
              else Inr True)"

text \<open>The heavy branch, which \<open>_check_budget_for_role\<close> and \<open>can_admit\<close> both spell out.\<close>

definition check_heavy_budget ::
  "model_role \<Rightarrow> int \<Rightarrow> int \<Rightarrow> telemetry option \<Rightarrow> governor \<Rightarrow> bool" where
  "check_heavy_budget role vram ram provider g =
     (let effective_allocated = allocated_vram g - current_heavy_vram g
      in if effective_allocated + vram > vram_ceiling g then False
         else if allocated_ram g + ram > max_ram g then False
         else let t = get_telemetry provider g;
                  available = vram_free_mb t + of_int (get_resident_vram role g)
                                - of_int (safety_headroom g)
              in if gpu_available t \<and> vram > 0 \<and> of_int vram > available then False
                 else if ram > 0 \<and> of_int ram > ram_free_mb t then False
                 else True)"

definition check_budget_for_role ::
  "model_role \<Rightarrow> int \<Rightarrow> int \<Rightarrow> telemetry option \<Rightarrow> governor \<Rightarrow> bool" where
  "check_budget_for_role role vram ram provider g =
     (if is_heavy role then check_heavy_budget role vram ram provider g
      else check_budget vram ram provider g = Inr True)"

definition can_admit_immediate ::
  "model_role \<Rightarrow> int \<Rightarrow> int \<Rightarrow> telemetry option \<Rightarrow> governor \<Rightarrow> bool" where
  "can_admit_immediate role vram ram provider g =
     (if \<not> check_budget_for_role role vram ram provider g then False
      else if is_heavy role then \<not> heavy_locked g \<and> \<not> heavy_reserved g
      else True)"

definition can_admit_waiter :: "(waiter \<Rightarrow> telemetry option) \<Rightarrow> governor \<Rightarrow> waiter \<Rightarrow> bool" where
  "can_admit_waiter provider g w =
     (if is_heavy (w_role w)
      then check_heavy_budget (w_role w) (w_vram w) (w_ram w) (provider w) g \<and>
           \<not> heavy_locked g \<and> \<not> heavy_reserved g
      else check_budget (w_vram w) (w_ram w) (provider w) g = Inr True)"

subsection \<open>Granting and releasing\<close>

definition add_lease :: "lease \<Rightarrow> governor \<Rightarrow> governor" where
  "add_lease l g = g\<lparr>allocated_vram := allocated_vram g + l_vram l,
                     allocated_ram := allocated_ram g + l_ram l,
                     active_leases := dict_set (lease_id l) l (active_leases g)\<rparr>"

definition grant_immediate ::
  "uuid \<Rightarrow> model_role \<Rightarrow> int \<Rightarrow> int \<Rightarrow> governor \<Rightarrow> lease \<times> governor" where
  "grant_immediate lid role vram ram g =
     (let l = \<lparr>lease_id = lid, l_role = role, l_vram = vram, l_ram = ram\<rparr>;
          g1 = add_lease l g
      in (l, if is_heavy role then g1\<lparr>current_heavy_vram := vram\<rparr> else g1))"

definition dispatch_next_waiter ::
  "(waiter \<Rightarrow> telemetry option) \<Rightarrow> rat \<Rightarrow> uuid \<Rightarrow> governor \<Rightarrow> governor" where
  "dispatch_next_waiter provider now lid g =
     (case pop_admissible (can_admit_waiter provider g) now (priority_queue g) of
        (None, q) \<Rightarrow> g\<lparr>priority_queue := q\<rparr>
      | (Some w, q) \<Rightarrow>
          (let l = \<lparr>lease_id = lid, l_role = w_role w, l_vram = w_vram w, l_ram = w_ram w\<rparr>;
               g1 = (add_lease l g)\<lparr>priority_queue := q,
                                    assigned := dict_set (waiter_id w) l (assigned g)\<rparr>
           in if is_heavy (w_role w)
              then g1\<lparr>heavy_reserved := True, current_heavy_vram := w_vram w\<rparr> else g1))"

definition drop_lease :: "lease \<Rightarrow> governor \<Rightarrow> governor" where
  "drop_lease l g =
     (let g1 = g\<lparr>active_leases := dict_del (lease_id l) (active_leases g),
                 allocated_vram := max 0 (allocated_vram g - l_vram l),
                 allocated_ram := max 0 (allocated_ram g - l_ram l)\<rparr>
      in if is_heavy (l_role l)
         then g1\<lparr>current_heavy_vram := 0, heavy_reserved := False, heavy_locked := False\<rparr>
         else g1)"

definition release ::
  "lease \<Rightarrow> (waiter \<Rightarrow> telemetry option) \<Rightarrow> rat \<Rightarrow> uuid \<Rightarrow> governor \<Rightarrow> governor" where
  "release l provider now lid g =
     (if dict_get (active_leases g) (lease_id l) = None then g
      else dispatch_next_waiter provider now lid (drop_lease l g))"

text \<open>\<open>ResourceLease.release\<close>: the lease object's own flag makes the second call a no-op.\<close>

definition lease_release ::
  "bool \<Rightarrow> lease \<Rightarrow> (waiter \<Rightarrow> telemetry option) \<Rightarrow> rat \<Rightarrow> uuid \<Rightarrow> governor \<Rightarrow> bool \<times> governor" where
  "lease_release released l provider now lid g =
     (if released then (True, g) else (True, release l provider now lid g))"

subsection \<open>Acquiring\<close>

text \<open>
  \<open>await _heavy_lock.acquire()\<close> takes a free lock at once and suspends on a held one
  (\<open>None\<close>); the reservation is dropped after the lock is held.
\<close>

definition take_heavy_lock :: "governor \<Rightarrow> governor option" where
  "take_heavy_lock g =
     (if heavy_locked g then None else Some (g\<lparr>heavy_locked := True, heavy_reserved := False\<rparr>))"

datatype acquire_outcome =
    Granted lease | Queued waiter | Raised res_error | AwaitsHeavyLock lease

definition hand_over :: "lease \<Rightarrow> governor \<Rightarrow> acquire_outcome \<times> governor" where
  "hand_over l g =
     (if is_heavy (l_role l)
      then case take_heavy_lock g of
             None \<Rightarrow> (AwaitsHeavyLock l, g)
           | Some g' \<Rightarrow> (Granted l, g')
      else (Granted l, g))"

definition acquire_internal ::
  "model_role \<Rightarrow> int \<Rightarrow> int \<Rightarrow> bool \<Rightarrow> int \<Rightarrow> telemetry option \<Rightarrow> telemetry option \<Rightarrow> rat \<Rightarrow>
   uuid \<Rightarrow> uuid \<Rightarrow> governor \<Rightarrow> acquire_outcome \<times> governor" where
  "acquire_internal role vram ram blocking priority tm1 tm2 now wid lid g =
     (if vram < 0 \<or> ram < 0 then (Raised NegativeRequirement, g)
      else if \<not> check_budget_for_role role vram ram tm1 g
        then (Raised InsufficientResourceError, g)
      else if can_admit_immediate role vram ram tm2 g
        then let (l, g1) = grant_immediate lid role vram ram g;
                 g2 = (if is_heavy role then g1\<lparr>heavy_reserved := True\<rparr> else g1)
             in hand_over l g2
      else if \<not> blocking then (Raised ResourceLockError, g)
      else case task_priority_of priority of
             None \<Rightarrow> (Raised InvalidPriority, g)
           | Some p \<Rightarrow> (let (w, q) = enqueue wid now role vram ram p (priority_queue g)
                        in (Queued w, g\<lparr>priority_queue := q\<rparr>)))"

text \<open>The acquirer after \<open>ready_event\<close> is set, and after a timeout or a cancellation.\<close>

definition resume_waiter :: "uuid \<Rightarrow> governor \<Rightarrow> acquire_outcome \<times> governor" where
  "resume_waiter wid g =
     (case dict_get (assigned g) wid of
        None \<Rightarrow> (Raised NoLeaseAssigned, g)
      | Some l \<Rightarrow> hand_over l (g\<lparr>assigned := dict_del wid (assigned g)\<rparr>))"

definition abandon_waiter ::
  "uuid \<Rightarrow> (waiter \<Rightarrow> telemetry option) \<Rightarrow> rat \<Rightarrow> uuid \<Rightarrow> governor \<Rightarrow> governor" where
  "abandon_waiter wid provider now lid g =
     (case dict_get (assigned g) wid of
        Some l \<Rightarrow> release l provider now lid (g\<lparr>assigned := dict_del wid (assigned g)\<rparr>)
      | None \<Rightarrow> g\<lparr>priority_queue := snd (remove wid (priority_queue g))\<rparr>)"

subsection \<open>Steps and reachable states\<close>

text \<open>
  One rule per section: an acquire request, the release of a lease its holder has received, a
  granted waiter that resumes, a waiter that times out or is cancelled, and the two operations on
  resident models. Fresh identifiers are what \<open>uuid4\<close> documents.
\<close>

definition assigned_ids :: "governor \<Rightarrow> uuid list" where
  "assigned_ids g = map lease_id (dict_values (assigned g))"

inductive gov_step :: "governor \<Rightarrow> governor \<Rightarrow> bool" where
  acquire: "acquire_internal role vram ram blocking prio tm1 tm2 now wid lid g = (res, g') \<Longrightarrow>
     lid \<notin> set (dict_keys (active_leases g)) \<Longrightarrow>
     wid \<notin> set (dict_keys (q_waiters (priority_queue g))) \<Longrightarrow>
     wid \<notin> set (dict_keys (assigned g)) \<Longrightarrow> gov_step g g'"
| give_back: "dict_get (active_leases g) (lease_id l) = Some l \<Longrightarrow>
     lease_id l \<notin> set (assigned_ids g) \<Longrightarrow>
     lid \<notin> set (dict_keys (active_leases g)) \<Longrightarrow>
     gov_step g (release l provider now lid g)"
| resume: "resume_waiter wid g = (res, g') \<Longrightarrow> gov_step g g'"
| abandon: "lid \<notin> set (dict_keys (active_leases g)) \<Longrightarrow>
     gov_step g (abandon_waiter wid provider now lid g)"
| resident: "gov_step g (register_resident_model r v g)"
| non_resident: "gov_step g (clear_resident_model r g)"

inductive gov_reachable :: "governor \<Rightarrow> bool" where
  start: "0 \<le> ram \<Longrightarrow> gov_reachable (init_governor vram ram headroom)"
| step: "gov_reachable g \<Longrightarrow> gov_step g g' \<Longrightarrow> gov_reachable g'"

inductive_cases gov_stepE: "gov_step g g'"

subsection \<open>The invariant\<close>

definition heavy_leases :: "governor \<Rightarrow> lease list" where
  "heavy_leases g = filter (\<lambda>l. is_heavy (l_role l)) (dict_values (active_leases g))"

definition accounts_ok :: "governor \<Rightarrow> bool" where
  "accounts_ok g \<longleftrightarrow>
     distinct (dict_keys (active_leases g)) \<and>
     (\<forall>(k, l)\<in>set (active_leases g). k = lease_id l \<and> 0 \<le> l_vram l \<and> 0 \<le> l_ram l) \<and>
     allocated_vram g = sum_list (map l_vram (dict_values (active_leases g))) \<and>
     allocated_ram g = sum_list (map l_ram (dict_values (active_leases g)))"

definition requests_ok :: "governor \<Rightarrow> bool" where
  "requests_ok g \<longleftrightarrow>
     queue_inv (priority_queue g) \<and>
     (\<forall>w\<in>set (list_waiters (priority_queue g)). 0 \<le> w_vram w \<and> 0 \<le> w_ram w) \<and>
     set (dict_keys (assigned g)) \<inter> set (dict_keys (q_waiters (priority_queue g))) = {}"

definition assigned_ok :: "governor \<Rightarrow> bool" where
  "assigned_ok g \<longleftrightarrow>
     distinct (dict_keys (assigned g)) \<and> distinct (assigned_ids g) \<and>
     (\<forall>l\<in>set (dict_values (assigned g)). dict_get (active_leases g) (lease_id l) = Some l)"

definition heavy_ok :: "governor \<Rightarrow> bool" where
  "heavy_ok g \<longleftrightarrow>
     (case heavy_leases g of
        [] \<Rightarrow> \<not> heavy_locked g \<and> \<not> heavy_reserved g \<and> current_heavy_vram g = 0
      | [h] \<Rightarrow> current_heavy_vram g = l_vram h \<and> heavy_locked g \<noteq> heavy_reserved g \<and>
               (heavy_reserved g \<longleftrightarrow> lease_id h \<in> set (assigned_ids g))
      | _ \<Rightarrow> False)"

definition within_budget :: "governor \<Rightarrow> bool" where
  "within_budget g \<longleftrightarrow> allocated_vram g \<le> vram_ceiling g \<and> allocated_ram g \<le> max_ram g"

definition gov_inv :: "governor \<Rightarrow> bool" where
  "gov_inv g \<longleftrightarrow> accounts_ok g \<and> requests_ok g \<and> assigned_ok g \<and> heavy_ok g \<and> within_budget g"

lemmas gov_inv_parts = gov_inv_def accounts_ok_def requests_ok_def assigned_ok_def

lemma gov_invI:
  "accounts_ok g \<Longrightarrow> requests_ok g \<Longrightarrow> assigned_ok g \<Longrightarrow> heavy_ok g \<Longrightarrow> within_budget g \<Longrightarrow>
   gov_inv g"
  by (simp add: gov_inv_def)

lemma gov_invD:
  assumes "gov_inv g"
  shows "accounts_ok g" and "requests_ok g" and "assigned_ok g" and "heavy_ok g"
    and "within_budget g"
  using assms by (simp_all add: gov_inv_def)

lemma gov_inv_init: "0 \<le> ram \<Longrightarrow> gov_inv (init_governor vram ram headroom)"
  by (simp add: gov_inv_def accounts_ok_def requests_ok_def assigned_ok_def assigned_ids_def
      heavy_ok_def heavy_leases_def within_budget_def vram_ceiling_def init_governor_def)
    (simp add: empty_queue_def list_waiters_def)

subsection \<open>Adding and dropping a lease\<close>

lemma add_lease_fields [simp]:
  "active_leases (add_lease l g) = dict_set (lease_id l) l (active_leases g)"
  "allocated_vram (add_lease l g) = allocated_vram g + l_vram l"
  "allocated_ram (add_lease l g) = allocated_ram g + l_ram l"
  "priority_queue (add_lease l g) = priority_queue g"
  "assigned (add_lease l g) = assigned g"
  "heavy_locked (add_lease l g) = heavy_locked g"
  "heavy_reserved (add_lease l g) = heavy_reserved g"
  "current_heavy_vram (add_lease l g) = current_heavy_vram g"
  "max_vram (add_lease l g) = max_vram g"
  "max_ram (add_lease l g) = max_ram g"
  "safety_headroom (add_lease l g) = safety_headroom g"
  by (simp_all add: add_lease_def)

lemma drop_lease_fields [simp]:
  "active_leases (drop_lease l g) = dict_del (lease_id l) (active_leases g)"
  "allocated_vram (drop_lease l g) = max 0 (allocated_vram g - l_vram l)"
  "allocated_ram (drop_lease l g) = max 0 (allocated_ram g - l_ram l)"
  "priority_queue (drop_lease l g) = priority_queue g"
  "assigned (drop_lease l g) = assigned g"
  "max_vram (drop_lease l g) = max_vram g"
  "max_ram (drop_lease l g) = max_ram g"
  "safety_headroom (drop_lease l g) = safety_headroom g"
  "heavy_locked (drop_lease l g) = (heavy_locked g \<and> \<not> is_heavy (l_role l))"
  "heavy_reserved (drop_lease l g) = (heavy_reserved g \<and> \<not> is_heavy (l_role l))"
  "current_heavy_vram (drop_lease l g) = (if is_heavy (l_role l) then 0 else current_heavy_vram g)"
  by (simp_all add: drop_lease_def Let_def)

lemma accounts_ok_cong:
  assumes "active_leases g' = active_leases g" and "allocated_vram g' = allocated_vram g"
    and "allocated_ram g' = allocated_ram g"
  shows "accounts_ok g' = accounts_ok g"
  using assms by (simp add: accounts_ok_def)

lemma accounts_ok_add:
  assumes "accounts_ok g" and "lease_id l \<notin> set (dict_keys (active_leases g))"
    and "0 \<le> l_vram l" and "0 \<le> l_ram l"
  shows "accounts_ok (add_lease l g)"
  using assms by (auto simp: accounts_ok_def dict_set_fresh)

lemma accounts_ok_drop:
  assumes ok: "accounts_ok g" and l: "dict_get (active_leases g) (lease_id l) = Some l"
  shows "accounts_ok (drop_lease l g)"
proof -
  let ?d = "active_leases g"
  have d: "distinct (dict_keys ?d)" and nonneg: "\<forall>(k, x)\<in>set ?d. 0 \<le> l_vram x \<and> 0 \<le> l_ram x"
    using ok by (auto simp: accounts_ok_def)
  have left: "0 \<le> sum_list (map l_vram (dict_values (dict_del (lease_id l) ?d)))"
    "0 \<le> sum_list (map l_ram (dict_values (dict_del (lease_id l) ?d)))"
    using nonneg by (fastforce intro!: sum_list_nonneg simp: dict_del_set)+
  have "allocated_vram (drop_lease l g) = sum_list (map l_vram (dict_values (dict_del (lease_id l) ?d)))"
    using ok left(1) sum_list_del [OF d l, of l_vram] by (simp add: accounts_ok_def)
  moreover have "allocated_ram (drop_lease l g) = sum_list (map l_ram (dict_values (dict_del (lease_id l) ?d)))"
    using ok left(2) sum_list_del [OF d l, of l_ram] by (simp add: accounts_ok_def)
  ultimately show ?thesis
    using ok d unfolding accounts_ok_def by (simp add: dict_del_set)
qed

lemma heavy_leases_add:
  "lease_id l \<notin> set (dict_keys (active_leases g)) \<Longrightarrow>
   heavy_leases (add_lease l g) = heavy_leases g @ (if is_heavy (l_role l) then [l] else [])"
  by (simp add: heavy_leases_def dict_set_fresh)

lemma heavy_leases_drop:
  assumes "accounts_ok g"
  shows "heavy_leases (drop_lease l g) = filter (\<lambda>h. lease_id h \<noteq> lease_id l) (heavy_leases g)"
proof -
  have "\<forall>(k, x)\<in>set (active_leases g). k = lease_id x"
    using assms by (auto simp: accounts_ok_def)
  then show ?thesis
    by (auto simp: heavy_leases_def AList.delete_eq filter_map comp_def split_beta
        intro!: arg_cong [where f = "map snd"] filter_cong)
qed

lemma heavy_lease_active:
  assumes "accounts_ok g"
  shows "h \<in> set (heavy_leases g) \<longleftrightarrow>
         is_heavy (l_role h) \<and> dict_get (active_leases g) (lease_id h) = Some h"
proof -
  have "distinct (dict_keys (active_leases g))"
      and "\<forall>(k, x)\<in>set (active_leases g). k = lease_id x"
    using assms by (auto simp: accounts_ok_def)
  then show ?thesis
    by (force simp: heavy_leases_def dict_get_in)
qed

subsection \<open>The sections keep the invariant\<close>

lemma budget_admits_within:
  assumes "gov_inv g" and "check_budget vram ram tm g = Inr True"
  shows "0 \<le> vram" and "0 \<le> ram" and "allocated_vram g + vram \<le> vram_ceiling g"
    and "allocated_ram g + ram \<le> max_ram g"
  using assms(2) by (auto simp: check_budget_def Let_def split: if_splits)

lemma heavy_admits_within:
  assumes "check_heavy_budget role vram ram tm g" and "current_heavy_vram g = 0"
  shows "allocated_vram g + vram \<le> vram_ceiling g" and "allocated_ram g + ram \<le> max_ram g"
  using assms by (auto simp: check_heavy_budget_def Let_def split: if_splits)

lemma no_heavy_when_free:
  assumes "heavy_ok g" and "\<not> heavy_locked g" and "\<not> heavy_reserved g"
  shows "heavy_leases g = []" and "current_heavy_vram g = 0"
  using assms by (auto simp: heavy_ok_def split: list.splits)

text \<open>
  The common part of both grants: a lease within the budget is added, a heavy one with the
  reservation and while no other heavy lease exists.
\<close>

definition grant_state :: "lease \<Rightarrow> governor \<Rightarrow> governor" where
  "grant_state l g = (if is_heavy (l_role l)
     then (add_lease l g)\<lparr>heavy_reserved := True, current_heavy_vram := l_vram l\<rparr>
     else add_lease l g)"

lemma grant_state_fields [simp]:
  "active_leases (grant_state l g) = dict_set (lease_id l) l (active_leases g)"
  "allocated_vram (grant_state l g) = allocated_vram g + l_vram l"
  "allocated_ram (grant_state l g) = allocated_ram g + l_ram l"
  "priority_queue (grant_state l g) = priority_queue g"
  "assigned (grant_state l g) = assigned g"
  "heavy_locked (grant_state l g) = heavy_locked g"
  "heavy_reserved (grant_state l g) = (is_heavy (l_role l) \<or> heavy_reserved g)"
  "current_heavy_vram (grant_state l g) =
     (if is_heavy (l_role l) then l_vram l else current_heavy_vram g)"
  "max_vram (grant_state l g) = max_vram g"
  "max_ram (grant_state l g) = max_ram g"
  "safety_headroom (grant_state l g) = safety_headroom g"
  "vram_ceiling (grant_state l g) = vram_ceiling g"
  by (simp_all add: grant_state_def vram_ceiling_def)

lemma heavy_leases_grant:
  "lease_id l \<notin> set (dict_keys (active_leases g)) \<Longrightarrow>
   heavy_leases (grant_state l g) = heavy_leases g @ (if is_heavy (l_role l) then [l] else [])"
  using heavy_leases_add [of l g] by (simp add: heavy_leases_def)

lemma accounts_ok_grant:
  assumes "accounts_ok g" and "lease_id l \<notin> set (dict_keys (active_leases g))"
    and "0 \<le> l_vram l" and "0 \<le> l_ram l"
  shows "accounts_ok (grant_state l g)"
  using accounts_ok_add [OF assms] accounts_ok_cong [of "grant_state l g" "add_lease l g"] by simp

lemma assigned_id_active:
  assumes "assigned_ok g" and "i \<in> set (assigned_ids g)"
  shows "i \<in> set (dict_keys (active_leases g))"
proof -
  obtain l where "l \<in> set (dict_values (assigned g))" and "i = lease_id l"
    using assms(2) by (auto simp: assigned_ids_def)
  with assms(1) have "dict_get (active_leases g) i = Some l"
    by (auto simp: assigned_ok_def)
  from dict_get_SomeD [OF this] show ?thesis by force
qed

lemma dispatch_grants:
  assumes inv: "gov_inv g" and pop: "pop_admissible (can_admit_waiter tm g) now (priority_queue g) = (Some w, q)"
  shows "0 \<le> w_vram w" and "0 \<le> w_ram w"
    and "allocated_vram g + w_vram w \<le> vram_ceiling g" and "allocated_ram g + w_ram w \<le> max_ram g"
    and "is_heavy (w_role w) \<Longrightarrow> \<not> heavy_locked g \<and> \<not> heavy_reserved g"
    and "waiter_id w \<in> set (dict_keys (q_waiters (priority_queue g)))"
    and "waiter_id w \<notin> set (dict_keys (q_waiters q))"
proof -
  have qi: "queue_inv (priority_queue g)"
    and all: "\<forall>w\<in>set (list_waiters (priority_queue g)). 0 \<le> w_vram w \<and> 0 \<le> w_ram w"
    using inv by (auto simp: gov_inv_parts)
  obtain v where v: "0 \<le> w_vram v" "0 \<le> w_ram v" "can_admit_waiter tm g v"
      "w = v\<lparr>w_granted := True\<rparr>" "v \<in> set (list_waiters (priority_queue g))"
    using rq.granted_from_queue [OF qi all pop] by metis
  show "0 \<le> w_vram w" and "0 \<le> w_ram w" using v by simp_all
  show "is_heavy (w_role w) \<Longrightarrow> \<not> heavy_locked g \<and> \<not> heavy_reserved g"
    using v by (simp add: can_admit_waiter_def)
  show "allocated_vram g + w_vram w \<le> vram_ceiling g" and "allocated_ram g + w_ram w \<le> max_ram g"
    using v budget_admits_within [OF inv] heavy_admits_within no_heavy_when_free [OF gov_invD(4) [OF inv]]
    by (auto simp: can_admit_waiter_def split: if_splits)
  show "waiter_id w \<in> set (dict_keys (q_waiters (priority_queue g)))"
    using v list_waiters_entry [OF qi v(5)] by force
  show "waiter_id w \<notin> set (dict_keys (q_waiters q))"
    using pop_admissible_Some [OF qi pop] by (metis DiffE dict_keys_del insertI1
        resource_queue.select_convs(2) resource_queue.surjective resource_queue.update_convs(2)
        waiter.select_convs(1) waiter.surjective waiter.update_convs(8))
qed

lemma dispatch_eq:
  "dispatch_next_waiter tm now lid g =
     (case pop_admissible (can_admit_waiter tm g) now (priority_queue g) of
        (None, q) \<Rightarrow> g\<lparr>priority_queue := q\<rparr>
      | (Some w, q) \<Rightarrow>
          (let l = \<lparr>lease_id = lid, l_role = w_role w, l_vram = w_vram w, l_ram = w_ram w\<rparr>
           in (grant_state l g)\<lparr>priority_queue := q,
                                assigned := dict_set (waiter_id w) l (assigned g)\<rparr>))"
proof (cases "pop_admissible (can_admit_waiter tm g) now (priority_queue g)")
  case (Pair r q)
  then show ?thesis
    by (cases r) (simp_all add: dispatch_next_waiter_def grant_state_def add_lease_def Let_def)
qed

text \<open>Which heavy lease exists, and what the two flags say about it.\<close>

lemma heavy_leases_update [simp]:
  "heavy_leases (g\<lparr>assigned := a\<rparr>) = heavy_leases g"
  "heavy_leases (g\<lparr>priority_queue := q\<rparr>) = heavy_leases g"
  "heavy_leases (g\<lparr>heavy_locked := b\<rparr>) = heavy_leases g"
  "heavy_leases (g\<lparr>heavy_reserved := b\<rparr>) = heavy_leases g"
  "heavy_leases (g\<lparr>resident_vram := d\<rparr>) = heavy_leases g"
  by (simp_all add: heavy_leases_def)

lemma vram_ceiling_update [simp]:
  "vram_ceiling (g\<lparr>assigned := a\<rparr>) = vram_ceiling g"
  "vram_ceiling (g\<lparr>priority_queue := q\<rparr>) = vram_ceiling g"
  "vram_ceiling (g\<lparr>heavy_locked := b\<rparr>) = vram_ceiling g"
  "vram_ceiling (g\<lparr>heavy_reserved := b\<rparr>) = vram_ceiling g"
  "vram_ceiling (g\<lparr>resident_vram := d\<rparr>) = vram_ceiling g"
  "vram_ceiling (drop_lease l g) = vram_ceiling g"
  by (simp_all add: vram_ceiling_def)

lemma heavy_lease_unique:
  assumes "gov_inv g" and "dict_get (active_leases g) (lease_id l) = Some l" and "is_heavy (l_role l)"
  shows "heavy_leases g = [l]"
proof -
  have "l \<in> set (heavy_leases g)"
    using assms heavy_lease_active gov_invD(1) by blast
  moreover have "length (heavy_leases g) \<le> 1"
    using gov_invD(4) [OF assms(1)] by (auto simp: heavy_ok_def split: list.splits)
  ultimately show ?thesis
    by (cases "heavy_leases g") auto
qed

lemma light_lease_no_heavy_id:
  assumes "gov_inv g" and "dict_get (active_leases g) (lease_id l) = Some l"
    and "\<not> is_heavy (l_role l)" and "h \<in> set (heavy_leases g)"
  shows "lease_id h \<noteq> lease_id l"
  using assms heavy_lease_active [OF gov_invD(1) [OF assms(1)], of h] by auto

lemma heavy_ok_cong:
  assumes "heavy_leases g' = heavy_leases g" and "heavy_locked g' = heavy_locked g"
    and "heavy_reserved g' = heavy_reserved g" and "current_heavy_vram g' = current_heavy_vram g"
    and "\<And>h. h \<in> set (heavy_leases g) \<Longrightarrow>
           lease_id h \<in> set (assigned_ids g') \<longleftrightarrow> lease_id h \<in> set (assigned_ids g)"
  shows "heavy_ok g' = heavy_ok g"
  using assms by (auto simp: heavy_ok_def split: list.splits)

lemma gov_inv_queue_update:
  assumes "gov_inv g" and "requests_ok (g\<lparr>priority_queue := q\<rparr>)"
  shows "gov_inv (g\<lparr>priority_queue := q\<rparr>)"
proof -
  have "heavy_ok (g\<lparr>priority_queue := q\<rparr>) = heavy_ok g"
    by (intro heavy_ok_cong) (simp_all add: assigned_ids_def)
  moreover have "accounts_ok (g\<lparr>priority_queue := q\<rparr>) = accounts_ok g"
    by (rule accounts_ok_cong) simp_all
  moreover have "assigned_ok (g\<lparr>priority_queue := q\<rparr>) = assigned_ok g"
    by (simp add: assigned_ok_def assigned_ids_def)
  ultimately show ?thesis
    using assms by (simp add: gov_inv_def within_budget_def)
qed

lemma gov_inv_grant_common:
  assumes inv: "gov_inv g" and fresh: "lease_id l \<notin> set (dict_keys (active_leases g))"
    and nonneg: "0 \<le> l_vram l" "0 \<le> l_ram l"
    and room: "allocated_vram g + l_vram l \<le> vram_ceiling g" "allocated_ram g + l_ram l \<le> max_ram g"
    and free: "is_heavy (l_role l) \<Longrightarrow> \<not> heavy_locked g \<and> \<not> heavy_reserved g"
  shows "accounts_ok (grant_state l g)" and "within_budget (grant_state l g)"
    and "\<And>x. x \<in> set (dict_values (assigned g)) \<Longrightarrow>
           dict_get (active_leases (grant_state l g)) (lease_id x) = Some x"
    and "heavy_leases (grant_state l g) = (if is_heavy (l_role l) then [l] else heavy_leases g)"
    and "lease_id l \<notin> set (assigned_ids g)"
proof -
  show "accounts_ok (grant_state l g)"
    by (rule accounts_ok_grant [OF gov_invD(1) [OF inv] fresh nonneg])
  show "within_budget (grant_state l g)"
    using room by (simp add: within_budget_def)
  show new: "lease_id l \<notin> set (assigned_ids g)"
    using assigned_id_active [OF gov_invD(3) [OF inv]] fresh by blast
  show "dict_get (active_leases (grant_state l g)) (lease_id x) = Some x"
    if "x \<in> set (dict_values (assigned g))" for x
  proof -
    have "lease_id x \<noteq> lease_id l" using new that by (force simp: assigned_ids_def)
    then show ?thesis using gov_invD(3) [OF inv] that by (auto simp: assigned_ok_def)
  qed
  show "heavy_leases (grant_state l g) = (if is_heavy (l_role l) then [l] else heavy_leases g)"
    using heavy_leases_grant [OF fresh] no_heavy_when_free [OF gov_invD(4) [OF inv]] free by auto
qed

text \<open>An immediate grant that took the lock at once, and the grant to a queued waiter.\<close>

lemma gov_inv_grant_now:
  assumes inv: "gov_inv g" and fresh: "lease_id l \<notin> set (dict_keys (active_leases g))"
    and nonneg: "0 \<le> l_vram l" "0 \<le> l_ram l"
    and room: "allocated_vram g + l_vram l \<le> vram_ceiling g" "allocated_ram g + l_ram l \<le> max_ram g"
    and free: "is_heavy (l_role l) \<Longrightarrow> \<not> heavy_locked g \<and> \<not> heavy_reserved g"
    and g': "g' = (if is_heavy (l_role l)
                   then (grant_state l g)\<lparr>heavy_locked := True, heavy_reserved := False\<rparr>
                   else grant_state l g)"
  shows "gov_inv g'"
proof (rule gov_invI)
  note common = gov_inv_grant_common [OF inv fresh nonneg room free]
  show "accounts_ok g'"
    using common(1) accounts_ok_cong [of g' "grant_state l g"] by (simp add: g')
  show "requests_ok g'"
    using gov_invD(2) [OF inv] by (simp add: requests_ok_def g')
  show "assigned_ok g'"
    using gov_invD(3) [OF inv] common(3) by (auto simp: assigned_ok_def assigned_ids_def g')
  show "within_budget g'"
    using common(2) by (simp add: within_budget_def g')
  show "heavy_ok g'"
  proof (cases "is_heavy (l_role l)")
    case True
    then show ?thesis
      using common(4,5) by (simp add: heavy_ok_def assigned_ids_def g')
  next
    case False
    then have "heavy_ok g' = heavy_ok g"
      using common(4) by (intro heavy_ok_cong) (auto simp: g' assigned_ids_def)
    then show ?thesis using gov_invD(4) [OF inv] by simp
  qed
qed

lemma gov_inv_dispatch [keeps_inv]:
  assumes inv: "gov_inv g" and fresh: "lid \<notin> set (dict_keys (active_leases g))"
  shows "gov_inv (dispatch_next_waiter tm now lid g)"
proof (cases "pop_admissible (can_admit_waiter tm g) now (priority_queue g)")
  case (Pair r q)
  have qi: "queue_inv (priority_queue g)" and all: "\<forall>w\<in>set (list_waiters (priority_queue g)). 0 \<le> w_vram w \<and> 0 \<le> w_ram w"
    using inv by (auto simp: gov_inv_parts)
  show ?thesis
  proof (cases r)
    case None
    have "q = priority_queue g" using pop_admissible_None(1) [OF qi] Pair None by blast
    with None Pair inv show ?thesis by (simp add: dispatch_next_waiter_def)
  next
    case (Some w)
    note pop = Pair [unfolded Some]
    note w = dispatch_grants [OF inv pop]
    define l where "l = \<lparr>lease_id = lid, l_role = w_role w, l_vram = w_vram w, l_ram = w_ram w\<rparr>"
    have l [simp]: "lease_id l = lid" "l_role l = w_role w" "l_vram l = w_vram w" "l_ram l = w_ram w"
      by (simp_all add: l_def)
    define g' where "g' = (grant_state l g)\<lparr>priority_queue := q,
        assigned := dict_set (waiter_id w) l (assigned g)\<rparr>"
    have eq: "dispatch_next_waiter tm now lid g = g'"
      using pop by (simp add: dispatch_eq g'_def l_def Let_def)
    have common: "accounts_ok (grant_state l g)" "within_budget (grant_state l g)"
      "\<And>x. x \<in> set (dict_values (assigned g)) \<Longrightarrow>
           dict_get (active_leases (grant_state l g)) (lease_id x) = Some x"
      "heavy_leases (grant_state l g) = (if is_heavy (w_role w) then [l] else heavy_leases g)"
      "lid \<notin> set (assigned_ids g)"
      using gov_inv_grant_common [OF inv, of l] fresh w by simp_all
    have new: "waiter_id w \<notin> set (dict_keys (assigned g))"
      using w(6) gov_invD(2) [OF inv] by (auto simp: requests_ok_def)
    have keys: "set (dict_keys (q_waiters q)) \<subseteq> set (dict_keys (q_waiters (priority_queue g)))"
      using pop by (auto simp: pop_admissible_def dict_del_set split: option.splits if_splits)
    have "gov_inv g'"
    proof (rule gov_invI)
      show "accounts_ok g'"
        using common(1) accounts_ok_cong [of g' "grant_state l g"] by (simp add: g'_def)
      show "requests_ok g'"
        using rq.pop_keeps_all [OF qi all pop] queue_inv_pop [OF qi pop] keys w(7)
          gov_invD(2) [OF inv] by (simp add: requests_ok_def g'_def) blast
      show "assigned_ok g'"
        using gov_invD(3) [OF inv] common(3,5) new
        by (auto simp: assigned_ok_def assigned_ids_def g'_def dict_set_fresh)
      show "within_budget g'"
        using common(2) by (simp add: within_budget_def g'_def)
      show "heavy_ok g'"
      proof (cases "is_heavy (w_role w)")
        case True
        with w(5) show ?thesis
          using common(4) new by (simp add: heavy_ok_def assigned_ids_def g'_def dict_set_fresh)
      next
        case False
        have "lease_id h \<noteq> lid" if "h \<in> set (heavy_leases g)" for h
          using fresh heavy_lease_active [OF gov_invD(1) [OF inv], of h] that
          by (force dest: dict_get_SomeD)
        with False have "heavy_ok g' = heavy_ok g"
          using common(4) new by (intro heavy_ok_cong) (auto simp: g'_def assigned_ids_def dict_set_fresh)
        then show ?thesis using gov_invD(4) [OF inv] by simp
      qed
    qed
    then show ?thesis by (simp add: eq)
  qed
qed

text \<open>
  Giving a lease back: whoever was promised it (\<open>assigned\<close>) forgets it with it.
\<close>

lemma gov_inv_drop:
  assumes inv: "gov_inv g" and act: "dict_get (active_leases g) (lease_id l) = Some l"
    and A: "A = filter (\<lambda>p. lease_id (snd p) \<noteq> lease_id l) (assigned g)"
  shows "gov_inv (drop_lease l (g\<lparr>assigned := A\<rparr>))"
    (is "gov_inv ?g")
proof (rule gov_invI)
  have acc: "accounts_ok (g\<lparr>assigned := A\<rparr>)"
    using gov_invD(1) [OF inv] by (simp add: accounts_ok_def)
  have sub: "set A \<subseteq> set (assigned g)" by (auto simp: A)
  have id: "lease_id h \<in> set (assigned_ids ?g) \<longleftrightarrow> lease_id h \<in> set (assigned_ids g)"
    if "lease_id h \<noteq> lease_id l" for h
    using that by (force simp: assigned_ids_def A)
  show ok: "accounts_ok ?g"
    by (rule accounts_ok_drop [OF acc]) (simp add: act)
  show "requests_ok ?g"
    using gov_invD(2) [OF inv] sub by (force simp: requests_ok_def)
  show "assigned_ok ?g"
    using gov_invD(3) [OF inv] by (auto simp: assigned_ok_def assigned_ids_def A distinct_map_filter
        filter_map comp_def)
  have l0: "0 \<le> l_vram l" "0 \<le> l_ram l" "0 \<le> allocated_vram g" "0 \<le> allocated_ram g"
    using gov_invD(1) [OF inv] dict_get_SomeD [OF act]
    by (fastforce simp: accounts_ok_def intro!: sum_list_nonneg)+
  have "0 \<le> vram_ceiling g" "0 \<le> max_ram g"
    using gov_invD(5) [OF inv] l0 by (simp_all add: within_budget_def)
  then show "within_budget ?g"
    using gov_invD(5) [OF inv] l0 by (simp add: within_budget_def)
  have hl: "heavy_leases ?g = filter (\<lambda>h. lease_id h \<noteq> lease_id l) (heavy_leases g)"
    using heavy_leases_drop [OF acc] by simp
  show "heavy_ok ?g"
  proof (cases "is_heavy (l_role l)")
    case True
    then show ?thesis
      using hl heavy_lease_unique [OF inv act] by (simp add: heavy_ok_def)
  next
    case False
    have ne: "lease_id h \<noteq> lease_id l" if "h \<in> set (heavy_leases g)" for h
      by (rule light_lease_no_heavy_id [OF inv act False that])
    have "heavy_ok ?g = heavy_ok g"
      using False hl ne by (intro heavy_ok_cong) (auto simp: id filter_id_conv)
    then show ?thesis using gov_invD(4) [OF inv] by simp
  qed
qed

lemma assigned_lease:
  assumes "gov_inv g" and "dict_get (assigned g) wid = Some l"
  shows "dict_get (active_leases g) (lease_id l) = Some l" and "lease_id l \<in> set (assigned_ids g)"
    and "dict_del wid (assigned g) = filter (\<lambda>p. lease_id (snd p) \<noteq> lease_id l) (assigned g)"
proof -
  have mem: "(wid, l) \<in> set (assigned g)" by (rule dict_get_SomeD [OF assms(2)])
  have ok: "assigned_ok g" by (rule gov_invD(3) [OF assms(1)])
  show "dict_get (active_leases g) (lease_id l) = Some l"
    using ok mem by (force simp: assigned_ok_def)
  show "lease_id l \<in> set (assigned_ids g)"
    using mem by (force simp: assigned_ids_def)
  have "fst p = wid \<longleftrightarrow> lease_id (snd p) = lease_id l" if "p \<in> set (assigned g)" for p
  proof
    show "lease_id (snd p) = lease_id l" if "fst p = wid"
      using ok mem \<open>p \<in> set (assigned g)\<close> that
      by (metis assigned_ok_def eq_key_imp_eq_value prod.collapse)
    show "fst p = wid" if same: "lease_id (snd p) = lease_id l"
    proof -
      have "inj_on (\<lambda>p. lease_id (snd p)) (set (assigned g))"
        using ok by (simp add: assigned_ok_def assigned_ids_def distinct_map comp_def)
      from inj_onD [OF this _ \<open>p \<in> set (assigned g)\<close> mem] same show ?thesis by simp
    qed
  qed
  then have "filter (\<lambda>p. fst p \<noteq> wid) (assigned g) =
      filter (\<lambda>p. lease_id (snd p) \<noteq> lease_id l) (assigned g)"
    by (intro filter_cong [OF refl]) blast
  then show "dict_del wid (assigned g) = filter (\<lambda>p. lease_id (snd p) \<noteq> lease_id l) (assigned g)"
    by (simp add: AList.delete_eq case_prod_unfold eq_commute)
qed

lemma fresh_after_drop:
  "lid \<notin> set (dict_keys (active_leases g)) \<Longrightarrow>
   lid \<notin> set (dict_keys (active_leases (drop_lease l (g\<lparr>assigned := A\<rparr>))))"
  by simp

lemma gov_inv_release [keeps_inv]:
  assumes inv: "gov_inv g" and act: "dict_get (active_leases g) (lease_id l) = Some l"
    and free: "lease_id l \<notin> set (assigned_ids g)"
    and fresh: "lid \<notin> set (dict_keys (active_leases g))"
  shows "gov_inv (release l tm now lid g)"
proof -
  have "filter (\<lambda>p. lease_id (snd p) \<noteq> lease_id l) (assigned g) = assigned g"
    using free by (force simp: assigned_ids_def filter_id_conv)
  then have "gov_inv (drop_lease l g)"
    using gov_inv_drop [OF inv act refl] by simp
  from gov_inv_dispatch [OF this] fresh show ?thesis
    using act by (simp add: release_def)
qed

lemma gov_inv_hand_over:
  assumes inv: "gov_inv g" and w: "dict_get (assigned g) wid = Some l"
    and g1: "g1 = g\<lparr>assigned := dict_del wid (assigned g)\<rparr>"
  shows "fst (hand_over l g1) = Granted l" and "gov_inv (snd (hand_over l g1))"
proof -
  note al = assigned_lease [OF inv w]
  have locked: "\<not> heavy_locked g" if "is_heavy (l_role l)"
    using heavy_lease_unique [OF inv al(1) that] al(2) gov_invD(4) [OF inv]
    by (simp add: heavy_ok_def)
  define g' where "g' = snd (hand_over l g1)"
  have g': "g' = (if is_heavy (l_role l)
                  then g1\<lparr>heavy_locked := True, heavy_reserved := False\<rparr> else g1)"
    using locked by (simp add: g'_def hand_over_def take_heavy_lock_def g1)
  show "fst (hand_over l g1) = Granted l"
    using locked by (simp add: hand_over_def take_heavy_lock_def g1)
  have gone: "lease_id l \<notin> set (assigned_ids g1)"
    by (auto simp: assigned_ids_def g1 al(3))
  have others: "lease_id h \<in> set (assigned_ids g1) \<longleftrightarrow> lease_id h \<in> set (assigned_ids g)"
    if "lease_id h \<noteq> lease_id l" for h
    using that by (force simp: assigned_ids_def g1 al(3))
  have "gov_inv g'"
  proof (rule gov_invI)
    show "accounts_ok g'" using gov_invD(1) [OF inv] by (simp add: accounts_ok_def g' g1)
    show "requests_ok g'"
      using gov_invD(2) [OF inv] by (auto simp: requests_ok_def g' g1)
    show "assigned_ok g'"
      using gov_invD(3) [OF inv]
      by (auto simp: assigned_ok_def assigned_ids_def g' g1 al(3) distinct_map_filter filter_map comp_def)
    show "within_budget g'"
      using gov_invD(5) [OF inv] by (simp add: within_budget_def g' g1)
    show "heavy_ok g'"
    proof (cases "is_heavy (l_role l)")
      case True
      with heavy_lease_unique [OF inv al(1)] gone gov_invD(4) [OF inv] show ?thesis
        by (simp add: heavy_ok_def g' assigned_ids_def g1)
    next
      case False
      have "heavy_ok g1 = heavy_ok g"
        using others [OF light_lease_no_heavy_id [OF inv al(1) False]]
        by (intro heavy_ok_cong) (simp_all add: g1)
      with False have "heavy_ok g' = heavy_ok g" by (simp add: g')
      then show ?thesis using gov_invD(4) [OF inv] by simp
    qed
  qed
  then show "gov_inv (snd (hand_over l g1))" by (simp add: g'_def)
qed

lemma gov_inv_resume [keeps_inv]:
  assumes "gov_inv g" and "resume_waiter wid g = (res, g')"
  shows "gov_inv g'"
proof (cases "dict_get (assigned g) wid")
  case None
  with assms show ?thesis by (simp add: resume_waiter_def)
next
  case (Some l)
  with gov_inv_hand_over(2) [OF assms(1) Some refl] assms(2) show ?thesis
    by (simp add: resume_waiter_def)
qed

lemma gov_inv_remove_waiter:
  assumes "gov_inv g"
  shows "gov_inv (g\<lparr>priority_queue := snd (remove wid (priority_queue g))\<rparr>)"
proof -
  have qi: "queue_inv (priority_queue g)" using assms by (simp add: gov_inv_parts)
  have "set (dict_keys (q_waiters (snd (remove wid (priority_queue g))))) \<subseteq>
      set (dict_keys (q_waiters (priority_queue g)))"
    by (auto simp: remove_def dict_del_set split: option.splits)
  moreover have "\<forall>w\<in>set (list_waiters (priority_queue g)). 0 \<le> w_vram w \<and> 0 \<le> w_ram w"
    using assms by (simp add: gov_inv_parts)
  from rq.del_keeps_all [OF qi this]
  have "\<forall>w\<in>set (list_waiters (snd (remove wid (priority_queue g)))). 0 \<le> w_vram w \<and> 0 \<le> w_ram w" .
  ultimately have "requests_ok (g\<lparr>priority_queue := snd (remove wid (priority_queue g))\<rparr>)"
    using gov_invD(2) [OF assms] rq.del_inv [OF qi, of wid] unfolding requests_ok_def
    by (simp del: set_map) blast
  with assms show ?thesis by (rule gov_inv_queue_update)
qed

lemma gov_inv_abandon [keeps_inv]:
  assumes inv: "gov_inv g" and fresh: "lid \<notin> set (dict_keys (active_leases g))"
  shows "gov_inv (abandon_waiter wid tm now lid g)"
proof (cases "dict_get (assigned g) wid")
  case None
  then show ?thesis using gov_inv_remove_waiter [OF inv] by (simp add: abandon_waiter_def)
next
  case (Some l)
  note al = assigned_lease [OF inv Some]
  have "gov_inv (drop_lease l (g\<lparr>assigned := dict_del wid (assigned g)\<rparr>))"
    by (rule gov_inv_drop [OF inv al(1,3)])
  from gov_inv_dispatch [OF this fresh_after_drop [OF fresh]] show ?thesis
    using Some al(1) by (simp add: abandon_waiter_def release_def)
qed

lemma gov_inv_resident_update [simp]: "gov_inv (g\<lparr>resident_vram := d\<rparr>) = gov_inv g"
proof -
  have "heavy_ok (g\<lparr>resident_vram := d\<rparr>) = heavy_ok g"
    by (intro heavy_ok_cong) (simp_all add: assigned_ids_def)
  then show ?thesis
    unfolding gov_inv_def
    by (intro arg_cong2 [where f = conj])
      (simp_all add: accounts_ok_def requests_ok_def assigned_ok_def assigned_ids_def within_budget_def)
qed

lemma gov_inv_resident [keeps_inv]:
  assumes "gov_inv g"
  shows "gov_inv (register_resident_model r v g)" and "gov_inv (clear_resident_model r g)"
  using assms by (simp_all add: register_resident_model_def clear_resident_model_def)

lemma admit_immediate_room:
  assumes inv: "gov_inv g" and "can_admit_immediate role vram ram tm g"
  shows "allocated_vram g + vram \<le> vram_ceiling g" and "allocated_ram g + ram \<le> max_ram g"
    and "is_heavy role \<Longrightarrow> \<not> heavy_locked g \<and> \<not> heavy_reserved g"
  using assms(2) budget_admits_within [OF inv] heavy_admits_within
    no_heavy_when_free [OF gov_invD(4) [OF inv]]
  by (auto simp: can_admit_immediate_def check_budget_for_role_def split: if_splits)

lemma gov_inv_enqueue_request:
  assumes inv: "gov_inv g" and nonneg: "0 \<le> vram" "0 \<le> ram"
    and fresh: "wid \<notin> set (dict_keys (q_waiters (priority_queue g)))"
      "wid \<notin> set (dict_keys (assigned g))"
    and e: "enqueue wid now role vram ram p (priority_queue g) = (w, q)"
  shows "gov_inv (g\<lparr>priority_queue := q\<rparr>)"
proof -
  have "queue_inv q"
    using queue_inv_enqueue [OF _ fresh(1) e] gov_invD(2) [OF inv] by (simp add: requests_ok_def)
  moreover have "set (dict_keys (q_waiters q)) = insert wid (set (dict_keys (q_waiters (priority_queue g))))"
    and "list_waiters q = list_waiters (priority_queue g) @ [w]" and "w_vram w = vram" and "w_ram w = ram"
    using e fresh by (auto simp: enqueue_def Let_def dict_set_fresh list_waiters_def)
  ultimately have "requests_ok (g\<lparr>priority_queue := q\<rparr>)"
    using gov_invD(2) [OF inv] nonneg fresh(2) by (auto simp: requests_ok_def)
  with inv show ?thesis by (rule gov_inv_queue_update)
qed

lemma acquire_granted_eq:
  assumes "0 \<le> vram" and "0 \<le> ram" and "check_budget_for_role role vram ram tm1 g"
    and adm: "can_admit_immediate role vram ram tm2 g"
    and l: "l = \<lparr>lease_id = lid, l_role = role, l_vram = vram, l_ram = ram\<rparr>"
  shows "acquire_internal role vram ram blocking prio tm1 tm2 now wid lid g =
    (Granted l, if is_heavy role
                then (grant_state l g)\<lparr>heavy_locked := True, heavy_reserved := False\<rparr>
                else grant_state l g)"
proof -
  have "is_heavy role \<Longrightarrow> \<not> heavy_locked g" using adm by (simp add: can_admit_immediate_def split: if_splits)
  then show ?thesis using assms
    by (simp add: acquire_internal_def grant_immediate_def grant_state_def hand_over_def
        take_heavy_lock_def add_lease_def Let_def)
qed

lemma gov_inv_acquire [keeps_inv]:
  assumes inv: "gov_inv g"
    and acq: "acquire_internal role vram ram blocking prio tm1 tm2 now wid lid g = (res, g')"
    and fresh: "lid \<notin> set (dict_keys (active_leases g))"
      "wid \<notin> set (dict_keys (q_waiters (priority_queue g)))" "wid \<notin> set (dict_keys (assigned g))"
  shows "gov_inv g'"
proof (cases "0 \<le> vram \<and> 0 \<le> ram \<and> check_budget_for_role role vram ram tm1 g")
  case False
  then have "vram < 0 \<or> ram < 0 \<or> \<not> check_budget_for_role role vram ram tm1 g" by linarith
  then have "g' = g" using acq unfolding acquire_internal_def by (auto split: if_splits)
  with inv show ?thesis by simp
next
  case ok: True
  define l where "l = \<lparr>lease_id = lid, l_role = role, l_vram = vram, l_ram = ram\<rparr>"
  show ?thesis
  proof (cases "can_admit_immediate role vram ram tm2 g")
    case True
    note room = admit_immediate_room [OF inv True]
    from True ok acq have g': "g' = (if is_heavy (l_role l)
        then (grant_state l g)\<lparr>heavy_locked := True, heavy_reserved := False\<rparr> else grant_state l g)"
      using acquire_granted_eq [of vram ram role tm1 g tm2 l lid] by (simp add: l_def)
    show ?thesis
      by (rule gov_inv_grant_now [OF inv _ _ _ _ _ _ g']) (use ok room fresh in \<open>simp_all add: l_def\<close>)
  next
    case False
    have rest: "(if \<not> blocking then (Raised ResourceLockError, g)
        else case task_priority_of prio of
               None \<Rightarrow> (Raised InvalidPriority, g)
             | Some p \<Rightarrow> (let (w, q) = enqueue wid now role vram ram p (priority_queue g)
                          in (Queued w, g\<lparr>priority_queue := q\<rparr>))) = (res, g')"
      using acq ok False by (simp add: acquire_internal_def not_less)
    have stay: "g' = g \<or> (\<exists>p w q. enqueue wid now role vram ram p (priority_queue g) = (w, q) \<and>
        g' = g\<lparr>priority_queue := q\<rparr>)"
    proof (cases "task_priority_of prio")
      case None
      then show ?thesis using rest by (auto split: if_splits)
    next
      case (Some p)
      then show ?thesis
        using rest by (cases "enqueue wid now role vram ram p (priority_queue g)")
          (auto split: if_splits)
    qed
    with inv gov_inv_enqueue_request [OF inv _ _ fresh(2,3)] ok show ?thesis by blast
  qed
qed

lemma gov_inv_step:
  assumes "gov_inv g" and "gov_step g g'"
  shows "gov_inv g'"
  using assms(2,1) by (cases rule: gov_stepE) (auto intro: keeps_inv)

theorem reachable_gov_inv: "gov_reachable g \<Longrightarrow> gov_inv g"
  by (induction rule: gov_reachable.induct) (auto intro: gov_inv_init gov_inv_step)

subsection \<open>Properties of the governor\<close>

text \<open>A concrete run for the witnesses: one heavy request granted on an idle governor.\<close>

definition demo_start :: governor where
  "demo_start = init_governor 6000 16000 500"

definition demo_lease :: lease where
  "demo_lease = \<lparr>lease_id = ''l1'', l_role = REASONING, l_vram = 4000, l_ram = 800\<rparr>"

definition demo_one :: governor where
  "demo_one = snd (acquire_internal REASONING 4000 800 True 3 None None 0 ''w1'' ''l1'' demo_start)"

lemma demo_start_reachable: "gov_reachable demo_start"
  unfolding demo_start_def by (rule gov_reachable.start) simp

lemma demo_one_run:
  "acquire_internal REASONING 4000 800 True 3 None None 0 ''w1'' ''l1'' demo_start =
     (Granted demo_lease, demo_one)"
  unfolding demo_one_def demo_lease_def demo_start_def by code_simp

lemma demo_one_reachable: "gov_reachable demo_one"
  by (rule gov_reachable.step [OF demo_start_reachable gov_step.acquire [OF demo_one_run]])
    (simp_all add: demo_start_def init_governor_def empty_queue_def)

lemma demo_one_leases: "active_leases demo_one = [(''l1'', demo_lease)]"
  unfolding demo_one_def demo_lease_def demo_start_def by code_simp

text \<open>C1: In every reachable state the governor's VRAM and RAM totals are the sums over the active
  leases and never exceed the usable VRAM ceiling and the RAM limit.\<close>

theorem reachable_within_budget:
  assumes "gov_reachable g"
  shows "allocated_vram g = sum_list (map l_vram (dict_values (active_leases g))) \<and>
         allocated_ram g = sum_list (map l_ram (dict_values (active_leases g))) \<and>
         allocated_vram g \<le> vram_ceiling g \<and> allocated_ram g \<le> max_ram g"
  using gov_invD(1,5) [OF reachable_gov_inv [OF assms]]
  by (simp add: accounts_ok_def within_budget_def)

lemma reachable_within_budget_witness:
  "allocated_vram demo_one = 4000 \<and> allocated_ram demo_one = 800 \<and> 4000 \<le> vram_ceiling demo_one"
  using reachable_within_budget [OF demo_one_reachable] by (simp add: demo_one_leases demo_lease_def)

text \<open>C2: Two active heavy leases are the same lease; while it exists exactly one of the heavy lock
  and its reservation is taken, and its VRAM is the recorded heavy VRAM.\<close>

theorem heavy_mutual_exclusion:
  assumes "gov_reachable g"
    and "a \<in> set (dict_values (active_leases g))" and "is_heavy (l_role a)"
    and "b \<in> set (dict_values (active_leases g))" and "is_heavy (l_role b)"
  shows "a = b \<and> heavy_locked g \<noteq> heavy_reserved g \<and> current_heavy_vram g = l_vram a"
proof -
  have "heavy_ok g" by (rule gov_invD(4) [OF reachable_gov_inv [OF assms(1)]])
  moreover have "a \<in> set (heavy_leases g)" and "b \<in> set (heavy_leases g)"
    using assms by (auto simp: heavy_leases_def)
  ultimately show ?thesis
    by (auto simp: heavy_ok_def split: list.splits)
qed

lemma heavy_mutual_exclusion_witness:
  "heavy_locked demo_one \<noteq> heavy_reserved demo_one \<and> current_heavy_vram demo_one = 4000"
  using heavy_mutual_exclusion [OF demo_one_reachable, of demo_lease demo_lease]
  by (simp add: demo_one_leases demo_lease_def is_heavy_def)

text \<open>A granted lease that is released while nobody waits leaves exactly the state before the
  acquire, whatever the telemetry reported, and a second release changes nothing.\<close>

theorem acquire_release_roundtrip:
  assumes reach: "gov_reachable g" and idle: "list_waiters (priority_queue g) = []"
    and fresh: "lid \<notin> set (dict_keys (active_leases g))"
    and acq: "acquire_internal role vram ram blocking prio tm1 tm2 now wid lid g = (Granted l, g')"
  shows "release l tm now' lid' g' = g \<and> release l tm now'' lid'' g = g"
proof -
  note inv = reachable_gov_inv [OF reach]
  have ok: "0 \<le> vram" "0 \<le> ram" "check_budget_for_role role vram ram tm1 g"
    and adm: "can_admit_immediate role vram ram tm2 g"
    using acq by (auto simp: acquire_internal_def Let_def split: if_splits option.splits prod.splits)
  define l0 where "l0 = \<lparr>lease_id = lid, l_role = role, l_vram = vram, l_ram = ram\<rparr>"
  have run: "l = l0" and g': "g' = (if is_heavy role
      then (grant_state l g)\<lparr>heavy_locked := True, heavy_reserved := False\<rparr> else grant_state l g)"
    using acquire_granted_eq [OF ok adm l0_def] acq by auto
  have free: "is_heavy role \<Longrightarrow> \<not> heavy_locked g \<and> \<not> heavy_reserved g \<and> current_heavy_vram g = 0"
    using admit_immediate_room(3) [OF inv adm] no_heavy_when_free [OF gov_invD(4) [OF inv]] by blast
  have nonneg: "0 \<le> allocated_vram g" "0 \<le> allocated_ram g"
    using gov_invD(1) [OF inv] by (fastforce simp: accounts_ok_def intro!: sum_list_nonneg)+
  have "drop_lease l g' = g"
    using free nonneg fresh ok
    by (auto simp: g' run l0_def drop_lease_def grant_state_def add_lease_def Let_def
        dict_del_undoes_set intro!: governor.equality)
  moreover have "dispatch_next_waiter tm now' lid' g = g"
    using idle by (simp add: dispatch_next_waiter_def pop_admissible_def list_waiters_def)
  moreover have "dict_get (active_leases g') (lease_id l) \<noteq> None"
    by (simp add: g' run l0_def)
  moreover have "dict_get (active_leases g) (lease_id l) = None"
    using fresh by (simp add: run l0_def map_of_eq_None_iff)
  ultimately show ?thesis by (auto simp: release_def)
qed

lemma acquire_release_roundtrip_witness:
  "release demo_lease (\<lambda>w. None) 7 ''l2'' demo_one = demo_start"
proof -
  have "list_waiters (priority_queue demo_start) = []"
      and "''l1'' \<notin> set (dict_keys (active_leases demo_start))"
    by (simp_all add: demo_start_def init_governor_def empty_queue_def list_waiters_def)
  from acquire_release_roundtrip [OF demo_start_reachable this demo_one_run]
  show ?thesis by blast
qed

text \<open>A waiter that was granted a lease resumes with exactly that lease and without waiting:
  the heavy lock is free whenever a heavy waiter resumes.\<close>

theorem granted_waiter_resumes:
  assumes "gov_reachable g" and "dict_get (assigned g) wid = Some l"
  shows "fst (resume_waiter wid g) = Granted l \<and>
         dict_get (active_leases (snd (resume_waiter wid g))) (lease_id l) = Some l \<and>
         dict_get (assigned (snd (resume_waiter wid g))) wid = None \<and>
         (heavy_locked (snd (resume_waiter wid g)) \<or> \<not> is_heavy (l_role l))"
proof -
  note inv = reachable_gov_inv [OF assms(1)]
  have out: "resume_waiter wid g = hand_over l (g\<lparr>assigned := dict_del wid (assigned g)\<rparr>)"
    using assms(2) by (simp add: resume_waiter_def)
  have "fst (hand_over l (g\<lparr>assigned := dict_del wid (assigned g)\<rparr>)) = Granted l"
    by (rule gov_inv_hand_over(1) [OF inv assms(2) refl])
  with out assigned_lease(1) [OF inv assms(2)] show ?thesis
    by (auto simp: hand_over_def take_heavy_lock_def split: if_splits)
qed

text \<open>A second heavy request waits, and the release of the first grants it.\<close>

definition demo_two :: governor where
  "demo_two = snd (acquire_internal VLM 3000 700 True 4 None None 0 ''w2'' ''l2'' demo_one)"

definition demo_served :: governor where
  "demo_served = release demo_lease (\<lambda>w. None) 20 ''l2'' demo_two"

definition demo_stranded :: governor where
  "demo_stranded = release demo_lease
     (\<lambda>w. Some \<lparr>vram_free_mb = 1000, ram_free_mb = 500, gpu_available = True\<rparr>) 20 ''l2'' demo_two"

lemma demo_two_reachable: "gov_reachable demo_two"
proof -
  obtain r where run: "acquire_internal VLM 3000 700 True 4 None None 0 ''w2'' ''l2'' demo_one = (r, demo_two)"
    by (metis demo_two_def prod.collapse)
  have "priority_queue demo_one = empty_queue 15" and "assigned demo_one = []"
    unfolding demo_one_def demo_start_def by code_simp+
  then show ?thesis
    by (intro gov_reachable.step [OF demo_one_reachable gov_step.acquire [OF run]])
      (simp_all add: demo_one_leases empty_queue_def)
qed

lemma demo_two_release_reachable: "gov_reachable (release demo_lease tm 20 ''l2'' demo_two)"
proof -
  have "active_leases demo_two = [(''l1'', demo_lease)]" and "assigned demo_two = []"
    unfolding demo_two_def demo_one_def demo_lease_def demo_start_def by code_simp+
  then have "gov_step demo_two (release demo_lease tm 20 ''l2'' demo_two)"
    by (intro gov_step.give_back) (simp_all add: demo_lease_def assigned_ids_def)
  with demo_two_reachable show ?thesis by (rule gov_reachable.step)
qed

lemma granted_waiter_resumes_witness:
  "fst (resume_waiter ''w2'' demo_served) =
     Granted \<lparr>lease_id = ''l2'', l_role = VLM, l_vram = 3000, l_ram = 700\<rparr>"
proof -
  have "gov_reachable demo_served"
    unfolding demo_served_def by (rule demo_two_release_reachable)
  moreover have "dict_get (assigned demo_served) ''w2'' =
      Some \<lparr>lease_id = ''l2'', l_role = VLM, l_vram = 3000, l_ram = 700\<rparr>"
    unfolding demo_served_def demo_two_def demo_one_def demo_lease_def demo_start_def by code_simp
  ultimately show ?thesis using granted_waiter_resumes by blast
qed

text \<open>C25: A release leaves no admissible waiter behind: either it grants the queue's next waiter, or
  no waiter is admissible under the telemetry that this release read.\<close>

theorem release_serves_or_none_admissible:
  assumes reach: "gov_reachable g" and act: "dict_get (active_leases g) (lease_id l) = Some l"
    and free: "lease_id l \<notin> set (assigned_ids g)"
  shows "(\<exists>w\<in>set (list_waiters (priority_queue g)).
            can_admit_waiter tm (drop_lease l g) w \<and>
            dict_get (assigned (release l tm now lid g)) (waiter_id w) =
              Some \<lparr>lease_id = lid, l_role = w_role w, l_vram = w_vram w, l_ram = w_ram w\<rparr>) \<or>
         release l tm now lid g = drop_lease l g \<and>
         (\<forall>w\<in>set (list_waiters (priority_queue g)). \<not> can_admit_waiter tm (drop_lease l g) w)"
proof -
  let ?adm = "can_admit_waiter tm (drop_lease l g)"
  have qi: "queue_inv (priority_queue g)"
    using gov_invD(2) [OF reachable_gov_inv [OF reach]] by (simp add: requests_ok_def)
  have rel: "release l tm now lid g = dispatch_next_waiter tm now lid (drop_lease l g)"
    using act by (simp add: release_def)
  obtain r q where pop: "pop_admissible ?adm now (priority_queue g) = (r, q)" by fastforce
  show ?thesis
  proof (cases r)
    case None
    with pop_admissible_None [OF qi, of ?adm now q] pop
    show ?thesis by (auto simp: rel dispatch_next_waiter_def)
  next
    case (Some w)
    from pop_admissible_Some [OF qi pop [unfolded Some]]
    obtain v where v: "v \<in> set (list_waiters (priority_queue g))" "w = v\<lparr>w_granted := True\<rparr>" "?adm v"
      by metis
    have "dict_get (assigned (release l tm now lid g)) (waiter_id v) =
        Some \<lparr>lease_id = lid, l_role = w_role v, l_vram = w_vram v, l_ram = w_ram v\<rparr>"
      using pop Some v(2) by (simp add: rel dispatch_eq Let_def)
    with v show ?thesis by blast
  qed
qed

lemma release_serves_or_none_admissible_witness:
  "demo_stranded = drop_lease demo_lease demo_two"
proof -
  have a: "active_leases demo_two = [(''l1'', demo_lease)]" and as: "assigned demo_two = []"
    unfolding demo_two_def demo_one_def demo_lease_def demo_start_def by code_simp+
  moreover have "assigned demo_stranded = []"
    unfolding demo_stranded_def demo_two_def demo_one_def demo_lease_def demo_start_def by code_simp
  ultimately show ?thesis
    using release_serves_or_none_admissible [OF demo_two_reachable, of demo_lease
        "\<lambda>w. Some \<lparr>vram_free_mb = 1000, ram_free_mb = 500, gpu_available = True\<rparr>" 20 "''l2''"]
    by (auto simp: demo_stranded_def demo_lease_def assigned_ids_def)
qed

text \<open>C34: A waiter can be stranded. After a release that read low telemetry the queue holds a waiter
  although no lease is active and none is promised; once the telemetry has recovered the waiter is
  admissible, but no release can dispatch it any more, because a release of an inactive lease
  returns before the dispatch.\<close>

theorem waiter_can_be_stranded:
  "gov_reachable demo_stranded \<and> active_leases demo_stranded = [] \<and> assigned demo_stranded = [] \<and>
   (\<exists>w\<in>set (list_waiters (priority_queue demo_stranded)).
      can_admit_waiter (\<lambda>w. Some \<lparr>vram_free_mb = 6000, ram_free_mb = 9000, gpu_available = True\<rparr>)
        demo_stranded w) \<and>
   release l tm now lid demo_stranded = demo_stranded \<and>
   fst (resume_waiter wid demo_stranded) = Raised NoLeaseAssigned"
proof -
  have none: "active_leases demo_stranded = []" "assigned demo_stranded = []"
    unfolding demo_stranded_def demo_two_def demo_one_def demo_lease_def demo_start_def by code_simp+
  have "\<exists>w\<in>set (list_waiters (priority_queue demo_stranded)).
      can_admit_waiter (\<lambda>w. Some \<lparr>vram_free_mb = 6000, ram_free_mb = 9000, gpu_available = True\<rparr>)
        demo_stranded w"
    unfolding demo_stranded_def demo_two_def demo_one_def demo_lease_def demo_start_def by code_simp
  moreover have "gov_reachable demo_stranded"
    unfolding demo_stranded_def by (rule demo_two_release_reachable)
  ultimately show ?thesis
    using none by (simp add: release_def resume_waiter_def)
qed

end
