(* ===== verification/Model_Lifecycle.thy ===== *)
theory Model_Lifecycle
  imports Resource_Queue
begin

text \<open>
  Models \<open>python/tom/resources/model_manager.py\<close>: the lifecycle states of a model with their
  table of valid transitions, and every method of \<open>ModelLifecycleCoordinator\<close>. A method body runs
  under the coordinator's lock without suspending and is one function from the dictionary of
  records to a result (an error or a value) and the new dictionary. \<open>trigger_eviction\<close> runs its
  hook outside the lock; its two locked sections are two functions, with the hook's outcome an
  argument (\<open>None\<close> when it raises). The registration's free-form metadata is not modelled.
\<close>

subsection \<open>Data\<close>

datatype model_state = UNLOADED | READY | BUSY | IDLE | MODEL_ERROR

datatype lifecycle_error =
    ModelNotFoundError string
  | InvalidStateTransitionError model_state "model_state option"

fun valid_transitions :: "model_state \<Rightarrow> model_state list" where
  "valid_transitions UNLOADED = [READY, MODEL_ERROR]"
| "valid_transitions READY = [BUSY, UNLOADED, MODEL_ERROR]"
| "valid_transitions BUSY = [IDLE, READY, MODEL_ERROR]"
| "valid_transitions IDLE = [BUSY, UNLOADED, MODEL_ERROR, READY]"
| "valid_transitions MODEL_ERROR = [UNLOADED, READY]"

record model_registration =
  model_name :: string
  mr_role :: model_role
  vram_required_mb :: int
  ram_required_mb :: int
  idle_timeout_seconds :: rat

record model_record =
  registration :: model_registration
  m_state :: model_state
  observed_residency :: bool
  confirmed_physical_unload :: bool
  last_active_at :: "rat option"
  active_acquisitions :: int

type_synonym models = "(string, model_record) dict"
type_synonym 'a coordinated = "(lifecycle_error + 'a) \<times> models"

definition new_record :: "model_registration \<Rightarrow> model_record" where
  "new_record reg = \<lparr>registration = reg, m_state = UNLOADED, observed_residency = False,
     confirmed_physical_unload = False, last_active_at = None, active_acquisitions = 0\<rparr>"

subsection \<open>Operations\<close>

definition transition_to :: "model_record \<Rightarrow> model_state \<Rightarrow> lifecycle_error + model_record" where
  "transition_to rec target =
     (if target \<notin> set (valid_transitions (m_state rec))
      then Inl (InvalidStateTransitionError (m_state rec) (Some target))
      else Inr (rec\<lparr>m_state := target\<rparr>))"

text \<open>
  The shape shared by the recording methods: look the record up, compute, and write it back; an
  error leaves the dictionary as it was.
\<close>

definition on_record ::
  "string \<Rightarrow> (model_record \<Rightarrow> lifecycle_error + model_record) \<Rightarrow> models \<Rightarrow> unit coordinated" where
  "on_record name f m =
     (case dict_get m name of
        None \<Rightarrow> (Inl (ModelNotFoundError name), m)
      | Some rec \<Rightarrow> (case f rec of
                      Inl e \<Rightarrow> (Inl e, m)
                    | Inr rec' \<Rightarrow> (Inr (), dict_set name rec' m)))"

definition register_model :: "model_registration \<Rightarrow> models \<Rightarrow> models" where
  "register_model reg m =
     (case dict_get m (model_name reg) of
        Some existing \<Rightarrow> dict_set (model_name reg) (existing\<lparr>registration := reg\<rparr>) m
      | None \<Rightarrow> dict_set (model_name reg) (new_record reg) m)"

definition unregister_model :: "string \<Rightarrow> models \<Rightarrow> unit coordinated" where
  "unregister_model name m =
     (case dict_get m name of
        None \<Rightarrow> (Inl (ModelNotFoundError name), m)
      | Some rec \<Rightarrow>
          if m_state rec = BUSY then (Inl (InvalidStateTransitionError BUSY None), m)
          else (Inr (), dict_del name m))"

definition get_record :: "string \<Rightarrow> models \<Rightarrow> lifecycle_error + model_record" where
  "get_record name m =
     (case dict_get m name of None \<Rightarrow> Inl (ModelNotFoundError name) | Some rec \<Rightarrow> Inr rec)"

definition get_state :: "string \<Rightarrow> models \<Rightarrow> lifecycle_error + model_state" where
  "get_state name m =
     (case get_record name m of Inl e \<Rightarrow> Inl e | Inr rec \<Rightarrow> Inr (m_state rec))"

definition list_models :: "models \<Rightarrow> model_registration list" where
  "list_models m = map registration (dict_values m)"

definition ready_update :: "bool \<Rightarrow> model_record \<Rightarrow> lifecycle_error + model_record" where
  "ready_update observed rec =
     (if m_state rec = READY then Inr (rec\<lparr>observed_residency := observed\<rparr>)
      else case transition_to rec READY of
             Inl e \<Rightarrow> Inl e
           | Inr rec' \<Rightarrow> Inr (rec'\<lparr>observed_residency := observed,
                                 confirmed_physical_unload := False\<rparr>))"

definition record_ready :: "string \<Rightarrow> bool \<Rightarrow> models \<Rightarrow> unit coordinated" where
  "record_ready name observed = on_record name (ready_update observed)"

definition acquire_update :: "rat \<Rightarrow> model_record \<Rightarrow> lifecycle_error + model_record" where
  "acquire_update now rec =
     (case (if m_state rec = BUSY then Inr rec else transition_to rec BUSY) of
        Inl e \<Rightarrow> Inl e
      | Inr rec' \<Rightarrow> Inr (rec'\<lparr>active_acquisitions := active_acquisitions rec' + 1,
                            last_active_at := Some now\<rparr>))"

definition record_acquire :: "string \<Rightarrow> rat \<Rightarrow> models \<Rightarrow> unit coordinated" where
  "record_acquire name now = on_record name (acquire_update now)"

definition release_update :: "rat \<Rightarrow> model_record \<Rightarrow> lifecycle_error + model_record" where
  "release_update now rec =
     (if m_state rec \<noteq> BUSY then Inl (InvalidStateTransitionError (m_state rec) None)
      else let rec1 = (if 0 < active_acquisitions rec
                       then rec\<lparr>active_acquisitions := active_acquisitions rec - 1\<rparr> else rec)
           in if active_acquisitions rec1 = 0
              then case transition_to rec1 IDLE of
                     Inl e \<Rightarrow> Inl e
                   | Inr rec2 \<Rightarrow> Inr (rec2\<lparr>last_active_at := Some now\<rparr>)
              else Inr rec1)"

definition record_release :: "string \<Rightarrow> rat \<Rightarrow> models \<Rightarrow> unit coordinated" where
  "record_release name now = on_record name (release_update now)"

definition error_update :: "rat \<Rightarrow> model_record \<Rightarrow> lifecycle_error + model_record" where
  "error_update now rec =
     (case transition_to rec MODEL_ERROR of
        Inl e \<Rightarrow> Inl e
      | Inr rec' \<Rightarrow> Inr (rec'\<lparr>active_acquisitions := 0, last_active_at := Some now\<rparr>))"

definition record_error :: "string \<Rightarrow> rat \<Rightarrow> models \<Rightarrow> unit coordinated" where
  "record_error name now = on_record name (error_update now)"

definition unloaded_update :: "bool \<Rightarrow> model_record \<Rightarrow> lifecycle_error + model_record" where
  "unloaded_update confirmed rec =
     (if m_state rec = BUSY then Inl (InvalidStateTransitionError BUSY (Some UNLOADED))
      else if m_state rec = UNLOADED
        then Inr (rec\<lparr>confirmed_physical_unload := confirmed, observed_residency := False\<rparr>)
      else case transition_to rec UNLOADED of
             Inl e \<Rightarrow> Inl e
           | Inr rec' \<Rightarrow> Inr (rec'\<lparr>observed_residency := False,
                                 confirmed_physical_unload := confirmed,
                                 active_acquisitions := 0\<rparr>))"

definition record_unloaded :: "string \<Rightarrow> bool \<Rightarrow> models \<Rightarrow> unit coordinated" where
  "record_unloaded name confirmed = on_record name (unloaded_update confirmed)"

definition get_idle_models :: "rat \<Rightarrow> models \<Rightarrow> string list" where
  "get_idle_models now m =
     map fst (filter (\<lambda>(name, rec). m_state rec = IDLE \<and>
       (case last_active_at rec of
          None \<Rightarrow> False
        | Some t \<Rightarrow> idle_timeout_seconds (registration rec) \<le> now - t)) m)"

text \<open>
  \<open>trigger_eviction\<close>: the guard before the hook, and the section after it. \<open>hook = None\<close> is the
  missing hook, \<open>Some None\<close> a hook that raised, \<open>Some (Some b)\<close> one that returned \<open>b\<close>.
\<close>

definition evict_guard :: "string \<Rightarrow> models \<Rightarrow> lifecycle_error + unit" where
  "evict_guard name m =
     (case get_record name m of
        Inl e \<Rightarrow> Inl e
      | Inr rec \<Rightarrow> if m_state rec = BUSY then Inl (InvalidStateTransitionError BUSY None)
                   else Inr ())"

definition evict_commit :: "string \<Rightarrow> bool option option \<Rightarrow> models \<Rightarrow> bool coordinated" where
  "evict_commit name hook m =
     (case hook of
        None \<Rightarrow> (Inr False, m)
      | Some None \<Rightarrow> (Inr False, m)
      | Some (Some False) \<Rightarrow> (Inr False, m)
      | Some (Some True) \<Rightarrow>
          (case dict_get m name of
             None \<Rightarrow> (Inr True, m)
           | Some rec \<Rightarrow>
               if m_state rec = BUSY then (Inr True, m)
               else case transition_to rec UNLOADED of
                      Inl e \<Rightarrow> (Inl e, m)
                    | Inr rec' \<Rightarrow> (Inr True, dict_set name
                        (rec'\<lparr>observed_residency := False, confirmed_physical_unload := True\<rparr>) m)))"

text \<open>The whole call, with \<open>during\<close> what other tasks do to the records while the hook runs.\<close>

definition trigger_eviction ::
  "string \<Rightarrow> bool option option \<Rightarrow> (models \<Rightarrow> models) \<Rightarrow> models \<Rightarrow> bool coordinated" where
  "trigger_eviction name hook during m =
     (case evict_guard name m of
        Inl e \<Rightarrow> (Inl e, m)
      | Inr _ \<Rightarrow> evict_commit name hook (if hook = None then m else during m))"

subsection \<open>Steps\<close>

text \<open>Every locked section that can change the dictionary, in any order and with any arguments.\<close>

inductive coordinator_step :: "models \<Rightarrow> models \<Rightarrow> bool" where
  "coordinator_step m (register_model reg m)"
| "coordinator_step m (snd (unregister_model name m))"
| "coordinator_step m (snd (record_ready name observed m))"
| "coordinator_step m (snd (record_acquire name now m))"
| "coordinator_step m (snd (record_release name now m))"
| "coordinator_step m (snd (record_error name now m))"
| "coordinator_step m (snd (record_unloaded name confirmed m))"
| "coordinator_step m (snd (evict_commit name hook m))"

inductive_cases coordinator_stepE: "coordinator_step m m'"

inductive coordinator_reachable :: "models \<Rightarrow> bool" where
  coord_init: "coordinator_reachable []"
| coord_step: "coordinator_reachable m \<Longrightarrow> coordinator_step m m' \<Longrightarrow> coordinator_reachable m'"

interpretation mt: transition_table valid_transitions "\<lambda>_. False"
proof
  show "False \<longleftrightarrow> valid_transitions s = []" for s by (cases s) simp_all
qed

subsection \<open>The record invariant\<close>

definition record_inv :: "model_record \<Rightarrow> bool" where
  "record_inv rec \<longleftrightarrow>
     0 \<le> active_acquisitions rec \<and>
     (m_state rec = BUSY \<longrightarrow> 1 \<le> active_acquisitions rec) \<and>
     (m_state rec \<in> {IDLE, MODEL_ERROR} \<longrightarrow> active_acquisitions rec = 0) \<and>
     (m_state rec \<in> {BUSY, IDLE, MODEL_ERROR} \<longrightarrow> last_active_at rec \<noteq> None) \<and>
     (m_state rec = UNLOADED \<longrightarrow> \<not> observed_residency rec) \<and>
     (confirmed_physical_unload rec \<longrightarrow> m_state rec \<in> {UNLOADED, MODEL_ERROR})"

definition models_inv :: "models \<Rightarrow> bool" where
  "models_inv m \<longleftrightarrow> distinct (dict_keys m) \<and>
     (\<forall>name rec. dict_get m name = Some rec \<longrightarrow>
        model_name (registration rec) = name \<and> record_inv rec)"

text \<open>
  What one update does to a record: the invariant survives, the registration stays, and the state
  stays or moves along the table. Both step properties are instances of it.
\<close>

definition lawful_update :: "model_record \<Rightarrow> model_record \<Rightarrow> bool" where
  "lawful_update rec rec' \<longleftrightarrow>
     (record_inv rec \<longrightarrow> record_inv rec') \<and> registration rec' = registration rec \<and>
     (m_state rec' = m_state rec \<or> m_state rec' \<in> set (valid_transitions (m_state rec)))"

named_theorems update_laws "each update function is lawful"

lemmas update_defs = transition_to_def lawful_update_def record_inv_def Let_def

lemma ready_lawful [update_laws]: "ready_update b rec = Inr rec' \<Longrightarrow> lawful_update rec rec'"
  by (cases "m_state rec") (auto simp: ready_update_def update_defs split: if_splits)

lemma acquire_lawful [update_laws]: "acquire_update now rec = Inr rec' \<Longrightarrow> lawful_update rec rec'"
  by (cases "m_state rec") (auto simp: acquire_update_def update_defs split: if_splits)

lemma release_lawful [update_laws]: "release_update now rec = Inr rec' \<Longrightarrow> lawful_update rec rec'"
  by (cases "m_state rec") (auto simp: release_update_def update_defs split: if_splits)

lemma error_lawful [update_laws]: "error_update now rec = Inr rec' \<Longrightarrow> lawful_update rec rec'"
  by (cases "m_state rec") (auto simp: error_update_def update_defs split: if_splits)

lemma unloaded_lawful [update_laws]: "unloaded_update b rec = Inr rec' \<Longrightarrow> lawful_update rec rec'"
  by (cases "m_state rec") (auto simp: unloaded_update_def update_defs split: if_splits sum.splits)

text \<open>The two shapes of change: a lawful write to one record, or a new or removed entry.\<close>

definition lawful_change :: "models \<Rightarrow> models \<Rightarrow> bool" where
  "lawful_change m m' \<longleftrightarrow>
     m' = m \<or>
     (\<exists>name rec rec'. dict_get m name = Some rec \<and> m' = dict_set name rec' m \<and> lawful_update rec rec')"

lemma on_record_lawful:
  assumes "\<And>rec rec'. f rec = Inr rec' \<Longrightarrow> lawful_update rec rec'"
  shows "lawful_change m (snd (on_record name f m))"
  using assms by (fastforce simp: on_record_def lawful_change_def split: option.splits sum.splits)

lemma evict_commit_lawful: "lawful_change m (snd (evict_commit name hook m))"
proof -
  have "lawful_update rec (rec\<lparr>m_state := UNLOADED, observed_residency := False,
      confirmed_physical_unload := True\<rparr>)" if "UNLOADED \<in> set (valid_transitions (m_state rec))" for rec
    using that by (auto simp: lawful_update_def record_inv_def)
  then show ?thesis
    by (fastforce simp: evict_commit_def lawful_change_def transition_to_def
        split: option.splits sum.splits bool.splits if_splits)
qed

lemma models_inv_set:
  "models_inv m \<Longrightarrow> model_name (registration rec) = name \<Longrightarrow> record_inv rec \<Longrightarrow>
   models_inv (dict_set name rec m)"
  unfolding models_inv_def by (auto split: if_splits)

lemma models_inv_del: "models_inv m \<Longrightarrow> models_inv (dict_del name m)"
  unfolding models_inv_def by (auto split: if_splits)

lemma models_invD:
  "models_inv m \<Longrightarrow> dict_get m name = Some rec \<Longrightarrow>
   model_name (registration rec) = name \<and> record_inv rec"
  by (simp only: models_inv_def)

lemma lawful_change_inv:
  assumes "lawful_change m m'" and inv: "models_inv m"
  shows "models_inv m'"
  using assms(1) models_invD [OF inv] inv
  by (auto simp: lawful_change_def lawful_update_def intro!: models_inv_set)

lemma register_inv:
  assumes "models_inv m"
  shows "models_inv (register_model reg m)"
proof (cases "dict_get m (model_name reg)")
  case None
  with assms show ?thesis
    by (auto simp: register_model_def intro!: models_inv_set)
      (simp_all add: new_record_def record_inv_def)
next
  case (Some rec)
  moreover have "record_inv (rec\<lparr>registration := reg\<rparr>)"
    using models_invD [OF assms Some] by (simp add: record_inv_def)
  ultimately show ?thesis
    using assms by (simp add: register_model_def models_inv_set)
qed

lemma unregister_inv: "models_inv m \<Longrightarrow> models_inv (snd (unregister_model name m))"
  by (simp add: unregister_model_def models_inv_del split: option.splits)

lemma recording_lawful:
  "lawful_change m (snd (record_ready name b m))"
  "lawful_change m (snd (record_acquire name now m))"
  "lawful_change m (snd (record_release name now m))"
  "lawful_change m (snd (record_error name now m))"
  "lawful_change m (snd (record_unloaded name b m))"
  unfolding record_ready_def record_acquire_def record_release_def record_error_def record_unloaded_def
  by (rule on_record_lawful; erule update_laws)+

lemma coordinator_step_inv:
  assumes "coordinator_step m m'" and "models_inv m"
  shows "models_inv m'"
  using assms
  by (cases rule: coordinator_stepE)
    (auto intro: lawful_change_inv recording_lawful evict_commit_lawful register_inv unregister_inv)

lemma coordinator_reachable_inv: "coordinator_reachable m \<Longrightarrow> models_inv m"
proof (induction rule: coordinator_reachable.induct)
  case coord_init
  show ?case by (simp add: models_inv_def)
next
  case (coord_step m m')
  then show ?case by (blast intro: coordinator_step_inv)
qed

lemma coordinator_step_table:
  assumes "coordinator_step m m'" and a: "dict_get m name = Some a" and b: "dict_get m' name = Some b"
  shows "m_state b = m_state a \<or> m_state b \<in> set (valid_transitions (m_state a))"
proof -
  have lawful: "m_state b = m_state a \<or> m_state b \<in> set (valid_transitions (m_state a))"
    if "lawful_change m m'"
    using that a b by (auto simp: lawful_change_def lawful_update_def split: if_splits)
  have register: "m_state b = m_state a" if "m' = register_model reg m" for reg
    using that a b by (auto simp: register_model_def split: option.splits if_splits)
  have unregister: "b = a" if "m' = snd (unregister_model n m)" for n
    using that a b by (auto simp: unregister_model_def split: option.splits if_splits)
  from assms(1) show ?thesis
    by (cases rule: coordinator_stepE)
      (use lawful register unregister recording_lawful evict_commit_lawful in auto)
qed

subsection \<open>Nested acquisitions\<close>

abbreviation do_acquire :: "string \<Rightarrow> rat \<Rightarrow> models \<Rightarrow> models" where
  "do_acquire name t \<equiv> \<lambda>m. snd (record_acquire name t m)"

abbreviation do_release :: "string \<Rightarrow> rat \<Rightarrow> models \<Rightarrow> models" where
  "do_release name t \<equiv> \<lambda>m. snd (record_release name t m)"

lemma acquire_busy:
  assumes "dict_get m name = Some rec" and "m_state rec \<in> {READY, IDLE, BUSY}"
  shows "dict_get (do_acquire name t m) name = Some (rec\<lparr>m_state := BUSY,
           active_acquisitions := active_acquisitions rec + 1, last_active_at := Some t\<rparr>)"
  using assms by (auto simp: record_acquire_def on_record_def acquire_update_def transition_to_def)

lemma acquire_many:
  assumes "dict_get m name = Some rec" and "m_state rec \<in> {READY, IDLE, BUSY}"
  shows "dict_get ((do_acquire name t ^^ Suc n) m) name = Some (rec\<lparr>m_state := BUSY,
           active_acquisitions := active_acquisitions rec + 1 + int n, last_active_at := Some t\<rparr>)"
proof (induction n)
  case 0
  show ?case using acquire_busy [OF assms] by simp
next
  case (Suc n)
  from acquire_busy [OF Suc, of t] show ?case by (simp add: add.assoc add.commute)
qed

lemma release_busy:
  assumes "dict_get m name = Some rec" and "m_state rec = BUSY" and "1 < active_acquisitions rec"
  shows "dict_get (do_release name t m) name =
           Some (rec\<lparr>active_acquisitions := active_acquisitions rec - 1\<rparr>)"
  using assms by (auto simp: record_release_def on_record_def release_update_def Let_def)

lemma release_last:
  assumes "dict_get m name = Some rec" and "m_state rec = BUSY" and "active_acquisitions rec = 1"
  shows "dict_get (do_release name t m) name =
           Some (rec\<lparr>m_state := IDLE, active_acquisitions := 0, last_active_at := Some t\<rparr>)"
  using assms by (auto simp: record_release_def on_record_def release_update_def transition_to_def Let_def)

lemma release_some:
  assumes "dict_get m name = Some rec" and "m_state rec = BUSY" and "int k < active_acquisitions rec"
  shows "dict_get ((do_release name t ^^ k) m) name =
           Some (rec\<lparr>active_acquisitions := active_acquisitions rec - int k\<rparr>)"
  using assms(3)
proof (induction k)
  case 0
  then show ?case using assms by simp
next
  case (Suc k)
  then have IH: "dict_get ((do_release name t ^^ k) m) name =
      Some (rec\<lparr>active_acquisitions := active_acquisitions rec - int k\<rparr>)" by simp
  from release_busy [OF IH, of t] Suc.prems assms(2) show ?case
    by (simp add: algebra_simps)
qed

subsection \<open>Properties of the lifecycle\<close>

definition demo_registration :: model_registration where
  "demo_registration = \<lparr>model_name = ''qwen'', mr_role = REASONING, vram_required_mb = 4000,
     ram_required_mb = 800, idle_timeout_seconds = 300\<rparr>"

definition demo_ready :: models where
  "demo_ready = snd (record_ready ''qwen'' True (register_model demo_registration []))"

lemma demo_ready_reachable: "coordinator_reachable demo_ready"
  unfolding demo_ready_def
  by (rule coord_step [OF coord_step [OF coord_init coordinator_step.intros(1)] coordinator_step.intros(3)])

lemma demo_ready_eq: "demo_ready = [(''qwen'', (new_record demo_registration)
    \<lparr>m_state := READY, observed_residency := True\<rparr>)]"
  unfolding demo_ready_def demo_registration_def by code_simp

text \<open>C22: In every reachable state of the coordinator a BUSY model has an active acquisition, an
  IDLE or failed model has none, an unloaded model is not resident, and a physical unload is
  confirmed only for an unloaded or failed model; one more step moves each state along the table
  of valid transitions or leaves it.\<close>

theorem lifecycle_invariant:
  assumes "coordinator_reachable m" and "dict_get m name = Some a"
    and "coordinator_step m m'" and "dict_get m' name = Some b"
  shows "(m_state a = BUSY \<longrightarrow> 1 \<le> active_acquisitions a) \<and>
         (m_state a \<in> {IDLE, MODEL_ERROR} \<longrightarrow> active_acquisitions a = 0 \<and> last_active_at a \<noteq> None) \<and>
         (m_state a = UNLOADED \<longrightarrow> \<not> observed_residency a) \<and>
         (confirmed_physical_unload a \<longrightarrow> m_state a \<in> {UNLOADED, MODEL_ERROR}) \<and>
         (m_state b = m_state a \<or> m_state b \<in> set (valid_transitions (m_state a)))"
proof -
  have "record_inv a"
    using models_invD [OF coordinator_reachable_inv [OF assms(1)] assms(2)] by blast
  with coordinator_step_table [OF assms(3,2,4)] show ?thesis
    unfolding record_inv_def by blast
qed

lemma lifecycle_invariant_witness:
  "\<exists>b. dict_get (do_acquire ''qwen'' 5 demo_ready) ''qwen'' = Some b \<and>
       (m_state b = READY \<or> m_state b \<in> set (valid_transitions READY))"
proof -
  define a where "a = (new_record demo_registration)\<lparr>m_state := READY, observed_residency := True\<rparr>"
  have a: "dict_get demo_ready ''qwen'' = Some a" and r: "m_state a = READY"
    by (simp_all add: demo_ready_eq a_def)
  from lifecycle_invariant [OF demo_ready_reachable a coordinator_step.intros(4) acquire_busy [OF a]]
  show ?thesis using acquire_busy [OF a] r by auto
qed

text \<open>Nested acquisitions are balanced: a ready or idle model acquired n times and released
  k times with k below n is BUSY with n - k acquisitions, and after n releases it is IDLE with
  none, active last at the time of the releases.\<close>

theorem nested_acquisitions:
  assumes "dict_get m name = Some rec" and "m_state rec \<in> {READY, IDLE}"
    and "active_acquisitions rec = 0" and "k < n"
  shows "dict_get ((do_release name t ^^ k) ((do_acquire name s ^^ n) m)) name =
           Some (rec\<lparr>m_state := BUSY, active_acquisitions := int n - int k, last_active_at := Some s\<rparr>) \<and>
         dict_get ((do_release name t ^^ n) ((do_acquire name s ^^ n) m)) name =
           Some (rec\<lparr>m_state := IDLE, active_acquisitions := 0, last_active_at := Some t\<rparr>)"
proof -
  obtain n' where n: "n = Suc n'" using assms(4) by (cases n) auto
  let ?m = "(do_acquire name s ^^ n) m"
  let ?r = "rec\<lparr>m_state := BUSY, active_acquisitions := int n, last_active_at := Some s\<rparr>"
  have busy: "dict_get ?m name = Some ?r"
    using acquire_many [OF assms(1), where t = s and n = n'] assms(2,3) by (auto simp: n)
  have some: "dict_get ((do_release name t ^^ j) ?m) name =
      Some (?r\<lparr>active_acquisitions := int n - int j\<rparr>)" if "j < n" for j
    using release_some [OF busy, where k = j and t = t] that by simp
  have last: "dict_get ((do_release name t ^^ n) ?m) name =
      Some (rec\<lparr>m_state := IDLE, active_acquisitions := 0, last_active_at := Some t\<rparr>)"
    using release_last [OF some [of n'], of t] by (simp add: n)
  from some [OF assms(4)] last show ?thesis by simp
qed

lemma nested_acquisitions_witness:
  "\<exists>rec. dict_get ((do_release ''qwen'' 9 ^^ 2) ((do_acquire ''qwen'' 5 ^^ 3) demo_ready)) ''qwen'' =
     Some rec \<and> m_state rec = BUSY \<and> active_acquisitions rec = 1"
  using nested_acquisitions [of demo_ready "''qwen''" _ 2 3 9 5]
  by (simp add: demo_ready_eq new_record_def)

text \<open>Marking a BUSY model READY keeps its acquisition count, so the holder's release fails and
  leaves the dictionary unchanged, and after the next acquire and release the model is still BUSY
  with the old count: the acquisition has leaked.\<close>

theorem ready_while_busy_leaks:
  assumes "dict_get m name = Some rec" and "m_state rec = BUSY" and "1 \<le> active_acquisitions rec"
  shows "fst (record_release name t (snd (record_ready name obs m))) =
           Inl (InvalidStateTransitionError READY None) \<and>
         snd (record_release name t (snd (record_ready name obs m))) = snd (record_ready name obs m) \<and>
         dict_get (do_release name t' (do_acquire name s (snd (record_ready name obs m)))) name =
           Some (rec\<lparr>observed_residency := obs, confirmed_physical_unload := False,
                     last_active_at := Some s\<rparr>)"
proof -
  let ?r = "rec\<lparr>m_state := READY, observed_residency := obs, confirmed_physical_unload := False\<rparr>"
  have ready: "dict_get (snd (record_ready name obs m)) name = Some ?r"
    using assms by (simp add: record_ready_def on_record_def ready_update_def transition_to_def)
  have busy: "dict_get (do_acquire name s (snd (record_ready name obs m))) name = Some (?r\<lparr>m_state := BUSY,
      active_acquisitions := active_acquisitions ?r + 1, last_active_at := Some s\<rparr>)"
    using acquire_busy [OF ready] by simp
  from release_busy [OF busy, of t'] ready assms show ?thesis
    by (simp add: record_release_def on_record_def release_update_def)
qed

lemma ready_while_busy_leaks_witness:
  "\<exists>rec. dict_get (do_release ''qwen'' 9 (do_acquire ''qwen'' 8
      (snd (record_ready ''qwen'' True (do_acquire ''qwen'' 5 demo_ready))))) ''qwen'' = Some rec \<and>
    m_state rec = BUSY \<and> active_acquisitions rec = 1"
proof -
  have "dict_get demo_ready ''qwen'' = Some ((new_record demo_registration)
      \<lparr>m_state := READY, observed_residency := True\<rparr>)" by (simp add: demo_ready_eq)
  from acquire_busy [OF this, of 5]
  show ?thesis
    using ready_while_busy_leaks [of "do_acquire ''qwen'' 5 demo_ready" "''qwen''" _ 6 True 9 8]
    by (simp add: new_record_def)
qed

text \<open>Eviction never changes a BUSY model, whether it was BUSY at the call or became BUSY while
  the hook ran; nothing changes when there is no hook or the hook fails; and a successful hook
  leaves a READY, IDLE or failed model unloaded, not resident and confirmed. On an already unloaded model the successful hook ends in an error.\<close>

theorem eviction_outcomes:
  assumes guard: "evict_guard name m = Inr ()"
    and rec: "dict_get (during m) name = Some rec"
  shows "(m_state rec = BUSY \<longrightarrow>
            trigger_eviction name (Some (Some True)) during m = (Inr True, during m)) \<and>
         trigger_eviction name None during m = (Inr False, m) \<and>
         trigger_eviction name (Some None) during m = (Inr False, during m) \<and>
         trigger_eviction name (Some (Some False)) during m = (Inr False, during m) \<and>
         (m_state rec \<in> {READY, IDLE, MODEL_ERROR} \<longrightarrow>
            trigger_eviction name (Some (Some True)) during m =
              (Inr True, dict_set name (rec\<lparr>m_state := UNLOADED, observed_residency := False,
                 confirmed_physical_unload := True\<rparr>) (during m))) \<and>
         (m_state rec = UNLOADED \<longrightarrow>
            trigger_eviction name (Some (Some True)) during m =
              (Inl (InvalidStateTransitionError UNLOADED (Some UNLOADED)), during m))"
  using assms by (auto simp: trigger_eviction_def evict_commit_def transition_to_def)

lemma eviction_outcomes_witness:
  "trigger_eviction ''qwen'' (Some (Some True)) (do_acquire ''qwen'' 5) demo_ready =
     (Inr True, do_acquire ''qwen'' 5 demo_ready)"
proof -
  have g: "evict_guard ''qwen'' demo_ready = Inr ()"
    by (simp add: evict_guard_def get_record_def demo_ready_eq new_record_def)
  have "dict_get demo_ready ''qwen'' = Some ((new_record demo_registration)
      \<lparr>m_state := READY, observed_residency := True\<rparr>)" by (simp add: demo_ready_eq)
  from eviction_outcomes [where during = "do_acquire ''qwen'' 5", OF g acquire_busy [OF this]]
  show ?thesis by simp
qed

end
