(* ===== verification/Permissions.thy ===== *)
theory Permissions
  imports Tom_Prelude
begin

text \<open>
  Models \<open>python/tom/security/permissions.py\<close>: the three permission levels, the default table of
  tool permissions, the escalation of personal tools, and \<open>PermissionEngine\<close> with its scan for
  blocked commands, its overrides and \<open>evaluate\<close>. JSON-like arguments are a datatype; lists,
  tuples and sets are one constructor, in iteration order. The secret scanner of the memory
  policy (regular expressions and an entropy estimate in floating point) is a parameter.
  \<open>ValueError\<close> of \<open>PermissionLevel(value)\<close> is the result \<open>None\<close>.
\<close>

subsection \<open>Levels and decisions\<close>

datatype permission_level = SAFE | ASK_USER | BLOCK

definition level_from_str :: "string \<Rightarrow> permission_level option" where
  "level_from_str value =
     (let clean = upper (strip value)
      in if clean = ''ASK'' then Some ASK_USER
         else if clean = ''SAFE'' then Some SAFE
         else if clean = ''ASK_USER'' then Some ASK_USER
         else if clean = ''BLOCK'' then Some BLOCK
         else None)"

definition default_tool_permissions :: "(string, permission_level) dict" where
  "default_tool_permissions =
    [(''system.cpu_info'', SAFE),
     (''system.memory_info'', SAFE),
     (''system.gpu_info'', SAFE),
     (''system.battery_info'', SAFE),
     (''system.disk_info'', SAFE),
     (''system.list_processes'', SAFE),
     (''system.get_snapshot'', SAFE),
     (''web.search'', SAFE),
     (''web.fetch'', SAFE),
     (''files.list_directory'', SAFE),
     (''files.read_file'', SAFE),
     (''files.search_files'', SAFE),
     (''files.file_info'', SAFE),
     (''files.write_file'', ASK_USER),
     (''files.delete_file'', ASK_USER),
     (''files.get_metadata'', SAFE),
     (''files.copy_file'', ASK_USER),
     (''memory.remember'', SAFE),
     (''memory.recall'', SAFE),
     (''memory.forget'', ASK_USER),
     (''memory.recent'', SAFE),
     (''memory.preferences'', SAFE),
     (''memory.search'', SAFE),
     (''memory.status'', SAFE),
     (''personal.note'', SAFE),
     (''personal.calendar'', SAFE),
     (''personal.reminder'', SAFE),
     (''voice.announce'', SAFE),
     (''voice.status'', SAFE),
     (''vision.capture'', SAFE),
     (''vision.ocr'', SAFE),
     (''vision.find_element'', SAFE),
     (''vision.ask'', SAFE),
     (''vision.analyze'', SAFE),
     (''os.input.get_cursor_pos'', SAFE),
     (''os.input.click'', ASK_USER),
     (''os.input.type_text'', ASK_USER),
     (''os.input.hotkey'', ASK_USER)]"

definition personal_action_escalation :: "(string, string list) dict" where
  "personal_action_escalation =
     [(''personal.note'', [''retrieve'']), (''personal.calendar'', [''retrieve'']),
      (''personal.reminder'', [''retrieve''])]"

datatype decision_reason =
    EmptyToolName | NotATool | BlockedCommand string | SecretContent | Prohibited string
  | ConfirmationRequired string | AutoConfirmed string | SafeTool string

record decision =
  allowed :: bool
  requires_confirmation :: bool
  reason :: decision_reason
  level :: permission_level

definition allow :: "permission_level \<Rightarrow> decision_reason \<Rightarrow> decision" where
  "allow lvl r = \<lparr>allowed = True, requires_confirmation = False, reason = r, level = lvl\<rparr>"

definition ask_user :: "decision_reason \<Rightarrow> permission_level \<Rightarrow> decision" where
  "ask_user r lvl = \<lparr>allowed = True, requires_confirmation = True, reason = r, level = lvl\<rparr>"

definition deny :: "decision_reason \<Rightarrow> permission_level \<Rightarrow> decision" where
  "deny r lvl = \<lparr>allowed = False, requires_confirmation = False, reason = r, level = lvl\<rparr>"

subsection \<open>Arguments and the engine's state\<close>

datatype payload =
    PStr string | PDict "(string \<times> payload) list" | PSeq "payload list" | POther

datatype tool_arg =
    ToolDef string permission_level | ToolStr string | OtherTool

record engine =
  require_confirmation_for_ask :: bool
  blocked_commands :: "string list"
  overrides :: "(string, permission_level) dict"

definition default_blocked_commands :: "string list" where
  "default_blocked_commands =
     [''rmdir /s'', ''format'', ''diskpart'', ''reg delete'', ''shutdown'', ''drop database'']"

definition default_engine :: engine where
  "default_engine = \<lparr>require_confirmation_for_ask = True,
     blocked_commands = default_blocked_commands, overrides = []\<rparr>"

subsection \<open>Scanning for blocked commands\<close>

definition is_blocked_command :: "engine \<Rightarrow> string \<Rightarrow> bool" where
  "is_blocked_command e text =
     list_ex (\<lambda>blocked. contains_sub (lower blocked) (lower text)) (blocked_commands e)"

text \<open>The first element of a sequence for which the scan finds something.\<close>

fun find_blocked_command :: "engine \<Rightarrow> payload \<Rightarrow> string option"
  and find_in_values :: "engine \<Rightarrow> (string \<times> payload) list \<Rightarrow> string option"
  and find_in_items :: "engine \<Rightarrow> payload list \<Rightarrow> string option" where
  "find_blocked_command e (PStr s) =
     find (\<lambda>blocked. contains_sub (lower blocked) (lower s)) (blocked_commands e)"
| "find_blocked_command e (PDict d) = find_in_values e d"
| "find_blocked_command e (PSeq items) = find_in_items e items"
| "find_blocked_command e POther = None"
| "find_in_values e [] = None"
| "find_in_values e ((k, v) # d) =
     (case find_blocked_command e v of None \<Rightarrow> find_in_values e d | Some b \<Rightarrow> Some b)"
| "find_in_items e [] = None"
| "find_in_items e (v # vs) =
     (case find_blocked_command e v of None \<Rightarrow> find_in_items e vs | Some b \<Rightarrow> Some b)"

subsection \<open>Evaluation\<close>

type_synonym params = "(string \<times> payload) list option"

definition has_params :: "params \<Rightarrow> bool" where
  "has_params ps = (case ps of None \<Rightarrow> False | Some d \<Rightarrow> d \<noteq> [])"

definition param :: "string \<Rightarrow> params \<Rightarrow> payload option" where
  "param k ps = (case ps of None \<Rightarrow> None | Some d \<Rightarrow> dict_get d k)"

definition resolve_base_level :: "tool_arg \<Rightarrow> string \<Rightarrow> (decision + (string \<times> permission_level)) option" where
  "resolve_base_level tool default_level =
     (case tool of
        ToolDef name lvl \<Rightarrow> Some (Inr (name, lvl))
      | OtherTool \<Rightarrow> Some (Inl (deny NotATool BLOCK))
      | ToolStr s \<Rightarrow>
          (let name = strip s
           in if name = [] then Some (Inl (deny EmptyToolName BLOCK))
              else case (if default_level = ''SAFE'' then dict_get default_tool_permissions name else None) of
                     Some lvl \<Rightarrow> Some (Inr (name, lvl))
                   | None \<Rightarrow> map_option (\<lambda>lvl. Inr (name, lvl)) (level_from_str default_level)))"

definition blocked_match :: "engine \<Rightarrow> params \<Rightarrow> string option" where
  "blocked_match e ps =
     (if has_params ps
      then case find_blocked_command e (PDict (the ps)) of
             None \<Rightarrow> None
           | Some b \<Rightarrow> if b = [] then None else Some b
      else None)"

text \<open>The escalation of \<open>memory.remember\<close>: a denial, or the level the importance asks for.\<close>

definition remember_level ::
  "(string \<Rightarrow> bool) \<Rightarrow> string \<Rightarrow> params \<Rightarrow> permission_level \<Rightarrow> decision + permission_level" where
  "remember_level scan name ps base =
     (if name = ''memory.remember'' \<and> has_params ps
      then if (case param ''content'' ps of Some (PStr c) \<Rightarrow> c \<noteq> [] \<and> scan c | _ \<Rightarrow> False)
           then Inl (deny SecretContent BLOCK)
           else case param ''importance'' ps of
                  Some (PStr i) \<Rightarrow> if upper i \<in> {''IMPORTANT'', ''CRITICAL''} then Inr ASK_USER else Inr base
                | _ \<Rightarrow> Inr base
      else Inr base)"

definition personal_level :: "string \<Rightarrow> params \<Rightarrow> permission_level \<Rightarrow> permission_level" where
  "personal_level name ps lvl =
     (case dict_get personal_action_escalation name of
        None \<Rightarrow> lvl
      | Some read_actions \<Rightarrow>
          (case param ''action'' ps of
             Some (PStr a) \<Rightarrow> if a \<in> set read_actions then lvl else ASK_USER
           | _ \<Rightarrow> ASK_USER))"

definition effective_level ::
  "(string \<Rightarrow> bool) \<Rightarrow> engine \<Rightarrow> string \<Rightarrow> params \<Rightarrow> permission_level \<Rightarrow> decision + permission_level" where
  "effective_level scan e name ps base =
     (case dict_get (overrides e) name of
        Some lvl \<Rightarrow> Inr lvl
      | None \<Rightarrow> (case remember_level scan name ps base of
                   Inl d \<Rightarrow> Inl d
                 | Inr lvl \<Rightarrow> Inr (personal_level name ps lvl)))"

definition decide_level :: "engine \<Rightarrow> string \<Rightarrow> permission_level \<Rightarrow> decision" where
  "decide_level e name lvl =
     (case lvl of
        BLOCK \<Rightarrow> deny (Prohibited name) BLOCK
      | ASK_USER \<Rightarrow> if require_confirmation_for_ask e
                    then ask_user (ConfirmationRequired name) ASK_USER
                    else allow ASK_USER (AutoConfirmed name)
      | SAFE \<Rightarrow> allow SAFE (SafeTool name))"

definition evaluate ::
  "(string \<Rightarrow> bool) \<Rightarrow> engine \<Rightarrow> tool_arg \<Rightarrow> params \<Rightarrow> string \<Rightarrow> decision option" where
  "evaluate scan e tool ps default_level =
     (case resolve_base_level tool default_level of
        None \<Rightarrow> None
      | Some (Inl d) \<Rightarrow> Some d
      | Some (Inr (name, base)) \<Rightarrow>
          (case blocked_match e ps of
             Some b \<Rightarrow> Some (deny (BlockedCommand b) BLOCK)
           | None \<Rightarrow> (case effective_level scan e name ps base of
                        Inl d \<Rightarrow> Some d
                      | Inr lvl \<Rightarrow> Some (decide_level e name lvl))))"

definition set_override :: "string \<Rightarrow> string \<Rightarrow> engine \<Rightarrow> engine option" where
  "set_override name lvl e =
     map_option (\<lambda>l. e\<lparr>overrides := dict_set name l (overrides e)\<rparr>) (level_from_str lvl)"

definition remove_override :: "string \<Rightarrow> engine \<Rightarrow> engine" where
  "remove_override name e = e\<lparr>overrides := dict_del name (overrides e)\<rparr>"

definition get_override :: "string \<Rightarrow> engine \<Rightarrow> permission_level option" where
  "get_override name e = dict_get (overrides e) name"

definition clear_overrides :: "engine \<Rightarrow> engine" where
  "clear_overrides e = e\<lparr>overrides := []\<rparr>"

subsection \<open>What the scan finds\<close>

text \<open>The texts a nested argument holds: strings, and those of dictionary values and items.\<close>

inductive text_in :: "string \<Rightarrow> payload \<Rightarrow> bool" where
  text_str: "text_in s (PStr s)"
| text_value: "(k, v) \<in> set d \<Longrightarrow> text_in s v \<Longrightarrow> text_in s (PDict d)"
| text_item: "v \<in> set items \<Longrightarrow> text_in s v \<Longrightarrow> text_in s (PSeq items)"

inductive_simps text_in_simps [simp]:
  "text_in s (PStr t)" "text_in s (PDict d)" "text_in s (PSeq items)" "text_in s POther"

lemma find_blocked_str:
  "find_blocked_command e (PStr s) \<noteq> None \<longleftrightarrow> is_blocked_command e s"
  by (auto simp: is_blocked_command_def list_ex_iff find_None_iff)

lemma find_blocked_spec:
  "find_blocked_command e p \<noteq> None \<longleftrightarrow> (\<exists>s. text_in s p \<and> is_blocked_command e s)"
  "find_in_values e d \<noteq> None \<longleftrightarrow> (\<exists>s. text_in s (PDict d) \<and> is_blocked_command e s)"
  "find_in_items e items \<noteq> None \<longleftrightarrow> (\<exists>s. text_in s (PSeq items) \<and> is_blocked_command e s)"
proof (induction e p and e d and e items
    rule: find_blocked_command_find_in_values_find_in_items.induct)
  case (1 e s)
  then show ?case using find_blocked_str by (simp del: find_blocked_command.simps)
next
  case (6 e k v d)
  then show ?case by (cases "find_blocked_command e v") auto
next
  case (8 e v vs)
  then show ?case by (cases "find_blocked_command e v") auto
qed auto

lemma find_blocked_listed:
  "find_blocked_command e p = Some b \<Longrightarrow> b \<in> set (blocked_commands e)"
  "find_in_values e d = Some b \<Longrightarrow> b \<in> set (blocked_commands e)"
  "find_in_items e items = Some b \<Longrightarrow> b \<in> set (blocked_commands e)"
  by (induction e p and e d and e items rule: find_blocked_command_find_in_values_find_in_items.induct)
    (auto simp: find_Some_iff split: option.splits)

lemma blocked_match_spec:
  assumes "[] \<notin> set (blocked_commands e)"
  shows "blocked_match e ps \<noteq> None \<longleftrightarrow>
     (\<exists>d s. ps = Some d \<and> text_in s (PDict d) \<and> is_blocked_command e s)"
proof (cases "has_params ps")
  case False
  then show ?thesis
    by (cases ps) (auto simp: blocked_match_def has_params_def)
next
  case True
  then obtain d where d: "ps = Some d" by (cases ps) (auto simp: has_params_def)
  have "blocked_match e ps \<noteq> None \<longleftrightarrow> find_blocked_command e (PDict d) \<noteq> None"
    using True find_blocked_listed(1) [of e "PDict d"] assms
    by (auto simp: blocked_match_def d split: option.splits)
  with d find_blocked_spec(1) [of e "PDict d"] show ?thesis by auto
qed

subsection \<open>Levels ordered by restriction\<close>

fun level_rank :: "permission_level \<Rightarrow> nat" where
  "level_rank SAFE = 0"
| "level_rank ASK_USER = 1"
| "level_rank BLOCK = 2"

lemma level_rank_eq: "level_rank a = level_rank b \<longleftrightarrow> a = b"
  by (cases a; cases b) simp_all

instantiation permission_level :: linorder
begin

definition less_eq_permission_level :: "permission_level \<Rightarrow> permission_level \<Rightarrow> bool" where
  "less_eq_permission_level a b \<longleftrightarrow> level_rank a \<le> level_rank b"

definition less_permission_level :: "permission_level \<Rightarrow> permission_level \<Rightarrow> bool" where
  "less_permission_level a b \<longleftrightarrow> level_rank a < level_rank b"

instance
  by standard (auto simp: less_eq_permission_level_def less_permission_level_def level_rank_eq)

end

lemma level_order [simp]:
  "SAFE \<le> l" "l \<le> BLOCK" "ASK_USER \<le> l \<longleftrightarrow> l \<noteq> SAFE"
  by (cases l; simp add: less_eq_permission_level_def)+

lemma personal_level_ge: "base \<noteq> BLOCK \<Longrightarrow> base \<le> personal_level name ps base"
  by (cases base) (auto simp: personal_level_def split: option.splits payload.splits)

lemma remember_level_ge:
  "base \<noteq> BLOCK \<Longrightarrow> remember_level scan name ps base = Inr lvl \<Longrightarrow> base \<le> lvl \<and> lvl \<noteq> BLOCK"
  by (cases base) (auto simp: remember_level_def split: option.splits payload.splits if_splits)

subsection \<open>Properties of the engine\<close>

lemma decide_level_allowed:
  "allowed (decide_level e name lvl) \<longleftrightarrow> lvl \<noteq> BLOCK"
  "level (decide_level e name lvl) = lvl"
  "requires_confirmation (decide_level e name lvl) \<longleftrightarrow>
     lvl = ASK_USER \<and> require_confirmation_for_ask e"
  by (cases lvl; simp add: decide_level_def deny_def allow_def ask_user_def)+

lemma remember_denies: "remember_level scan name ps base = Inl d \<Longrightarrow> \<not> allowed d"
  by (auto simp: remember_level_def deny_def split: if_splits option.splits payload.splits)

lemma resolve_denies: "resolve_base_level tool dl = Some (Inl d) \<Longrightarrow> \<not> allowed d"
  by (auto simp: resolve_base_level_def deny_def Let_def split: tool_arg.splits option.splits if_splits)

lemma evaluate_allowed:
  assumes "evaluate scan e tool ps dl = Some d" and "allowed d"
  obtains name base lvl where "resolve_base_level tool dl = Some (Inr (name, base))"
    and "blocked_match e ps = None" and "effective_level scan e name ps base = Inr lvl"
    and "d = decide_level e name lvl"
  using assms
  by (auto simp: evaluate_def effective_level_def deny_def resolve_denies remember_denies
      split: option.splits sum.splits prod.splits)

text \<open>The scan for blocked commands finds something exactly when some text nested anywhere in the
  argument (in dictionary values, lists, tuples or sets) contains a blocked command.\<close>

theorem blocked_scan_exact:
  "find_blocked_command e p \<noteq> None \<longleftrightarrow> (\<exists>s. text_in s p \<and> is_blocked_command e s)"
  by (rule find_blocked_spec(1))

text \<open>C3: Soundness of a permission. An allowed call is never at level BLOCK. If no entry of the list of blocked commands
  is empty, no text of its arguments, at any depth, contains a blocked command (an empty entry switches the scan off, see
  \<open>empty_entry_disables_scan\<close>). If the engine requires confirmation for ASK_USER, a call allowed without
  confirmation is at level SAFE.\<close>

theorem permission_sound:
  assumes "evaluate scan e tool ps dl = Some d" and "allowed d"
  shows "level d \<noteq> BLOCK \<and>
         ([] \<notin> set (blocked_commands e) \<longrightarrow> (\<nexists>args s. ps = Some args \<and> text_in s (PDict args) \<and> is_blocked_command e s)) \<and>
         (require_confirmation_for_ask e \<and> \<not> requires_confirmation d \<longrightarrow> level d = SAFE)"
proof -
  obtain name base lvl where "blocked_match e ps = None" and d: "d = decide_level e name lvl"
    using evaluate_allowed [OF assms] by metis
  with blocked_match_spec [of e ps]
  have "[] \<notin> set (blocked_commands e) \<longrightarrow> (\<nexists>args s. ps = Some args \<and> text_in s (PDict args) \<and> is_blocked_command e s)" by blast
  moreover have "level d \<noteq> BLOCK" and
    "require_confirmation_for_ask e \<and> \<not> requires_confirmation d \<longrightarrow> level d = SAFE"
    using assms(2) by (cases lvl; simp add: d decide_level_allowed)+
  ultimately show ?thesis by blast
qed

lemma permission_sound_witness:
  "\<exists>d. evaluate (\<lambda>_. False) default_engine (ToolStr ''files.read_file'')
         (Some [(''path'', PStr ''notes.txt'')]) ''SAFE'' = Some d \<and> level d \<noteq> BLOCK"
proof -
  obtain d where d: "evaluate (\<lambda>_. False) default_engine (ToolStr ''files.read_file'')
      (Some [(''path'', PStr ''notes.txt'')]) ''SAFE'' = Some d" and "allowed d"
  proof -
    have "map_option allowed (evaluate (\<lambda>_. False) default_engine (ToolStr ''files.read_file'')
      (Some [(''path'', PStr ''notes.txt'')]) ''SAFE'') = Some True" by code_simp
    then show ?thesis using that by auto
  qed
  moreover have "[] \<notin> set (blocked_commands default_engine)"
    by (simp add: default_engine_def default_blocked_commands_def)
  ultimately show ?thesis using permission_sound by blast
qed

text \<open>A personal tool without an override whose action is not a listed read action is never
  run at SAFE level: its effective level is ASK_USER. The rule does not look at the base level,
  so it also lowers a base level BLOCK to ASK_USER.\<close>

theorem personal_mutation_asks:
  assumes "evaluate scan e tool ps dl = Some d" and "resolve_base_level tool dl = Some (Inr (name, base))"
    and "dict_get personal_action_escalation name = Some reads" and "dict_get (overrides e) name = None"
    and "\<And>a. param ''action'' ps = Some (PStr a) \<Longrightarrow> a \<notin> set reads"
    and "blocked_match e ps = None"
  shows "d = decide_level e name ASK_USER"
proof -
  have "name \<noteq> ''memory.remember''"
    using assms(3) by (auto simp: personal_action_escalation_def split: if_splits)
  then have "remember_level scan name ps base = Inr base" by (simp add: remember_level_def)
  moreover have "personal_level name ps base = ASK_USER"
    using assms(3,5) by (auto simp: personal_level_def split: option.splits payload.splits)
  ultimately show ?thesis
    using assms(1,2,4,6) by (simp add: evaluate_def effective_level_def)
qed

lemma personal_mutation_asks_witness:
  "evaluate (\<lambda>_. False) default_engine (ToolDef ''personal.note'' BLOCK)
     (Some [(''action'', PStr ''create'')]) ''SAFE'' =
   Some (ask_user (ConfirmationRequired ''personal.note'') ASK_USER)"
proof -
  have b: "blocked_match default_engine (Some [(''action'', PStr ''create'')]) = None" by code_simp
  obtain d where d: "evaluate (\<lambda>_. False) default_engine (ToolDef ''personal.note'' BLOCK)
     (Some [(''action'', PStr ''create'')]) ''SAFE'' = Some d"
    using b by (cases "effective_level (\<lambda>_. False) default_engine ''personal.note''
        (Some [(''action'', PStr ''create'')]) BLOCK") (auto simp: evaluate_def resolve_base_level_def)
  from personal_mutation_asks [OF d, of "''personal.note''" BLOCK "[''retrieve'']"] b
  have "d = decide_level default_engine ''personal.note'' ASK_USER"
    by (simp add: resolve_base_level_def personal_action_escalation_def default_engine_def param_def)
  with d show ?thesis by (simp add: decide_level_def default_engine_def)
qed

text \<open>Without an override escalation only tightens: the effective level of a tool whose base
  level is SAFE or ASK_USER is at least its base level.\<close>

theorem escalation_tightens:
  assumes "dict_get (overrides e) name = None" and "base \<noteq> BLOCK"
    and "effective_level scan e name ps base = Inr lvl"
  shows "base \<le> lvl"
proof -
  obtain l1 where l1: "remember_level scan name ps base = Inr l1" and lvl: "lvl = personal_level name ps l1"
    using assms(1,3) by (auto simp: effective_level_def split: sum.splits)
  have "base \<le> l1" and "l1 \<noteq> BLOCK" using remember_level_ge [OF assms(2) l1] by auto
  with personal_level_ge [of l1 name ps] lvl show ?thesis by simp
qed

lemma escalation_tightens_witness:
  "effective_level (\<lambda>_. False) default_engine ''memory.remember''
     (Some [(''importance'', PStr ''critical'')]) SAFE = Inr ASK_USER \<and> SAFE \<le> ASK_USER"
proof -
  have e: "effective_level (\<lambda>_. False) default_engine ''memory.remember''
     (Some [(''importance'', PStr ''critical'')]) SAFE = Inr ASK_USER" by code_simp
  from escalation_tightens [OF _ _ e] e show ?thesis by (simp add: default_engine_def)
qed

text \<open>An empty entry at the head of the configured blocked commands switches the scan off: it
  matches every text, and the empty match counts as no match, so nothing is blocked any more.\<close>

theorem empty_entry_disables_scan:
  assumes "blocked_commands e = [] # rest"
  shows "blocked_match e ps = None \<and> is_blocked_command e text"
proof -
  have "find_blocked_command e p = Some b \<Longrightarrow> b = []"
      and "find_in_values e d = Some b \<Longrightarrow> b = []" and "find_in_items e items = Some b \<Longrightarrow> b = []" for p d items b
    using assms
    by (induction e p and e d and e items rule: find_blocked_command_find_in_values_find_in_items.induct)
      (auto simp: lower_def split: option.splits)
  then show ?thesis
    using assms by (auto simp: blocked_match_def is_blocked_command_def lower_def split: option.splits)
qed

lemma empty_entry_disables_scan_witness:
  "blocked_match (default_engine\<lparr>blocked_commands := [[], ''shutdown'']\<rparr>)
     (Some [(''cmd'', PStr ''shutdown'')]) = None"
  using empty_entry_disables_scan [of "default_engine\<lparr>blocked_commands := [[], ''shutdown'']\<rparr>" "[''shutdown'']"]
  by simp

end
