(* ===== verification/Confirmation.thy ===== *)
theory Confirmation
  imports Permissions "HOL-Library.Char_ord" "HOL-Library.List_Lexorder"
begin

text \<open>
  Models \<open>python/tom/security/confirmation.py\<close> and \<open>audit.py\<close>: the sliding-window \<open>ConfirmationTracker\<close>, and the
  hooks that answer a confirmation request. What the awaited callback or the console input does
  (answers, raises, passes its deadline, is cancelled) is an argument; the audit log is a list of
  entries, and whether the logging call succeeds is an argument too. Clock readings are rational
  arguments. The prompt's text, the time stamps and the durations are left out.
\<close>

subsection \<open>The prompt limiter\<close>

record tracker =
  max_prompts :: int
  window_seconds :: rat
  cooldown_seconds :: rat
  history :: "rat list"
  cooldown_until :: rat

definition new_tracker :: "int \<Rightarrow> rat \<Rightarrow> rat \<Rightarrow> tracker" where
  "new_tracker limit window cooldown = \<lparr>max_prompts = limit, window_seconds = window,
     cooldown_seconds = cooldown, history = [], cooldown_until = 0\<rparr>"

definition default_tracker :: tracker where
  "default_tracker = new_tracker 5 30 10"

definition is_in_cooldown :: "rat \<Rightarrow> tracker \<Rightarrow> bool" where
  "is_in_cooldown now t \<longleftrightarrow> now < cooldown_until t"

definition tracker_acquire :: "rat \<Rightarrow> tracker \<Rightarrow> bool \<times> tracker" where
  "tracker_acquire now t =
     (if now < cooldown_until t then (False, t)
      else let h = dropWhile (\<lambda>x. x \<le> now - window_seconds t) (history t)
           in if max_prompts t \<le> int (length h)
              then (False, t\<lparr>history := [], cooldown_until := now + cooldown_seconds t\<rparr>)
              else (True, t\<lparr>history := h @ [now]\<rparr>))"

definition tracker_reset :: "tracker \<Rightarrow> tracker" where
  "tracker_reset t = t\<lparr>history := [], cooldown_until := 0\<rparr>"

text \<open>Consecutive requests at the given times: the times of the granted ones.\<close>

fun run_tracker :: "rat list \<Rightarrow> tracker \<Rightarrow> rat list \<times> tracker" where
  "run_tracker [] t = ([], t)"
| "run_tracker (now # ts) t =
     (let (ok, t1) = tracker_acquire now t;
          (granted, t2) = run_tracker ts t1
      in (if ok then now # granted else granted, t2))"

subsection \<open>Hooks\<close>

record conf_request =
  req_tool_name :: string
  req_description :: string
  req_params :: "(string \<times> payload) list"
  req_timeout :: rat

datatype audit_decision = GRANTED | DENIED | TIMED_OUT | RATE_BLOCKED
datatype audit_extra = NoExtra | NonInteractiveStdin | RateLimitExceeded

record audit_entry =
  au_tool :: string
  au_decision :: audit_decision
  au_param_keys :: "string list"
  au_extra :: audit_extra

text \<open>\<open>log_decision\<close>: parameter values never enter the entry; a failing logger raises (\<open>None\<close>).\<close>

definition log_decision ::
  "bool \<Rightarrow> conf_request \<Rightarrow> audit_decision \<Rightarrow> audit_extra \<Rightarrow> audit_entry list \<Rightarrow> audit_entry list option"
  where
  "log_decision emits req d x entries =
     (if emits then Some (entries @ [\<lparr>au_tool = req_tool_name req, au_decision = d,
                                  au_param_keys = sort (dict_keys (req_params req)), au_extra = x\<rparr>])
      else None)"

text \<open>What an awaited answer does, and what the hook's caller sees.\<close>

datatype 'a awaited = Answers 'a | PassesDeadline | RaisesSecurityError | RaisesOther | IsCancelled

datatype hook_result = Answer bool | SecurityErrorOut | CancelledOut

definition effective_timeout :: "rat option \<Rightarrow> conf_request \<Rightarrow> rat" where
  "effective_timeout own req = (case own of Some s \<Rightarrow> s | None \<Rightarrow> req_timeout req)"

definition always_allow :: "conf_request \<Rightarrow> hook_result" where
  "always_allow req = Answer True"

definition always_deny :: "conf_request \<Rightarrow> hook_result" where
  "always_deny req = Answer False"

definition callback_request :: "bool awaited \<Rightarrow> hook_result" where
  "callback_request outcome =
     (case outcome of
        Answers b \<Rightarrow> Answer b
      | IsCancelled \<Rightarrow> CancelledOut
      | _ \<Rightarrow> Answer False)"

record console =
  con_tracker :: tracker
  con_check_stdin :: bool
  con_audit :: "audit_entry list"

definition affirmative :: "string \<Rightarrow> bool" where
  "affirmative input = (lower (strip input) \<in> {''y'', ''yes''})"

text \<open>The log call that ends every path of the console hook: its error replaces the result.\<close>

definition audited ::
  "bool \<Rightarrow> conf_request \<Rightarrow> audit_decision \<Rightarrow> audit_extra \<Rightarrow> hook_result \<Rightarrow> console \<Rightarrow> hook_result \<times> console"
  where
  "audited emits req d x res c =
     (case log_decision emits req d x (con_audit c) of
        None \<Rightarrow> (SecurityErrorOut, c)
      | Some entries \<Rightarrow> (res, c\<lparr>con_audit := entries\<rparr>))"

fun console_answer :: "string awaited \<Rightarrow> hook_result \<times> audit_decision" where
  "console_answer (Answers s) = (if affirmative s then (Answer True, GRANTED) else (Answer False, DENIED))"
| "console_answer PassesDeadline = (Answer False, TIMED_OUT)"
| "console_answer RaisesSecurityError = (SecurityErrorOut, DENIED)"
| "console_answer RaisesOther = (Answer False, DENIED)"
| "console_answer IsCancelled = (CancelledOut, DENIED)"

definition console_request ::
  "bool \<Rightarrow> conf_request \<Rightarrow> bool \<Rightarrow> rat \<Rightarrow> string awaited \<Rightarrow> console \<Rightarrow> hook_result \<times> console" where
  "console_request emits req isatty now input c =
     (if con_check_stdin c \<and> \<not> isatty
      then audited emits req DENIED NonInteractiveStdin (Answer False) c
      else let (permitted, t) = tracker_acquire now (con_tracker c);
               c1 = c\<lparr>con_tracker := t\<rparr>
           in if \<not> permitted
              then audited emits req RATE_BLOCKED RateLimitExceeded (Answer False) c1
              else let (res, d) = console_answer input
                   in audited emits req d NoExtra res c1)"

subsection \<open>The hook interface\<close>

text \<open>
  What the tool executor relies on: a hook answers \<open>True\<close> only on an explicit yes of whoever it
  asked. \<open>ask\<close> is the hook's method, \<open>consents\<close> the outcomes that are an explicit yes.
\<close>

locale confirmation_hook =
  fixes ask :: "conf_request \<Rightarrow> 'o \<Rightarrow> 's \<Rightarrow> hook_result \<times> 's"
    and consents :: "'o \<Rightarrow> bool"
  assumes fail_closed: "fst (ask req out st) = Answer True \<Longrightarrow> consents out"
begin

lemma no_consent_no_grant: "\<not> consents out \<Longrightarrow> fst (ask req out st) \<noteq> Answer True"
  using fail_closed by blast

fun ask_all :: "(conf_request \<times> 'o) list \<Rightarrow> 's \<Rightarrow> bool \<times> 's" where
  "ask_all [] st = (True, st)"
| "ask_all ((req, out) # rest) st =
     (let (r, st1) = ask req out st
      in if r = Answer True then ask_all rest st1 else (False, st1))"

lemma ask_all_consented: "fst (ask_all calls st) \<Longrightarrow> list_all (\<lambda>(req, out). consents out) calls"
proof (induction calls arbitrary: st)
  case (Cons c rest)
  obtain req out where c: "c = (req, out)" by (cases c)
  obtain r st1 where r: "ask req out st = (r, st1)" by fastforce
  with Cons c show ?case
    using fail_closed [of req out st] by (auto split: if_splits)
qed simp

end

interpretation ch_deny: confirmation_hook "\<lambda>req out st. (always_deny req, st)" "\<lambda>_. False"
  by unfold_locales (simp add: always_deny_def)

interpretation ch_callback: confirmation_hook "\<lambda>req out st. (callback_request out, st)"
  "\<lambda>out. out = Answers True"
  by unfold_locales (auto simp: callback_request_def split: awaited.splits)

lemma console_answer_True: "console_answer i = (Answer True, d) \<Longrightarrow>
    d = GRANTED \<and> (\<exists>s. i = Answers s \<and> affirmative s)"
  by (cases i) (auto split: if_splits)

interpretation ch_console: confirmation_hook
  "\<lambda>req (emits, isatty, now, input) c. console_request emits req isatty now input c"
  "\<lambda>(emits, isatty, now, input). emits \<and> (\<exists>s. input = Answers s \<and> affirmative s)"
  by unfold_locales
    (auto simp: console_request_def audited_def log_decision_def Let_def
      split: prod.splits if_splits option.splits dest: console_answer_True)

subsection \<open>The limiter's window\<close>

text \<open>
  A ghost state: \<open>before\<close> holds the prompts granted before the last refusal by the limit,
  \<open>since\<close> those after it, and \<open>now\<close> is the latest request. Every window that ends at or after
  \<open>now\<close> meets \<open>since\<close> and the kept history in the same prompts.
\<close>

definition in_window :: "rat \<Rightarrow> rat \<Rightarrow> rat list \<Rightarrow> rat list" where
  "in_window w x gs = filter (\<lambda>g. x - w < g) gs"

definition window_inv :: "rat list \<Rightarrow> rat list \<Rightarrow> rat \<Rightarrow> tracker \<Rightarrow> bool" where
  "window_inv before since now t \<longleftrightarrow>
     (\<forall>g\<in>set before. g \<le> cooldown_until t - cooldown_seconds t \<and> g \<le> now) \<and>
     (\<forall>g\<in>set since. g \<le> now) \<and> sorted (history t) \<and> set (history t) \<subseteq> set since \<and>
     (\<forall>x\<ge>now. in_window (window_seconds t) x since = in_window (window_seconds t) x (history t))"

lemma evict_sorted:
  "sorted xs \<Longrightarrow> dropWhile (\<lambda>x. x \<le> (c :: rat)) xs = filter (\<lambda>x. c < x) xs"
proof (induction xs)
  case (Cons a xs)
  show ?case
  proof (cases "a \<le> c")
    case False
    with Cons.prems have "\<forall>x\<in>set (a # xs). c < x" by fastforce
    then show ?thesis using False by (simp add: filter_id_conv)
  qed (use Cons in simp)
qed simp

lemma in_window_twice:
  "now \<le> x \<Longrightarrow> in_window w x (in_window w now gs) = in_window w x gs"
  by (auto simp: in_window_def intro!: filter_cong)

lemma in_window_append [simp]: "in_window w x (gs @ hs) = in_window w x gs @ in_window w x hs"
  by (simp add: in_window_def)

lemma tracker_evict:
  "sorted (history t) \<Longrightarrow> dropWhile (\<lambda>x. x \<le> now - window_seconds t) (history t) =
     in_window (window_seconds t) now (history t)"
  by (simp add: evict_sorted in_window_def)

lemma window_inv_refused:
  assumes inv: "window_inv before since prev t" and "prev \<le> now"
    and acq: "tracker_acquire now t = (False, t')"
  shows "window_inv before since now t' \<or> window_inv (before @ since) [] now t'"
proof (cases "now < cooldown_until t")
  case True
  with acq have "t' = t" by (simp add: tracker_acquire_def)
  with inv assms(2) show ?thesis by (fastforce simp: window_inv_def)
next
  case False
  with acq have "t' = t\<lparr>history := [], cooldown_until := now + cooldown_seconds t\<rparr>"
    by (auto simp: tracker_acquire_def Let_def split: if_splits)
  with inv assms(2) show ?thesis by (fastforce simp: window_inv_def in_window_def)
qed

lemma window_inv_granted:
  assumes inv: "window_inv before since prev t" and "prev \<le> now"
    and acq: "tracker_acquire now t = (True, t')"
  shows "window_inv before (since @ [now]) now t'" and "cooldown_until t \<le> now"
    and "int (length (in_window (window_seconds t) now since)) < max_prompts t"
proof -
  let ?w = "window_seconds t"
  have sorted: "sorted (history t)" using inv by (simp add: window_inv_def)
  have t': "t' = t\<lparr>history := in_window ?w now (history t) @ [now]\<rparr>" and "cooldown_until t \<le> now"
    and room: "int (length (in_window ?w now (history t))) < max_prompts t"
    using acq tracker_evict [OF sorted] by (auto simp: tracker_acquire_def Let_def split: if_splits)
  have same: "in_window ?w x since = in_window ?w x (history t)" if "now \<le> x" for x
    using inv assms(2) that by (simp add: window_inv_def)
  show "cooldown_until t \<le> now" by fact
  show "int (length (in_window ?w now since)) < max_prompts t"
    using room same [of now] by simp
  have "\<forall>g\<in>set (history t). g \<le> now" and sub: "set (history t) \<subseteq> set since"
    using inv assms(2) by (fastforce simp: window_inv_def)+
  then have "sorted (in_window ?w now (history t) @ [now])"
    using sorted by (auto simp: sorted_append in_window_def intro: sorted_filter [of id, simplified])
  moreover have "set (in_window ?w now (history t)) \<subseteq> set since"
    using sub by (auto simp: in_window_def)
  moreover have "\<forall>g\<in>set since. g \<le> now"
    and "\<forall>g\<in>set before. g \<le> cooldown_until t - cooldown_seconds t \<and> g \<le> now"
    using inv assms(2) by (fastforce simp: window_inv_def)+
  ultimately show "window_inv before (since @ [now]) now t'"
    using same by (auto simp: window_inv_def t' in_window_twice)
qed

lemma tracker_acquire_config:
  "tracker_acquire now t = (ok, t') \<Longrightarrow> max_prompts t' = max_prompts t \<and>
     window_seconds t' = window_seconds t \<and> cooldown_seconds t' = cooldown_seconds t"
  by (auto simp: tracker_acquire_def Let_def split: if_splits)

lemma run_tracker_window:
  assumes "window_inv before since prev t" and "sorted (prev # ts)"
    and "window_seconds t \<le> cooldown_seconds t" and "0 < window_seconds t"
    and "run_tracker ts t = (gs1 @ g # gs2, t')"
  shows "int (length (in_window (window_seconds t) g (before @ since @ gs1))) < max_prompts t"
  using assms
proof (induction ts arbitrary: before since prev t gs1)
  case (Cons now ts)
  obtain ok t1 where acq: "tracker_acquire now t = (ok, t1)" by fastforce
  obtain granted t2 where run: "run_tracker ts t1 = (granted, t2)" by fastforce
  note config = tracker_acquire_config [OF acq]
  have run_end: "t2 = t'" using Cons.prems(5) acq run by (auto split: if_splits)
  have le: "prev \<le> now" and rest: "sorted (now # ts)" using Cons.prems(2) by auto
  show ?case
  proof (cases ok)
    case False
    then have granted: "granted = gs1 @ g # gs2" using Cons.prems(5) acq run by simp
    from window_inv_refused [OF Cons.prems(1) le] acq False
    consider "window_inv before since now t1" | "window_inv (before @ since) [] now t1" by auto
    then show ?thesis
    proof cases
      case 1
      from Cons.IH [OF 1 rest, of gs1] config Cons.prems(3,4) run granted run_end show ?thesis by simp
    next
      case 2
      from Cons.IH [OF 2 rest, of gs1] config Cons.prems(3,4) run granted run_end show ?thesis by simp
    qed
  next
    case True
    with acq have "tracker_acquire now t = (True, t1)" by simp
    note grant = window_inv_granted [OF Cons.prems(1) le this]
    have out: "now # granted = gs1 @ g # gs2" using Cons.prems(5) acq run True by simp
    show ?thesis
    proof (cases gs1)
      case Nil
      then have "g = now" using out by simp
      moreover have "in_window (window_seconds t) now before = []"
        using Cons.prems(1,3) grant(2) by (fastforce simp: window_inv_def in_window_def filter_empty_conv)
      ultimately show ?thesis using grant(3) Nil by simp
    next
      case (Cons a gs1')
      then have a: "a = now" and granted: "granted = gs1' @ g # gs2" using out by auto
      from Cons.IH [OF grant(1) rest, of gs1'] config Cons.prems(3,4) run granted run_end
      show ?thesis by (simp add: Cons a)
    qed
  qed
qed simp

subsection \<open>Properties of the confirmation layer\<close>

text \<open>When the cooldown is at least as long as the window, no sequence of requests gets more
  than the configured number of prompts into one window: at each granted prompt, the prompts
  granted within the window that ends there, itself included, are at most max_prompts.\<close>

theorem prompts_bounded_in_window:
  assumes "sorted ts" and "0 < window" and "window \<le> cooldown"
    and "run_tracker ts (new_tracker limit window cooldown) = (gs1 @ g # gs2, t')"
  shows "int (length (filter (\<lambda>h. g - window < h) (gs1 @ [g]))) \<le> limit"
proof (cases ts)
  case Nil
  with assms(4) show ?thesis by simp
next
  case (Cons x xs)
  let ?t = "new_tracker limit window cooldown"
  have fields: "window_seconds ?t = window" "cooldown_seconds ?t = cooldown" "max_prompts ?t = limit"
    by (simp_all add: new_tracker_def)
  have "window_inv [] [] x ?t" by (simp add: window_inv_def new_tracker_def in_window_def)
  from run_tracker_window [OF this _ _ _ assms(4)] assms(1-3) Cons
  have "int (length (in_window window g gs1)) < limit" by (simp add: fields)
  then show ?thesis using assms(2) by (simp add: in_window_def)
qed

lemma prompts_bounded_in_window_witness:
  "int (length (filter (\<lambda>h. 40 - 30 < h) [0, 1, 40 :: rat])) \<le> 2"
proof -
  have "run_tracker [0, 1, 2, 40] (new_tracker 2 30 30) =
      ([0, 1] @ 40 # [], snd (run_tracker [0, 1, 2, 40] (new_tracker 2 30 30)))" by code_simp
  from prompts_bounded_in_window [OF _ _ _ this] show ?thesis by simp
qed

text \<open>The default configuration does not bound the window: the refusal that starts the 10 second
  cooldown clears the history, so 15 prompts are granted within 22 seconds although the limit is
  5 in 30 seconds.\<close>

theorem default_limit_exceeded:
  "fst (run_tracker [0, 0, 0, 0, 0, 1, 11, 11, 11, 11, 11, 12, 22, 22, 22, 22, 22] default_tracker) =
     [0, 0, 0, 0, 0, 11, 11, 11, 11, 11, 22, 22, 22, 22, 22]"
  unfolding default_tracker_def by code_simp

text \<open>C17: The console hook fails closed and leaves a trace: it answers True only when the terminal
  check passed, the limiter permitted the prompt, the input was an explicit yes before the
  deadline, and the audit log gained exactly one entry, which says GRANTED; a failed log call, a
  refused prompt, a missed deadline or an error is never True.\<close>

theorem console_grant_audited:
  assumes "console_request emits req isatty now input c = (Answer True, c')"
  shows "(isatty \<or> \<not> con_check_stdin c) \<and> fst (tracker_acquire now (con_tracker c)) \<and>
         (\<exists>s. input = Answers s \<and> lower (strip s) \<in> {''y'', ''yes''}) \<and>
         con_audit c' = con_audit c @ [\<lparr>au_tool = req_tool_name req, au_decision = GRANTED,
            au_param_keys = sort (dict_keys (req_params req)), au_extra = NoExtra\<rparr>]"
  using assms
  by (auto simp: console_request_def audited_def log_decision_def affirmative_def Let_def
      split: prod.splits if_splits option.splits dest: console_answer_True)

definition demo_request :: conf_request where
  "demo_request = \<lparr>req_tool_name = ''files.delete_file'', req_description = ''Delete a file'',
     req_params = [(''path'', PStr ''a.txt'')], req_timeout = 30\<rparr>"

definition demo_console :: console where
  "demo_console = \<lparr>con_tracker = default_tracker, con_check_stdin = True, con_audit = []\<rparr>"

lemma console_grant_audited_witness:
  "con_audit (snd (console_request True demo_request True 3 (Answers '' Yes '') demo_console)) =
     [\<lparr>au_tool = ''files.delete_file'', au_decision = GRANTED, au_param_keys = [''path''], au_extra = NoExtra\<rparr>]"
proof -
  obtain r c where run: "console_request True demo_request True 3 (Answers '' Yes '') demo_console = (r, c)"
    by fastforce
  have "fst (console_request True demo_request True 3 (Answers '' Yes '') demo_console) = Answer True"
    unfolding demo_request_def demo_console_def default_tracker_def by code_simp
  with run have "console_request True demo_request True 3 (Answers '' Yes '') demo_console = (Answer True, c)"
    by simp
  from console_grant_audited [OF this] run show ?thesis
    by (simp add: demo_request_def demo_console_def)
qed

text \<open>Every path of the console hook writes exactly one audit entry or raises a security error,
  and the log depends on the parameters only through their keys.\<close>

theorem console_audit_complete:
  assumes "console_request emits req isatty now input c = (r, c')"
    and "req_tool_name req' = req_tool_name req" and "dict_keys (req_params req') = dict_keys (req_params req)"
  shows "(r = SecurityErrorOut \<and> con_audit c' = con_audit c \<and> \<not> emits \<or>
          (\<exists>d x. con_audit c' = con_audit c @ [\<lparr>au_tool = req_tool_name req, au_decision = d,
             au_param_keys = sort (dict_keys (req_params req)), au_extra = x\<rparr>])) \<and>
         con_audit (snd (console_request emits req' isatty now input c)) = con_audit c'"
  using assms
  by (auto simp: console_request_def audited_def log_decision_def Let_def split: prod.splits if_splits)

lemma console_audit_complete_witness:
  "con_audit (snd (console_request True (demo_request\<lparr>req_params := [(''path'', PStr ''secret'')]\<rparr>)
      False 3 PassesDeadline demo_console)) =
   con_audit (snd (console_request True demo_request False 3 PassesDeadline demo_console))"
proof -
  obtain r c where run: "console_request True demo_request False 3 PassesDeadline demo_console = (r, c)"
    by fastforce
  from console_audit_complete [OF run, of "demo_request\<lparr>req_params := [(''path'', PStr ''secret'')]\<rparr>"] run
  show ?thesis by (simp add: demo_request_def)
qed

end
