(* ===== verification/Path_Policy.thy ===== *)
theory Path_Policy
  imports Tom_Prelude
begin

text \<open>
  Models \<open>python/tom/security/policies.py\<close>: \<open>PathPolicy\<close> with its checks in their order. Paths are
  Windows paths as \<open>pathlib\<close> parses them: a drive, a root and the list of component names. The
  file system (canonical resolution, symbolic links, existence and types) is a record of
  functions; \<open>None\<close> of the resolution is an exception. Letters are ASCII.
\<close>

subsection \<open>Windows paths\<close>

abbreviation backslash :: char where "backslash \<equiv> CHR 0x5C"
abbreviation slash :: char where "slash \<equiv> CHR ''/''"
abbreviation colon :: char where "colon \<equiv> CHR '':''"

record wpath =
  drive :: string
  root :: string
  names :: "string list"

definition to_backslash :: "string \<Rightarrow> string" where
  "to_backslash s = map (\<lambda>c. if c = slash then backslash else c) s"

text \<open>\<open>ntpath.splitroot\<close> on a text with backslashes only: drive, root and the rest.\<close>

definition split_unc :: "string \<Rightarrow> string \<times> string \<times> string" where
  "split_unc s =
     (let start = (if upper (take 8 s) = [backslash, backslash] @ ''?'' @ [backslash] @ ''UNC'' @ [backslash]
                   then 8 else 2);
          server = takeWhile (\<lambda>c. c \<noteq> backslash) (drop start s);
          after = drop (start + length server) s
      in if after = [] then (s, [], [])
         else let share = takeWhile (\<lambda>c. c \<noteq> backslash) (drop 1 after);
                  i = start + length server + 1 + length share
              in if drop i s = [] then (s, [], [])
                 else (take i s, [backslash], drop (i + 1) s))"

definition split_root :: "string \<Rightarrow> string \<times> string \<times> string" where
  "split_root s =
     (if take 1 s = [backslash]
      then if take 1 (drop 1 s) = [backslash] then split_unc s
           else ([], [backslash], drop 1 s)
      else if take 1 (drop 1 s) = [colon]
        then if take 1 (drop 2 s) = [backslash] then (take 2 s, [backslash], drop 3 s)
             else (take 2 s, [], drop 2 s)
      else ([], [], s))"

text \<open>\<open>Path(text)\<close>: a share without a root gets one, empty and \<open>.\<close> components disappear.\<close>

definition parse_path :: "string \<Rightarrow> wpath" where
  "parse_path text =
     (let (d, r, rel) = split_root (to_backslash text);
          dparts = split_on backslash d;
          r' = (if r = [] \<and> take 1 d = [backslash] \<and>
                   (length dparts = 4 \<and> dparts ! 2 \<notin> {''?'', ''.''} \<or> length dparts = 6)
                then [backslash] else r)
      in \<lparr>drive = d, root = r', names = filter (\<lambda>x. x \<noteq> [] \<and> x \<noteq> ''.'') (split_on backslash rel)\<rparr>)"

definition parts :: "wpath \<Rightarrow> string list" where
  "parts p = (if drive p @ root p = [] then names p else (drive p @ root p) # names p)"

definition is_absolute :: "wpath \<Rightarrow> bool" where
  "is_absolute p \<longleftrightarrow> drive p \<noteq> [] \<and> root p \<noteq> []"

definition join_path :: "wpath \<Rightarrow> wpath \<Rightarrow> wpath" where
  "join_path b p =
     (if root p \<noteq> [] then (if drive p \<noteq> [] \<or> drive b = [] then p else p\<lparr>drive := drive b\<rparr>)
      else if drive p \<noteq> [] \<and> lower (drive p) \<noteq> lower (drive b) then p
      else b\<lparr>names := names b @ names p\<rparr>)"

definition path_name :: "wpath \<Rightarrow> string" where
  "path_name p = (if names p = [] then [] else last (names p))"

definition is_relative_to :: "wpath \<Rightarrow> wpath \<Rightarrow> bool" where
  "is_relative_to p base \<longleftrightarrow>
     lower (drive p) = lower (drive base) \<and> root p = root base \<and>
     prefix (map lower (names base)) (map lower (names p))"

subsection \<open>The policy's data\<close>

definition sensitive_exact_names :: "string list" where
  "sensitive_exact_names = [''.env'', ''.env.local'', ''.env.production'', ''.env.test'', ''.env.staging'',
     ''credentials'', ''.credentials'', ''known_hosts'']"

text \<open>The patterns: five prefixes, two endings (a \<open>$\<close> also matches before a final newline), and
  one text anywhere.\<close>

definition sensitive_pattern :: "string \<Rightarrow> bool" where
  "sensitive_pattern n \<longleftrightarrow>
     list_ex (startswith n) [''id_rsa'', ''id_ed25519'', ''id_ecdsa'', ''id_dsa'', ''id_xmss''] \<or>
     list_ex (\<lambda>e. endswith n e \<or> endswith n (e @ [CHR 0x0A])) [''.pem'', ''.key''] \<or>
     contains_sub ''credentials'' n"

definition safe_names :: "string list" where
  "safe_names = [''.gitignore'', ''.gitattributes'', ''pyproject.toml'', ''setup.py'', ''setup.cfg'',
     ''requirements.txt'', ''requirements-dev.txt'', ''ruff.toml'', ''mypy.ini'', ''.flake8'',
     ''tools.yaml'', ''config.yaml'']"

definition windows_reserved_names :: "string list" where
  "windows_reserved_names = [''CON'', ''PRN'', ''AUX'', ''NUL'',
     ''COM1'', ''COM2'', ''COM3'', ''COM4'', ''COM5'', ''COM6'', ''COM7'', ''COM8'', ''COM9'',
     ''LPT1'', ''LPT2'', ''LPT3'', ''LPT4'', ''LPT5'', ''LPT6'', ''LPT7'', ''LPT8'', ''LPT9'']"

datatype path_error =
    Traversal | DeviceNamespace | AlternateStream | DriveRelative | UncPath | ResolveFailed
  | ReservedName string | NoAllowedDirectories | OutsideAllowed | SymlinkEscape wpath
  | SensitiveFile string | FileNotFound | NotRegularFile | NotDirectory

text \<open>The errors that are a \<open>SecurityError\<close> in the code.\<close>

definition is_security_error :: "path_error \<Rightarrow> bool" where
  "is_security_error e \<longleftrightarrow> e \<notin> {FileNotFound, NotRegularFile, NotDirectory}"

record file_system =
  fs_resolve :: "wpath \<Rightarrow> wpath option"
  fs_realpath :: "wpath \<Rightarrow> wpath"
  fs_is_symlink :: "wpath \<Rightarrow> bool"
  fs_exists :: "wpath \<Rightarrow> bool"
  fs_is_file :: "wpath \<Rightarrow> bool"
  fs_is_dir :: "wpath \<Rightarrow> bool"

subsection \<open>The checks\<close>

definition is_alpha :: "char \<Rightarrow> bool" where
  "is_alpha c \<longleftrightarrow> (let n = (of_char (lower_char c) :: nat) in 97 \<le> n \<and> n \<le> 122)"

definition has_ads :: "string \<Rightarrow> bool" where
  "has_ads s =
     (let remainder = (case s of
            a # b # rest \<Rightarrow> if b = colon \<and> is_alpha a then rest else s
          | _ \<Rightarrow> s)
      in colon \<in> set remainder)"

definition check_raw_lexical :: "string \<Rightarrow> path_error option" where
  "check_raw_lexical s =
     (let p = parse_path s; low = to_backslash (lower s)
      in if ''..'' \<in> set (parts p) then Some Traversal
         else if contains_sub ''../'' s \<or> contains_sub (''..'' @ [backslash]) s then Some Traversal
         else if startswith low ([backslash, backslash] @ ''.'' @ [backslash]) \<or>
                 startswith low ([backslash, backslash] @ ''?'' @ [backslash]) then Some DeviceNamespace
         else if has_ads s then Some AlternateStream
         else if drive p \<noteq> [] \<and> root p = [] then Some DriveRelative
         else if startswith (drive p) [backslash, backslash] \<or> startswith s [slash, slash] then Some UncPath
         else None)"

definition resolve_in :: "file_system \<Rightarrow> wpath list \<Rightarrow> string \<Rightarrow> wpath option" where
  "resolve_in fs dirs s =
     (let p = parse_path s
      in fs_resolve fs (if \<not> is_absolute p \<and> dirs \<noteq> [] then join_path (hd dirs) p else p))"

definition is_reserved_part :: "string \<Rightarrow> bool" where
  "is_reserved_part part \<longleftrightarrow>
     strip (upper (hd (split_on (CHR ''.'') part))) \<in> set windows_reserved_names \<or>
     strip (upper part) \<in> set windows_reserved_names"

definition check_windows_reserved :: "wpath \<Rightarrow> path_error option" where
  "check_windows_reserved p = map_option ReservedName (find is_reserved_part (parts p))"

definition inside_any :: "wpath list \<Rightarrow> wpath \<Rightarrow> bool" where
  "inside_any dirs p = list_ex (is_relative_to p) dirs"

definition check_contained :: "wpath list \<Rightarrow> wpath \<Rightarrow> path_error option" where
  "check_contained dirs p =
     (if dirs = [] then Some NoAllowedDirectories
      else if inside_any dirs p then None else Some OutsideAllowed)"

definition parent :: "wpath \<Rightarrow> wpath" where
  "parent p = p\<lparr>names := butlast (names p)\<rparr>"

function check_no_symlink_escape :: "file_system \<Rightarrow> wpath list \<Rightarrow> wpath \<Rightarrow> path_error option" where
  "check_no_symlink_escape fs dirs p =
     (if fs_is_symlink fs p \<and> \<not> inside_any dirs (fs_realpath fs p) then Some (SymlinkEscape p)
      else if parent p = p then None
      else check_no_symlink_escape fs dirs (parent p))"
  by pat_completeness auto

termination
proof (relation "measure (\<lambda>(fs, dirs, p). length (names p))")
  fix fs dirs and p :: wpath
  assume "parent p \<noteq> p"
  then have "names p \<noteq> []" by (cases p) (auto simp: parent_def)
  then show "((fs, dirs, parent p), (fs, dirs, p)) \<in> measure (\<lambda>(fs, dirs, p). length (names p))"
    by (simp add: parent_def)
qed simp

declare check_no_symlink_escape.simps [simp del]

definition check_sensitive :: "wpath \<Rightarrow> path_error option" where
  "check_sensitive p =
     (let n = lower (path_name p)
      in if n \<in> set safe_names then None
         else if n \<in> set sensitive_exact_names then Some (SensitiveFile (path_name p))
         else if sensitive_pattern n then Some (SensitiveFile (path_name p))
         else None)"

definition check_existence :: "file_system \<Rightarrow> bool \<Rightarrow> bool \<Rightarrow> bool \<Rightarrow> wpath \<Rightarrow> path_error option" where
  "check_existence fs must_exist check_is_file check_is_dir p =
     (if must_exist \<and> \<not> fs_exists fs p then Some FileNotFound
      else if fs_exists fs p \<and> check_is_file \<and> \<not> fs_is_file fs p then Some NotRegularFile
      else if fs_exists fs p \<and> check_is_dir \<and> \<not> fs_is_dir fs p then Some NotDirectory
      else None)"

text \<open>The first check that objects decides.\<close>

fun first_error :: "path_error option list \<Rightarrow> path_error option" where
  "first_error [] = None"
| "first_error (None # cs) = first_error cs"
| "first_error (Some e # cs) = Some e"

definition validate_path ::
  "file_system \<Rightarrow> wpath list \<Rightarrow> string \<Rightarrow> bool \<Rightarrow> bool \<Rightarrow> bool \<Rightarrow> path_error + wpath" where
  "validate_path fs dirs raw must_exist check_is_file check_is_dir =
     (case check_raw_lexical raw of
        Some e \<Rightarrow> Inl e
      | None \<Rightarrow>
          (case resolve_in fs dirs raw of
             None \<Rightarrow> Inl ResolveFailed
           | Some p \<Rightarrow>
               (case first_error [check_windows_reserved p, check_contained dirs p,
                       check_no_symlink_escape fs dirs p, check_sensitive p,
                       check_existence fs must_exist check_is_file check_is_dir p] of
                  Some e \<Rightarrow> Inl e
                | None \<Rightarrow> Inr p)))"

subsection \<open>What a passed check means\<close>

lemma first_error_None [simp]: "first_error cs = None \<longleftrightarrow> (\<forall>c\<in>set cs. c = None)"
  by (induction cs rule: first_error.induct) auto

lemma validate_path_Inr:
  assumes "validate_path fs dirs raw must_exist f d = Inr p"
  shows "check_raw_lexical raw = None" and "resolve_in fs dirs raw = Some p"
    and "check_windows_reserved p = None" and "check_contained dirs p = None"
    and "check_no_symlink_escape fs dirs p = None" and "check_sensitive p = None"
    and "check_existence fs must_exist f d p = None"
  using assms by (auto simp: validate_path_def split: option.splits)

text \<open>The walk towards the root visits every ancestor.\<close>

lemma symlink_walk:
  "check_no_symlink_escape fs dirs p = None \<longleftrightarrow>
     (\<forall>k\<le>length (names p). let a = p\<lparr>names := take k (names p)\<rparr>
        in fs_is_symlink fs a \<longrightarrow> inside_any dirs (fs_realpath fs a))"
proof (induction fs dirs p rule: check_no_symlink_escape.induct)
  case (1 fs dirs p)
  let ?ok = "\<lambda>a. fs_is_symlink fs a \<longrightarrow> inside_any dirs (fs_realpath fs a)"
  let ?anc = "\<lambda>q k. q\<lparr>names := take k (names q)\<rparr>"
  show ?case
  proof (cases "names p = []")
    case True
    then show ?thesis
      by (cases p) (subst check_no_symlink_escape.simps, auto simp: Let_def parent_def)
  next
    case False
    have ne: "parent p \<noteq> p"
    proof
      assume "parent p = p"
      then have "length (names (parent p)) = length (names p)" by simp
      with False show False by (cases "names p") (auto simp: parent_def split: if_splits)
    qed
    have whole: "?anc p (length (names p)) = p" by (cases p) simp
    have below: "?anc (parent p) k = ?anc p k" if "k < length (names p)" for k
      using that by (simp add: parent_def take_butlast)
    have "(\<forall>k\<le>length (names p). ?ok (?anc p k)) \<longleftrightarrow>
        ?ok p \<and> (\<forall>k<length (names p). ?ok (?anc p k))"
      using whole by (metis le_neq_implies_less less_imp_le_nat order_refl)
    also have "(\<forall>k<length (names p). ?ok (?anc p k)) \<longleftrightarrow>
        (\<forall>k\<le>length (names (parent p)). ?ok (?anc (parent p) k))"
      using False below by (auto simp: parent_def Suc_le_eq le_less_Suc_eq less_Suc_eq_le
          length_greater_0_conv [symmetric] simp del: length_greater_0_conv)
    finally show ?thesis
      using 1 ne by (subst check_no_symlink_escape.simps) (auto simp: Let_def)
  qed
qed

lemma sublist_middle: "sublist ys (xs @ ys @ zs)"
  by (rule sublist_appendI)

subsection \<open>Properties of the path policy\<close>

text \<open>C19: A path that passes validation lies inside an allowed directory, has no reserved device name
  among its components, is no sensitive file unless it is whitelisted, and every ancestor of it
  that is a symbolic link points inside the allowed directories; the raw text had no parent
  component and no alternate stream.\<close>

theorem validated_path_safe:
  assumes "validate_path fs dirs raw must_exist f d = Inr p"
  shows "(\<exists>base\<in>set dirs. is_relative_to p base) \<and>
         (\<forall>part\<in>set (parts p). \<not> is_reserved_part part) \<and>
         (\<forall>k\<le>length (names p). fs_is_symlink fs (p\<lparr>names := take k (names p)\<rparr>) \<longrightarrow>
            (\<exists>base\<in>set dirs. is_relative_to (fs_realpath fs (p\<lparr>names := take k (names p)\<rparr>)) base)) \<and>
         (lower (path_name p) \<in> set safe_names \<or>
          lower (path_name p) \<notin> set sensitive_exact_names \<and> \<not> sensitive_pattern (lower (path_name p))) \<and>
         ''..'' \<notin> set (parts (parse_path raw)) \<and> \<not> has_ads raw \<and>
         (must_exist \<longrightarrow> fs_exists fs p)"
proof -
  note ok = validate_path_Inr [OF assms]
  have "\<forall>part\<in>set (parts p). \<not> is_reserved_part part"
    using ok(3) by (auto simp: check_windows_reserved_def find_None_iff)
  moreover have "\<exists>base\<in>set dirs. is_relative_to p base"
    using ok(4) by (auto simp: check_contained_def inside_any_def list_ex_iff split: if_splits)
  moreover have "lower (path_name p) \<in> set safe_names \<or>
      lower (path_name p) \<notin> set sensitive_exact_names \<and> \<not> sensitive_pattern (lower (path_name p))"
    using ok(6) by (auto simp: check_sensitive_def Let_def split: if_splits)
  moreover have "''..'' \<notin> set (parts (parse_path raw)) \<and> \<not> has_ads raw"
    using ok(1) by (auto simp: check_raw_lexical_def Let_def split: if_splits)
  moreover have "must_exist \<longrightarrow> fs_exists fs p"
    using ok(7) by (auto simp: check_existence_def split: if_splits)
  moreover have "\<forall>k\<le>length (names p). fs_is_symlink fs (p\<lparr>names := take k (names p)\<rparr>) \<longrightarrow>
      (\<exists>base\<in>set dirs. is_relative_to (fs_realpath fs (p\<lparr>names := take k (names p)\<rparr>)) base)"
    using ok(5) by (simp add: symlink_walk Let_def inside_any_def list_ex_iff)
  ultimately show ?thesis by blast
qed

definition demo_base :: wpath where
  "demo_base = parse_path (''C:'' @ [backslash] @ ''work'')"

definition demo_fs :: file_system where
  "demo_fs = \<lparr>fs_resolve = Some, fs_realpath = (\<lambda>p. p), fs_is_symlink = (\<lambda>p. False),
     fs_exists = (\<lambda>p. True), fs_is_file = (\<lambda>p. True), fs_is_dir = (\<lambda>p. False)\<rparr>"

lemma validated_path_safe_witness:
  "\<exists>p. validate_path demo_fs [demo_base] ''docs/notes.txt'' True True False = Inr p \<and>
       (\<exists>base\<in>{demo_base}. is_relative_to p base)"
proof -
  have p: "validate_path demo_fs [demo_base] ''docs/notes.txt'' True True False =
      Inr \<lparr>drive = ''C:'', root = [backslash], names = [''work'', ''docs'', ''notes.txt'']\<rparr>"
    unfolding demo_fs_def demo_base_def by code_simp
  from validated_path_safe [OF p] p show ?thesis by auto
qed

text \<open>Parent traversal is rejected wherever it stands in the raw text and with either separator, a
  colon after the second character is rejected as an alternate stream or an earlier violation,
  and without allowed directories nothing passes.\<close>

theorem lexical_rejections:
  "validate_path fs dirs (a @ ''../'' @ b) must_exist f d = Inl Traversal \<and>
   validate_path fs dirs (a @ (''..'' @ [backslash]) @ b) must_exist f d = Inl Traversal \<and>
   (\<exists>e. validate_path fs dirs (x # y # a @ colon # b) must_exist f d = Inl e \<and> is_security_error e) \<and>
   (\<exists>e. validate_path fs [] raw must_exist f d = Inl e \<and> is_security_error e)"
proof -
  have lexical: "validate_path fs dirs r must_exist f d = Inl e \<and> is_security_error e"
    if "check_raw_lexical r = Some e" for r e dirs
    using that by (auto simp: validate_path_def is_security_error_def check_raw_lexical_def Let_def split: if_splits)
  have traversal: "check_raw_lexical r = Some Traversal"
    if "contains_sub ''../'' r \<or> contains_sub (''..'' @ [backslash]) r" for r
    using that by (auto simp: check_raw_lexical_def Let_def)
  have "has_ads (x # y # a @ colon # b)" by (auto simp: has_ads_def)
  then obtain e where e: "check_raw_lexical (x # y # a @ colon # b) = Some e"
    by (cases "check_raw_lexical (x # y # a @ colon # b)")
      (auto simp: check_raw_lexical_def Let_def split: if_splits)
  have "\<exists>e. validate_path fs [] raw must_exist f d = Inl e \<and> is_security_error e"
  proof (cases "check_raw_lexical raw")
    case None
    show ?thesis
    proof (cases "resolve_in fs [] raw")
      case None
      with \<open>check_raw_lexical raw = None\<close> show ?thesis
        by (simp add: validate_path_def is_security_error_def)
    next
      case (Some p)
      with None show ?thesis
        by (cases "find is_reserved_part (parts p)")
          (simp_all add: validate_path_def check_contained_def check_windows_reserved_def is_security_error_def)
    qed
  next
    case (Some e)
    then show ?thesis using lexical by blast
  qed
  with lexical [OF e] lexical [OF traversal] sublist_middle show ?thesis by metis
qed

text \<open>Containment and the sensitive-name check do not depend on letter case: paths that agree up to
  case are contained in the same directories and sensitive together.\<close>

theorem checks_ignore_case:
  assumes "lower (drive p) = lower (drive q)" and "root p = root q"
    and "map lower (names p) = map lower (names q)"
  shows "check_contained dirs p = check_contained dirs q \<and>
         (check_sensitive p = None \<longleftrightarrow> check_sensitive q = None)"
proof -
  have "names p = [] \<longleftrightarrow> names q = []" using assms(3) by auto
  then have "lower (path_name p) = lower (path_name q)"
    using assms(3) by (metis (no_types, lifting) last_map path_name_def)
  moreover have "is_relative_to p = is_relative_to q"
    using assms by (intro ext) (simp add: is_relative_to_def)
  ultimately show ?thesis
    by (simp add: check_contained_def inside_any_def check_sensitive_def Let_def)
qed

lemma checks_ignore_case_witness:
  "check_sensitive (parse_path ''Docs/ID_RSA.pub'') \<noteq> None"
proof -
  have "check_sensitive (parse_path ''docs/id_rsa.PUB'') \<noteq> None" by code_simp
  moreover have "map lower (names (parse_path ''Docs/ID_RSA.pub'')) = map lower (names (parse_path ''docs/id_rsa.PUB''))"
    and "drive (parse_path ''Docs/ID_RSA.pub'') = drive (parse_path ''docs/id_rsa.PUB'')"
    and "root (parse_path ''Docs/ID_RSA.pub'') = root (parse_path ''docs/id_rsa.PUB'')" by code_simp+
  ultimately show ?thesis using checks_ignore_case by metis
qed

end
