(* ===== verification/Loop_Detector.thy ===== *)
theory Loop_Detector
  imports Permissions
begin

text \<open>
  Models \<open>python/tom/agents/loop_detector.py\<close>. The JSON serialisation of arguments and the truncated
  SHA-256 digest are parameters; an absent or empty argument gives the empty fingerprint as in the
  code. The loop reason keeps the counts and the tool's name instead of the English sentence.
\<close>

subsection \<open>Fingerprints and state\<close>

datatype observation = NoObservation | ObsBytes string | ObsDict "(string \<times> payload) list" | ObsText string

definition normalize_parameters ::
  "((string \<times> payload) list \<Rightarrow> string) \<Rightarrow> (string \<Rightarrow> string) \<Rightarrow> params \<Rightarrow> string" where
  "normalize_parameters serialize digest ps =
     (if has_params ps then digest (serialize (the ps)) else [])"

definition normalize_observation ::
  "((string \<times> payload) list \<Rightarrow> string) \<Rightarrow> (string \<Rightarrow> string) \<Rightarrow> observation \<Rightarrow> string" where
  "normalize_observation serialize digest obs =
     (case obs of
        NoObservation \<Rightarrow> []
      | ObsBytes b \<Rightarrow> digest b
      | ObsDict d \<Rightarrow> digest (serialize d)
      | ObsText t \<Rightarrow> digest t)"

datatype loop_reason = ToolRepetition string int | ObservationStagnation int

record detector =
  tool_threshold :: int
  observation_threshold :: int
  last_tool_sig :: "(string \<times> string) option"
  last_outcome_sig :: "string option"
  consecutive_tool_count :: int
  last_obs_sig :: "string option"
  consecutive_obs_count :: int
  loop_reason :: "loop_reason option"

definition new_detector :: "int \<Rightarrow> int \<Rightarrow> detector" where
  "new_detector tt ot = \<lparr>tool_threshold = max 2 tt, observation_threshold = max 2 ot,
     last_tool_sig = None, last_outcome_sig = None, consecutive_tool_count = 0,
     last_obs_sig = None, consecutive_obs_count = 0, loop_reason = None\<rparr>"

subsection \<open>Operations\<close>

text \<open>The part of \<open>record_tool_call\<close> after the two fingerprints are computed.\<close>

definition record_call :: "string \<times> string \<Rightarrow> string \<Rightarrow> bool \<Rightarrow> detector \<Rightarrow> detector" where
  "record_call tool_sig outcome_sig success s =
     (let same_call = (last_tool_sig s = Some tool_sig);
          ineffective = (\<not> success \<or> same_call \<and> Some outcome_sig = last_outcome_sig s);
          s1 = (if same_call \<and> ineffective
                then s\<lparr>consecutive_tool_count := consecutive_tool_count s + 1\<rparr>
                else s\<lparr>consecutive_tool_count := 1, last_tool_sig := Some tool_sig,
                       last_outcome_sig := Some outcome_sig\<rparr>)
      in if tool_threshold s1 \<le> consecutive_tool_count s1
         then s1\<lparr>loop_reason := Some (ToolRepetition (fst tool_sig) (consecutive_tool_count s1))\<rparr>
         else s1)"

definition record_tool_call ::
  "((string \<times> payload) list \<Rightarrow> string) \<Rightarrow> (string \<Rightarrow> string) \<Rightarrow> string \<Rightarrow> params \<Rightarrow> observation \<Rightarrow> bool \<Rightarrow>
   detector \<Rightarrow> detector" where
  "record_tool_call serialize digest name ps outcome success =
     record_call (name, normalize_parameters serialize digest ps)
       (normalize_observation serialize digest outcome) success"

definition record_observation ::
  "((string \<times> payload) list \<Rightarrow> string) \<Rightarrow> (string \<Rightarrow> string) \<Rightarrow> observation \<Rightarrow> detector \<Rightarrow> detector" where
  "record_observation serialize digest obs s =
     (let obs_sig = normalize_observation serialize digest obs
      in if obs_sig = [] then s
         else let s1 = (if last_obs_sig s = Some obs_sig
                        then s\<lparr>consecutive_obs_count := consecutive_obs_count s + 1\<rparr>
                        else s\<lparr>last_obs_sig := Some obs_sig, consecutive_obs_count := 1\<rparr>)
              in if observation_threshold s1 \<le> consecutive_obs_count s1
                 then s1\<lparr>loop_reason := Some (ObservationStagnation (consecutive_obs_count s1))\<rparr>
                 else s1)"

definition is_loop_detected :: "detector \<Rightarrow> bool" where
  "is_loop_detected s \<longleftrightarrow> loop_reason s \<noteq> None"

definition detector_reset :: "detector \<Rightarrow> detector" where
  "detector_reset s = s\<lparr>last_tool_sig := None, last_outcome_sig := None, consecutive_tool_count := 0,
     last_obs_sig := None, consecutive_obs_count := 0, loop_reason := None\<rparr>"

text \<open>A sequence of calls, each with its fingerprints and its success.\<close>

type_synonym call = "(string \<times> string) \<times> string \<times> bool"

definition record_calls :: "call list \<Rightarrow> detector \<Rightarrow> detector" where
  "record_calls cs s = fold (\<lambda>(t, out, ok). record_call t out ok) cs s"

subsection \<open>What the counter counts\<close>

text \<open>
  A streak: calls of one tool with one set of arguments, each after the first failing or repeating
  the outcome of the first.
\<close>

definition streak :: "call list \<Rightarrow> bool" where
  "streak cs \<longleftrightarrow>
     (case cs of
        [] \<Rightarrow> False
      | (t, out, ok) # rest \<Rightarrow> (\<forall>(t', out', ok')\<in>set rest. t' = t \<and> (\<not> ok' \<or> out' = out)))"

definition tool_inv :: "call list \<Rightarrow> detector \<Rightarrow> bool" where
  "tool_inv cs s \<longleftrightarrow>
     (cs = [] \<and> consecutive_tool_count s = 0 \<and> last_tool_sig s = None \<and> last_outcome_sig s = None) \<or>
     (\<exists>pre run. cs = pre @ run \<and> streak run \<and> consecutive_tool_count s = int (length run) \<and>
        last_tool_sig s = Some (fst (hd run)) \<and> last_outcome_sig s = Some (fst (snd (hd run))))"

lemma streak_single: "streak [c]" by (cases c) (simp add: streak_def)

lemma streak_snoc:
  "streak run \<Longrightarrow> t = fst (hd run) \<Longrightarrow> \<not> ok \<or> out = fst (snd (hd run)) \<Longrightarrow> streak (run @ [(t, out, ok)])"
  by (cases run) (auto simp: streak_def)

lemma record_call_fields [simp]:
  "tool_threshold (record_call t out ok s) = tool_threshold s"
  "last_obs_sig (record_call t out ok s) = last_obs_sig s"
  "consecutive_obs_count (record_call t out ok s) = consecutive_obs_count s"
  by (simp_all add: record_call_def Let_def)

lemma tool_inv_record:
  assumes "tool_inv cs s"
  shows "tool_inv (cs @ [(t, out, ok)]) (record_call t out ok s)"
proof (cases "last_tool_sig s = Some t \<and> (\<not> ok \<or> Some out = last_outcome_sig s)")
  case True
  then obtain pre run where run: "cs = pre @ run" "streak run" "consecutive_tool_count s = int (length run)"
      "t = fst (hd run)" "last_outcome_sig s = Some (fst (snd (hd run)))" "last_tool_sig s = Some t"
    using assms by (auto simp: tool_inv_def)
  have "streak (run @ [(t, out, ok)])"
    using True run by (intro streak_snoc) auto
  moreover have "run \<noteq> []" using run(2) by (auto simp: streak_def)
  ultimately show ?thesis
    using True run unfolding tool_inv_def
    by (intro disjI2 exI [of _ pre] exI [of _ "run @ [(t, out, ok)]"]) (auto simp: record_call_def Let_def)
next
  case False
  then show ?thesis unfolding tool_inv_def
    by (intro disjI2 exI [of _ cs] exI [of _ "[(t, out, ok)]"]) (auto simp: record_call_def Let_def streak_single)
qed

lemma record_calls_snoc: "record_calls (cs @ [(t, out, ok)]) s = record_call t out ok (record_calls cs s)"
  by (simp add: record_calls_def)

lemma tool_inv_calls:
  assumes "tool_inv [] s"
  shows "tool_inv cs (record_calls cs s)"
proof (induction cs rule: rev_induct)
  case Nil
  with assms show ?case by (simp add: record_calls_def)
next
  case (snoc c cs)
  obtain t out ok where "c = (t, out, ok)" by (cases c)
  with tool_inv_record [OF snoc] show ?case by (simp add: record_calls_snoc)
qed

lemma record_call_sticky: "is_loop_detected s \<Longrightarrow> is_loop_detected (record_call t out ok s)"
  by (auto simp: is_loop_detected_def record_call_def Let_def)

lemma record_call_threshold:
  "tool_threshold s \<le> consecutive_tool_count (record_call t out ok s) \<Longrightarrow>
   is_loop_detected (record_call t out ok s)"
  by (auto simp: is_loop_detected_def record_call_def Let_def)

lemma record_call_count:
  "last_tool_sig s = Some t \<Longrightarrow> \<not> ok \<or> last_outcome_sig s = Some out \<Longrightarrow>
   consecutive_tool_count (record_call t out ok s) = consecutive_tool_count s + 1 \<and>
   last_tool_sig (record_call t out ok s) = Some t \<and>
   last_outcome_sig (record_call t out ok s) = last_outcome_sig s"
  by (auto simp: record_call_def Let_def)

lemma record_call_first:
  "0 \<le> consecutive_tool_count s \<Longrightarrow> 1 \<le> consecutive_tool_count (record_call t out ok s) \<and>
   last_tool_sig (record_call t out ok s) = Some t \<and>
   (\<not> ok \<or> last_outcome_sig (record_call t out ok s) = Some out)"
  by (auto simp: record_call_def Let_def)

lemma repeated_count:
  assumes "0 \<le> consecutive_tool_count s"
  shows "int (Suc n) \<le> consecutive_tool_count ((record_call t out ok ^^ Suc n) s) \<and>
     last_tool_sig ((record_call t out ok ^^ Suc n) s) = Some t \<and>
     (\<not> ok \<or> last_outcome_sig ((record_call t out ok ^^ Suc n) s) = Some out) \<and>
     tool_threshold ((record_call t out ok ^^ Suc n) s) = tool_threshold s"
proof (induction n)
  case 0
  show ?case using record_call_first [OF assms, of t out ok] by simp
next
  case (Suc n)
  let ?s = "(record_call t out ok ^^ Suc n) s"
  have "consecutive_tool_count (record_call t out ok ?s) = consecutive_tool_count ?s + 1 \<and>
      last_tool_sig (record_call t out ok ?s) = Some t \<and>
      last_outcome_sig (record_call t out ok ?s) = last_outcome_sig ?s"
    using Suc by (intro record_call_count) auto
  with Suc show ?case by simp
qed

subsection \<open>Properties of the detector\<close>

text \<open>Whatever was recorded before, tool_threshold consecutive identical calls, all failing or
  all with the same outcome, are detected as a loop, and the verdict stays until a reset.\<close>

theorem repetition_detected:
  assumes "0 \<le> consecutive_tool_count s" and "tool_threshold s \<le> int n" and "0 < n"
  shows "is_loop_detected (record_calls cs ((record_call t out ok ^^ n) s)) \<and>
         \<not> is_loop_detected (detector_reset (record_calls cs ((record_call t out ok ^^ n) s)))"
proof -
  obtain m where n: "n = Suc m" using assms(3) by (cases n) auto
  let ?s = "(record_call t out ok ^^ n) s"
  have "tool_threshold s \<le> consecutive_tool_count ?s" and "tool_threshold ?s = tool_threshold s"
    using repeated_count [OF assms(1), of m t out ok] assms(2) by (auto simp: n)
  moreover have "tool_threshold ((record_call t out ok ^^ m) s) = tool_threshold s"
    by (induction m) simp_all
  ultimately have "is_loop_detected ?s"
    using record_call_threshold [of "(record_call t out ok ^^ m) s" t out ok] by (simp add: n)
  then have "is_loop_detected (record_calls cs ?s)"
  proof (induction cs rule: rev_induct)
    case Nil
    then show ?case by (simp add: record_calls_def)
  next
    case (snoc c cs)
    obtain t out ok where "c = (t, out, ok)" by (cases c)
    with snoc show ?case by (simp add: record_calls_snoc record_call_sticky)
  qed
  then show ?thesis by (simp add: detector_reset_def is_loop_detected_def)
qed

lemma repetition_detected_witness:
  "is_loop_detected (record_calls [] ((record_call (''files.read_file'', ''p'') ''e'' False ^^ 3) (new_detector 3 3)))"
  using repetition_detected [of "new_detector 3 3" 3 "[]" "(''files.read_file'', ''p'')" "''e''" False]
  by (simp add: new_detector_def)

text \<open>A tool loop is reported only for a real streak: when the last call of a sequence raises the
  verdict, the sequence ends with at least tool_threshold calls of the same tool with the same
  arguments, each after the first failing or repeating the first one's outcome.\<close>

theorem detection_sound:
  assumes "\<not> is_loop_detected (record_calls cs (new_detector tt ot))"
    and "is_loop_detected (record_calls (cs @ [c]) (new_detector tt ot))"
  shows "\<exists>pre run. cs @ [c] = pre @ run \<and> max 2 tt \<le> int (length run) \<and> streak run"
proof -
  obtain t out ok where c: "c = (t, out, ok)" by (cases c)
  let ?s = "record_calls cs (new_detector tt ot)"
  have thr: "tool_threshold (record_calls cs s) = tool_threshold s" for s
    by (induction cs arbitrary: s) (auto simp: record_calls_def)
  have "tool_threshold ?s \<le> consecutive_tool_count (record_call t out ok ?s)"
    using assms by (auto simp: c record_calls_snoc is_loop_detected_def record_call_def Let_def split: if_splits)
  moreover have "tool_threshold ?s = max 2 tt" by (simp add: thr new_detector_def)
  moreover have "tool_inv (cs @ [c]) (record_calls (cs @ [c]) (new_detector tt ot))"
    by (rule tool_inv_calls) (simp add: tool_inv_def new_detector_def)
  ultimately obtain pre run where "cs @ [c] = pre @ run" and "streak run" and "max 2 tt \<le> int (length run)"
    by (auto simp: tool_inv_def c record_calls_snoc)
  then show ?thesis by blast
qed

lemma detection_sound_witness:
  "\<exists>pre run. replicate 3 ((''t'', ''p''), ''e'', False) = pre @ run \<and> 3 \<le> length run \<and> streak run"
proof -
  have "\<not> is_loop_detected (record_calls (replicate 2 ((''t'', ''p''), ''e'', False)) (new_detector 3 3))"
    and "is_loop_detected (record_calls (replicate 2 ((''t'', ''p''), ''e'', False) @
           [((''t'', ''p''), ''e'', False)]) (new_detector 3 3))" by code_simp+
  from detection_sound [OF this] show ?thesis
    by (simp add: numeral_eq_Suc replicate_append_same [symmetric])
qed

text \<open>The streak includes the call that starts it, even a successful one: one success followed by
  two failures of the same call with other outcomes is reported as three ineffective calls.\<close>

theorem success_counts_as_ineffective:
  "loop_reason (record_calls [((t, p), out, True), ((t, p), e1, False), ((t, p), e2, False)] (new_detector 3 3)) =
     Some (ToolRepetition t 3)"
  by (simp add: record_calls_def record_call_def new_detector_def Let_def)

end
