(* ===== verification/Task_Lifecycle.thy ===== *)
theory Task_Lifecycle
  imports Permissions
begin

text \<open>
  Models \<open>python/tom/schemas/task.py\<close> and \<open>python/tom/agents/task_manager.py\<close>: the task states with
  their transition matrix, tasks, step results, and \<open>TaskManager\<close> with its in-memory registry and
  its best-effort SQLite audit store. The cancellation token of \<open>python/tom/core/context.py\<close> is the
  flag stored beside the task. Every persisting call takes a flag that says whether the database
  accepted the write; a refused write is logged and ignored, as in the code. A method body runs
  under the manager's lock and is one function. Times are rational, identifiers are arguments.
\<close>

subsection \<open>Schemas\<close>

datatype task_state =
    CREATED | ROUTING | PLANNING | EXECUTING | WAITING_CONFIRMATION | COMPLETING
  | COMPLETED | FAILED | CANCELLED

fun task_valid_transitions :: "task_state \<Rightarrow> task_state list" where
  "task_valid_transitions CREATED = [ROUTING, CANCELLED]"
| "task_valid_transitions ROUTING = [PLANNING, EXECUTING, FAILED, CANCELLED]"
| "task_valid_transitions PLANNING = [EXECUTING, FAILED, CANCELLED]"
| "task_valid_transitions EXECUTING =
     [WAITING_CONFIRMATION, PLANNING, COMPLETING, FAILED, CANCELLED]"
| "task_valid_transitions WAITING_CONFIRMATION = [EXECUTING, FAILED, CANCELLED]"
| "task_valid_transitions COMPLETING = [COMPLETED, FAILED]"
| "task_valid_transitions COMPLETED = []"
| "task_valid_transitions FAILED = []"
| "task_valid_transitions CANCELLED = []"

definition task_terminal :: "task_state \<Rightarrow> bool" where
  "task_terminal s \<longleftrightarrow> s \<in> {COMPLETED, FAILED, CANCELLED}"

datatype task_error =
    TaskNotFoundError string
  | InvalidTaskTransitionError task_state task_state
  | TaskValidationError

record step_result =
  sr_step_id :: string
  sr_step_index :: nat
  sr_tool_name :: string
  sr_success :: bool
  sr_output :: "payload option"
  sr_error :: "string option"
  sr_execution_time_ms :: rat

record task_result =
  tr_task_id :: string
  tr_state :: task_state
  tr_step_results :: "step_result list"
  tr_total_steps :: nat
  tr_error :: "string option"

record task =
  task_id :: string
  goal :: string
  t_state :: task_state
  created_at :: rat
  updated_at :: rat
  max_steps :: int
  timeout_seconds :: rat
  current_step_index :: nat
  replan_count :: nat
  t_error :: "string option"
  t_metadata :: "(string \<times> payload) list"

text \<open>The validation of the model's fields.\<close>

definition valid_task :: "task \<Rightarrow> bool" where
  "valid_task t \<longleftrightarrow> goal t \<noteq> [] \<and> 1 \<le> max_steps t \<and> max_steps t \<le> 30 \<and>
     0 < timeout_seconds t \<and> timeout_seconds t \<le> 900"

subsection \<open>The manager's state and store\<close>

text \<open>\<open>db_tasks\<close> and \<open>db_steps\<close> are the two tables.\<close>

record manager =
  tasks :: "(string, task \<times> bool) dict"
  db_tasks :: "(string, task) dict"
  db_steps :: "(string \<times> step_result) list"

definition empty_manager :: manager where
  "empty_manager = \<lparr>tasks = [], db_tasks = [], db_steps = []\<rparr>"

text \<open>Insert, or on a conflict update the listed columns only.\<close>

definition persist_task :: "bool \<Rightarrow> task \<Rightarrow> manager \<Rightarrow> manager" where
  "persist_task ok t m =
     (if \<not> ok then m
      else let row = (case dict_get (db_tasks m) (task_id t) of
                        None \<Rightarrow> t
                      | Some old \<Rightarrow> old\<lparr>t_state := t_state t, current_step_index := current_step_index t,
                                       replan_count := replan_count t, t_error := t_error t,
                                       t_metadata := t_metadata t, updated_at := updated_at t\<rparr>)
           in m\<lparr>db_tasks := dict_set (task_id t) row (db_tasks m)\<rparr>)"

text \<open>The foreign key refuses a step of a task without a row.\<close>

definition persist_step :: "bool \<Rightarrow> string \<Rightarrow> step_result \<Rightarrow> manager \<Rightarrow> manager" where
  "persist_step ok tid r m =
     (if ok \<and> dict_get (db_tasks m) tid \<noteq> None then m\<lparr>db_steps := db_steps m @ [(tid, r)]\<rparr> else m)"

definition put_task :: "string \<Rightarrow> task \<Rightarrow> bool \<Rightarrow> manager \<Rightarrow> manager" where
  "put_task tid t token m = m\<lparr>tasks := dict_set tid (t, token) (tasks m)\<rparr>"

subsection \<open>Operations\<close>

type_synonym 'a managed = "(task_error + 'a) \<times> manager"

definition create_task ::
  "bool \<Rightarrow> string \<Rightarrow> rat \<Rightarrow> string \<Rightarrow> int \<Rightarrow> rat \<Rightarrow> (string \<times> payload) list \<Rightarrow> manager \<Rightarrow> task managed" where
  "create_task ok tid now g steps timeout meta m =
     (let t = \<lparr>task_id = tid, goal = g, t_state = CREATED, created_at = now, updated_at = now,
               max_steps = steps, timeout_seconds = timeout, current_step_index = 0,
               replan_count = 0, t_error = None, t_metadata = meta\<rparr>
      in if \<not> valid_task t then (Inl TaskValidationError, m)
         else (Inr t, persist_task ok t (put_task tid t False m)))"

definition get_entry :: "string \<Rightarrow> manager \<Rightarrow> task_error + (task \<times> bool)" where
  "get_entry tid m =
     (case dict_get (tasks m) tid of None \<Rightarrow> Inl (TaskNotFoundError tid) | Some e \<Rightarrow> Inr e)"

definition get_task :: "string \<Rightarrow> manager \<Rightarrow> task_error + task" where
  "get_task tid m = map_sum id fst (get_entry tid m)"

definition get_token :: "string \<Rightarrow> manager \<Rightarrow> task_error + bool" where
  "get_token tid m = map_sum id snd (get_entry tid m)"

definition transition :: "bool \<Rightarrow> rat \<Rightarrow> string \<Rightarrow> task_state \<Rightarrow> manager \<Rightarrow> task managed" where
  "transition ok now tid new_state m =
     (case get_entry tid m of
        Inl e \<Rightarrow> (Inl e, m)
      | Inr (t, token) \<Rightarrow>
          if new_state \<notin> set (task_valid_transitions (t_state t))
          then (Inl (InvalidTaskTransitionError (t_state t) new_state), m)
          else let t' = t\<lparr>t_state := new_state, updated_at := now\<rparr>
               in (Inr t', persist_task ok t' (put_task tid t' token m)))"

definition record_step :: "bool \<Rightarrow> rat \<Rightarrow> string \<Rightarrow> step_result \<Rightarrow> manager \<Rightarrow> unit managed" where
  "record_step ok now tid r m =
     (case get_entry tid m of
        Inl e \<Rightarrow> (Inl e, m)
      | Inr (t, token) \<Rightarrow>
          let t' = t\<lparr>current_step_index := sr_step_index r + 1, updated_at := now\<rparr>
          in (Inr (), persist_step ok tid r (put_task tid t' token m)))"

definition fail_task :: "bool \<Rightarrow> rat \<Rightarrow> string \<Rightarrow> string \<Rightarrow> manager \<Rightarrow> task managed" where
  "fail_task ok now tid err m =
     (case get_entry tid m of
        Inl e \<Rightarrow> (Inl e, m)
      | Inr (t, token) \<Rightarrow>
          if task_terminal (t_state t) then (Inr t, m)
          else let t' = t\<lparr>t_state := FAILED, t_error := Some err, updated_at := now\<rparr>
               in (Inr t', persist_task ok t' (put_task tid t' token m)))"

definition cancel_task :: "bool \<Rightarrow> rat \<Rightarrow> string \<Rightarrow> manager \<Rightarrow> task managed" where
  "cancel_task ok now tid m =
     (case get_entry tid m of
        Inl e \<Rightarrow> (Inl e, m)
      | Inr (t, token) \<Rightarrow>
          if task_terminal (t_state t) then (Inr t, put_task tid t True m)
          else let t' = t\<lparr>t_state := CANCELLED, updated_at := now\<rparr>
               in (Inr t', persist_task ok t' (put_task tid t' True m)))"

definition complete_task :: "bool \<Rightarrow> rat \<Rightarrow> string \<Rightarrow> manager \<Rightarrow> task managed" where
  "complete_task ok now tid m =
     (case get_entry tid m of
        Inl e \<Rightarrow> (Inl e, m)
      | Inr (t, token) \<Rightarrow>
          let s1 = (if t_state t = EXECUTING then COMPLETING else t_state t)
          in if s1 = COMPLETING
             then let t' = t\<lparr>t_state := COMPLETED, updated_at := now\<rparr>
                  in (Inr t', persist_task ok t' (put_task tid t' token m))
             else (Inr t, m))"

definition list_active :: "manager \<Rightarrow> task list" where
  "list_active m = filter (\<lambda>t. \<not> task_terminal (t_state t)) (map fst (dict_values (tasks m)))"

definition list_all_tasks :: "manager \<Rightarrow> task list" where
  "list_all_tasks m = map fst (dict_values (tasks m))"

text \<open>Every operation that changes the manager; the index says whether its write was accepted.\<close>

inductive manager_step :: "bool \<Rightarrow> manager \<Rightarrow> manager \<Rightarrow> bool" for ok where
  "tid \<notin> set (dict_keys (tasks m)) \<Longrightarrow> tid \<notin> set (dict_keys (db_tasks m)) \<Longrightarrow>
   manager_step ok m (snd (create_task ok tid now g steps timeout meta m))"
| "manager_step ok m (snd (transition ok now tid s m))"
| "manager_step ok m (snd (record_step ok now tid r m))"
| "manager_step ok m (snd (fail_task ok now tid err m))"
| "manager_step ok m (snd (cancel_task ok now tid m))"
| "manager_step ok m (snd (complete_task ok now tid m))"

inductive_cases manager_stepE: "manager_step ok m m'"

interpretation tt: transition_table task_valid_transitions task_terminal
proof
  show "task_terminal s \<longleftrightarrow> task_valid_transitions s = []" for s
    by (cases s) (simp_all add: task_terminal_def)
qed

subsection \<open>How one step changes a task\<close>

text \<open>
  The matrix, the two shortcuts of \<open>fail\<close> and \<open>cancel\<close> out of any live state, and the double step
  of \<open>complete\<close>.
\<close>

definition task_move :: "task_state \<Rightarrow> task_state \<Rightarrow> bool" where
  "task_move s s' \<longleftrightarrow>
     s' = s \<or> s' \<in> set (task_valid_transitions s) \<or>
     \<not> task_terminal s \<and> s' \<in> {FAILED, CANCELLED} \<or> s = EXECUTING \<and> s' = COMPLETED"

lemma get_entry_Inr [simp]: "get_entry tid m = Inr e \<longleftrightarrow> dict_get (tasks m) tid = Some e"
  by (auto simp: get_entry_def split: option.splits)

lemma get_entry_Inl: "get_entry tid m = Inl e \<longleftrightarrow> dict_get (tasks m) tid = None \<and> e = TaskNotFoundError tid"
  by (auto simp: get_entry_def split: option.splits)

lemma persist_fields [simp]:
  "tasks (persist_task ok t m) = tasks m"
  "db_steps (persist_task ok t m) = db_steps m"
  "tasks (persist_step ok tid r m) = tasks m"
  "db_tasks (persist_step ok tid r m) = db_tasks m"
  by (simp_all add: persist_task_def persist_step_def Let_def)

lemma put_task_fields [simp]:
  "tasks (put_task tid t token m) = dict_set tid (t, token) (tasks m)"
  "db_tasks (put_task tid t token m) = db_tasks m"
  "db_steps (put_task tid t token m) = db_steps m"
  by (simp_all add: put_task_def)

text \<open>
  Every operation either leaves the registry as it is or writes one entry back: a new task in state
  CREATED, or an existing one moved along \<open>task_move\<close> whose token never goes back to unset.
\<close>

definition registry_change :: "manager \<Rightarrow> manager \<Rightarrow> bool" where
  "registry_change m m' \<longleftrightarrow>
     tasks m' = tasks m \<or>
     (\<exists>tid t token. dict_get (tasks m) tid = None \<and> t_state t = CREATED \<and>
        tasks m' = dict_set tid (t, token) (tasks m)) \<or>
     (\<exists>tid t token t' token'. dict_get (tasks m) tid = Some (t, token) \<and>
        tasks m' = dict_set tid (t', token') (tasks m) \<and> task_move (t_state t) (t_state t') \<and>
        (token \<longrightarrow> token') \<and> task_id t' = task_id t \<and> goal t' = goal t)"

lemma registry_change_update:
  assumes "dict_get (tasks m) tid = Some (t, token)" and "tasks m' = dict_set tid (t', token') (tasks m)"
    and "task_move (t_state t) (t_state t')" and "token \<longrightarrow> token'" and "task_id t' = task_id t" and "goal t' = goal t"
  shows "registry_change m m'"
  using assms unfolding registry_change_def by blast

lemma registry_change_same: "tasks m' = tasks m \<Longrightarrow> registry_change m m'"
  by (simp add: registry_change_def)

lemma registry_change_new:
  "dict_get (tasks m) tid = None \<Longrightarrow> t_state t = CREATED \<Longrightarrow>
   tasks m' = dict_set tid (t, token) (tasks m) \<Longrightarrow> registry_change m m'"
  unfolding registry_change_def by blast

lemma registry_change_put:
  "dict_get (tasks m) tid = None \<Longrightarrow> t_state t = CREATED \<Longrightarrow>
   registry_change m (persist_task ok t (put_task tid t token m))"
  by (rule registry_change_new) auto

lemma registry_change_move:
  assumes "dict_get (tasks m) tid = Some (t0, token0)" and "task_move (t_state t0) (t_state t)"
    and "token0 \<longrightarrow> token" and "task_id t = task_id t0" and "goal t = goal t0"
  shows "registry_change m (persist_task ok t (put_task tid t token m))"
    and "registry_change m (persist_step ok tid r (put_task tid t token m))"
    and "registry_change m (put_task tid t token m)"
  using assms by (auto intro!: registry_change_update)

text \<open>An operation on one task: no entry leaves the registry alone; otherwise the entry decides.\<close>

lemma entry_cases:
  obtains "get_entry tid m = Inl (TaskNotFoundError tid)"
  | t token where "get_entry tid m = Inr (t, token)" and "dict_get (tasks m) tid = Some (t, token)"
  by (cases "dict_get (tasks m) tid") (auto simp: get_entry_def)

lemma registry_change_refl: "registry_change m m"
  by (simp add: registry_change_def)

lemma manager_step_registry:
  assumes "manager_step ok m m'"
  shows "registry_change m m'"
  using assms
proof (cases rule: manager_step.cases)
  case (1 tid now g steps timeout meta)
  then have "dict_get (tasks m) tid = None" by (simp add: map_of_eq_None_iff)
  with 1 show ?thesis
    by (auto simp: create_task_def Let_def intro: registry_change_refl registry_change_put)
next
  case (2 now tid s)
  then show ?thesis
    by (cases rule: entry_cases [of tid m])
      (auto simp: transition_def Let_def task_move_def intro!: registry_change_refl registry_change_move)
next
  case (3 now tid r)
  then show ?thesis
    by (cases rule: entry_cases [of tid m])
      (auto simp: record_step_def Let_def task_move_def intro!: registry_change_refl registry_change_move)
next
  case (4 now tid err)
  then show ?thesis
    by (cases rule: entry_cases [of tid m])
      (auto simp: fail_task_def Let_def task_move_def intro!: registry_change_refl registry_change_move)
next
  case (5 now tid)
  then show ?thesis
    by (cases rule: entry_cases [of tid m])
      (auto simp: cancel_task_def Let_def task_move_def intro!: registry_change_refl registry_change_move)
next
  case (6 now tid)
  then show ?thesis
    by (cases rule: entry_cases [of tid m])
      (auto simp: complete_task_def Let_def task_move_def intro!: registry_change_refl registry_change_move)
qed

lemma registry_change_task:
  assumes "registry_change m m'" and "dict_get (tasks m) tid = Some (t, token)"
  shows "\<exists>t' token'. dict_get (tasks m') tid = Some (t', token') \<and>
           task_move (t_state t) (t_state t') \<and> (token \<longrightarrow> token') \<and> goal t' = goal t"
  using assms by (auto simp: registry_change_def task_move_def) (rule exI [of _ True], simp)+

lemma task_move_terminal: "task_terminal s \<Longrightarrow> task_move s s' \<Longrightarrow> s' = s"
  using tt.no_step_from_terminal [of s s'] by (auto simp: task_move_def task_terminal_def)

subsection \<open>The audit store mirrors the registry\<close>

definition row_agrees :: "task \<Rightarrow> task \<Rightarrow> bool" where
  "row_agrees row t \<longleftrightarrow> t_state row = t_state t \<and> t_error row = t_error t \<and> goal row = goal t \<and>
     t_metadata row = t_metadata t \<and> replan_count row = replan_count t \<and> task_id row = task_id t"

fun mirrored_at :: "string \<Rightarrow> (task \<times> bool) option \<Rightarrow> task option \<Rightarrow> bool" where
  "mirrored_at tid None row = (row = None)"
| "mirrored_at tid (Some (t, token)) row =
     (task_id t = tid \<and> (case row of None \<Rightarrow> False | Some r \<Rightarrow> row_agrees r t))"

definition mirrored :: "manager \<Rightarrow> bool" where
  "mirrored m \<longleftrightarrow> (\<forall>tid. mirrored_at tid (dict_get (tasks m) tid) (dict_get (db_tasks m) tid))"

lemma mirroredD:
  "mirrored m \<Longrightarrow> dict_get (tasks m) tid = Some (t, token) \<Longrightarrow>
   task_id t = tid \<and> (\<exists>row. dict_get (db_tasks m) tid = Some row \<and> row_agrees row t)"
  unfolding mirrored_def by (drule spec [of _ tid]) (simp split: option.splits)

text \<open>Writing a task back and persisting it; a new or an existing one with the same goal.\<close>

lemma mirrored_new:
  assumes "mirrored m" and "dict_get (tasks m) (task_id t) = None" and "dict_get (db_tasks m) (task_id t) = None"
  shows "mirrored (persist_task True t (put_task (task_id t) t token m))"
  using assms unfolding mirrored_def by (simp add: persist_task_def Let_def row_agrees_def)

lemma mirrored_write:
  assumes "mirrored m" and "dict_get (tasks m) tid = Some (t0, token0)"
    and "goal t = goal t0" and "task_id t = task_id t0"
  shows "mirrored (persist_task True t (put_task tid t token m))"
proof -
  obtain row where "dict_get (db_tasks m) tid = Some row" "row_agrees row t0" "task_id t0 = tid"
    using mirroredD [OF assms(1,2)] by blast
  with assms show ?thesis
    unfolding mirrored_def by (simp add: persist_task_def Let_def row_agrees_def)
qed

lemma mirrored_put:
  assumes "mirrored m" and "dict_get (tasks m) tid = Some (t0, token0)" and "row_agrees t0 t"
  shows "mirrored (put_task tid t token m)"
proof -
  obtain row where "dict_get (db_tasks m) tid = Some row" "row_agrees row t0" "task_id t0 = tid"
    using mirroredD [OF assms(1,2)] by blast
  with assms show ?thesis
    unfolding mirrored_def by (simp add: row_agrees_def)
qed

lemma mirrored_step_table [simp]: "mirrored (persist_step ok tid r m) = mirrored m"
  by (simp add: mirrored_def)

lemma manager_step_mirrored:
  assumes "manager_step True m m'" and inv: "mirrored m"
  shows "mirrored m'"
  using assms(1)
proof (cases rule: manager_step.cases)
  case (1 tid now g steps timeout meta)
  define t where "t = \<lparr>task_id = tid, goal = g, t_state = CREATED, created_at = now, updated_at = now,
      max_steps = steps, timeout_seconds = timeout, current_step_index = 0, replan_count = 0,
      t_error = None, t_metadata = meta\<rparr>"
  have "mirrored (persist_task True t (put_task (task_id t) t False m))"
    using 1 inv by (intro mirrored_new) (simp_all add: map_of_eq_None_iff t_def)
  with 1 inv show ?thesis
    by (simp add: create_task_def t_def Let_def)
next
  case (2 now tid s)
  with inv show ?thesis
    by (cases rule: entry_cases [of tid m]) (auto simp: transition_def Let_def intro!: mirrored_write)
next
  case (3 now tid r)
  with inv show ?thesis
    by (cases rule: entry_cases [of tid m])
      (auto simp: record_step_def Let_def row_agrees_def intro!: mirrored_put)
next
  case (4 now tid err)
  with inv show ?thesis
    by (cases rule: entry_cases [of tid m]) (auto simp: fail_task_def Let_def intro!: mirrored_write)
next
  case (5 now tid)
  with inv show ?thesis
    by (cases rule: entry_cases [of tid m])
      (auto simp: cancel_task_def Let_def row_agrees_def intro!: mirrored_write mirrored_put)
next
  case (6 now tid)
  with inv show ?thesis
    by (cases rule: entry_cases [of tid m]) (auto simp: complete_task_def Let_def intro!: mirrored_write)
qed

subsection \<open>Properties of the task manager\<close>

definition demo_manager :: manager where
  "demo_manager = snd (create_task True ''task_1'' 0 ''Tidy up'' 15 300 [] empty_manager)"

definition demo_running :: manager where
  "demo_running = snd (transition True 2 ''task_1'' EXECUTING (snd (transition True 1 ''task_1'' ROUTING demo_manager)))"

lemma demo_running_eq: "\<exists>t. dict_get (tasks demo_running) ''task_1'' = Some (t, False) \<and> t_state t = EXECUTING"
proof -
  have "map_option (\<lambda>(t, c). (t_state t, c)) (dict_get (tasks demo_running) ''task_1'') = Some (EXECUTING, False)"
    unfolding demo_running_def demo_manager_def empty_manager_def by code_simp
  then show ?thesis by auto
qed

lemma demo_running_steps: "(manager_step True)\<^sup>*\<^sup>* empty_manager demo_running"
proof -
  have "manager_step True empty_manager demo_manager"
    unfolding demo_manager_def by (rule manager_step.intros(1)) (simp_all add: empty_manager_def)
  moreover have "manager_step True demo_manager (snd (transition True 1 ''task_1'' ROUTING demo_manager))"
    by (rule manager_step.intros(2))
  moreover have "manager_step True (snd (transition True 1 ''task_1'' ROUTING demo_manager)) demo_running"
    unfolding demo_running_def by (rule manager_step.intros(2))
  ultimately show ?thesis by (rule converse_rtranclp_into_rtranclp [OF _ converse_rtranclp_into_rtranclp [OF _ r_into_rtranclp]])
qed

text \<open>C16: A task's life: over one step its state stays, follows the transition matrix, jumps from a live
  state to FAILED or CANCELLED, or completes from EXECUTING; a token once cancelled stays
  cancelled; and over any number of further steps a terminal task keeps its state.\<close>

theorem task_life:
  assumes "dict_get (tasks m) tid = Some (t, token)" and "manager_step ok m m'"
    and "(manager_step ok')\<^sup>*\<^sup>* m' m''"
  shows "\<exists>t' token' t'' token''. dict_get (tasks m') tid = Some (t', token') \<and>
           dict_get (tasks m'') tid = Some (t'', token'') \<and>
           (t_state t' = t_state t \<or> t_state t' \<in> set (task_valid_transitions (t_state t)) \<or>
            \<not> task_terminal (t_state t) \<and> t_state t' \<in> {FAILED, CANCELLED} \<or>
            t_state t = EXECUTING \<and> t_state t' = COMPLETED) \<and>
           (token \<longrightarrow> token') \<and> (task_terminal (t_state t') \<longrightarrow> t_state t'' = t_state t')"
proof -
  obtain t' token' where one: "dict_get (tasks m') tid = Some (t', token')" "task_move (t_state t) (t_state t')"
      "token \<longrightarrow> token'"
    using registry_change_task [OF manager_step_registry [OF assms(2)] assms(1)] by blast
  from assms(3) have "\<exists>t'' token''. dict_get (tasks m'') tid = Some (t'', token'') \<and>
      (task_terminal (t_state t') \<longrightarrow> t_state t'' = t_state t')"
  proof (induction rule: rtranclp_induct)
    case base
    with one show ?case by blast
  next
    case (step a b)
    then obtain ta tka where a: "dict_get (tasks a) tid = Some (ta, tka)"
        "task_terminal (t_state t') \<longrightarrow> t_state ta = t_state t'" by blast
    obtain tb tkb where "dict_get (tasks b) tid = Some (tb, tkb)" "task_move (t_state ta) (t_state tb)"
      using registry_change_task [OF manager_step_registry [OF step.hyps(2)] a(1)] by blast
    with a(2) task_move_terminal show ?case by metis
  qed
  with one show ?thesis unfolding task_move_def by blast
qed

lemma task_life_witness:
  "\<exists>t. dict_get (tasks (snd (transition True 9 ''task_1'' ROUTING (snd (cancel_task True 5 ''task_1'' demo_running)))))
      ''task_1'' = Some t \<and> t_state (fst t) = CANCELLED"
proof -
  obtain t where t: "dict_get (tasks demo_running) ''task_1'' = Some (t, False)" "t_state t = EXECUTING"
    using demo_running_eq by blast
  let ?c = "snd (cancel_task True 5 ''task_1'' demo_running)"
  have steps: "manager_step True demo_running ?c"
    "(manager_step True)\<^sup>*\<^sup>* ?c (snd (transition True 9 ''task_1'' ROUTING ?c))"
    by (auto intro: manager_step.intros)
  have "dict_get (tasks ?c) ''task_1'' = Some (t\<lparr>t_state := CANCELLED, updated_at := 5\<rparr>, True)"
    using t by (simp add: cancel_task_def get_entry_def task_terminal_def Let_def)
  with task_life [OF t(1) steps] show ?thesis by (fastforce simp: task_terminal_def)
qed

text \<open>Cancelling a task always succeeds for a known task, sets its token, leaves it in a terminal
  state and is idempotent.\<close>

theorem cancel_is_final:
  assumes "dict_get (tasks m) tid = Some (t, token)"
  shows "\<exists>t'. fst (cancel_task ok now tid m) = Inr t' \<and>
           dict_get (tasks (snd (cancel_task ok now tid m))) tid = Some (t', True) \<and>
           task_terminal (t_state t') \<and> (\<not> task_terminal (t_state t) \<longrightarrow> t_state t' = CANCELLED) \<and>
           tasks (snd (cancel_task ok' now' tid (snd (cancel_task ok now tid m)))) =
             tasks (snd (cancel_task ok now tid m))"
proof -
  have same: "dict_set k v (dict_set k v d) = dict_set k v d" for k :: string and v :: "task \<times> bool" and d
    by (induction d) auto
  show ?thesis
    using assms by (auto simp: cancel_task_def get_entry_def Let_def task_terminal_def same)
qed

lemma cancel_is_final_witness:
  "\<exists>t. get_task ''task_1'' (snd (cancel_task False 5 ''task_1'' demo_running)) = Inr t \<and> t_state t = CANCELLED"
proof -
  obtain t where t: "dict_get (tasks demo_running) ''task_1'' = Some (t, False)" "t_state t = EXECUTING"
    using demo_running_eq by blast
  obtain t' where "dict_get (tasks (snd (cancel_task False 5 ''task_1'' demo_running))) ''task_1'' = Some (t', True)"
      and "t_state t' = CANCELLED"
    using cancel_is_final [OF t(1), of False 5] t(2) by (auto simp: task_terminal_def)
  then show ?thesis by (simp add: get_task_def get_entry_def)
qed

text \<open>C26: While the database accepts every write, it holds, after any sequence of operations, a row for exactly the
  tasks of the registry, and the row of a task agrees with it on the identifier, the goal, the state, the error, the
  metadata and the number of replans. (The remaining columns may lag behind: \<open>record_step\<close> moves the step index
  and the time of the last change in the registry and writes a row of the step only.)\<close>

theorem audit_store_mirrors:
  assumes "(manager_step True)\<^sup>*\<^sup>* empty_manager m"
  shows "case dict_get (tasks m) tid of
      None \<Rightarrow> dict_get (db_tasks m) tid = None
    | Some (t, token) \<Rightarrow> \<exists>row. dict_get (db_tasks m) tid = Some row \<and> task_id row = tid \<and> task_id t = tid \<and> goal row = goal t \<and>
        t_state row = t_state t \<and> t_error row = t_error t \<and> t_metadata row = t_metadata t \<and> replan_count row = replan_count t"
proof -
  from assms have "mirrored m"
  proof (induction rule: rtranclp_induct)
    case base
    show ?case by (simp add: mirrored_def empty_manager_def)
  next
    case (step a b)
    then show ?case by (blast intro: manager_step_mirrored)
  qed
  then have "mirrored_at tid (dict_get (tasks m) tid) (dict_get (db_tasks m) tid)" by (simp add: mirrored_def)
  then show ?thesis by (auto simp: row_agrees_def split: option.splits)
qed

lemma audit_store_mirrors_witness:
  "\<exists>row. dict_get (db_tasks demo_running) ''task_1'' = Some row \<and> t_state row = EXECUTING"
  using audit_store_mirrors [OF demo_running_steps, of "''task_1''"] demo_running_eq by (auto split: option.splits)

end
