(* ===== verification/Plan_Order.thy ===== *)
theory Plan_Order
  imports Permissions "HOL-Library.Multiset"
begin

text \<open>
  Models \<open>python/tom/schemas/planner.py\<close>, the validation part of \<open>python/tom/agents/planner.py\<close>
  (\<open>validate_plan\<close>, \<open>get_execution_order\<close>) and \<open>resolve_execution_order\<close> of
  \<open>python/tom/agents/executor.py\<close>, which is the same algorithm: a topological order that always
  takes the earliest ready step of the plan. Asking the language model for a plan and parsing its
  JSON are not modelled. The tool registry is the predicate of registered names.
\<close>

subsection \<open>Plans\<close>

record step_dependency =
  dep_step_id :: string
  required_output_key :: "string option"

record plan_step =
  step_id :: string
  ps_description :: string
  ps_tool_name :: string
  ps_parameters :: "(string \<times> payload) list"
  dependencies :: "step_dependency list"
  preconditions :: "string list"
  expected_outcome :: string
  requires_revalidation :: bool
  revalidation_target :: "string option"
  is_terminal :: bool

datatype plan_error =
    PlanTooLong nat | DuplicateStepId string | UnknownTool string string | SelfDependency string
  | MissingDependency string string | CycleDetected "string list"

subsection \<open>The dependency graph\<close>

definition step_ids :: "plan_step list \<Rightarrow> string list" where
  "step_ids steps = map step_id steps"

text \<open>The pairs visited by the two nested loops, with their guard.\<close>

definition plan_edges :: "plan_step list \<Rightarrow> (string \<times> string) list" where
  "plan_edges steps =
     filter (\<lambda>(d, s). d \<in> set (step_ids steps))
       (concat (map (\<lambda>s. map (\<lambda>dep. (dep_step_id dep, step_id s)) (dependencies s)) steps))"

definition dict_apply :: "'k \<Rightarrow> ('v \<Rightarrow> 'v) \<Rightarrow> ('k, 'v) dict \<Rightarrow> ('k, 'v) dict" where
  "dict_apply k f d = (case dict_get d k of None \<Rightarrow> d | Some v \<Rightarrow> dict_set k (f v) d)"

definition add_edge ::
  "string \<times> string \<Rightarrow> (string, string list) dict \<times> (string, int) dict \<Rightarrow>
   (string, string list) dict \<times> (string, int) dict" where
  "add_edge e g = (dict_apply (fst e) (\<lambda>l. l @ [snd e]) (fst g), dict_apply (snd e) (\<lambda>n. n + 1) (snd g))"

definition init_dict :: "'v \<Rightarrow> string list \<Rightarrow> (string, 'v) dict" where
  "init_dict v ids = fold (\<lambda>k d. dict_set k v d) ids []"

definition build_graph :: "plan_step list \<Rightarrow> (string, string list) dict \<times> (string, int) dict" where
  "build_graph steps =
     fold add_edge (plan_edges steps) (init_dict [] (step_ids steps), init_dict 0 (step_ids steps))"

definition step_map :: "plan_step list \<Rightarrow> (string, plan_step) dict" where
  "step_map steps = fold (\<lambda>s d. dict_set (step_id s) s d) steps []"

definition index_map :: "plan_step list \<Rightarrow> (string, nat) dict" where
  "index_map steps = fold (\<lambda>(i, s) d. dict_set (step_id s) i d) (enumerate 0 steps) []"

definition index_of :: "plan_step list \<Rightarrow> string \<Rightarrow> nat" where
  "index_of steps sid = (case dict_get (index_map steps) sid of None \<Rightarrow> 0 | Some i \<Rightarrow> i)"

subsection \<open>The order\<close>

text \<open>The inner loop over the dependents of a finished step.\<close>

fun relax ::
  "(string \<Rightarrow> nat) \<Rightarrow> string list \<Rightarrow> (string, int) dict \<Rightarrow> string list \<Rightarrow> (string, int) dict \<times> string list"
  where
  "relax idx [] deg ready = (deg, ready)"
| "relax idx (x # xs) deg ready =
     (let deg' = dict_apply x (\<lambda>n. n - 1) deg
      in if dict_get deg' x = Some 0 then relax idx xs deg' (sort_key idx (ready @ [x]))
         else relax idx xs deg' ready)"

definition pending :: "(string, int) dict \<Rightarrow> nat" where
  "pending deg = sum_list (map nat (dict_values deg))"

lemma pending_apply:
  "pending (dict_apply x (\<lambda>n. n - 1) deg) + (if dict_get (dict_apply x (\<lambda>n. n - 1) deg) x = Some 0 then 1 else 0)
     \<le> pending deg"
proof (cases "dict_get deg x")
  case None
  then show ?thesis by (simp add: dict_apply_def)
next
  case (Some v)
  then have "pending (dict_set x (v - 1) deg) + (if v = 1 then 1 else 0) \<le> pending deg"
    by (induction deg) (auto simp: pending_def)
  with Some show ?thesis by (simp add: dict_apply_def)
qed

lemma relax_pending:
  "relax idx xs deg ready = (deg', ready') \<Longrightarrow> pending deg' + length ready' \<le> pending deg + length ready"
proof (induction idx xs deg ready rule: relax.induct)
  case (2 idx x xs deg ready)
  show ?case
    using 2(1) [OF refl] 2(2) [OF refl] 2(3) pending_apply [of x deg]
    by (fastforce simp: Let_def split: if_splits)
qed simp

function order_loop ::
  "(string \<Rightarrow> nat) \<Rightarrow> (string, string list) dict \<Rightarrow> (string, int) dict \<Rightarrow> string list \<Rightarrow> string list \<Rightarrow>
   (string, int) dict \<times> string list" where
  "order_loop idx adj deg [] ordered = (deg, ordered)"
| "order_loop idx adj deg (cur # ready) ordered =
     (let (deg', ready') = relax idx (case dict_get adj cur of None \<Rightarrow> [] | Some l \<Rightarrow> l) deg ready
      in order_loop idx adj deg' ready' (ordered @ [cur]))"
  by pat_completeness auto

termination
  by (relation "measure (\<lambda>(idx, adj, deg, ready, ordered). pending deg + length ready)")
    (auto dest!: relax_pending [OF sym])

definition resolve_execution_order :: "plan_step list \<Rightarrow> plan_error + plan_step list" where
  "resolve_execution_order steps =
     (let (adj, deg) = build_graph steps;
          ready = sort_key (index_of steps) (map fst (filter (\<lambda>(sid, n). n = 0) deg));
          (deg', ordered) = order_loop (index_of steps) adj deg ready []
      in if length ordered \<noteq> length steps
         then Inl (CycleDetected (map fst (filter (\<lambda>(sid, n). 0 < n) deg')))
         else Inr (map (\<lambda>sid. the (dict_get (step_map steps) sid)) ordered))"

subsection \<open>Validation\<close>

fun check_steps :: "(string \<Rightarrow> bool) \<Rightarrow> string list \<Rightarrow> plan_step list \<Rightarrow> plan_error option" where
  "check_steps registered seen [] = None"
| "check_steps registered seen (s # steps) =
     (if step_id s \<in> set seen then Some (DuplicateStepId (step_id s))
      else if \<not> registered (ps_tool_name s) then Some (UnknownTool (ps_tool_name s) (step_id s))
      else check_steps registered (step_id s # seen) steps)"

definition check_dependency :: "string list \<Rightarrow> plan_step \<Rightarrow> step_dependency \<Rightarrow> plan_error option" where
  "check_dependency ids s dep =
     (if dep_step_id dep = step_id s then Some (SelfDependency (step_id s))
      else if dep_step_id dep \<notin> set ids then Some (MissingDependency (step_id s) (dep_step_id dep))
      else None)"

definition check_dependencies :: "plan_step list \<Rightarrow> plan_error option" where
  "check_dependencies steps =
     (case filter (\<lambda>r. r \<noteq> None)
             (concat (map (\<lambda>s. map (check_dependency (step_ids steps) s) (dependencies s)) steps)) of
        [] \<Rightarrow> None
      | r # _ \<Rightarrow> r)"

definition validate_plan :: "nat \<Rightarrow> (string \<Rightarrow> bool) \<Rightarrow> plan_step list \<Rightarrow> plan_error + unit" where
  "validate_plan limit registered steps =
     (if limit < length steps then Inl (PlanTooLong (length steps))
      else case check_steps registered [] steps of
             Some e \<Rightarrow> Inl e
           | None \<Rightarrow> (case check_dependencies steps of
                        Some e \<Rightarrow> Inl e
                      | None \<Rightarrow> (case resolve_execution_order steps of
                                   Inl e \<Rightarrow> Inl e
                                 | Inr _ \<Rightarrow> Inr ())))"

subsection \<open>The graph as lists of edges\<close>

lemma dict_apply_get [simp]:
  "dict_get (dict_apply k f d) k' = (if k' = k then map_option f (dict_get d k) else dict_get d k')"
  by (auto simp: dict_apply_def split: option.splits)

lemma dict_apply_keys: "distinct (dict_keys d) \<Longrightarrow> distinct (dict_keys (dict_apply k f d))"
  by (auto simp: dict_apply_def split: option.splits)

lemma init_dict_get: "dict_get (init_dict v ids) k = (if k \<in> set ids then Some v else None)"
proof -
  have "dict_get (fold (\<lambda>k d. dict_set k v d) ids d) k = (if k \<in> set ids then Some v else dict_get d k)" for d
    by (induction ids arbitrary: d) auto
  then show ?thesis by (simp add: init_dict_def)
qed

lemma init_dict_keys: "distinct (dict_keys (init_dict v ids))"
proof -
  have "distinct (dict_keys d) \<Longrightarrow> distinct (dict_keys (fold (\<lambda>k d. dict_set k v d) ids d))" for d
    by (induction ids arbitrary: d) auto
  then show ?thesis by (simp add: init_dict_def)
qed

lemma fold_add_edge:
  "dict_get (fst (fold add_edge es (adj, deg))) k =
     map_option (\<lambda>l. l @ map snd (filter (\<lambda>e. fst e = k) es)) (dict_get adj k)"
  "dict_get (snd (fold add_edge es (adj, deg))) k =
     map_option (\<lambda>n. n + int (length (filter (\<lambda>e. snd e = k) es))) (dict_get deg k)"
  "distinct (dict_keys deg) \<Longrightarrow> distinct (dict_keys (snd (fold add_edge es (adj, deg))))"
  by (induction es arbitrary: adj deg)
    (auto simp: add_edge_def option.map_comp comp_def option.map_ident dict_apply_keys ac_simps)

lemma build_graph_get:
  assumes "build_graph steps = (adj, deg)"
  shows "dict_get adj k = (if k \<in> set (step_ids steps)
           then Some (map snd (filter (\<lambda>e. fst e = k) (plan_edges steps))) else None)"
    and "dict_get deg k = (if k \<in> set (step_ids steps)
           then Some (int (length (filter (\<lambda>e. snd e = k) (plan_edges steps)))) else None)"
    and "distinct (dict_keys deg)"
proof -
  have parts: "adj = fst (fold add_edge (plan_edges steps) (init_dict [] (step_ids steps), init_dict 0 (step_ids steps)))"
    "deg = snd (fold add_edge (plan_edges steps) (init_dict [] (step_ids steps), init_dict 0 (step_ids steps)))"
    using assms by (simp_all add: build_graph_def)
  show "dict_get adj k = (if k \<in> set (step_ids steps)
           then Some (map snd (filter (\<lambda>e. fst e = k) (plan_edges steps))) else None)"
    and "dict_get deg k = (if k \<in> set (step_ids steps)
           then Some (int (length (filter (\<lambda>e. snd e = k) (plan_edges steps)))) else None)"
    by (simp_all add: parts fold_add_edge(1,2) init_dict_get)
  show "distinct (dict_keys deg)"
    unfolding parts by (rule fold_add_edge(3) [OF init_dict_keys])
qed

lemma plan_edges_ids: "(d, x) \<in> set (plan_edges steps) \<Longrightarrow> d \<in> set (step_ids steps) \<and> x \<in> set (step_ids steps)"
  by (auto simp: plan_edges_def step_ids_def)

subsection \<open>The inner loop\<close>

lemma relax_spec:
  assumes "relax idx xs deg ready = (deg', ready')"
    and "\<And>x. x \<in> set xs \<Longrightarrow> dict_get deg x \<noteq> None"
    and "\<And>x n. dict_get deg x = Some n \<Longrightarrow> int (count_list xs x) \<le> n"
    and "set xs \<inter> set ready = {}" and "distinct ready"
  shows "(\<forall>x. dict_get deg' x = map_option (\<lambda>n. n - int (count_list xs x)) (dict_get deg x)) \<and>
         set ready' = set ready \<union> {x \<in> set xs. dict_get deg x = Some (int (count_list xs x))} \<and>
         distinct ready'"
  using assms
proof (induction idx xs deg ready rule: relax.induct)
  case (1 idx deg ready)
  then show ?case by (simp add: option.map_ident)
next
  case (2 idx y ys deg ready)
  define deg1 where "deg1 = dict_apply y (\<lambda>n. n - 1) deg"
  obtain n where n: "dict_get deg y = Some n" using "2.prems"(2) [of y] by auto
  have deg1: "dict_get deg1 x = (if x = y then Some (n - 1) else dict_get deg x)" for x
    using n by (simp add: deg1_def)
  have bound: "int (count_list ys x) \<le> k" if "dict_get deg1 x = Some k" for x k
    using that "2.prems"(3) [of y n] "2.prems"(3) [of x k] n by (auto simp: deg1 split: if_splits)
  have known: "dict_get deg1 x \<noteq> None" if "x \<in> set ys" for x
    using that "2.prems"(2) [of x] by (simp add: deg1)
  have counts: "int (count_list (y # ys) x) = int (count_list ys x) + (if x = y then 1 else 0)" for x by simp
  show ?case
  proof (cases "n = 1")
    case True
    then have last: "y \<notin> set ys" using bound [of y "n - 1"] by (simp add: deg1 count_list_0_iff)
    have run: "relax idx ys deg1 (sort_key idx (ready @ [y])) = (deg', ready')"
      using "2.prems"(1) True by (simp add: Let_def deg1_def [symmetric] deg1)
    have "(\<forall>x. dict_get deg' x = map_option (\<lambda>n. n - int (count_list ys x)) (dict_get deg1 x)) \<and>
         set ready' = set (sort_key idx (ready @ [y])) \<union> {x \<in> set ys. dict_get deg1 x = Some (int (count_list ys x))} \<and>
         distinct ready'"
      using "2.IH"(1) [OF deg1_def _ run] "2.prems"(4,5) last known bound True by (auto simp: deg1)
    then show ?thesis
      using n True last by (auto simp: deg1 count_list_0_iff [THEN iffD2] split: if_splits)
  next
    case False
    have run: "relax idx ys deg1 ready = (deg', ready')"
      using "2.prems"(1) False by (simp add: Let_def deg1_def [symmetric] deg1)
    have "(\<forall>x. dict_get deg' x = map_option (\<lambda>n. n - int (count_list ys x)) (dict_get deg1 x)) \<and>
         set ready' = set ready \<union> {x \<in> set ys. dict_get deg1 x = Some (int (count_list ys x))} \<and>
         distinct ready'"
      using "2.IH"(2) [OF deg1_def _ run] "2.prems"(4,5) known bound False by (auto simp: deg1)
    moreover have "y \<in> set ys" if "n = 1 + int (count_list ys y)"
      using that False by (metis add.right_neutral count_list_0_iff of_nat_0)
    ultimately show ?thesis
      using n by (auto simp: deg1 split: if_splits)
  qed
qed

subsection \<open>The loop's invariant\<close>

definition waits :: "(string \<times> string) list \<Rightarrow> string set \<Rightarrow> string \<Rightarrow> (string \<times> string) list" where
  "waits es fin x = filter (\<lambda>e. snd e = x \<and> fst e \<notin> fin) es"

definition precedes :: "(string \<times> string) list \<Rightarrow> string list \<Rightarrow> bool" where
  "precedes es xs \<longleftrightarrow> (\<forall>i<length xs. \<forall>e\<in>set es. snd e = xs ! i \<longrightarrow> fst e \<in> set (take i xs))"

definition order_inv ::
  "(string \<times> string) list \<Rightarrow> string set \<Rightarrow> (string, int) dict \<Rightarrow> string list \<Rightarrow> string list \<Rightarrow> bool" where
  "order_inv es ids deg ready fin \<longleftrightarrow>
     distinct (fin @ ready) \<and> set (fin @ ready) \<subseteq> ids \<and> precedes es fin \<and>
     (\<forall>x. dict_get deg x = (if x \<in> ids then Some (int (length (waits es (set fin) x))) else None)) \<and>
     (\<forall>x\<in>ids. x \<in> set fin \<union> set ready \<longleftrightarrow> waits es (set fin) x = [])"

lemma precedes_snoc:
  assumes "precedes es xs" and "\<forall>e\<in>set es. snd e = c \<longrightarrow> fst e \<in> set xs"
  shows "precedes es (xs @ [c])"
  using assms by (auto simp: precedes_def nth_append less_Suc_eq)

lemma waits_split:
  assumes "c \<notin> fin"
  shows "length (waits es fin x) =
     count_list (map snd (filter (\<lambda>e. fst e = c) es)) x + length (waits es (insert c fin) x)"
  using assms by (induction es) (auto simp: waits_def)

lemma order_inv_step:
  assumes inv: "order_inv es ids deg (c # ready) fin" and es: "\<forall>e\<in>set es. fst e \<in> ids \<and> snd e \<in> ids"
    and run: "relax idx (map snd (filter (\<lambda>e. fst e = c) es)) deg ready = (deg', ready')"
  shows "order_inv es ids deg' ready' (fin @ [c])"
proof -
  let ?xs = "map snd (filter (\<lambda>e. fst e = c) es)"
  let ?w = "waits es (set fin)" and ?w' = "waits es (insert c (set fin))"
  have c: "c \<notin> set fin" "c \<in> ids" "c \<notin> set ready" "distinct ready" and sub: "set fin \<union> set ready \<subseteq> ids"
    and dist: "distinct fin" "set fin \<inter> set ready = {}"
    and deg: "dict_get deg x = (if x \<in> ids then Some (int (length (?w x))) else None)"
    and fin: "x \<in> ids \<Longrightarrow> x \<in> insert c (set fin \<union> set ready) \<longleftrightarrow> ?w x = []" and prec: "precedes es fin" for x
    using inv by (auto simp: order_inv_def)
  have split: "length (?w x) = count_list ?xs x + length (?w' x)" for x by (rule waits_split [OF c(1)])
  have xs_new: "x \<in> ids \<and> x \<notin> insert c (set fin \<union> set ready)" if "x \<in> set ?xs" for x
  proof -
    have "x \<in> ids" using that es by auto
    moreover have "count_list ?xs x \<noteq> 0" using that by (simp add: count_list_0_iff)
    then have "?w x \<noteq> []" using split [of x] by auto
    ultimately show ?thesis using fin by blast
  qed
  have spec: "(\<forall>x. dict_get deg' x = map_option (\<lambda>n. n - int (count_list ?xs x)) (dict_get deg x)) \<and>
      set ready' = set ready \<union> {x \<in> set ?xs. dict_get deg x = Some (int (count_list ?xs x))} \<and> distinct ready'"
  proof (rule relax_spec [OF run])
    show "dict_get deg x \<noteq> None" if "x \<in> set ?xs" for x using xs_new [OF that] by (simp add: deg)
    show "int (count_list ?xs x) \<le> n" if "dict_get deg x = Some n" for x n
      using that split [of x] by (auto simp: deg split: if_splits)
    show "set ?xs \<inter> set ready = {}" using xs_new by blast
    show "distinct ready" by (rule c(4))
  qed
  have ready': "x \<in> set ready' \<longleftrightarrow> x \<in> set ready \<or> x \<in> set ?xs \<and> ?w' x = []" for x
    using spec xs_new [of x] split [of x] by (auto simp: deg)
  have "\<forall>e\<in>set es. snd e = c \<longrightarrow> fst e \<in> set fin"
    using fin [of c] c(2) by (auto simp: waits_def filter_empty_conv)
  then have "precedes es (fin @ [c])" by (rule precedes_snoc [OF prec])
  moreover have "set ready' \<subseteq> ids - insert c (set fin)" and "distinct ready'"
    using c dist sub spec ready' xs_new by blast+
  then have "distinct ((fin @ [c]) @ ready')" and "set ((fin @ [c]) @ ready') \<subseteq> ids"
    using c dist sub by auto
  moreover have "dict_get deg' x = (if x \<in> ids then Some (int (length (?w' x))) else None)" for x
    using spec split [of x] by (simp add: deg)
  moreover have "x \<in> insert c (set fin) \<union> set ready' \<longleftrightarrow> ?w' x = []" if "x \<in> ids" for x
  proof (cases "x \<in> insert c (set fin \<union> set ready)")
    case True
    with fin [OF that] have "?w x = []" by blast
    then have "?w' x = []" using split [of x] by simp
    with True ready' show ?thesis by blast
  next
    case False
    with fin [OF that] have "?w x \<noteq> []" by blast
    then have "0 < length (?w x)" by simp
    then have "?w' x = [] \<Longrightarrow> count_list ?xs x \<noteq> 0" using split [of x] by (metis add.right_neutral list.size(3) not_less_zero)
    then have "?w' x = [] \<longrightarrow> x \<in> set ?xs" unfolding count_list_0_iff by blast
    with False ready' show ?thesis by blast
  qed
  ultimately show ?thesis
    unfolding order_inv_def by simp
qed

lemma order_loop_inv:
  assumes "order_inv es ids deg ready fin" and "\<forall>e\<in>set es. fst e \<in> ids \<and> snd e \<in> ids"
    and "\<And>k. dict_get adj k = (if k \<in> ids then Some (map snd (filter (\<lambda>e. fst e = k) es)) else None)"
    and "order_loop idx adj deg ready fin = (deg', ordered)"
  shows "order_inv es ids deg' [] ordered"
  using assms
proof (induction idx adj deg ready fin rule: order_loop.induct)
  case (1 idx adj deg ordered)
  then show ?case by simp
next
  case (2 idx adj deg c ready ordered)
  have "c \<in> ids" using "2.prems"(1) by (simp add: order_inv_def)
  then have adj: "(case dict_get adj c of None \<Rightarrow> [] | Some l \<Rightarrow> l) = map snd (filter (\<lambda>e. fst e = c) es)"
    using "2.prems"(3) by simp
  obtain deg1 ready1 where run: "relax idx (map snd (filter (\<lambda>e. fst e = c) es)) deg ready = (deg1, ready1)"
    by fastforce
  show ?case
    using "2.IH" [OF refl] run adj order_inv_step [OF "2.prems"(1,2) run] "2.prems"(2-4) by simp
qed

subsection \<open>The order of a plan\<close>

lemma step_map_get:
  assumes "distinct (step_ids steps)" and "s \<in> set steps"
  shows "dict_get (step_map steps) (step_id s) = Some s"
proof -
  have "dict_get (fold (\<lambda>s d. dict_set (step_id s) s d) steps d) (step_id s) =
      (if s \<in> set steps then Some s else dict_get d (step_id s))"
    if "distinct (step_ids steps)" and "s \<in> set steps \<or> step_id s \<notin> set (step_ids steps)" for d
    using that
  proof (induction steps arbitrary: d)
    case (Cons t steps)
    then show ?case by (cases "s = t") (auto simp: step_ids_def image_iff)
  qed simp
  with assms show ?thesis by (simp add: step_map_def)
qed

text \<open>The final loop state of a plan: its invariant, with the order of identifiers.\<close>

lemma plan_loop:
  assumes "build_graph steps = (adj, deg)"
    and "order_loop (index_of steps) adj deg
           (sort_key (index_of steps) (map fst (filter (\<lambda>(sid, n). n = 0) deg))) [] = (deg', ordered)"
  shows "order_inv (plan_edges steps) (set (step_ids steps)) deg' [] ordered"
proof (rule order_loop_inv [OF _ _ _ assms(2)])
  let ?es = "plan_edges steps"
  note graph = build_graph_get [OF assms(1)]
  show "\<forall>e\<in>set ?es. fst e \<in> set (step_ids steps) \<and> snd e \<in> set (step_ids steps)"
    using plan_edges_ids by fastforce
  show "dict_get adj k = (if k \<in> set (step_ids steps)
      then Some (map snd (filter (\<lambda>e. fst e = k) ?es)) else None)" for k
    by (rule graph(1))
  define r0 where "r0 = map fst (filter (\<lambda>(sid, n). n = 0) deg)"
  have "x \<in> set r0 \<longleftrightarrow> dict_get deg x = Some 0" for x
    unfolding r0_def using graph(3) by (force simp: dict_get_in)
  then have ready: "set r0 = {x \<in> set (step_ids steps). waits ?es {} x = []}"
    by (intro set_eqI) (simp add: graph(2) waits_def)
  have "distinct r0"
    unfolding r0_def using graph(3) by (rule distinct_map_filter)
  then have "order_inv ?es (set (step_ids steps)) deg (sort_key (index_of steps) r0) []"
    by (simp add: order_inv_def precedes_def graph(2) ready) (simp add: waits_def)
  then show "order_inv ?es (set (step_ids steps)) deg
      (sort_key (index_of steps) (map fst (filter (\<lambda>(sid, n). n = 0) deg))) []"
    by (simp add: r0_def)
qed

lemma resolve_Inr:
  assumes "resolve_execution_order steps = Inr order" and dist: "distinct (step_ids steps)"
  shows "mset order = mset steps" and "precedes (plan_edges steps) (step_ids order)"
proof -
  obtain adj deg where g: "build_graph steps = (adj, deg)" by fastforce
  obtain deg' ordered where l: "order_loop (index_of steps) adj deg
      (sort_key (index_of steps) (map fst (filter (\<lambda>(sid, n). n = 0) deg))) [] = (deg', ordered)" by fastforce
  have inv: "order_inv (plan_edges steps) (set (step_ids steps)) deg' [] ordered" by (rule plan_loop [OF g l])
  have len: "length ordered = length steps" and order: "order = map (\<lambda>sid. the (dict_get (step_map steps) sid)) ordered"
    using assms(1) g l by (auto simp: resolve_execution_order_def split: if_splits)
  have sub: "set ordered \<subseteq> set (step_ids steps)" and distinct: "distinct ordered"
    using inv by (auto simp: order_inv_def)
  have "card (set ordered) = card (set (step_ids steps))"
    using len distinct_card [OF distinct] distinct_card [OF dist] by (simp add: step_ids_def)
  with sub have same: "set ordered = set (step_ids steps)" by (simp add: card_subset_eq)
  have bk: "step_id (the (dict_get (step_map steps) sid)) = sid" if "sid \<in> set ordered" for sid
    using that same step_map_get [OF dist] by (force simp: step_ids_def)
  then have ids: "step_ids order = ordered" by (simp add: step_ids_def order map_idI)
  show "precedes (plan_edges steps) (step_ids order)"
    using inv ids by (simp add: order_inv_def)
  have "set order = set steps"
    using same step_map_get [OF dist] by (force simp: order step_ids_def image_image)
  moreover have "distinct order" using distinct ids by (metis distinct_map step_ids_def)
  moreover have "distinct steps" using dist by (simp add: step_ids_def distinct_map)
  ultimately show "mset order = mset steps" by (simp add: set_eq_iff_mset_eq_distinct)
qed

lemma resolve_Inl:
  assumes "resolve_execution_order steps = Inl e" and dist: "distinct (step_ids steps)"
  shows "\<not> acyclic (set (plan_edges steps))"
proof
  assume acyc: "acyclic (set (plan_edges steps))"
  obtain adj deg where g: "build_graph steps = (adj, deg)" by fastforce
  obtain deg' ordered where l: "order_loop (index_of steps) adj deg
      (sort_key (index_of steps) (map fst (filter (\<lambda>(sid, n). n = 0) deg))) [] = (deg', ordered)" by fastforce
  have inv: "order_inv (plan_edges steps) (set (step_ids steps)) deg' [] ordered" by (rule plan_loop [OF g l])
  have "length ordered \<noteq> length steps"
    using assms(1) g l by (auto simp: resolve_execution_order_def split: if_splits)
  moreover have "length ordered = card (set ordered)" and "length steps = card (set (step_ids steps))"
    using inv distinct_card [OF dist] by (simp_all add: order_inv_def distinct_card step_ids_def)
  ultimately have "set (step_ids steps) - set ordered \<noteq> {}"
    using inv by (auto simp: order_inv_def)
  moreover have "wf (set (plan_edges steps))"
    by (rule finite_acyclic_wf [OF _ acyc]) simp
  ultimately obtain x where x: "x \<in> set (step_ids steps) - set ordered"
      and least: "\<And>y. (y, x) \<in> set (plan_edges steps) \<Longrightarrow> y \<notin> set (step_ids steps) - set ordered"
    by (metis ex_in_conv wfE_min)
  have "waits (plan_edges steps) (set ordered) x \<noteq> []"
    using inv x by (auto simp: order_inv_def)
  then obtain d where "(d, x) \<in> set (plan_edges steps)" "d \<notin> set ordered"
    by (fastforce simp: waits_def filter_empty_conv)
  with least plan_edges_ids show False by blast
qed

lemma precedes_acyclic:
  assumes "precedes es xs" and "\<forall>e\<in>set es. snd e \<in> set xs"
  shows "acyclic (set es)"
proof -
  define pos where "pos x = (LEAST i. i < length xs \<and> xs ! i = x)" for x
  have pos: "pos x < length xs \<and> xs ! pos x = x" if "x \<in> set xs" for x
    using that unfolding pos_def by (metis (mono_tags, lifting) LeastI in_set_conv_nth)
  have "pos (fst e) < pos (snd e)" if "e \<in> set es" for e
  proof -
    have "fst e \<in> set (take (pos (snd e)) xs)"
      using assms that pos [of "snd e"] by (simp add: precedes_def)
    then obtain j where "j < pos (snd e)" "j < length xs" "xs ! j = fst e"
      by (auto simp: in_set_conv_nth)
    then have "pos (fst e) \<le> j" unfolding pos_def by (intro Least_le) simp
    with \<open>j < pos (snd e)\<close> show ?thesis by simp
  qed
  then have "set es \<subseteq> measure pos" by auto
  then show ?thesis by (meson wf_acyclic wf_measure wf_subset)
qed

subsection \<open>Properties of plans\<close>

definition demo_step :: "string \<Rightarrow> string list \<Rightarrow> plan_step" where
  "demo_step sid deps = \<lparr>step_id = sid, ps_description = ''d'', ps_tool_name = ''files.read_file'',
     ps_parameters = [], dependencies = map (\<lambda>d. \<lparr>dep_step_id = d, required_output_key = None\<rparr>) deps,
     preconditions = [], expected_outcome = ''o'', requires_revalidation = False,
     revalidation_target = None, is_terminal = False\<rparr>"

definition demo_plan :: "plan_step list" where
  "demo_plan = [demo_step ''c'' [''a'', ''b''], demo_step ''a'' [], demo_step ''b'' [''a'']]"

text \<open>C15: For a plan with unique step identifiers an execution order exists exactly when the dependency
  graph is acyclic; the order is a permutation of the steps in which every prerequisite of a step
  that is in the plan stands before the step.\<close>

theorem execution_order_correct:
  assumes "distinct (step_ids steps)"
  shows "((\<exists>order. resolve_execution_order steps = Inr order) \<longleftrightarrow> acyclic (set (plan_edges steps))) \<and>
         (\<forall>order. resolve_execution_order steps = Inr order \<longrightarrow> mset order = mset steps \<and>
            (\<forall>i<length order. \<forall>dep\<in>set (dependencies (order ! i)).
               dep_step_id dep \<in> set (step_ids steps) \<longrightarrow> dep_step_id dep \<in> step_id ` set (take i order)))"
proof (intro conjI allI impI iffI ballI)
  assume "\<exists>order. resolve_execution_order steps = Inr order"
  then obtain order where order: "resolve_execution_order steps = Inr order" by blast
  have "set order = set steps" using resolve_Inr(1) [OF order assms] by (metis set_mset_mset)
  then have "set (step_ids order) = set (step_ids steps)" by (simp add: step_ids_def)
  then have "\<forall>e\<in>set (plan_edges steps). snd e \<in> set (step_ids order)"
    using plan_edges_ids by (metis prod.collapse)
  with resolve_Inr(2) [OF order assms] show "acyclic (set (plan_edges steps))"
    by (rule precedes_acyclic)
next
  assume "acyclic (set (plan_edges steps))"
  with resolve_Inl [OF _ assms] show "\<exists>order. resolve_execution_order steps = Inr order"
    by (cases "resolve_execution_order steps") auto
next
  fix order assume order: "resolve_execution_order steps = Inr order"
  show "mset order = mset steps" by (rule resolve_Inr(1) [OF order assms])
  fix i dep assume i: "i < length order" and dep: "dep \<in> set (dependencies (order ! i))"
    "dep_step_id dep \<in> set (step_ids steps)"
  have "set order = set steps" using resolve_Inr(1) [OF order assms] by (metis set_mset_mset)
  with i have "order ! i \<in> set steps" by (metis nth_mem)
  with dep have "(dep_step_id dep, step_id (order ! i)) \<in> set (plan_edges steps)"
    by (force simp: plan_edges_def)
  with resolve_Inr(2) [OF order assms] i have "dep_step_id dep \<in> set (take i (step_ids order))"
    by (fastforce simp: precedes_def step_ids_def)
  then show "dep_step_id dep \<in> step_id ` set (take i order)" by (simp add: step_ids_def take_map)
qed

lemma execution_order_correct_witness:
  "resolve_execution_order demo_plan = Inr [demo_step ''a'' [], demo_step ''b'' [''a''], demo_step ''c'' [''a'', ''b'']] \<and>
   acyclic (set (plan_edges demo_plan))"
proof -
  have run: "resolve_execution_order demo_plan =
      Inr [demo_step ''a'' [], demo_step ''b'' [''a''], demo_step ''c'' [''a'', ''b'']]"
    unfolding demo_plan_def demo_step_def by code_simp
  have "distinct (step_ids demo_plan)" by (simp add: demo_plan_def demo_step_def step_ids_def)
  from execution_order_correct [OF this] run show ?thesis by blast
qed

lemma check_steps_None:
  "check_steps registered seen steps = None \<Longrightarrow>
   distinct (step_ids steps) \<and> set (step_ids steps) \<inter> set seen = {} \<and> (\<forall>s\<in>set steps. registered (ps_tool_name s))"
  by (induction registered seen steps rule: check_steps.induct)
    (auto simp: step_ids_def split: if_splits)

lemma first_Some: "(case filter (\<lambda>r. r \<noteq> None) rs of [] \<Rightarrow> None | r # _ \<Rightarrow> r) = None \<longleftrightarrow> (\<forall>r\<in>set rs. r = None)"
  by (induction rs) auto

lemma check_dependencies_None:
  assumes "check_dependencies steps = None" and "s \<in> set steps" and "dep \<in> set (dependencies s)"
  shows "dep_step_id dep \<noteq> step_id s \<and> dep_step_id dep \<in> set (step_ids steps)"
proof -
  have "check_dependency (step_ids steps) s dep = None"
    using assms unfolding check_dependencies_def first_Some by auto
  then show ?thesis by (simp add: check_dependency_def split: if_splits)
qed

text \<open>A plan that passes validation is within the limit, has unique step identifiers and only
  registered tools, every dependency names another step of the plan, and it has an execution order.\<close>

theorem validated_plan_executable:
  assumes "validate_plan limit registered steps = Inr ()"
  shows "length steps \<le> limit \<and> distinct (step_ids steps) \<and>
         (\<forall>s\<in>set steps. registered (ps_tool_name s) \<and>
            (\<forall>dep\<in>set (dependencies s). dep_step_id dep \<noteq> step_id s \<and> dep_step_id dep \<in> set (step_ids steps))) \<and>
         (\<exists>order. resolve_execution_order steps = Inr order)"
  using assms check_steps_None [of registered "[]" steps] check_dependencies_None [of steps]
  by (auto simp: validate_plan_def split: if_splits option.splits sum.splits)

lemma validated_plan_executable_witness:
  "\<exists>order. resolve_execution_order demo_plan = Inr order"
proof -
  have "validate_plan 15 (\<lambda>n. n = ''files.read_file'') demo_plan = Inr ()"
    unfolding demo_plan_def demo_step_def by code_simp
  from validated_plan_executable [OF this] show ?thesis by blast
qed

end
