(* ===== verification/Tool_Executor.thy ===== *)
theory Tool_Executor
  imports Confirmation
begin

text \<open>
  Models \<open>ToolRegistry\<close> of \<open>python/tom/tools/registry.py\<close> and \<open>ToolExecutor\<close> of
  \<open>python/tom/tools/executor.py\<close>: lookup, permission check, confirmation, validation, argument
  binding, time-out choice, invocation and result packaging. A tool's schema is a validation
  function, its handler is described by its signature, and what the awaited handler does is an
  argument. The secret scrubber is a pair of functions that may raise (\<open>None\<close>). The confirmation
  hook is a function on its own state. Aliasing matters in one place: the keyword arguments may be
  the caller's own dictionary, so the caller's dictionary after the call is part of the outcome.
\<close>

subsection \<open>Tools and the registry\<close>

datatype annotation = AnnText string | AnnInputSchema | AnnOtherModel | AnnOther

record sig_param =
  p_name :: string
  p_annotation :: annotation
  p_has_default :: bool

record schema =
  schema_name :: string
  validate_fields :: "(string \<times> payload) list \<Rightarrow> string + (string \<times> payload) list"

record tool_def =
  td_name :: string
  td_description :: string
  td_category :: string
  td_permission :: permission_level
  td_timeout :: rat
  td_schema :: "schema option"
  td_handler :: "sig_param list option"

datatype registry_error = ToolNotFoundError string | ToolAlreadyExistsError string

type_synonym registry = "(string, tool_def) dict"

definition register_tool :: "tool_def \<Rightarrow> bool \<Rightarrow> registry \<Rightarrow> (registry_error + tool_def) \<times> registry" where
  "register_tool t replace r =
     (if dict_get r (td_name t) \<noteq> None \<and> \<not> replace
      then (Inl (ToolAlreadyExistsError (td_name t)), r)
      else (Inr t, dict_set (td_name t) t r))"

definition get_tool :: "string \<Rightarrow> registry \<Rightarrow> registry_error + tool_def" where
  "get_tool name r =
     (case dict_get r name of None \<Rightarrow> Inl (ToolNotFoundError name) | Some t \<Rightarrow> Inr t)"

definition get_optional :: "string \<Rightarrow> registry \<Rightarrow> tool_def option" where
  "get_optional name r = dict_get r name"

definition unregister_tool :: "string \<Rightarrow> registry \<Rightarrow> (registry_error + tool_def) \<times> registry" where
  "unregister_tool name r =
     (case dict_get r name of
        None \<Rightarrow> (Inl (ToolNotFoundError name), r)
      | Some t \<Rightarrow> (Inr t, dict_del name r))"

definition has_tool :: "string \<Rightarrow> registry \<Rightarrow> bool" where
  "has_tool name r \<longleftrightarrow> name \<in> set (dict_keys r)"

definition list_tools :: "string option \<Rightarrow> registry \<Rightarrow> tool_def list" where
  "list_tools category r =
     (case category of
        None \<Rightarrow> dict_values r
      | Some c \<Rightarrow> filter (\<lambda>t. td_category t = c) (dict_values r))"

definition list_categories :: "registry \<Rightarrow> string list" where
  "list_categories r = sort (remdups (map td_category (dict_values r)))"

subsection \<open>Parameters and binding\<close>

datatype exec_params =
    NoParams | ModelParams "(string \<times> payload) list" | DictParams "(string \<times> payload) list"
  | OtherParams payload

definition normalize_params :: "exec_params \<Rightarrow> (string \<times> payload) list" where
  "normalize_params p =
     (case p of
        NoParams \<Rightarrow> [] | ModelParams d \<Rightarrow> d | DictParams d \<Rightarrow> d | OtherParams v \<Rightarrow> [(''value'', v)])"

datatype arg = ArgModel "(string \<times> payload) list" | ArgRaw payload

text \<open>\<open>shared\<close>: the keyword dictionary is the raw parameter dictionary itself.\<close>

record binding =
  call_args :: "arg list"
  call_kwargs :: "(string \<times> arg) list"
  shared :: bool

definition is_model_param :: "schema option \<Rightarrow> sig_param \<Rightarrow> bool" where
  "is_model_param sch p =
     (case sch of
        None \<Rightarrow> False
      | Some s \<Rightarrow> (case p_annotation p of
                     AnnText a \<Rightarrow> a = schema_name s
                   | AnnInputSchema \<Rightarrow> True
                   | AnnOtherModel \<Rightarrow> True
                   | AnnOther \<Rightarrow> False))"

definition raw_kwargs :: "(string \<times> payload) list \<Rightarrow> (string \<times> arg) list" where
  "raw_kwargs raw = map (\<lambda>(k, v). (k, ArgRaw v)) raw"

text \<open>\<open>model\<close> is the validated model, present exactly when the tool has a schema class.\<close>

definition bind_arguments ::
  "schema option \<Rightarrow> (string \<times> payload) list option \<Rightarrow> sig_param list \<Rightarrow> (string \<times> payload) list \<Rightarrow> binding"
  where
  "bind_arguments sch model ps raw =
     (let model_ps = filter (is_model_param sch) ps; other_ps = filter (\<lambda>p. \<not> is_model_param sch p) ps
      in if model_ps \<noteq> []
         then \<lparr>call_args = [],
               call_kwargs = fold (\<lambda>p kw. case dict_get raw (p_name p) of
                                 None \<Rightarrow> kw | Some v \<Rightarrow> dict_set (p_name p) (ArgRaw v) kw)
                               other_ps [(p_name (last model_ps), ArgModel (the model))],
               shared = False\<rparr>
         else (case ps of
                 [p] \<Rightarrow>
                   (case model of
                      Some fs \<Rightarrow>
                        if p_name p \<in> set (dict_keys fs) \<and> length fs = 1
                        then \<lparr>call_args = [], call_kwargs = raw_kwargs fs, shared = False\<rparr>
                        else \<lparr>call_args = [ArgModel fs], call_kwargs = [], shared = False\<rparr>
                    | None \<Rightarrow>
                        if p_name p \<in> set (dict_keys raw) \<and> length raw = 1
                        then \<lparr>call_args = [], call_kwargs = raw_kwargs raw, shared = True\<rparr>
                        else \<lparr>call_args = [ArgRaw (PDict raw)], call_kwargs = [], shared = False\<rparr>)
               | _ \<Rightarrow> \<lparr>call_args = [], call_kwargs = raw_kwargs raw, shared = True\<rparr>))"

definition inject_priority :: "sig_param list \<Rightarrow> payload \<Rightarrow> binding \<Rightarrow> binding" where
  "inject_priority ps prio b =
     (if list_ex (\<lambda>p. p_name p = ''resource_priority'') ps
      then b\<lparr>call_kwargs := dict_set ''resource_priority'' (ArgRaw prio) (call_kwargs b)\<rparr> else b)"

text \<open>What the caller's dictionary holds after the call (only a dictionary argument is shared).\<close>

definition params_after :: "exec_params \<Rightarrow> sig_param list \<Rightarrow> payload \<Rightarrow> binding \<Rightarrow> exec_params" where
  "params_after p ps prio b =
     (case p of
        DictParams d \<Rightarrow>
          if shared b \<and> list_ex (\<lambda>q. p_name q = ''resource_priority'') ps
          then DictParams (dict_set ''resource_priority'' prio d) else p
      | _ \<Rightarrow> p)"

definition effective_tool_timeout :: "rat option \<Rightarrow> rat \<Rightarrow> rat \<Rightarrow> rat" where
  "effective_tool_timeout given config_default tool =
     (case given of
        Some t \<Rightarrow> t
      | None \<Rightarrow> if config_default \<noteq> 15 then config_default else tool)"

subsection \<open>Scrubbing\<close>

datatype tool_data = ModelData "(string \<times> payload) list" | PlainData payload

record scrubber =
  scrub_string :: "string \<Rightarrow> string option"
  scrub_object :: "payload \<Rightarrow> payload option"
  revalidate :: "(string \<times> payload) list \<Rightarrow> payload \<Rightarrow> (string \<times> payload) list option"

definition redaction_error :: string where
  "redaction_error = ''***REDACTION_ERROR***''"

definition safe_scrub_string :: "scrubber \<Rightarrow> string \<Rightarrow> string" where
  "safe_scrub_string scr t = (case scrub_string scr t of None \<Rightarrow> redaction_error | Some u \<Rightarrow> u)"

definition safe_scrub_object :: "scrubber \<Rightarrow> payload \<Rightarrow> payload" where
  "safe_scrub_object scr v = (case scrub_object scr v of None \<Rightarrow> PStr redaction_error | Some u \<Rightarrow> u)"

definition safe_scrub_data :: "scrubber \<Rightarrow> tool_data \<Rightarrow> tool_data" where
  "safe_scrub_data scr d =
     (case d of
        ModelData m \<Rightarrow> (case scrub_object scr (PDict m) of
                          None \<Rightarrow> PlainData (PStr redaction_error)
                        | Some v \<Rightarrow> (case revalidate scr m v of
                                       Some m' \<Rightarrow> ModelData m' | None \<Rightarrow> PlainData v))
      | PlainData v \<Rightarrow> PlainData (safe_scrub_object scr v))"

subsection \<open>Execution\<close>

record tool_result =
  res_success :: bool
  res_data :: tool_data
  res_error :: "string option"
  res_time_ms :: rat

definition result_ok :: "tool_data \<Rightarrow> rat \<Rightarrow> tool_result" where
  "result_ok d ms = \<lparr>res_success = True, res_data = d, res_error = None, res_time_ms = ms\<rparr>"

definition result_fail :: "string \<Rightarrow> rat \<Rightarrow> tool_result" where
  "result_fail e ms = \<lparr>res_success = False, res_data = PlainData POther, res_error = Some e, res_time_ms = ms\<rparr>"

text \<open>\<open>HandlerCallRaises\<close>: creating the coroutine of an asynchronous handler raises (a missing or
  unexpected argument), which happens before the protected wait.\<close>

datatype handler_outcome =
    HandlerReturns tool_data
  | HandlerReturnsResult bool tool_data "string option"
  | HandlerRaises string
  | HandlerCallRaises string
  | HandlerTimesOut
  | HandlerCancelled

datatype exec_error =
    UnknownTool string | NoHandler string | EvaluationError
  | PermissionDenied string decision_reason | ConfirmationDenied string decision_reason
  | InvalidConfirmationRequest | HookSecurityError | HandlerCallError string | ExecCancelled

record exec_env =
  env_registry :: registry
  env_engine :: engine
  env_confirmation_timeout :: rat
  env_default_timeout :: rat
  env_scrubber :: scrubber
  env_scan :: "string \<Rightarrow> bool"
  env_format :: "rat \<Rightarrow> string"

definition quoted :: "string \<Rightarrow> string" where
  "quoted s = [CHR 0x27] @ s @ [CHR 0x27]"

definition elapsed_ms :: "rat \<Rightarrow> rat" where
  "elapsed_ms t = max t (1 / 1000)"

text \<open>Step 7 on: what the outcome of the awaited handler becomes.\<close>

definition package_outcome ::
  "exec_env \<Rightarrow> string \<Rightarrow> rat \<Rightarrow> rat \<Rightarrow> handler_outcome \<Rightarrow> exec_error + tool_result" where
  "package_outcome env name limit elapsed out =
     (let scr = env_scrubber env; ms = elapsed_ms elapsed
      in case out of
           HandlerTimesOut \<Rightarrow> Inr (result_fail (safe_scrub_string scr
             (''Tool '' @ quoted name @ '' timed out after '' @ env_format env limit @ '' seconds'')) ms)
         | HandlerCancelled \<Rightarrow> Inl ExecCancelled
         | HandlerCallRaises e \<Rightarrow> Inl (HandlerCallError e)
         | HandlerRaises e \<Rightarrow> Inr (result_fail (safe_scrub_string scr
             (''Tool '' @ quoted name @ '' execution failed: '' @ e)) ms)
         | HandlerReturnsResult ok d e \<Rightarrow> Inr
             \<lparr>res_success = ok, res_data = safe_scrub_data scr d,
              res_error = map_option (safe_scrub_string scr) e, res_time_ms = ms\<rparr>
         | HandlerReturns d \<Rightarrow> Inr (result_ok (safe_scrub_data scr d) ms))"

text \<open>
  The outcome of one call: the result or the raised error, how the handler was invoked (with its
  time limit), the caller's parameters afterwards and the state of the confirmation hook.
\<close>

record 's exec_run =
  run_result :: "exec_error + tool_result"
  run_invoked :: "(binding \<times> rat) option"
  run_params :: exec_params
  run_hook :: 's

definition stopped :: "exec_error + tool_result \<Rightarrow> exec_params \<Rightarrow> 's \<Rightarrow> 's exec_run" where
  "stopped r p st = \<lparr>run_result = r, run_invoked = None, run_params = p, run_hook = st\<rparr>"

text \<open>Steps 4 to 7, after the permission and the confirmation.\<close>

definition invoke_tool ::
  "exec_env \<Rightarrow> tool_def \<Rightarrow> sig_param list \<Rightarrow> string \<Rightarrow> exec_params \<Rightarrow> rat option \<Rightarrow> payload \<Rightarrow> rat \<Rightarrow>
   (binding \<Rightarrow> rat \<Rightarrow> handler_outcome) \<Rightarrow> 's \<Rightarrow> 's exec_run" where
  "invoke_tool env tool ps name p given prio elapsed outcome st =
     (let raw = normalize_params p
      in case (case td_schema tool of
                 None \<Rightarrow> Inr None
               | Some s \<Rightarrow> map_sum id Some (validate_fields s raw)) of
           Inl err \<Rightarrow> stopped (Inr (result_fail (safe_scrub_string (env_scrubber env)
               (''Argument validation failed for tool '' @ quoted name @ '': '' @ err)) (elapsed_ms elapsed))) p st
         | Inr model \<Rightarrow>
             (let b0 = bind_arguments (td_schema tool) model ps raw;
                  b = inject_priority ps prio b0;
                  limit = effective_tool_timeout given (env_default_timeout env) (td_timeout tool)
              in \<lparr>run_result = package_outcome env name limit elapsed (outcome b limit),
                  run_invoked = Some (b, limit), run_params = params_after p ps prio b0, run_hook = st\<rparr>))"

definition confirmation_request_of :: "exec_env \<Rightarrow> tool_def \<Rightarrow> (string \<times> payload) list \<Rightarrow> conf_request option" where
  "confirmation_request_of env tool raw =
     (case safe_scrub_object (env_scrubber env) (PDict raw) of
        PDict d \<Rightarrow> Some \<lparr>req_tool_name = td_name tool, req_description = td_description tool,
                         req_params = d, req_timeout = env_confirmation_timeout env\<rparr>
      | _ \<Rightarrow> None)"

definition execute_tool ::
  "exec_env \<Rightarrow> (conf_request \<Rightarrow> 's \<Rightarrow> hook_result \<times> 's) \<Rightarrow> string \<Rightarrow> exec_params \<Rightarrow> rat option \<Rightarrow> payload \<Rightarrow>
   rat \<Rightarrow> (binding \<Rightarrow> rat \<Rightarrow> handler_outcome) \<Rightarrow> 's \<Rightarrow> 's exec_run" where
  "execute_tool env ask name p given prio elapsed outcome st =
     (case get_tool name (env_registry env) of
        Inl _ \<Rightarrow> stopped (Inl (UnknownTool name)) p st
      | Inr tool \<Rightarrow>
          (case td_handler tool of
             None \<Rightarrow> stopped (Inl (NoHandler name)) p st
           | Some ps \<Rightarrow>
               (let raw = normalize_params p
                in case evaluate (env_scan env) (env_engine env) (ToolDef (td_name tool) (td_permission tool))
                          (Some raw) ''SAFE'' of
                     None \<Rightarrow> stopped (Inl EvaluationError) p st
                   | Some d \<Rightarrow>
                       if \<not> allowed d \<or> level d = BLOCK
                       then stopped (Inl (PermissionDenied name (reason d))) p st
                       else if \<not> requires_confirmation d
                         then invoke_tool env tool ps name p given prio elapsed outcome st
                       else (case confirmation_request_of env tool raw of
                               None \<Rightarrow> stopped (Inl InvalidConfirmationRequest) p st
                             | Some req \<Rightarrow>
                                 (case ask req st of
                                    (Answer True, st') \<Rightarrow>
                                      invoke_tool env tool ps name p given prio elapsed outcome st'
                                  | (Answer False, st') \<Rightarrow>
                                      stopped (Inl (ConfirmationDenied name (reason d))) p st'
                                  | (SecurityErrorOut, st') \<Rightarrow> stopped (Inl HookSecurityError) p st'
                                  | (CancelledOut, st') \<Rightarrow> stopped (Inl ExecCancelled) p st')))))"

subsection \<open>What an invocation implies\<close>

lemma invoke_tool_invoked:
  assumes "run_invoked (invoke_tool env tool ps name p given prio elapsed outcome st) = Some call"
    and "td_schema tool = Some s"
  shows "\<exists>m. validate_fields s (normalize_params p) = Inr m"
  using assms
  by (cases "validate_fields s (normalize_params p)") (auto simp: invoke_tool_def stopped_def Let_def)

lemma stopped_fields [simp]:
  "run_result (stopped r p st) = r" "run_invoked (stopped r p st) = None"
  "run_params (stopped r p st) = p" "run_hook (stopped r p st) = st"
  by (simp_all add: stopped_def)

text \<open>Every execution either stops with an error before the invocation or is an invocation.\<close>

definition may_invoke ::
  "exec_env \<Rightarrow> (conf_request \<Rightarrow> 's \<Rightarrow> hook_result \<times> 's) \<Rightarrow> string \<Rightarrow> exec_params \<Rightarrow> 's \<Rightarrow> tool_def \<Rightarrow>
   sig_param list \<Rightarrow> decision \<Rightarrow> bool" where
  "may_invoke env ask name p st tool ps d \<longleftrightarrow>
     get_tool name (env_registry env) = Inr tool \<and> td_handler tool = Some ps \<and>
     evaluate (env_scan env) (env_engine env) (ToolDef (td_name tool) (td_permission tool))
       (Some (normalize_params p)) ''SAFE'' = Some d \<and>
     allowed d \<and> level d \<noteq> BLOCK \<and>
     (requires_confirmation d \<longrightarrow> (\<exists>req. confirmation_request_of env tool (normalize_params p) = Some req \<and>
        fst (ask req st) = Answer True))"

lemma execute_tool_shape:
  obtains e st' where "execute_tool env ask name p given prio elapsed outcome st = stopped (Inl e) p st'"
  | tool ps d st' where "may_invoke env ask name p st tool ps d"
      and "execute_tool env ask name p given prio elapsed outcome st =
             invoke_tool env tool ps name p given prio elapsed outcome st'"
proof (cases "get_tool name (env_registry env)")
  case (Inl e)
  then show ?thesis using that(1) by (simp add: execute_tool_def)
next
  case tool: (Inr tool)
  show ?thesis
  proof (cases "td_handler tool")
    case None
    then show ?thesis using that(1) tool by (simp add: execute_tool_def)
  next
    case ps: (Some ps)
    let ?ev = "evaluate (env_scan env) (env_engine env) (ToolDef (td_name tool) (td_permission tool))
        (Some (normalize_params p)) ''SAFE''"
    show ?thesis
    proof (cases ?ev)
      case None
      then show ?thesis using that(1) tool ps by (simp add: execute_tool_def)
    next
      case d: (Some d)
      let ?rq = "confirmation_request_of env tool (normalize_params p)"
      consider "\<not> allowed d \<or> level d = BLOCK" | "allowed d" "level d \<noteq> BLOCK" "\<not> requires_confirmation d"
        | "allowed d" "level d \<noteq> BLOCK" "requires_confirmation d" "?rq = None"
        | req where "allowed d" "level d \<noteq> BLOCK" "requires_confirmation d" "?rq = Some req" by blast
      then show ?thesis
      proof cases
        case 1
        then show ?thesis using that(1) tool ps d by (simp add: execute_tool_def)
      next
        case 2
        then show ?thesis using that(2) [of tool ps d] tool ps d by (simp add: execute_tool_def may_invoke_def)
      next
        case 3
        then show ?thesis using that(1) tool ps d by (simp add: execute_tool_def)
      next
        case (4 req)
        obtain r st' where r: "ask req st = (r, st')" by fastforce
        show ?thesis
        proof (cases "r = Answer True")
          case True
          then show ?thesis using that(2) [of tool ps d] tool ps d r 4 by (simp add: execute_tool_def may_invoke_def)
        next
          case False
          then show ?thesis
            using that(1) tool ps d r 4 by (cases r) (auto simp: execute_tool_def split: bool.splits)
        qed
      qed
    qed
  qed
qed

lemma execute_tool_invoked:
  assumes "run_invoked (execute_tool env ask name p given prio elapsed outcome st) = Some call"
  obtains tool ps d where "may_invoke env ask name p st tool ps d"
    and "\<And>s. td_schema tool = Some s \<Longrightarrow> \<exists>m. validate_fields s (normalize_params p) = Inr m"
proof (cases rule: execute_tool_shape [of env ask name p given prio elapsed outcome st])
  case (1 e st')
  with assms show ?thesis by simp
next
  case (2 tool ps d st')
  with assms have "run_invoked (invoke_tool env tool ps name p given prio elapsed outcome st') = Some call"
    by simp
  from that [OF 2(1) invoke_tool_invoked [OF this]] show ?thesis by blast
qed

text \<open>The client of the hook interface: a tool that needs a confirmation runs only with consent.\<close>

context confirmation_hook
begin

lemma invoked_with_consent:
  assumes run: "run_invoked (execute_tool env (\<lambda>req. ask req out) name p given prio elapsed outcome st) = Some call"
    and tool: "get_tool name (env_registry env) = Inr tool"
    and d: "evaluate (env_scan env) (env_engine env) (ToolDef (td_name tool) (td_permission tool))
           (Some (normalize_params p)) ''SAFE'' = Some d"
    and confirm: "requires_confirmation d"
  shows "consents out"
proof -
  obtain tool' ps d' where "may_invoke env (\<lambda>req. ask req out) name p st tool' ps d'"
    by (rule execute_tool_invoked [OF run])
  with tool d confirm obtain req where "fst (ask req out st) = Answer True"
    by (auto simp: may_invoke_def)
  then show ?thesis by (rule fail_closed)
qed

end

subsection \<open>Properties of the executor\<close>

definition demo_tool :: tool_def where
  "demo_tool = \<lparr>td_name = ''files.delete_file'', td_description = ''Delete'', td_category = ''files'',
     td_permission = ASK_USER, td_timeout = 15, td_schema = None,
     td_handler = Some [\<lparr>p_name = ''path'', p_annotation = AnnOther, p_has_default = False\<rparr>,
                        \<lparr>p_name = ''resource_priority'', p_annotation = AnnOther, p_has_default = True\<rparr>]\<rparr>"

definition demo_scrubber :: scrubber where
  "demo_scrubber = \<lparr>scrub_string = Some, scrub_object = Some, revalidate = (\<lambda>_ _. None)\<rparr>"

definition demo_env :: exec_env where
  "demo_env = \<lparr>env_registry = [(''files.delete_file'', demo_tool)], env_engine = default_engine,
     env_confirmation_timeout = 30, env_default_timeout = 15, env_scrubber = demo_scrubber,
     env_scan = (\<lambda>_. False), env_format = (\<lambda>_. ''15.0'')\<rparr>"

definition demo_params :: exec_params where
  "demo_params = DictParams [(''path'', PStr ''a.txt'')]"

definition demo_run :: "console exec_run" where
  "demo_run = execute_tool demo_env (\<lambda>req. console_request True req True 3 (Answers ''yes''))
     ''files.delete_file'' demo_params None POther 1 (\<lambda>_ _. HandlerReturns (PlainData (PStr ''done''))) demo_console"

lemma demo_run_invoked: "run_invoked demo_run \<noteq> None"
  unfolding demo_run_def demo_env_def demo_tool_def demo_scrubber_def demo_params_def demo_console_def
    default_tracker_def by code_simp

text \<open>C4: The handler of a tool is invoked only after the permission engine allowed the call, with no
  blocked command anywhere in its arguments, after the hook answered True if the decision requires
  a confirmation, and with arguments its schema accepts.\<close>

theorem invocation_gated:
  assumes "run_invoked (execute_tool env ask name p given prio elapsed outcome st) \<noteq> None"
    and "[] \<notin> set (blocked_commands (env_engine env))"
  shows "\<exists>tool d. dict_get (env_registry env) name = Some tool \<and>
           evaluate (env_scan env) (env_engine env) (ToolDef (td_name tool) (td_permission tool))
             (Some (normalize_params p)) ''SAFE'' = Some d \<and>
           allowed d \<and> level d \<noteq> BLOCK \<and>
           (\<nexists>s. text_in s (PDict (normalize_params p)) \<and> is_blocked_command (env_engine env) s) \<and>
           (requires_confirmation d \<longrightarrow>
              (\<exists>req. req_tool_name req = td_name tool \<and> fst (ask req st) = Answer True)) \<and>
           (\<forall>s. td_schema tool = Some s \<longrightarrow> (\<exists>m. validate_fields s (normalize_params p) = Inr m))"
proof -
  obtain call where call: "run_invoked (execute_tool env ask name p given prio elapsed outcome st) = Some call"
    using assms(1) by auto
  obtain tool ps d where may: "may_invoke env ask name p st tool ps d"
    and valid: "\<And>s. td_schema tool = Some s \<Longrightarrow> \<exists>m. validate_fields s (normalize_params p) = Inr m"
    using execute_tool_invoked [OF call] by metis
  have d: "evaluate (env_scan env) (env_engine env) (ToolDef (td_name tool) (td_permission tool))
           (Some (normalize_params p)) ''SAFE'' = Some d" "allowed d" "level d \<noteq> BLOCK"
    using may by (simp_all add: may_invoke_def)
  have "blocked_match (env_engine env) (Some (normalize_params p)) = None"
    using evaluate_allowed [OF d(1,2)] by metis
  with blocked_match_spec [OF assms(2)]
  have "\<nexists>s. text_in s (PDict (normalize_params p)) \<and> is_blocked_command (env_engine env) s" by blast
  moreover have "requires_confirmation d \<longrightarrow> (\<exists>req. req_tool_name req = td_name tool \<and> fst (ask req st) = Answer True)"
  proof
    assume "requires_confirmation d"
    with may obtain req where req: "confirmation_request_of env tool (normalize_params p) = Some req"
        and "fst (ask req st) = Answer True" by (auto simp: may_invoke_def)
    moreover have "req_tool_name req = td_name tool"
      using req by (auto simp: confirmation_request_of_def split: payload.splits)
    ultimately show "\<exists>req. req_tool_name req = td_name tool \<and> fst (ask req st) = Answer True" by blast
  qed
  moreover have "dict_get (env_registry env) name = Some tool"
    using may by (auto simp: may_invoke_def get_tool_def split: option.splits)
  ultimately show ?thesis using d valid by blast
qed

lemma invocation_gated_witness:
  "\<exists>tool d. dict_get (env_registry demo_env) ''files.delete_file'' = Some tool \<and>
     evaluate (\<lambda>_. False) default_engine (ToolDef (td_name tool) (td_permission tool))
       (Some [(''path'', PStr ''a.txt'')]) ''SAFE'' = Some d \<and> allowed d"
proof -
  have "[] \<notin> set (blocked_commands (env_engine demo_env))"
    by (simp add: demo_env_def default_engine_def default_blocked_commands_def)
  from invocation_gated [OF demo_run_invoked [unfolded demo_run_def] this]
  show ?thesis by (auto simp: demo_env_def demo_params_def normalize_params_def)
qed

text \<open>With the console hook a tool whose decision requires a confirmation is invoked only if the
  user typed an explicit yes in time and the decision was written to the audit log.\<close>

theorem console_consent_needed:
  assumes "run_invoked (execute_tool env (\<lambda>req. console_request emits req isatty now input) name p given prio
             elapsed outcome c) = Some call"
    and "dict_get (env_registry env) name = Some tool"
    and "evaluate (env_scan env) (env_engine env) (ToolDef (td_name tool) (td_permission tool))
           (Some (normalize_params p)) ''SAFE'' = Some d"
    and "requires_confirmation d"
  shows "emits \<and> (\<exists>s. input = Answers s \<and> lower (strip s) \<in> {''y'', ''yes''})"
  using ch_console.invoked_with_consent [of env "(emits, isatty, now, input)" name p given prio elapsed outcome c
      call tool d] assms
  by (simp add: get_tool_def affirmative_def)

lemma console_consent_needed_witness:
  "\<exists>s. Answers ''yes'' = Answers s \<and> lower (strip s) \<in> {''y'', ''yes''}"
proof -
  obtain call where call: "run_invoked demo_run = Some call" using demo_run_invoked by auto
  have tool: "dict_get (env_registry demo_env) ''files.delete_file'' = Some demo_tool" by (simp add: demo_env_def)
  have "map_option requires_confirmation (evaluate (env_scan demo_env) (env_engine demo_env)
      (ToolDef (td_name demo_tool) (td_permission demo_tool)) (Some (normalize_params demo_params)) ''SAFE'') = Some True"
    unfolding demo_env_def demo_tool_def demo_params_def by code_simp
  then obtain d where "evaluate (env_scan demo_env) (env_engine demo_env)
      (ToolDef (td_name demo_tool) (td_permission demo_tool)) (Some (normalize_params demo_params)) ''SAFE'' = Some d"
    and "requires_confirmation d" by auto
  from console_consent_needed [OF call [unfolded demo_run_def] tool this] show ?thesis by blast
qed

text \<open>Nothing unscrubbed leaves the executor: the error text of every result is an output of the
  scrubber (or its fixed replacement when it raises), and so is the data of every result but the
  empty one.\<close>

theorem results_scrubbed:
  assumes "run_result (execute_tool env ask name p given prio elapsed outcome st) = Inr r"
  shows "(\<exists>e. res_error r = map_option (safe_scrub_string (env_scrubber env)) e) \<and>
         ((\<exists>d. res_data r = safe_scrub_data (env_scrubber env) d) \<or> res_data r = PlainData POther) \<and>
         0 < res_time_ms r"
proof -
  have pack: "(\<exists>e. res_error r = map_option (safe_scrub_string (env_scrubber env)) e) \<and>
      ((\<exists>d. res_data r = safe_scrub_data (env_scrubber env) d) \<or> res_data r = PlainData POther) \<and> 0 < res_time_ms r"
    if "package_outcome env name limit elapsed out = Inr r" for limit out
  proof -
    have some: "\<exists>e. Some (safe_scrub_string scr t) = map_option (safe_scrub_string scr) e" for scr t
      by (rule exI [of _ "Some t"]) simp
    have none: "\<exists>e. None = map_option (safe_scrub_string scr) e" for scr
      by (rule exI [of _ None]) simp
    show ?thesis
      using that some none by (cases out) (auto simp: package_outcome_def result_fail_def result_ok_def elapsed_ms_def Let_def)
  qed
  have invoke: "(\<exists>e. res_error r = map_option (safe_scrub_string (env_scrubber env)) e) \<and>
      ((\<exists>d. res_data r = safe_scrub_data (env_scrubber env) d) \<or> res_data r = PlainData POther) \<and> 0 < res_time_ms r"
    if "run_result (invoke_tool env tool ps name p given prio elapsed outcome st') = Inr r" for tool ps and st' :: 'a
  proof -
    have "\<exists>e. Some (safe_scrub_string (env_scrubber env) t) = map_option (safe_scrub_string (env_scrubber env)) e" for t
      by (rule exI [of _ "Some t"]) simp
    then show ?thesis
      using that pack by (auto simp: invoke_tool_def result_fail_def elapsed_ms_def Let_def split: sum.splits option.splits)
  qed
  from assms show ?thesis
    by (cases rule: execute_tool_shape [of env ask name p given prio elapsed outcome st]) (auto dest: invoke)
qed

lemma results_scrubbed_witness: "\<exists>r. run_result demo_run = Inr r \<and> 0 < res_time_ms r"
proof -
  have "map_sum (\<lambda>_. ()) res_success (run_result demo_run) = Inr True"
    unfolding demo_run_def demo_env_def demo_tool_def demo_scrubber_def demo_params_def demo_console_def
      default_tracker_def by code_simp
  then obtain r where "run_result demo_run = Inr r" by (cases "run_result demo_run") auto
  with results_scrubbed [OF this [unfolded demo_run_def]] show ?thesis by blast
qed

text \<open>The executor writes into the caller's arguments: when the handler has several parameters, none
  of them a model, and one is called resource_priority, the invoked call has put that key into the
  dictionary the caller passed.\<close>

theorem caller_arguments_mutated:
  assumes "run_invoked (execute_tool env ask name (DictParams d) given prio elapsed outcome st) = Some call"
    and "dict_get (env_registry env) name = Some tool" and "td_handler tool = Some ps"
    and "2 \<le> length ps" and "list_ex (\<lambda>q. p_name q = ''resource_priority'') ps" and "td_schema tool = None"
  shows "run_params (execute_tool env ask name (DictParams d) given prio elapsed outcome st) =
           DictParams (dict_set ''resource_priority'' prio d)"
proof -
  obtain a b qs where ps: "ps = a # b # qs" using assms(4) by (cases ps; cases "tl ps") auto
  have "filter (is_model_param None) ps = []" by (simp add: is_model_param_def)
  then have "run_params (invoke_tool env tool ps name (DictParams d) given prio elapsed outcome st') =
      DictParams (dict_set ''resource_priority'' prio d)" for st'
    using assms(5,6) ps
    by (simp add: invoke_tool_def bind_arguments_def params_after_def Let_def is_model_param_def)
  with assms(1-3) show ?thesis
    by (cases rule: execute_tool_shape [of env ask name "DictParams d" given prio elapsed outcome st])
      (auto simp: may_invoke_def get_tool_def)
qed

lemma caller_arguments_mutated_witness:
  "run_params demo_run = DictParams [(''path'', PStr ''a.txt''), (''resource_priority'', POther)]"
proof -
  obtain call where call: "run_invoked demo_run = Some call" using demo_run_invoked by auto
  have tool: "dict_get (env_registry demo_env) ''files.delete_file'' = Some demo_tool" by (simp add: demo_env_def)
  from caller_arguments_mutated [OF call [unfolded demo_run_def demo_params_def] tool] show ?thesis
    by (simp add: demo_run_def demo_params_def demo_tool_def)
qed

end
