(* ===== verification/Task_Executor.thy ===== *)
theory Task_Executor
  imports Task_Lifecycle Plan_Order Loop_Detector Tool_Executor
begin

text \<open>
  Models \<open>TaskExecutor.execute\<close> of \<open>python/tom/agents/executor.py\<close> and the revalidator of
  \<open>python/tom/agents/revalidator.py\<close>: the preparation of the task, the execution order, and one
  iteration of the step loop with its checks in the code's order. The task manager, the execution
  order, the loop detector and the tool executor are the models of the other theories. At the two
  suspension points of an iteration (the visual revalidation and the tool call) other coroutines may
  change the task manager; what they do is an argument, as are the vision manager's answers, the
  outcome of each handler, and the clock.
\<close>

subsection \<open>Visual revalidation\<close>

record box =
  box_left :: rat
  box_right :: rat
  box_top :: rat
  box_bottom :: rat

text \<open>How a parameter value reads as a coordinate: absent or None, a number, or anything else, whose
  comparison with a number raises.\<close>

datatype coord = NoCoord | NumCoord rat | BadCoord

record reval_env =
  vision :: "(string \<Rightarrow> box list option) option"
  read_coord :: "payload \<Rightarrow> coord"

definition coord_at :: "reval_env \<Rightarrow> (string \<times> payload) list \<Rightarrow> string \<Rightarrow> coord" where
  "coord_at env ps k = (case dict_get ps k of None \<Rightarrow> NoCoord | Some v \<Rightarrow> read_coord env v)"

definition step_coords :: "reval_env \<Rightarrow> (string \<times> payload) list \<Rightarrow> coord \<times> coord" where
  "step_coords env ps =
     (case (coord_at env ps ''x'', dict_get ps ''coords'') of
        (NoCoord, Some (PSeq (a # b # _))) \<Rightarrow> (read_coord env a, read_coord env b)
      | (x, _) \<Rightarrow> (x, coord_at env ps ''y''))"

text \<open>\<open>any(...)\<close> over the boxes with its short-circuits; \<open>None\<close> is a raised comparison.\<close>

definition inside :: "rat \<Rightarrow> coord \<Rightarrow> rat \<Rightarrow> bool option" where
  "inside lo c hi = (case c of NumCoord v \<Rightarrow> Some (lo \<le> v \<and> v \<le> hi) | _ \<Rightarrow> None)"

fun coords_match :: "coord \<Rightarrow> coord \<Rightarrow> box list \<Rightarrow> bool option" where
  "coords_match x y [] = Some False"
| "coords_match x y (b # bs) =
     (case inside (box_left b) x (box_right b) of
        None \<Rightarrow> None
      | Some False \<Rightarrow> coords_match x y bs
      | Some True \<Rightarrow> (case inside (box_top b) y (box_bottom b) of
                       None \<Rightarrow> None
                     | Some True \<Rightarrow> Some True
                     | Some False \<Rightarrow> coords_match x y bs))"

definition reval_target :: "plan_step \<Rightarrow> string" where
  "reval_target s = (case revalidation_target s of
     Some t \<Rightarrow> if t = [] then ps_description s else t | None \<Rightarrow> ps_description s)"

definition revalidate_step :: "reval_env \<Rightarrow> plan_step \<Rightarrow> bool option" where
  "revalidate_step env s =
     (if \<not> requires_revalidation s then Some True
      else case vision env of
             None \<Rightarrow> Some False
           | Some find_element \<Rightarrow>
               if reval_target s = [] then Some False
               else (case find_element (reval_target s) of
                       None \<Rightarrow> Some False
                     | Some [] \<Rightarrow> Some False
                     | Some boxes \<Rightarrow>
                         (case step_coords env (ps_parameters s) of
                            (NoCoord, _) \<Rightarrow> Some True
                          | (_, NoCoord) \<Rightarrow> Some True
                          | (x, y) \<Rightarrow> coords_match x y boxes)))"

subsection \<open>Environment and state\<close>

text \<open>\<open>te_priority\<close> is the resource priority read from the task's metadata.\<close>

record 's te_env =
  te_max_steps :: int
  te_timeout :: rat
  te_exec :: exec_env
  te_ask :: "conf_request \<Rightarrow> 's \<Rightarrow> hook_result \<times> 's"
  te_outcome :: "nat \<Rightarrow> binding \<Rightarrow> rat \<Rightarrow> handler_outcome"
  te_error_text :: "exec_error \<Rightarrow> string"
  te_reval :: "nat \<Rightarrow> reval_env"
  te_during_revalidation :: "nat \<Rightarrow> manager \<Rightarrow> manager"
  te_during_tool :: "nat \<Rightarrow> manager \<Rightarrow> manager"
  te_external_token :: "(nat \<Rightarrow> bool) option"
  te_elapsed :: "nat \<Rightarrow> rat"
  te_tool_elapsed :: "nat \<Rightarrow> rat"
  te_priority :: payload
  te_serialize :: "(string \<times> payload) list \<Rightarrow> string"
  te_digest :: "string \<Rightarrow> string"
  te_observe :: "tool_data \<Rightarrow> observation"
  te_loop_text :: "loop_reason \<Rightarrow> string"
  te_format :: "rat \<Rightarrow> string"
  te_db :: bool
  te_now :: rat

record 's te_state =
  ts_manager :: manager
  ts_detector :: detector
  ts_hook :: 's
  ts_results :: "step_result list"
  ts_executed :: nat
  ts_done :: "string list"

datatype te_error =
    TaskFailure task_error | PlanFailure plan_error | ToolMissing string | EvaluationRaised
  | RevalidationRaised | CancelledByCaller

type_synonym te_exit = "te_error + task_result"

definition step_budget :: "'s te_env \<Rightarrow> nat" where
  "step_budget env = nat (max 1 (te_max_steps env))"

definition time_limit :: "'s te_env \<Rightarrow> rat" where
  "time_limit env = max (1 / 100) (te_timeout env)"

definition data_payload :: "tool_data \<Rightarrow> payload option" where
  "data_payload d = (case d of ModelData m \<Rightarrow> Some (PDict m) | PlainData v \<Rightarrow> Some v)"

definition token_cancelled :: "'s te_env \<Rightarrow> string \<Rightarrow> 's te_state \<Rightarrow> bool" where
  "token_cancelled env tid st =
     (case te_external_token env of
        Some f \<Rightarrow> f (ts_executed st)
      | None \<Rightarrow> get_token tid (ts_manager st) = Inr True)"

subsection \<open>Leaving the loop\<close>

text \<open>The calls below cannot raise: a task is never removed from the manager's registry.\<close>

definition exit_result :: "string \<Rightarrow> task_state \<Rightarrow> 's te_state \<Rightarrow> nat \<Rightarrow> string option \<Rightarrow> task_result" where
  "exit_result tid s st n err = \<lparr>tr_task_id = tid, tr_state = s,
     tr_step_results = ts_results st, tr_total_steps = n, tr_error = err\<rparr>"

definition exit_failed :: "'s te_env \<Rightarrow> string \<Rightarrow> string \<Rightarrow> nat \<Rightarrow> 's te_state \<Rightarrow> te_exit \<times> 's te_state" where
  "exit_failed env tid err n st =
     (let st' = st\<lparr>ts_manager := snd (fail_task (te_db env) (te_now env) tid err (ts_manager st))\<rparr>
      in (Inr (exit_result tid FAILED st' n (Some err)), st'))"

definition exit_cancelled :: "'s te_env \<Rightarrow> string \<Rightarrow> 's te_state \<Rightarrow> te_exit \<times> 's te_state" where
  "exit_cancelled env tid st =
     (let st' = st\<lparr>ts_manager := snd (cancel_task (te_db env) (te_now env) tid (ts_manager st))\<rparr>
      in (Inr (exit_result tid CANCELLED st' (ts_executed st) (Some ''Task execution cancelled'')), st'))"

text \<open>A step that is refused before its tool runs is recorded as failed and ends the task.\<close>

definition refuse_step ::
  "'s te_env \<Rightarrow> string \<Rightarrow> plan_step \<Rightarrow> string \<Rightarrow> 's te_state \<Rightarrow> te_exit \<times> 's te_state" where
  "refuse_step env tid s err st =
     (let r = \<lparr>sr_step_id = step_id s, sr_step_index = ts_executed st, sr_tool_name = ps_tool_name s,
               sr_success = False, sr_output = None, sr_error = Some err, sr_execution_time_ms = 0\<rparr>;
          st' = st\<lparr>ts_manager := snd (record_step (te_db env) (te_now env) tid r (ts_manager st)),
                   ts_results := ts_results st @ [r]\<rparr>
      in exit_failed env tid err (ts_executed st + 1) st')"

definition timeout_text :: "'s te_env \<Rightarrow> string" where
  "timeout_text env = ''Task execution exceeded timeout limit ('' @ te_format env (time_limit env) @ ''s)''"

definition budget_text :: "'s te_env \<Rightarrow> string" where
  "budget_text env = ''Task execution exceeded step budget limit ('' @
     te_format env (of_nat (step_budget env)) @ '' steps)''"

definition finish :: "'s te_env \<Rightarrow> string \<Rightarrow> 's te_state \<Rightarrow> te_exit \<times> 's te_state" where
  "finish env tid st =
     (if time_limit env < te_elapsed env (ts_executed st)
      then exit_failed env tid (timeout_text env) (ts_executed st) st
      else let st' = st\<lparr>ts_manager := snd (complete_task (te_db env) (te_now env) tid (ts_manager st))\<rparr>
           in (Inr (exit_result tid COMPLETED st' (ts_executed st) None), st'))"

subsection \<open>One iteration\<close>

definition dependency_text :: "plan_step \<Rightarrow> step_dependency \<Rightarrow> string" where
  "dependency_text s d = ''Step '' @ quoted (step_id s) @ '' prerequisite dependency '' @
     quoted (dep_step_id d) @ '' was not satisfied or failed''"

definition revalidation_text :: "plan_step \<Rightarrow> string" where
  "revalidation_text s = ''Visual revalidation failed for step '' @ quoted (step_id s) @ '': target '' @
     quoted (reval_target s) @ '' missing or moved''"

text \<open>The checks before the tool call, up to the revalidation gate.\<close>

definition revalidation_gate ::
  "'s te_env \<Rightarrow> string \<Rightarrow> plan_step \<Rightarrow> 's te_state \<Rightarrow> (te_exit \<times> 's te_state) + 's te_state" where
  "revalidation_gate env tid s st =
     (if \<not> requires_revalidation s then Inr st
      else let st' = st\<lparr>ts_manager := te_during_revalidation env (ts_executed st) (ts_manager st)\<rparr>
           in case revalidate_step (te_reval env (ts_executed st)) s of
                None \<Rightarrow> Inl (Inl RevalidationRaised, st')
              | Some False \<Rightarrow> Inl (refuse_step env tid s (revalidation_text s) st')
              | Some True \<Rightarrow> Inr st')"

definition precheck_step ::
  "'s te_env \<Rightarrow> string \<Rightarrow> plan_step \<Rightarrow> 's te_state \<Rightarrow> (te_exit \<times> 's te_state) + 's te_state" where
  "precheck_step env tid s st =
     (if token_cancelled env tid st then Inl (exit_cancelled env tid st)
      else if time_limit env < te_elapsed env (ts_executed st)
        then Inl (exit_failed env tid (timeout_text env) (ts_executed st) st)
      else if step_budget env \<le> ts_executed st
        then Inl (exit_failed env tid (budget_text env) (ts_executed st) st)
      else case find (\<lambda>d. dep_step_id d \<notin> set (ts_done st)) (dependencies s) of
             Some d \<Rightarrow> Inl (refuse_step env tid s (dependency_text s d) st)
           | None \<Rightarrow> revalidation_gate env tid s st)"

text \<open>The tool call: every exception but a cancellation becomes a failed result; the task goes back
  to EXECUTING if it is still waiting.\<close>

definition enter_waiting :: "'s te_env \<Rightarrow> string \<Rightarrow> decision \<Rightarrow> manager \<Rightarrow> task_error option \<times> manager" where
  "enter_waiting env tid d m =
     (if \<not> requires_confirmation d then (None, m)
      else case transition (te_db env) (te_now env) tid WAITING_CONFIRMATION m of
             (Inl e, m') \<Rightarrow> (Some e, m')
           | (Inr _, m') \<Rightarrow> (None, m'))"

definition resume_executing :: "'s te_env \<Rightarrow> string \<Rightarrow> decision \<Rightarrow> manager \<Rightarrow> manager" where
  "resume_executing env tid d m =
     (if \<not> requires_confirmation d then m
      else case get_task tid m of
             Inl _ \<Rightarrow> m
           | Inr t \<Rightarrow> if t_state t = WAITING_CONFIRMATION
                     then snd (transition (te_db env) (te_now env) tid EXECUTING m) else m)"

definition tool_outcome :: "'s te_env \<Rightarrow> exec_error + tool_result \<Rightarrow> tool_result option" where
  "tool_outcome env res =
     (case res of
        Inr r \<Rightarrow> Some r
      | Inl ExecCancelled \<Rightarrow> None
      | Inl e \<Rightarrow> Some (result_fail (te_error_text env e) 0))"

definition outcome_observation :: "'s te_env \<Rightarrow> tool_result \<Rightarrow> observation" where
  "outcome_observation env r =
     (if res_success r then te_observe env (res_data r)
      else case res_error r of None \<Rightarrow> NoObservation | Some e \<Rightarrow> ObsText e)"

definition step_result_of :: "nat \<Rightarrow> plan_step \<Rightarrow> tool_result \<Rightarrow> step_result" where
  "step_result_of i s r = \<lparr>sr_step_id = step_id s, sr_step_index = i, sr_tool_name = ps_tool_name s,
     sr_success = res_success r, sr_output = data_payload (res_data r), sr_error = res_error r,
     sr_execution_time_ms = res_time_ms r\<rparr>"

text \<open>The arguments are the step's own dictionary, which the tool executor may have written to.\<close>

definition record_outcome ::
  "'s te_env \<Rightarrow> string \<Rightarrow> plan_step \<Rightarrow> exec_params \<Rightarrow> tool_result \<Rightarrow> 's te_state \<Rightarrow> 's te_state" where
  "record_outcome env tid s ps r st =
     (let sr = step_result_of (ts_executed st) s r
      in st\<lparr>ts_detector := record_tool_call (te_serialize env) (te_digest env) (ps_tool_name s)
                (Some (normalize_params ps)) (outcome_observation env r) (res_success r) (ts_detector st),
            ts_manager := snd (record_step (te_db env) (te_now env) tid sr (ts_manager st)),
            ts_results := ts_results st @ [sr], ts_executed := ts_executed st + 1\<rparr>)"

definition failure_text :: "tool_result \<Rightarrow> string" where
  "failure_text r = (case res_error r of None \<Rightarrow> ''Step failed''
     | Some e \<Rightarrow> if e = [] then ''Step failed'' else e)"

definition judge_step ::
  "'s te_env \<Rightarrow> string \<Rightarrow> plan_step \<Rightarrow> exec_params \<Rightarrow> tool_result \<Rightarrow> 's te_state \<Rightarrow>
   (te_exit \<times> 's te_state) + 's te_state" where
  "judge_step env tid s ps r st =
     (let st1 = record_outcome env tid s ps r st
      in case loop_reason (ts_detector st1) of
           Some why \<Rightarrow> Inl (exit_failed env tid (te_loop_text env why) (ts_executed st1) st1)
         | None \<Rightarrow>
             if \<not> res_success r then Inl (exit_failed env tid (failure_text r) (ts_executed st1) st1)
             else Inr (st1\<lparr>ts_done := step_id s # ts_done st1\<rparr>))"

definition run_tool :: "'s te_env \<Rightarrow> plan_step \<Rightarrow> 's te_state \<Rightarrow> 's exec_run" where
  "run_tool env s st =
     execute_tool (te_exec env) (te_ask env) (ps_tool_name s) (DictParams (ps_parameters s)) None
       (te_priority env) (te_tool_elapsed env (ts_executed st)) (te_outcome env (ts_executed st)) (ts_hook st)"

definition pre_decision :: "'s te_env \<Rightarrow> tool_def \<Rightarrow> plan_step \<Rightarrow> decision option" where
  "pre_decision env tool s =
     evaluate (env_scan (te_exec env)) (env_engine (te_exec env))
       (ToolDef (td_name tool) (td_permission tool)) (Some (ps_parameters s)) ''SAFE''"

definition call_step ::
  "'s te_env \<Rightarrow> string \<Rightarrow> plan_step \<Rightarrow> 's te_state \<Rightarrow> (te_exit \<times> 's te_state) + 's te_state" where
  "call_step env tid s st =
     (case get_tool (ps_tool_name s) (env_registry (te_exec env)) of
        Inl _ \<Rightarrow> Inl (Inl (ToolMissing (ps_tool_name s)), st)
      | Inr tool \<Rightarrow>
          (case pre_decision env tool s of
             None \<Rightarrow> Inl (Inl EvaluationRaised, st)
           | Some d \<Rightarrow>
               (case enter_waiting env tid d (ts_manager st) of
                  (Some e, m) \<Rightarrow> Inl (Inl (TaskFailure e), st\<lparr>ts_manager := m\<rparr>)
                | (None, m) \<Rightarrow>
                    (let run = run_tool env s st;
                         m1 = resume_executing env tid d (te_during_tool env (ts_executed st) m);
                         st1 = st\<lparr>ts_manager := m1, ts_hook := run_hook run\<rparr>
                     in case tool_outcome env (run_result run) of
                          None \<Rightarrow> Inl (Inl CancelledByCaller, st1)
                        | Some r \<Rightarrow> judge_step env tid s (run_params run) r st1))))"

fun exec_steps :: "'s te_env \<Rightarrow> string \<Rightarrow> plan_step list \<Rightarrow> 's te_state \<Rightarrow> te_exit \<times> 's te_state" where
  "exec_steps env tid [] st = finish env tid st"
| "exec_steps env tid (s # rest) st =
     (case precheck_step env tid s st of
        Inl out \<Rightarrow> out
      | Inr st1 \<Rightarrow>
          (case call_step env tid s st1 of
             Inl out \<Rightarrow> out
           | Inr st2 \<Rightarrow> if is_terminal s then finish env tid st2 else exec_steps env tid rest st2))"

subsection \<open>The whole execution\<close>

definition enter_executing :: "'s te_env \<Rightarrow> string \<Rightarrow> task \<Rightarrow> manager \<Rightarrow> (task_error + task) \<times> manager" where
  "enter_executing env tid t m =
     (if t_state t = CREATED
      then transition (te_db env) (te_now env) tid EXECUTING
             (snd (transition (te_db env) (te_now env) tid ROUTING m))
      else if t_state t \<in> {ROUTING, PLANNING}
        then transition (te_db env) (te_now env) tid EXECUTING m
      else (Inr t, m))"

text \<open>\<open>fresh\<close> is the identifier of a task created, for the plan's goal, when none is given.\<close>

definition load_task ::
  "'s te_env \<Rightarrow> string \<Rightarrow> string option \<Rightarrow> string \<Rightarrow> manager \<Rightarrow> (task_error + task) \<times> manager \<times> string" where
  "load_task env g given fresh m =
     (case given of
        Some tid \<Rightarrow> (get_task tid m, m, tid)
      | None \<Rightarrow> (let (r, m') = create_task (te_db env) fresh (te_now env) g (int (step_budget env))
                                 (time_limit env) [] m
                 in (r, m', fresh)))"

definition execute_plan ::
  "'s te_env \<Rightarrow> string \<Rightarrow> plan_step list \<Rightarrow> string option \<Rightarrow> string \<Rightarrow> manager \<Rightarrow> detector \<Rightarrow> 's \<Rightarrow>
   te_exit \<times> 's te_state" where
  "execute_plan env g steps given fresh m det hook =
     (let (r, m0, tid) = load_task env g given fresh m;
          init = (\<lambda>m. \<lparr>ts_manager = m, ts_detector = det, ts_hook = hook, ts_results = [],
                       ts_executed = 0, ts_done = []\<rparr>)
      in case r of
           Inl e \<Rightarrow> (Inl (TaskFailure e), init m0)
         | Inr t \<Rightarrow>
             (case enter_executing env tid t m0 of
                (Inl e, m1) \<Rightarrow> (Inl (TaskFailure e), init m1)
              | (Inr _, m1) \<Rightarrow>
                  (case resolve_execution_order steps of
                     Inl e \<Rightarrow> (Inl (PlanFailure e), init m1)
                   | Inr ordered \<Rightarrow> exec_steps env tid ordered (init m1))))"

subsection \<open>The ways out of one iteration\<close>

lemma exit_simps [handler_simps]:
  "fst (exit_failed env tid err n st) = Inr \<lparr>tr_task_id = tid, tr_state = FAILED,
     tr_step_results = ts_results st, tr_total_steps = n, tr_error = Some err\<rparr>"
  "ts_manager (snd (exit_failed env tid err n st)) = snd (fail_task (te_db env) (te_now env) tid err (ts_manager st))"
  "fst (exit_cancelled env tid st) = Inr \<lparr>tr_task_id = tid, tr_state = CANCELLED,
     tr_step_results = ts_results st, tr_total_steps = ts_executed st, tr_error = Some ''Task execution cancelled''\<rparr>"
  "ts_manager (snd (exit_cancelled env tid st)) = snd (cancel_task (te_db env) (te_now env) tid (ts_manager st))"
  by (simp_all add: exit_failed_def exit_cancelled_def exit_result_def Let_def)

text \<open>
  What the two suspension points may do: nothing (a quiet run), or anything that forgets no task.
\<close>

definition state_of :: "string \<Rightarrow> manager \<Rightarrow> task_state option" where
  "state_of tid m = map_option (\<lambda>(t, token). t_state t) (dict_get (tasks m) tid)"

definition quiet :: "'s te_env \<Rightarrow> bool" where
  "quiet env \<longleftrightarrow> (\<forall>i m. te_during_revalidation env i m = m \<and> te_during_tool env i m = m)"

definition forgets_none :: "'s te_env \<Rightarrow> bool" where
  "forgets_none env \<longleftrightarrow> (\<forall>i m tid. state_of tid m \<noteq> None \<longrightarrow>
     state_of tid (te_during_revalidation env i m) \<noteq> None \<and> state_of tid (te_during_tool env i m) \<noteq> None)"

definition tracks :: "'s te_env \<Rightarrow> string \<Rightarrow> manager \<Rightarrow> manager \<Rightarrow> bool" where
  "tracks env tid m m' \<longleftrightarrow>
     (quiet env \<longrightarrow> state_of tid m = Some EXECUTING \<longrightarrow> state_of tid m' = Some EXECUTING) \<and>
     (forgets_none env \<longrightarrow> state_of tid m \<noteq> None \<longrightarrow> state_of tid m' \<noteq> None)"

lemma state_of_operations [handler_simps]:
  "state_of tid (snd (record_step ok now tid r m)) = state_of tid m"
  "state_of tid (snd (fail_task ok now tid err m)) =
     map_option (\<lambda>s. if task_terminal s then s else FAILED) (state_of tid m)"
  "state_of tid (snd (cancel_task ok now tid m)) =
     map_option (\<lambda>s. if task_terminal s then s else CANCELLED) (state_of tid m)"
  "state_of tid (snd (complete_task ok now tid m)) =
     map_option (\<lambda>s. if s \<in> {EXECUTING, COMPLETING} then COMPLETED else s) (state_of tid m)"
  "state_of tid (snd (transition ok now tid s' m)) =
     map_option (\<lambda>s. if s' \<in> set (task_valid_transitions s) then s' else s) (state_of tid m)"
proof -
  note ops = state_of_def record_step_def fail_task_def cancel_task_def complete_task_def transition_def
    Let_def get_entry_def
  show "state_of tid (snd (record_step ok now tid r m)) = state_of tid m"
    by (cases "dict_get (tasks m) tid") (auto simp: ops)
  show "state_of tid (snd (fail_task ok now tid err m)) =
      map_option (\<lambda>s. if task_terminal s then s else FAILED) (state_of tid m)"
    by (cases "dict_get (tasks m) tid") (auto simp: ops)
  show "state_of tid (snd (cancel_task ok now tid m)) =
      map_option (\<lambda>s. if task_terminal s then s else CANCELLED) (state_of tid m)"
    by (cases "dict_get (tasks m) tid") (auto simp: ops)
  show "state_of tid (snd (complete_task ok now tid m)) =
      map_option (\<lambda>s. if s \<in> {EXECUTING, COMPLETING} then COMPLETED else s) (state_of tid m)"
    by (cases "dict_get (tasks m) tid") (auto simp: ops)
  show "state_of tid (snd (transition ok now tid s' m)) =
      map_option (\<lambda>s. if s' \<in> set (task_valid_transitions s) then s' else s) (state_of tid m)"
    by (cases "dict_get (tasks m) tid") (auto simp: ops)
qed

lemma tracks_refl: "tracks env tid m m"
  by (simp add: tracks_def)

lemma tracks_trans: "tracks env tid a b \<Longrightarrow> tracks env tid b c \<Longrightarrow> tracks env tid a c"
  by (simp add: tracks_def)

lemma tracks_record: "tracks env tid m (snd (record_step ok now tid r m))"
  by (simp add: tracks_def handler_simps)

lemma tracks_revalidation: "tracks env tid m (te_during_revalidation env i m)"
  by (simp add: tracks_def quiet_def forgets_none_def)

text \<open>
  Every way out before completion: an exception; the cancellation; or a failure, with the results so
  far and possibly one failed step more (which is within the budget).
\<close>

inductive early_exit :: "'s te_env \<Rightarrow> string \<Rightarrow> plan_step \<Rightarrow> 's te_state \<Rightarrow> te_exit \<times> 's te_state \<Rightarrow> bool"
  for env tid s st where
  raised: "ts_results st' = ts_results st \<Longrightarrow> early_exit env tid s st (Inl e, st')"
| cancelled: "early_exit env tid s st (exit_cancelled env tid st)"
| failed: "early_exit env tid s st (exit_failed env tid err (ts_executed st) st)"
| failed_step: "ts_executed st < step_budget env \<Longrightarrow> ts_results st' = ts_results st @ [r] \<Longrightarrow>
    sr_step_index r = ts_executed st \<Longrightarrow> sr_step_id r = step_id s \<Longrightarrow>
    tracks env tid (ts_manager st) (ts_manager st') \<Longrightarrow>
    early_exit env tid s st (exit_failed env tid err (ts_executed st + 1) st')"

inductive_cases early_exitE: "early_exit env tid s st out"

lemma refuse_step_exit:
  assumes "ts_executed st < step_budget env" and "ts_results st' = ts_results st" and "ts_executed st' = ts_executed st"
    and "tracks env tid (ts_manager st) (ts_manager st')"
  shows "early_exit env tid s st (refuse_step env tid s err st')"
  unfolding refuse_step_def Let_def assms(3)
  by (rule failed_step) (auto simp: assms intro: tracks_trans [OF assms(4) tracks_record])

text \<open>What the checks before the tool call have established.\<close>

definition prechecked :: "'s te_env \<Rightarrow> string \<Rightarrow> plan_step \<Rightarrow> 's te_state \<Rightarrow> 's te_state \<Rightarrow> bool" where
  "prechecked env tid s st st1 \<longleftrightarrow>
     \<not> token_cancelled env tid st \<and> te_elapsed env (ts_executed st) \<le> time_limit env \<and>
     ts_executed st < step_budget env \<and>
     (\<forall>d\<in>set (dependencies s). dep_step_id d \<in> set (ts_done st)) \<and>
     revalidate_step (te_reval env (ts_executed st)) s = Some True \<and>
     (\<exists>m. st1 = st\<lparr>ts_manager := m\<rparr> \<and> tracks env tid (ts_manager st) m)"

lemma revalidation_gate_cases:
  assumes "ts_executed st < step_budget env"
  shows "case revalidation_gate env tid s st of
           Inl out \<Rightarrow> early_exit env tid s st out
         | Inr st1 \<Rightarrow> revalidate_step (te_reval env (ts_executed st)) s = Some True \<and>
             (\<exists>m. st1 = st\<lparr>ts_manager := m\<rparr> \<and> tracks env tid (ts_manager st) m)"
proof (cases "requires_revalidation s")
  case False
  then show ?thesis by (auto simp: revalidation_gate_def revalidate_step_def intro!: exI [of _ "ts_manager st"] tracks_refl)
next
  case True
  consider "revalidate_step (te_reval env (ts_executed st)) s = None"
    | "revalidate_step (te_reval env (ts_executed st)) s = Some False"
    | "revalidate_step (te_reval env (ts_executed st)) s = Some True" by (metis (full_types) option.exhaust)
  then show ?thesis
    using True assms
    by cases (auto simp: revalidation_gate_def Let_def tracks_revalidation intro: raised refuse_step_exit)
qed

lemma precheck_cases:
  "case precheck_step env tid s st of
     Inl out \<Rightarrow> early_exit env tid s st out | Inr st1 \<Rightarrow> prechecked env tid s st st1"
proof -
  consider "token_cancelled env tid st"
    | "\<not> token_cancelled env tid st" "time_limit env < te_elapsed env (ts_executed st)"
    | "\<not> token_cancelled env tid st" "te_elapsed env (ts_executed st) \<le> time_limit env" "step_budget env \<le> ts_executed st"
    | d where "\<not> token_cancelled env tid st" "te_elapsed env (ts_executed st) \<le> time_limit env"
        "ts_executed st < step_budget env" "find (\<lambda>d. dep_step_id d \<notin> set (ts_done st)) (dependencies s) = Some d"
    | "\<not> token_cancelled env tid st" "te_elapsed env (ts_executed st) \<le> time_limit env"
        "ts_executed st < step_budget env" "find (\<lambda>d. dep_step_id d \<notin> set (ts_done st)) (dependencies s) = None"
    by (meson linorder_not_le option.exhaust)
  then show ?thesis
  proof cases
    case 1 then show ?thesis by (simp add: precheck_step_def cancelled)
  next
    case 2 then show ?thesis by (simp add: precheck_step_def failed)
  next
    case 3 then show ?thesis by (simp add: precheck_step_def failed)
  next
    case 4 then show ?thesis by (simp add: precheck_step_def refuse_step_exit tracks_refl)
  next
    case 5
    then have "precheck_step env tid s st = revalidation_gate env tid s st"
      by (simp add: precheck_step_def)
    with 5 revalidation_gate_cases [of st env tid s] show ?thesis
      by (auto simp: prechecked_def find_None_iff split: sum.splits)
  qed
qed

text \<open>What a successful tool call has established.\<close>

definition permitted :: "'s te_env \<Rightarrow> plan_step \<Rightarrow> bool" where
  "permitted env s \<longleftrightarrow> (\<exists>tool d. dict_get (env_registry (te_exec env)) (ps_tool_name s) = Some tool \<and>
     pre_decision env tool s = Some d \<and> allowed d \<and> level d \<noteq> BLOCK)"

definition called :: "'s te_env \<Rightarrow> string \<Rightarrow> plan_step \<Rightarrow> 's te_state \<Rightarrow> 's te_state \<Rightarrow> bool" where
  "called env tid s st st2 \<longleftrightarrow>
     permitted env s \<and> ts_executed st2 = ts_executed st + 1 \<and> ts_done st2 = step_id s # ts_done st \<and>
     tracks env tid (ts_manager st) (ts_manager st2) \<and>
     (\<exists>r. ts_results st2 = ts_results st @ [r] \<and> sr_step_index r = ts_executed st \<and>
        sr_step_id r = step_id s \<and> sr_success r)"

text \<open>Around the tool call a quiet task is EXECUTING again, whatever the decision.\<close>

lemma get_task_state: "get_task tid m = Inr t \<Longrightarrow> state_of tid m = Some (t_state t)"
  by (cases rule: entry_cases [of tid m]) (auto simp: get_task_def state_of_def)

lemma tracks_tool_call:
  assumes "enter_waiting env tid d m = (None, m')"
  shows "tracks env tid m (resume_executing env tid d (te_during_tool env i m'))"
proof (cases "requires_confirmation d")
  case False
  with assms show ?thesis
    by (simp add: enter_waiting_def resume_executing_def tracks_def quiet_def forgets_none_def)
next
  case True
  have m': "m' = snd (transition (te_db env) (te_now env) tid WAITING_CONFIRMATION m)"
    using assms True by (auto simp: enter_waiting_def split: prod.splits sum.splits)
  have resume: "state_of tid (resume_executing env tid d w) =
      (if state_of tid w = Some WAITING_CONFIRMATION then Some EXECUTING else state_of tid w)" for w
  proof (cases "get_task tid w")
    case (Inl e)
    then have "state_of tid w = None"
      by (cases "dict_get (tasks w) tid") (auto simp: get_task_def get_entry_def state_of_def)
    with Inl True show ?thesis by (simp add: resume_executing_def)
  next
    case (Inr t)
    with True get_task_state [OF Inr] show ?thesis by (simp add: resume_executing_def handler_simps)
  qed
  show ?thesis
    by (auto simp: tracks_def resume m' quiet_def forgets_none_def handler_simps)
qed

lemma success_was_permitted:
  assumes "tool_outcome env (run_result (run_tool env s st)) = Some r" and "res_success r"
  shows "permitted env s"
proof -
  have "\<exists>r'. run_result (run_tool env s st) = Inr r'"
    using assms by (auto simp: tool_outcome_def result_fail_def split: sum.splits exec_error.splits)
  then show ?thesis
    unfolding run_tool_def
    by (cases rule: execute_tool_shape [of "te_exec env" "te_ask env" "ps_tool_name s"
          "DictParams (ps_parameters s)" None "te_priority env" "te_tool_elapsed env (ts_executed st)"
          "te_outcome env (ts_executed st)" "ts_hook st"])
      (auto simp: permitted_def may_invoke_def get_tool_def pre_decision_def normalize_params_def
        split: option.splits)
qed

lemma record_outcome_fields:
  "ts_results (record_outcome env tid s ps r st) = ts_results st @ [step_result_of (ts_executed st) s r]"
  "ts_executed (record_outcome env tid s ps r st) = ts_executed st + 1"
  "ts_done (record_outcome env tid s ps r st) = ts_done st"
  "ts_manager (record_outcome env tid s ps r st) =
     snd (record_step (te_db env) (te_now env) tid (step_result_of (ts_executed st) s r) (ts_manager st))"
  by (simp_all add: record_outcome_def Let_def)

lemma judge_step_cases:
  assumes "ts_executed st < step_budget env" and "ts_results st' = ts_results st"
    and "ts_executed st' = ts_executed st" and "tracks env tid (ts_manager st) (ts_manager st')"
  shows "case judge_step env tid s ps r st' of
           Inl out \<Rightarrow> early_exit env tid s st out
         | Inr st2 \<Rightarrow> res_success r \<and>
             st2 = (record_outcome env tid s ps r st')\<lparr>ts_done := step_id s # ts_done st'\<rparr>"
proof -
  have "early_exit env tid s st (exit_failed env tid err (ts_executed st + 1) (record_outcome env tid s ps r st'))" for err
    by (rule failed_step)
      (auto simp: assms record_outcome_fields step_result_of_def intro: tracks_trans [OF assms(4) tracks_record])
  with assms show ?thesis
    by (auto simp: judge_step_def Let_def record_outcome_fields split: option.splits)
qed

lemma call_step_cases:
  assumes "ts_executed st < step_budget env"
  shows "case call_step env tid s st of
           Inl out \<Rightarrow> early_exit env tid s st out | Inr st2 \<Rightarrow> called env tid s st st2"
proof (cases "get_tool (ps_tool_name s) (env_registry (te_exec env))")
  case (Inl e)
  then show ?thesis by (simp add: call_step_def raised)
next
  case tool: (Inr tool)
  show ?thesis
  proof (cases "pre_decision env tool s")
    case None
    with tool show ?thesis by (simp add: call_step_def raised)
  next
    case d: (Some d)
    obtain w m where w: "enter_waiting env tid d (ts_manager st) = (w, m)" by fastforce
    let ?st1 = "st\<lparr>ts_manager := resume_executing env tid d (te_during_tool env (ts_executed st) m),
        ts_hook := run_hook (run_tool env s st)\<rparr>"
    show ?thesis
    proof (cases w)
      case (Some e)
      with tool d w show ?thesis by (simp add: call_step_def raised)
    next
      case None
      show ?thesis
      proof (cases "tool_outcome env (run_result (run_tool env s st))")
        case out: None
        with None tool d w show ?thesis by (simp add: call_step_def raised Let_def)
      next
        case r: (Some r)
        have tracks: "tracks env tid (ts_manager st) (ts_manager ?st1)"
          using tracks_tool_call w None by simp
        have run: "call_step env tid s st = judge_step env tid s (run_params (run_tool env s st)) r ?st1"
          using None tool d w r by (simp add: call_step_def Let_def)
        show ?thesis
        proof (cases "judge_step env tid s (run_params (run_tool env s st)) r ?st1")
          case (Inl out)
          with run judge_step_cases [of st env ?st1 tid s r "run_params (run_tool env s st)"] assms tracks
          show ?thesis by simp
        next
          case (Inr st2)
          with judge_step_cases [of st env ?st1 tid s r "run_params (run_tool env s st)"] assms tracks
          have ok: "res_success r" and st2: "st2 = (record_outcome env tid s (run_params (run_tool env s st)) r ?st1)
              \<lparr>ts_done := step_id s # ts_done st\<rparr>" by simp_all
          have "called env tid s st st2"
            unfolding called_def st2
            using success_was_permitted [OF r ok] ok tracks_trans [OF tracks tracks_record]
            by (auto simp: record_outcome_fields step_result_of_def)
          with run Inr show ?thesis by simp
        qed
      qed
    qed
  qed
qed

text \<open>One whole iteration, and the induction over the steps that every property below uses.\<close>

lemma iteration_cases:
  obtains out where "exec_steps env tid (s # rest) st = out" and "early_exit env tid s st out"
  | st1 out where "exec_steps env tid (s # rest) st = out" and "prechecked env tid s st st1" and "early_exit env tid s st1 out"
  | st1 st2 where "prechecked env tid s st st1" and "called env tid s st1 st2"
      and "exec_steps env tid (s # rest) st =
             (if is_terminal s then finish env tid st2 else exec_steps env tid rest st2)"
proof (cases "precheck_step env tid s st")
  case (Inl out)
  with precheck_cases [of env tid s st] that(1) show ?thesis by simp
next
  case pre: (Inr st1)
  with precheck_cases [of env tid s st] have checked: "prechecked env tid s st st1" by simp
  then have budget: "ts_executed st1 < step_budget env" by (auto simp: prechecked_def)
  show ?thesis
  proof (cases "call_step env tid s st1")
    case (Inl out)
    with call_step_cases [OF budget, of tid s] pre checked that(2) show ?thesis by simp
  next
    case (Inr st2)
    with call_step_cases [OF budget, of tid s] pre checked that(3) show ?thesis by simp
  qed
qed

subsection \<open>The report of a run\<close>

definition progress :: "'s te_env \<Rightarrow> plan_step list \<Rightarrow> 's te_state \<Rightarrow> bool" where
  "progress env ordered st \<longleftrightarrow>
     (let n = ts_executed st in
      n \<le> length ordered \<and> n \<le> step_budget env \<and> map sr_step_index (ts_results st) = [0..<n] \<and>
      map sr_step_id (ts_results st) = map step_id (take n ordered) \<and>
      (\<forall>r\<in>set (ts_results st). sr_success r) \<and> set (ts_done st) = step_id ` set (take n ordered) \<and>
      (\<forall>i. Suc i < n \<longrightarrow> \<not> is_terminal (ordered ! i)) \<and>
      (\<forall>i<n. permitted env (ordered ! i) \<and>
         (\<forall>dep\<in>set (dependencies (ordered ! i)). dep_step_id dep \<in> step_id ` set (take i ordered))))"

definition reported :: "'s te_env \<Rightarrow> plan_step list \<Rightarrow> task_result \<Rightarrow> bool" where
  "reported env ordered r \<longleftrightarrow>
     (let n = tr_total_steps r in
      n \<le> length ordered \<and> n \<le> step_budget env \<and> map sr_step_index (tr_step_results r) = [0..<n] \<and>
      map sr_step_id (tr_step_results r) = map step_id (take n ordered) \<and>
      tr_state r \<in> {COMPLETED, FAILED, CANCELLED} \<and>
      (tr_state r = COMPLETED \<longrightarrow>
         (\<forall>r\<in>set (tr_step_results r). sr_success r) \<and>
         (n = length ordered \<or> 0 < n \<and> is_terminal (ordered ! (n - 1))) \<and>
         (\<forall>i. Suc i < n \<longrightarrow> \<not> is_terminal (ordered ! i)) \<and>
         (\<forall>i<n. permitted env (ordered ! i) \<and>
            (\<forall>dep\<in>set (dependencies (ordered ! i)). dep_step_id dep \<in> step_id ` set (take i ordered)))))"

lemma early_exit_reported:
  assumes "early_exit env tid s st out" and "progress env ordered st" and "ts_executed st < length ordered"
    and "s = ordered ! ts_executed st" and "fst out = Inr r"
  shows "reported env ordered r"
  using assms(1)
proof cases
  case (raised st' e)
  with assms(5) show ?thesis by simp
next
  case cancelled
  with assms show ?thesis by (auto simp: reported_def progress_def Let_def exit_simps)
next
  case (failed err)
  with assms show ?thesis by (auto simp: reported_def progress_def Let_def exit_simps)
next
  case (failed_step st' sr err)
  with assms show ?thesis
    by (auto simp: reported_def progress_def Let_def exit_simps take_Suc_conv_app_nth)
qed

lemma finish_reported:
  assumes "fst (finish env tid st) = Inr r" and "progress env ordered st"
    and "ts_executed st = length ordered \<or> 0 < ts_executed st \<and> is_terminal (ordered ! (ts_executed st - 1))"
  shows "reported env ordered r"
proof (cases "time_limit env < te_elapsed env (ts_executed st)")
  case True
  with assms(1) have "r = \<lparr>tr_task_id = tid, tr_state = FAILED, tr_step_results = ts_results st,
      tr_total_steps = ts_executed st, tr_error = Some (timeout_text env)\<rparr>"
    by (simp add: finish_def exit_simps)
  with assms(2) show ?thesis by (simp add: reported_def progress_def Let_def)
next
  case False
  with assms(1) have "r = \<lparr>tr_task_id = tid, tr_state = COMPLETED, tr_step_results = ts_results st,
      tr_total_steps = ts_executed st, tr_error = None\<rparr>"
    by (auto simp: finish_def exit_result_def Let_def)
  with assms(2,3) show ?thesis by (simp add: reported_def progress_def Let_def)
qed

lemma iteration_progress:
  assumes "prechecked env tid s st st1" and "called env tid s st1 st2" and "progress env ordered st"
    and "ts_executed st < length ordered" and "s = ordered ! ts_executed st"
    and "\<And>i. Suc i = ts_executed st \<Longrightarrow> \<not> is_terminal (ordered ! i)"
  shows "progress env ordered st2"
proof -
  let ?n = "ts_executed st"
  have st1: "ts_executed st1 = ?n" "ts_done st1 = ts_done st" "ts_results st1 = ts_results st"
      "?n < step_budget env" "\<forall>d\<in>set (dependencies s). dep_step_id d \<in> set (ts_done st)"
    using assms(1) by (auto simp: prechecked_def)
  have st2: "ts_executed st2 = Suc ?n" "ts_done st2 = step_id s # ts_done st" "permitted env s"
    using assms(2) st1 by (auto simp: called_def)
  obtain r where r: "ts_results st2 = ts_results st @ [r]" "sr_step_index r = ?n" "sr_step_id r = step_id s"
      "sr_success r" using assms(2) st1 by (auto simp: called_def)
  have "\<not> is_terminal (ordered ! i)" if "Suc i < Suc ?n" for i
    using that assms(3,6) by (cases "Suc i = ?n") (simp_all add: progress_def Let_def)
  then show ?thesis
    using assms(3-5) st1 st2 r
    by (auto simp: progress_def Let_def take_Suc_conv_app_nth less_Suc_eq)
qed

lemma exec_steps_reported:
  assumes "fst (exec_steps env tid steps st) = Inr r" and "progress env ordered st"
    and "steps = drop (ts_executed st) ordered" and "\<And>i. Suc i = ts_executed st \<Longrightarrow> \<not> is_terminal (ordered ! i)"
  shows "reported env ordered r"
  using assms
proof (induction steps arbitrary: st)
  case Nil
  then have "ts_executed st = length ordered" by (simp add: progress_def Let_def)
  with Nil finish_reported [of env tid st r ordered] show ?case by simp
next
  case (Cons s rest)
  have at: "ts_executed st < length ordered" "s = ordered ! ts_executed st"
      "rest = drop (Suc (ts_executed st)) ordered"
    using Cons.prems(3) by (metis drop_all leI list.distinct(1), metis nth_via_drop, metis Cons_nth_drop_Suc drop_Suc list.sel(3) tl_drop)
  show ?case
  proof (cases rule: iteration_cases [of env tid s rest st])
    case (1 out)
    with early_exit_reported [OF 1(2) Cons.prems(2) at(1,2)] Cons.prems(1) show ?thesis by simp
  next
    case (2 st1 out)
    then obtain m where st1: "st1 = st\<lparr>ts_manager := m\<rparr>" by (auto simp: prechecked_def)
    with Cons.prems(2) have "progress env ordered st1" by (simp add: progress_def)
    with early_exit_reported [OF 2(3), of ordered] 2(1) Cons.prems(1) at st1 show ?thesis by simp
  next
    case (3 st1 st2)
    have prog: "progress env ordered st2" by (rule iteration_progress [OF 3(1,2) Cons.prems(2) at(1,2) Cons.prems(4)])
    have n: "ts_executed st2 = Suc (ts_executed st)" using 3(1,2) by (auto simp: prechecked_def called_def)
    show ?thesis
    proof (cases "is_terminal s")
      case True
      with 3(3) Cons.prems(1) have "fst (finish env tid st2) = Inr r" by simp
      from finish_reported [OF this prog] True n at show ?thesis by simp
    next
      case False
      with 3(3) Cons.prems(1) have "fst (exec_steps env tid rest st2) = Inr r" by simp
      from Cons.IH [OF this prog] n at False show ?thesis by simp
    qed
  qed
qed

text \<open>A run that returns a result has loaded the task, entered EXECUTING and ordered the plan.\<close>

lemma execute_plan_cases:
  obtains e st where "execute_plan env g steps given fresh m det hook = (Inl e, st)"
  | t m0 tid t' m1 ordered where "load_task env g given fresh m = (Inr t, m0, tid)"
      and "enter_executing env tid t m0 = (Inr t', m1)" and "resolve_execution_order steps = Inr ordered"
      and "execute_plan env g steps given fresh m det hook =
        exec_steps env tid ordered \<lparr>ts_manager = m1, ts_detector = det, ts_hook = hook, ts_results = [],
                       ts_executed = 0, ts_done = []\<rparr>"
proof -
  obtain r m0 tid where load: "load_task env g given fresh m = (r, m0, tid)" by (cases "load_task env g given fresh m") auto
  show ?thesis
  proof (cases r)
    case (Inl e)
    with load that(1) show ?thesis by (simp add: execute_plan_def)
  next
    case t: (Inr t)
    obtain r' m1 where enter: "enter_executing env tid t m0 = (r', m1)" by fastforce
    show ?thesis
    proof (cases r')
      case (Inl e)
      with load t enter that(1) show ?thesis by (simp add: execute_plan_def)
    next
      case t': (Inr t')
      show ?thesis
      proof (cases "resolve_execution_order steps")
        case (Inl e)
        with load t enter t' that(1) show ?thesis by (simp add: execute_plan_def)
      next
        case (Inr ordered)
        with load t enter t' that(2) show ?thesis by (simp add: execute_plan_def)
      qed
    qed
  qed
qed

lemma execute_plan_reported:
  assumes "fst (execute_plan env g steps given fresh m det hook) = Inr r"
  shows "\<exists>ordered. resolve_execution_order steps = Inr ordered \<and> reported env ordered r"
proof (cases rule: execute_plan_cases [of env g steps given fresh m det hook])
  case (1 e st)
  with assms show ?thesis by simp
next
  case (2 t m0 tid t' m1 ordered)
  let ?st = "\<lparr>ts_manager = m1, ts_detector = det, ts_hook = hook, ts_results = [], ts_executed = 0, ts_done = []\<rparr>"
  have "fst (exec_steps env tid ordered ?st) = Inr r" using 2(4) assms by simp
  then have "reported env ordered r"
    by (rule exec_steps_reported) (simp_all add: progress_def)
  with 2(3) show ?thesis by blast
qed

subsection \<open>The task's state after a run\<close>

definition settles :: "'s te_env \<Rightarrow> string \<Rightarrow> manager \<Rightarrow> te_exit \<times> 's te_state \<Rightarrow> bool" where
  "settles env tid m out \<longleftrightarrow>
     (\<forall>r. fst out = Inr r \<longrightarrow>
        (quiet env \<longrightarrow> state_of tid m = Some EXECUTING \<longrightarrow>
           state_of tid (ts_manager (snd out)) = Some (tr_state r)) \<and>
        (forgets_none env \<longrightarrow> state_of tid m \<noteq> None \<longrightarrow> tr_state r \<noteq> COMPLETED \<longrightarrow>
           (\<exists>x. state_of tid (ts_manager (snd out)) = Some x \<and> task_terminal x)))"

lemma settles_tracks: "tracks env tid m m' \<Longrightarrow> settles env tid m' out \<Longrightarrow> settles env tid m out"
  unfolding settles_def tracks_def by blast

lemma settles_exits:
  "settles env tid (ts_manager st) (exit_failed env tid err n st)"
  "settles env tid (ts_manager st) (exit_cancelled env tid st)"
  by (cases "state_of tid (ts_manager st)"; simp add: settles_def handler_simps task_terminal_def)+

lemma settlesD:
  assumes "settles env tid m out" and "out = (Inr r, st)"
  shows "quiet env \<Longrightarrow> state_of tid m = Some EXECUTING \<Longrightarrow> state_of tid (ts_manager st) = Some (tr_state r)"
    and "forgets_none env \<Longrightarrow> state_of tid m \<noteq> None \<Longrightarrow> tr_state r \<noteq> COMPLETED \<Longrightarrow>
      \<exists>x. state_of tid (ts_manager st) = Some x \<and> task_terminal x"
  using assms by (simp_all add: settles_def)

lemma settles_finish: "settles env tid (ts_manager st) (finish env tid st)"
proof (cases "time_limit env < te_elapsed env (ts_executed st)")
  case True
  then show ?thesis by (simp add: finish_def settles_exits)
next
  case False
  then show ?thesis
    by (simp add: finish_def settles_def exit_result_def Let_def handler_simps)
qed

lemma settles_early:
  assumes "early_exit env tid s st out"
  shows "settles env tid (ts_manager st) out"
  using assms
proof cases
  case (raised st' e)
  then show ?thesis by (simp add: settles_def)
next
  case (failed_step st' r err)
  then show ?thesis using settles_tracks settles_exits(1) by metis
qed (simp_all add: settles_exits)

lemma settles_exec: "settles env tid (ts_manager st) (exec_steps env tid steps st)"
proof (induction steps arbitrary: st)
  case Nil
  show ?case by (simp add: settles_finish)
next
  case (Cons s rest)
  show ?case
  proof (cases rule: iteration_cases [of env tid s rest st])
    case (1 out)
    then show ?thesis by (simp add: settles_early)
  next
    case (2 st1 out)
    then have "tracks env tid (ts_manager st) (ts_manager st1)" by (auto simp: prechecked_def)
    with 2 settles_early [OF 2(3)] show ?thesis by (simp add: settles_tracks)
  next
    case (3 st1 st2)
    then have "tracks env tid (ts_manager st) (ts_manager st2)"
      by (auto simp: prechecked_def called_def intro: tracks_trans)
    with 3(3) Cons.IH [of st2] settles_finish [of env tid st2] show ?thesis
      by (auto intro: settles_tracks)
  qed
qed

text \<open>Entering EXECUTING.\<close>

lemma enter_executing_state:
  assumes "enter_executing env tid t m = (Inr t', m')" and "state_of tid m = Some (t_state t)"
  shows "state_of tid m' \<noteq> None"
    and "t_state t \<in> {CREATED, ROUTING, PLANNING, EXECUTING} \<Longrightarrow> state_of tid m' = Some EXECUTING"
proof -
  have m': "m' = (if t_state t = CREATED
      then snd (transition (te_db env) (te_now env) tid EXECUTING (snd (transition (te_db env) (te_now env) tid ROUTING m)))
      else if t_state t \<in> {ROUTING, PLANNING} then snd (transition (te_db env) (te_now env) tid EXECUTING m) else m)"
    using assms(1) by (auto simp: enter_executing_def split: if_splits dest: arg_cong [where f = snd])
  show "state_of tid m' \<noteq> None" using assms(2) by (simp add: m' handler_simps)
  show "state_of tid m' = Some EXECUTING" if "t_state t \<in> {CREATED, ROUTING, PLANNING, EXECUTING}"
    using assms(2) that by (auto simp: m' handler_simps)
qed

lemma load_task_state:
  assumes "load_task env g given fresh m = (Inr t, m0, tid)"
  shows "state_of tid m0 = Some (t_state t)"
proof (cases given)
  case None
  then show ?thesis using assms
    by (auto simp: load_task_def create_task_def Let_def state_of_def split: if_splits)
next
  case (Some a)
  then show ?thesis using assms by (auto simp: load_task_def get_task_state)
qed

subsection \<open>Properties of plan execution\<close>

definition demo_reader :: tool_def where
  "demo_reader = \<lparr>td_name = ''files.read_file'', td_description = ''Read'', td_category = ''files'',
     td_permission = SAFE, td_timeout = 15, td_schema = None,
     td_handler = Some [\<lparr>p_name = ''path'', p_annotation = AnnOther, p_has_default = False\<rparr>]\<rparr>"

definition demo_te :: "(nat \<Rightarrow> manager \<Rightarrow> manager) \<Rightarrow> unit te_env" where
  "demo_te during = \<lparr>te_max_steps = 15, te_timeout = 300,
     te_exec = demo_env\<lparr>env_registry := [(''files.read_file'', demo_reader)]\<rparr>,
     te_ask = (\<lambda>_ st. (Answer False, st)),
     te_outcome = (\<lambda>_ _ _. HandlerReturns (PlainData (PStr ''text''))), te_error_text = (\<lambda>_. ''e''),
     te_reval = (\<lambda>_. \<lparr>vision = None, read_coord = (\<lambda>_. NoCoord)\<rparr>),
     te_during_revalidation = (\<lambda>_ m. m), te_during_tool = during, te_external_token = None,
     te_elapsed = (\<lambda>i. of_nat i), te_tool_elapsed = (\<lambda>_. 1), te_priority = POther,
     te_serialize = (\<lambda>_. ''a''), te_digest = (\<lambda>s. s), te_observe = (\<lambda>_. NoObservation),
     te_loop_text = (\<lambda>_. ''loop''), te_format = (\<lambda>_. ''300''), te_db = True, te_now = 5\<rparr>"

definition short_plan :: "plan_step list" where
  "short_plan = [demo_step ''b'' [''a''], demo_step ''a'' []]"

definition demo_execution :: "(nat \<Rightarrow> manager \<Rightarrow> manager) \<Rightarrow> te_exit \<times> unit te_state" where
  "demo_execution during = execute_plan (demo_te during) ''Goal'' short_plan None ''task_1'' empty_manager (new_detector 3 3) ()"

lemma demo_execution_runs: "map_sum (\<lambda>_. ()) tr_state (fst (demo_execution (\<lambda>_ m. m))) = Inr COMPLETED"
  unfolding demo_execution_def demo_te_def short_plan_def demo_step_def demo_reader_def demo_env_def
    demo_scrubber_def empty_manager_def new_detector_def by code_simp

lemma demo_execution_result: "\<exists>r. fst (demo_execution (\<lambda>_ m. m)) = Inr r \<and> tr_state r = COMPLETED"
  using demo_execution_runs by (cases "fst (demo_execution (\<lambda>_ m. m))") auto

text \<open>C14: Whatever the tools, the clock and the other coroutines do, a plan execution that returns a
  result ran the plan's steps in the resolved order from its start, recorded exactly one result per
  reached step with consecutive indices, and stayed within the step budget.\<close>

theorem execution_bounded:
  assumes "fst (execute_plan env g steps given fresh m det hook) = Inr r"
  shows "\<exists>ordered. resolve_execution_order steps = Inr ordered \<and>
           tr_total_steps r \<le> length steps \<and> tr_total_steps r \<le> nat (max 1 (te_max_steps env)) \<and>
           map sr_step_index (tr_step_results r) = [0..<tr_total_steps r] \<and>
           map sr_step_id (tr_step_results r) = map step_id (take (tr_total_steps r) ordered) \<and>
           tr_state r \<in> {COMPLETED, FAILED, CANCELLED}"
proof -
  obtain ordered where ordered: "resolve_execution_order steps = Inr ordered" "reported env ordered r"
    using execute_plan_reported [OF assms] by blast
  have "length ordered = length steps"
    using ordered(1) by (auto simp: resolve_execution_order_def Let_def split: prod.splits if_splits)
  with ordered show ?thesis by (auto simp: reported_def step_budget_def Let_def)
qed

lemma execution_bounded_witness:
  "\<exists>r. fst (demo_execution (\<lambda>_ m. m)) = Inr r \<and> tr_total_steps r \<le> 2"
proof -
  obtain r where r: "fst (demo_execution (\<lambda>_ m. m)) = Inr r" using demo_execution_result by blast
  from execution_bounded [OF r [unfolded demo_execution_def]] have "tr_total_steps r \<le> length short_plan" by blast
  with r show ?thesis by (auto simp: short_plan_def)
qed

text \<open>C5: A plan reported as COMPLETED really ran, from the start of its order up to its first terminal step,
  or to the end when no step is terminal: these steps are exactly the recorded ones, each of them succeeded and came
  after all its prerequisites, and the permission engine had allowed its tool with its arguments. Steps behind a
  terminal step are not run.\<close>

theorem completed_means_done:
  assumes "fst (execute_plan env g steps given fresh m det hook) = Inr r" and "tr_state r = COMPLETED"
  shows "\<exists>ordered. resolve_execution_order steps = Inr ordered \<and>
           (let n = tr_total_steps r in
            (n = length ordered \<or> 0 < n \<and> is_terminal (ordered ! (n - 1))) \<and>
            (\<forall>i. Suc i < n \<longrightarrow> \<not> is_terminal (ordered ! i)) \<and>
            map sr_step_id (tr_step_results r) = map step_id (take n ordered) \<and>
            (\<forall>sr\<in>set (tr_step_results r). sr_success sr) \<and>
            (\<forall>i<n. (\<forall>dep\<in>set (dependencies (ordered ! i)). dep_step_id dep \<in> step_id ` set (take i ordered)) \<and>
               (\<exists>tool d. dict_get (env_registry (te_exec env)) (ps_tool_name (ordered ! i)) = Some tool \<and>
                  evaluate (env_scan (te_exec env)) (env_engine (te_exec env))
                    (ToolDef (td_name tool) (td_permission tool)) (Some (ps_parameters (ordered ! i))) ''SAFE'' = Some d \<and>
                  allowed d \<and> level d \<noteq> BLOCK)))"
  using execute_plan_reported [OF assms(1)] assms(2)
  by (auto simp: reported_def Let_def permitted_def pre_decision_def)

lemma completed_means_done_witness:
  "\<exists>r. fst (demo_execution (\<lambda>_ m. m)) = Inr r \<and> (\<forall>sr\<in>set (tr_step_results r). sr_success sr)"
proof -
  obtain r where r: "fst (demo_execution (\<lambda>_ m. m)) = Inr r" "tr_state r = COMPLETED"
    using demo_execution_result by blast
  from completed_means_done [OF r(1) [unfolded demo_execution_def] r(2)] r(1) show ?thesis
    by (auto simp: Let_def)
qed

text \<open>A task whose execution is reported as FAILED or CANCELLED is in a terminal state in the task
  manager, as long as nothing the suspension points run forgets a task.\<close>

theorem failure_is_terminal:
  assumes "execute_plan env g steps (Some tid) fresh m det hook = (Inr r, st)" and "tr_state r \<noteq> COMPLETED"
    and "\<And>i m tid. get_task tid m \<noteq> Inl (TaskNotFoundError tid) \<Longrightarrow>
           get_task tid (te_during_revalidation env i m) \<noteq> Inl (TaskNotFoundError tid) \<and>
           get_task tid (te_during_tool env i m) \<noteq> Inl (TaskNotFoundError tid)"
  shows "\<exists>t. get_task tid (ts_manager st) = Inr t \<and> task_terminal (t_state t)"
proof -
  have known: "get_task tid m \<noteq> Inl (TaskNotFoundError tid) \<longleftrightarrow> state_of tid m \<noteq> None" for tid m
    by (cases "dict_get (tasks m) tid") (auto simp: get_task_def get_entry_def state_of_def)
  have keep: "forgets_none env" using assms(3) unfolding forgets_none_def known by blast
  from assms(1) have "\<exists>x. state_of tid (ts_manager st) = Some x \<and> task_terminal x"
  proof (cases rule: execute_plan_cases [of env g steps "Some tid" fresh m det hook])
    case (1 e st')
    with assms(1) show ?thesis by simp
  next
    case (2 t m0 tid' t' m1 ordered)
    then have tid: "tid' = tid" by (auto simp: load_task_def)
    have "state_of tid m1 \<noteq> None"
      using enter_executing_state(1) [OF 2(2) load_task_state [OF 2(1)]] tid by simp
    then show ?thesis
      using settlesD(2) [OF settles_exec 2(4) [symmetric, unfolded assms(1)] keep] assms(2) tid by simp
  qed
  then obtain x where x: "state_of tid (ts_manager st) = Some x" "task_terminal x" by blast
  then show ?thesis
    by (cases "dict_get (tasks (ts_manager st)) tid") (auto simp: get_task_def get_entry_def state_of_def)
qed

text \<open>When no other coroutine touches the manager during an execution, the state the execution
  reports is the state the manager holds for the task.\<close>

theorem report_agrees_with_manager:
  assumes "execute_plan env g steps (Some tid) fresh m det hook = (Inr r, st)"
    and "get_task tid m = Inr t" and "t_state t \<in> {CREATED, ROUTING, PLANNING, EXECUTING}"
    and "\<And>i m. te_during_revalidation env i m = m" and "\<And>i m. te_during_tool env i m = m"
  shows "\<exists>t'. get_task tid (ts_manager st) = Inr t' \<and> t_state t' = tr_state r"
proof -
  have quiet: "quiet env" using assms(4,5) by (simp add: quiet_def)
  from assms(1) have "state_of tid (ts_manager st) = Some (tr_state r)"
  proof (cases rule: execute_plan_cases [of env g steps "Some tid" fresh m det hook])
    case (1 e st')
    with assms(1) show ?thesis by simp
  next
    case (2 t0 m0 tid' t' m1 ordered)
    then have tid: "tid' = tid" "t0 = t" "m0 = m" using assms(2) by (auto simp: load_task_def)
    have "state_of tid m1 = Some EXECUTING"
      using enter_executing_state(2) [OF 2(2) load_task_state [OF 2(1)]] tid assms(3) by simp
    then show ?thesis
      using settlesD(1) [OF settles_exec 2(4) [symmetric, unfolded assms(1)] quiet] tid by simp
  qed
  then show ?thesis
    by (cases "dict_get (tasks (ts_manager st)) tid") (auto simp: get_task_def get_entry_def state_of_def)
qed

definition demo_resumed :: "(nat \<Rightarrow> manager \<Rightarrow> manager) \<Rightarrow> (nat \<Rightarrow> rat) \<Rightarrow> te_exit \<times> unit te_state" where
  "demo_resumed during clock = execute_plan ((demo_te during)\<lparr>te_elapsed := clock\<rparr>) ''Goal'' short_plan (Some ''task_1'') []
     demo_manager (new_detector 3 3) ()"

lemma failure_is_terminal_witness:
  "\<exists>t. get_task ''task_1'' (ts_manager (snd (demo_resumed (\<lambda>_ m. m) (\<lambda>_. 301)))) = Inr t \<and> task_terminal (t_state t)"
proof -
  have "map_sum (\<lambda>_. ()) tr_state (fst (demo_resumed (\<lambda>_ m. m) (\<lambda>_. 301))) = Inr FAILED"
    unfolding demo_resumed_def demo_te_def short_plan_def demo_step_def demo_reader_def demo_env_def
      demo_scrubber_def demo_manager_def empty_manager_def new_detector_def by code_simp
  then obtain r where r: "fst (demo_resumed (\<lambda>_ m. m) (\<lambda>_. 301)) = Inr r" "tr_state r = FAILED"
    by (cases "fst (demo_resumed (\<lambda>_ m. m) (\<lambda>_. 301))") auto
  then have run: "execute_plan ((demo_te (\<lambda>_ m. m))\<lparr>te_elapsed := (\<lambda>_. 301)\<rparr>) ''Goal'' short_plan (Some ''task_1'') []
      demo_manager (new_detector 3 3) () = (Inr r, snd (demo_resumed (\<lambda>_ m. m) (\<lambda>_. 301)))"
    unfolding demo_resumed_def by (metis prod.collapse)
  from failure_is_terminal [OF run] r(2) show ?thesis by (simp add: demo_te_def)
qed

lemma report_agrees_with_manager_witness:
  "\<exists>r t. fst (demo_resumed (\<lambda>_ m. m) of_nat) = Inr r \<and>
     get_task ''task_1'' (ts_manager (snd (demo_resumed (\<lambda>_ m. m) of_nat))) = Inr t \<and> t_state t = tr_state r"
proof -
  have "map_sum (\<lambda>_. ()) tr_state (fst (demo_resumed (\<lambda>_ m. m) of_nat)) = Inr COMPLETED"
    unfolding demo_resumed_def demo_te_def short_plan_def demo_step_def demo_reader_def demo_env_def
      demo_scrubber_def demo_manager_def empty_manager_def new_detector_def by code_simp
  then obtain r where r: "fst (demo_resumed (\<lambda>_ m. m) of_nat) = Inr r"
    by (cases "fst (demo_resumed (\<lambda>_ m. m) of_nat)") auto
  then have run: "execute_plan ((demo_te (\<lambda>_ m. m))\<lparr>te_elapsed := of_nat\<rparr>) ''Goal'' short_plan (Some ''task_1'') []
      demo_manager (new_detector 3 3) () = (Inr r, snd (demo_resumed (\<lambda>_ m. m) of_nat))"
    unfolding demo_resumed_def by (metis prod.collapse)
  have "map_sum (\<lambda>_. ()) t_state (get_task ''task_1'' demo_manager) = Inr CREATED"
    unfolding demo_manager_def empty_manager_def by code_simp
  then obtain t where t: "get_task ''task_1'' demo_manager = Inr t" "t_state t = CREATED"
    by (cases "get_task ''task_1'' demo_manager") auto
  from report_agrees_with_manager [OF run t(1)] t(2) r show ?thesis by (simp add: demo_te_def)
qed

text \<open>A cancellation that arrives during the last tool call is lost in the report: the execution
  returns COMPLETED while the manager holds the task as CANCELLED.\<close>

theorem late_cancellation_reported_completed:
  "\<exists>r t. fst (demo_resumed (\<lambda>i m. if i = 1 then snd (cancel_task True 4 ''task_1'' m) else m) of_nat) = Inr r \<and>
     tr_state r = COMPLETED \<and>
     get_task ''task_1'' (ts_manager (snd (demo_resumed
       (\<lambda>i m. if i = 1 then snd (cancel_task True 4 ''task_1'' m) else m) of_nat))) = Inr t \<and>
     t_state t = CANCELLED"
proof -
  let ?run = "demo_resumed (\<lambda>i m. if i = 1 then snd (cancel_task True 4 ''task_1'' m) else m) of_nat"
  have "map_sum (\<lambda>_. ()) tr_state (fst ?run) = Inr COMPLETED \<and>
      map_sum (\<lambda>_. ()) t_state (get_task ''task_1'' (ts_manager (snd ?run))) = Inr CANCELLED"
    unfolding demo_resumed_def demo_te_def short_plan_def demo_step_def demo_reader_def demo_env_def
      demo_scrubber_def demo_manager_def empty_manager_def new_detector_def by code_simp
  then show ?thesis
    by (cases "fst ?run"; cases "get_task ''task_1'' (ts_manager (snd ?run))") auto
qed

end
