(* ===== verification/Conversation.thy ===== *)
theory Conversation
  imports Permissions
begin

text \<open>
  Models \<open>Message\<close> and \<open>ConversationHistory\<close> of \<open>python/tom/schemas/agent.py\<close>: the bounded message
  list of an agent with its token estimate and its trimming. The length of the text of a message's
  metadata is an argument (\<open>mlen\<close>); time stamps are left out.
\<close>

subsection \<open>Messages\<close>

datatype role = SYSTEM | USER | ASSISTANT | TOOL_CALL | TOOL_RESULT

record tool_call =
  call_id :: "string option"
  call_name :: string
  call_arguments :: "(string \<times> payload) list"

record message =
  msg_role :: role
  msg_content :: string
  msg_name :: "string option"
  msg_call_id :: "string option"
  msg_calls :: "tool_call list option"
  msg_success :: "bool option"

definition plain_message :: "role \<Rightarrow> string \<Rightarrow> message" where
  "plain_message r c = \<lparr>msg_role = r, msg_content = c, msg_name = None, msg_call_id = None,
     msg_calls = None, msg_success = None\<rparr>"

record history =
  messages :: "message list"
  max_messages :: "int option"
  max_tokens :: "int option"

definition default_history :: history where
  "default_history = \<lparr>messages = [], max_messages = Some 100, max_tokens = Some 2048\<rparr>"

subsection \<open>Token estimates\<close>

definition message_tokens :: "(message \<Rightarrow> nat) \<Rightarrow> message \<Rightarrow> int" where
  "message_tokens mlen m = 4 + max 1 (int (length (msg_content m) + mlen m) div 4 + 1)"

definition list_tokens :: "(message \<Rightarrow> nat) \<Rightarrow> message list \<Rightarrow> int" where
  "list_tokens mlen ms = sum_list (map (message_tokens mlen) ms)"

definition total_tokens :: "(message \<Rightarrow> nat) \<Rightarrow> history \<Rightarrow> int" where
  "total_tokens mlen h = list_tokens mlen (messages h)"

subsection \<open>Trimming\<close>

text \<open>The leading system message, if any, and the rest.\<close>

definition split_system :: "message list \<Rightarrow> message list \<times> message list" where
  "split_system ms =
     (case ms of
        [] \<Rightarrow> ([], [])
      | m # rest \<Rightarrow> if msg_role m = SYSTEM then ([m], rest) else ([], m # rest))"

text \<open>The walk from the newest message to the oldest; the newest is kept in any case.\<close>

fun keep_fitting :: "(message \<Rightarrow> nat) \<Rightarrow> int \<Rightarrow> message list \<Rightarrow> int \<Rightarrow> message list \<Rightarrow> message list" where
  "keep_fitting mlen available [] used acc = acc"
| "keep_fitting mlen available (m # older) used acc =
     (let t = message_tokens mlen m
      in if available < used + t \<and> acc \<noteq> [] then acc
         else keep_fitting mlen available older (used + t) (m # acc))"

definition fit_budget :: "(message \<Rightarrow> nat) \<Rightarrow> int option \<Rightarrow> message list \<Rightarrow> message list \<Rightarrow> message list" where
  "fit_budget mlen limit sys work =
     (case limit of
        None \<Rightarrow> work
      | Some b \<Rightarrow>
          if b \<le> 0 then work
          else keep_fitting mlen (max 0 (b - list_tokens mlen sys)) (rev work) 0 [])"

definition trim_list :: "(message \<Rightarrow> nat) \<Rightarrow> int option \<Rightarrow> int option \<Rightarrow> message list \<Rightarrow> message list" where
  "trim_list mlen limit_count limit_tokens ms =
     (let (sys, work) = split_system ms;
          room = map_option (\<lambda>n. n - int (length sys)) limit_count;
          orphan = (\<lambda>m. msg_role m = TOOL_RESULT)
      in case (limit_count, room) of
           (Some n, Some r) \<Rightarrow>
             if n \<le> 0 then []
             else if r \<le> 0 then sys
             else sys @ dropWhile orphan
                    (fit_budget mlen limit_tokens sys (drop (length work - nat r) work))
         | _ \<Rightarrow> sys @ dropWhile orphan (fit_budget mlen limit_tokens sys work))"

definition trim :: "(message \<Rightarrow> nat) \<Rightarrow> int option \<Rightarrow> int option \<Rightarrow> history \<Rightarrow> nat \<times> history" where
  "trim mlen max_count max_toks h =
     (let lc = (case max_count of None \<Rightarrow> max_messages h | Some n \<Rightarrow> Some n);
          lt = (case max_toks of None \<Rightarrow> max_tokens h | Some n \<Rightarrow> Some n);
          ms = (if messages h = [] then [] else trim_list mlen lc lt (messages h))
      in (length (messages h) - length ms, h\<lparr>messages := ms\<rparr>))"

definition exceeds :: "int option \<Rightarrow> int \<Rightarrow> bool" where
  "exceeds limit n = (case limit of None \<Rightarrow> False | Some b \<Rightarrow> b < n)"

definition append_message :: "(message \<Rightarrow> nat) \<Rightarrow> message \<Rightarrow> history \<Rightarrow> history" where
  "append_message mlen m h =
     (let h1 = h\<lparr>messages := messages h @ [m]\<rparr>
      in if exceeds (max_messages h1) (int (length (messages h1))) \<or> exceeds (max_tokens h1) (total_tokens mlen h1)
         then snd (trim mlen None None h1) else h1)"

definition clear_history :: "bool \<Rightarrow> history \<Rightarrow> history" where
  "clear_history keep_system h =
     h\<lparr>messages := (if keep_system then fst (split_system (messages h)) else [])\<rparr>"

subsection \<open>What trimming keeps\<close>

lemma message_tokens_pos: "5 \<le> message_tokens mlen m"
  by (simp add: message_tokens_def)

lemma list_tokens_append [simp]: "list_tokens mlen (a @ b) = list_tokens mlen a + list_tokens mlen b"
  by (simp add: list_tokens_def)

lemma list_tokens_simps [simp]: "list_tokens mlen [] = 0"
    "list_tokens mlen (m # ms) = message_tokens mlen m + list_tokens mlen ms"
  by (simp_all add: list_tokens_def)

lemma list_tokens_nonneg: "0 \<le> list_tokens mlen ms"
proof (induction ms)
  case (Cons m ms)
  then show ?case using message_tokens_pos [of mlen m] by simp
qed simp

lemma list_tokens_suffix: "suffix a b \<Longrightarrow> list_tokens mlen a \<le> list_tokens mlen b"
  using list_tokens_nonneg by (fastforce simp: suffix_def)

lemma split_system_append: "split_system ms = (sys, work) \<Longrightarrow> ms = sys @ work \<and> length sys \<le> 1"
  by (auto simp: split_system_def split: list.splits if_splits)

lemma keep_fitting_suffix:
  "suffix (keep_fitting mlen available older used acc) (rev older @ acc)"
proof (induction mlen available older used acc rule: keep_fitting.induct)
  case (2 mlen available m older used acc)
  then show ?case by (auto simp: Let_def suffix_def)
qed simp

lemma keep_fitting_budget:
  assumes "used = list_tokens mlen acc" and "used \<le> available \<or> length acc = 1 \<or> acc = []"
  shows "list_tokens mlen (keep_fitting mlen available older used acc) \<le> max 0 available \<or>
         length (keep_fitting mlen available older used acc) = 1"
  using assms
proof (induction mlen available older used acc rule: keep_fitting.induct)
  case (1 mlen available used acc)
  then show ?case by auto
next
  case (2 mlen available m older used acc)
  show ?case
  proof (cases "available < used + message_tokens mlen m \<and> acc \<noteq> []")
    case True
    with 2(2,3) show ?thesis by auto
  next
    case False
    with 2(2,3) have "used + message_tokens mlen m = list_tokens mlen (m # acc)"
      and "used + message_tokens mlen m \<le> available \<or> length (m # acc) = 1 \<or> m # acc = []" by auto
    note step = 2(1) [OF refl False this]
    have "keep_fitting mlen available (m # older) used acc =
        keep_fitting mlen available older (used + message_tokens mlen m) (m # acc)"
      unfolding keep_fitting.simps Let_def using False by (rule if_not_P)
    with step show ?thesis by simp
  qed
qed

lemma fit_budget_suffix: "suffix (fit_budget mlen limit sys work) work"
  using keep_fitting_suffix [of mlen _ "rev work" 0 "[]"]
  by (auto simp: fit_budget_def split: option.splits)

text \<open>The shape of a trimmed history.\<close>

lemma trim_list_shape:
  assumes "split_system ms = (sys, work)" and "\<And>n. limit_count = Some n \<Longrightarrow> 0 < n"
  obtains kept where "trim_list mlen limit_count limit_tokens ms = sys @ kept" and "suffix kept work"
    and "\<And>n. limit_count = Some n \<Longrightarrow> int (length (sys @ kept)) \<le> n"
    and "kept = [] \<or> msg_role (hd kept) \<noteq> TOOL_RESULT"
    and "\<And>b. limit_tokens = Some b \<Longrightarrow> 0 < b \<Longrightarrow>
           list_tokens mlen kept \<le> max 0 (b - list_tokens mlen sys) \<or> length kept \<le> 1"
proof -
  let ?orphan = "\<lambda>m. msg_role m = TOOL_RESULT"
  have sys: "length sys \<le> 1" using split_system_append [OF assms(1)] by simp
  define w where "w = (case limit_count of None \<Rightarrow> work
     | Some n \<Rightarrow> drop (length work - nat (n - int (length sys))) work)"
  define kept where "kept = (if \<exists>n. limit_count = Some n \<and> n - int (length sys) \<le> 0 then []
     else dropWhile ?orphan (fit_budget mlen limit_tokens sys w))"
  have w: "suffix w work" by (auto simp: w_def suffix_drop split: option.splits)
  have fit: "suffix (dropWhile ?orphan (fit_budget mlen limit_tokens sys w)) (fit_budget mlen limit_tokens sys w)"
    by (rule suffix_dropWhile)
  have sfx: "suffix kept (fit_budget mlen limit_tokens sys w)" using fit by (simp add: kept_def)
  then have kw: "suffix kept w" using fit_budget_suffix suffix_order.trans by blast
  show ?thesis
  proof
    show "trim_list mlen limit_count limit_tokens ms = sys @ kept"
      using assms by (cases limit_count) (auto simp: trim_list_def kept_def w_def)
    show "suffix kept work" using kw w suffix_order.trans by blast
    show "int (length (sys @ kept)) \<le> n" if "limit_count = Some n" for n
    proof -
      have "n - int (length sys) \<le> 0 \<Longrightarrow> kept = []" using that by (simp add: kept_def)
      moreover have "length kept \<le> nat (n - int (length sys)) \<or> n - int (length sys) \<le> 0"
        using suffix_length_le [OF kw] that by (auto simp: w_def)
      ultimately show ?thesis using sys assms(2) [OF that] by auto
    qed
    have hd_ok: "dropWhile P xs = [] \<or> \<not> P (hd (dropWhile P xs))" for P and xs :: "message list"
      by (induction xs) auto
    show "kept = [] \<or> msg_role (hd kept) \<noteq> TOOL_RESULT"
      using hd_ok [of ?orphan] by (auto simp: kept_def)
    show "list_tokens mlen kept \<le> max 0 (b - list_tokens mlen sys) \<or> length kept \<le> 1"
      if "limit_tokens = Some b" "0 < b" for b
      using keep_fitting_budget [of 0 mlen "[]" "max 0 (b - list_tokens mlen sys)" "rev w"]
        list_tokens_suffix [OF sfx, of mlen] suffix_length_le [OF sfx] that
      by (auto simp: fit_budget_def)
  qed
qed

subsection \<open>Properties of the history\<close>

definition demo_history :: history where
  "demo_history = \<lparr>messages = [plain_message SYSTEM ''s'', plain_message USER ''hello'',
     plain_message TOOL_RESULT ''r''], max_messages = Some 3, max_tokens = Some 2048\<rparr>"

text \<open>C23: After every append the history is within its message limit. It is within its token limit too, except when
  at most one message stands beside the system message: the newest message and the system message are kept even
  when they alone exceed the limit. A trimmed history keeps the system message, continues with a suffix of the conversation, and
  does not begin with an orphaned tool result.\<close>

theorem history_bounded:
  assumes "\<And>n. max_messages h = Some n \<Longrightarrow> 0 < n" and "\<And>b. max_tokens h = Some b \<Longrightarrow> 0 < b"
  shows "(\<forall>n. max_messages h = Some n \<longrightarrow> int (length (messages (append_message mlen m h))) \<le> n) \<and>
         (\<forall>b. max_tokens h = Some b \<longrightarrow> total_tokens mlen (append_message mlen m h) \<le> b \<or>
            length (snd (split_system (messages (append_message mlen m h)))) \<le> 1) \<and>
         (messages (append_message mlen m h) = messages h @ [m] \<or>
          (\<exists>kept. messages (append_message mlen m h) = fst (split_system (messages h @ [m])) @ kept \<and>
             suffix kept (snd (split_system (messages h @ [m]))) \<and>
             (kept = [] \<or> msg_role (hd kept) \<noteq> TOOL_RESULT)))"
proof (cases "exceeds (max_messages h) (int (length (messages h) + 1)) \<or>
              exceeds (max_tokens h) (list_tokens mlen (messages h @ [m]))")
  case False
  then have "append_message mlen m h = h\<lparr>messages := messages h @ [m]\<rparr>"
    by (simp add: append_message_def total_tokens_def)
  then show ?thesis
    using False by (simp add: exceeds_def total_tokens_def split: option.splits)
next
  case True
  obtain sys work where split: "split_system (messages h @ [m]) = (sys, work)" by fastforce
  obtain kept where kept: "trim_list mlen (max_messages h) (max_tokens h) (messages h @ [m]) = sys @ kept"
      "suffix kept work" "\<And>n. max_messages h = Some n \<Longrightarrow> int (length (sys @ kept)) \<le> n"
      "kept = [] \<or> msg_role (hd kept) \<noteq> TOOL_RESULT"
      "\<And>b. max_tokens h = Some b \<Longrightarrow> 0 < b \<Longrightarrow>
         list_tokens mlen kept \<le> max 0 (b - list_tokens mlen sys) \<or> length kept \<le> 1"
    by (rule trim_list_shape [OF split, of "max_messages h" mlen "max_tokens h"]) (rule assms(1) that; assumption)+
  have msgs: "messages (append_message mlen m h) = sys @ kept"
  proof -
    have "append_message mlen m h = snd (trim mlen None None (h\<lparr>messages := messages h @ [m]\<rparr>))"
      unfolding append_message_def Let_def total_tokens_def using True by simp
    then show ?thesis by (simp add: trim_def Let_def kept(1))
  qed
  have short: "length (snd (split_system (sys @ kept))) \<le> length kept"
  proof (cases "split_system (sys @ kept)")
    case (Pair a b)
    have "sys = [] \<or> split_system (sys @ kept) = (sys, kept)"
      using split by (cases "messages h @ [m]") (auto simp: split_system_def split: if_splits)
    with Pair split_system_append [OF Pair] show ?thesis by auto
  qed
  have "total_tokens mlen (append_message mlen m h) \<le> b \<or> length (snd (split_system (sys @ kept))) \<le> 1"
    if "max_tokens h = Some b" for b
  proof (cases "length kept \<le> 1")
    case True
    with short show ?thesis by simp
  next
    case False
    then obtain x y ys where "kept = x # y # ys" by (cases kept; cases "tl kept") auto
    then have "0 < list_tokens mlen kept"
      using message_tokens_pos [of mlen x] list_tokens_nonneg [of mlen "y # ys"] by simp
    then have "list_tokens mlen kept \<le> b - list_tokens mlen sys"
      using False kept(5) [OF that assms(2) [OF that]] by linarith
    then show ?thesis by (simp add: total_tokens_def msgs)
  qed
  with msgs kept(2-4) split show ?thesis by auto
qed

lemma history_bounded_witness:
  "length (messages (append_message (\<lambda>_. 0) (plain_message USER ''again'') demo_history)) \<le> 3"
proof -
  have "\<And>n. max_messages demo_history = Some n \<Longrightarrow> 0 < n" "\<And>b. max_tokens demo_history = Some b \<Longrightarrow> 0 < b"
    by (simp_all add: demo_history_def)
  from history_bounded [where h = demo_history and mlen = "\<lambda>_. 0" and m = "plain_message USER ''again''", OF this] show ?thesis
    by (simp add: demo_history_def)
qed

text \<open>A tool result that alone exceeds the token budget wipes the conversation: after it is appended
  only the system message is left, neither the user's request nor the result itself.\<close>

theorem oversized_result_erases_history:
  assumes "max_tokens h = Some b" and "0 < b" and "\<And>n. max_messages h = Some n \<Longrightarrow> 1 < n"
    and "msg_role m = TOOL_RESULT" and "b - list_tokens mlen (fst (split_system (messages h))) < message_tokens mlen m"
  shows "messages (append_message mlen m h) = fst (split_system (messages h))"
proof -
  obtain sys work where split: "split_system (messages h) = (sys, work)" by fastforce
  have app: "split_system (messages h @ [m]) = (sys, work @ [m])"
    using split assms(4) by (auto simp: split_system_def split: list.splits if_splits)
  have sys: "messages h = sys @ work" "length sys \<le> 1" using split_system_append [OF split] by simp_all
  let ?avail = "max 0 (b - list_tokens mlen sys)"
  have over: "?avail < message_tokens mlen m" using assms(5) split message_tokens_pos [of mlen m] by simp
  have fit: "fit_budget mlen (Some b) sys (w @ [m]) = [m]" for w
  proof (cases "rev w")
    case Nil
    then show ?thesis using assms(2) by (simp add: fit_budget_def)
  next
    case (Cons x xs)
    then show ?thesis
      using assms(2) over message_tokens_pos [of mlen x] by (simp add: fit_budget_def Let_def)
  qed
  have "trim_list mlen (max_messages h) (Some b) (messages h @ [m]) = sys"
  proof (cases "max_messages h")
    case None
    then show ?thesis using app fit assms(4) by (simp add: trim_list_def)
  next
    case (Some n)
    then have "0 < n - int (length sys)" using assms(3) [OF Some] sys(2) by simp
    moreover have "drop (length (work @ [m]) - nat (n - int (length sys))) (work @ [m]) =
        drop (length (work @ [m]) - nat (n - int (length sys))) work @ [m]"
      using calculation by simp
    ultimately show ?thesis using Some app fit assms(4) sys(2) by (simp add: trim_list_def)
  qed
  moreover have "exceeds (max_tokens h) (list_tokens mlen (messages h @ [m]))"
    using assms(1) over list_tokens_nonneg [of mlen work] by (simp add: exceeds_def sys(1))
  ultimately show ?thesis
    using assms(1) split by (simp add: append_message_def trim_def total_tokens_def)
qed

lemma oversized_result_erases_history_witness:
  "messages (append_message (\<lambda>_. 0) (plain_message TOOL_RESULT (replicate 80 (CHR ''x'')))
     (demo_history\<lparr>max_tokens := Some 20\<rparr>)) = [plain_message SYSTEM ''s'']"
proof -
  have "messages (append_message (\<lambda>_. 0) (plain_message TOOL_RESULT (replicate 80 (CHR ''x'')))
     (demo_history\<lparr>max_tokens := Some 20\<rparr>)) = fst (split_system (messages (demo_history\<lparr>max_tokens := Some 20\<rparr>)))"
    by (rule oversized_result_erases_history [where b = 20])
      (simp_all add: demo_history_def plain_message_def split_system_def message_tokens_def)
  then show ?thesis by (simp add: demo_history_def split_system_def plain_message_def)
qed

end
