(* ===== verification/Agent_Machine.thy ===== *)
theory Agent_Machine
  imports Tool_Executor Conversation
begin

text \<open>
  Models \<open>python/tom/agents/base.py\<close>: the agent's state machine, its state callbacks, the
  confirmation hook that mirrors a pending confirmation in the agent's state, and \<open>execute_tool\<close>.
  The tool executor is the model of \<open>Tool_Executor\<close>, run with the agent-aware hook on a pair of the
  agent and the inner hook's state. Other coroutines do not touch the agent during a call. The text
  of a result's data and of an exception are functions of the environment.
\<close>

subsection \<open>The state machine\<close>

datatype agent_state = IDLE | THINKING | ACTING | WAITING_CONFIRMATION | ERROR | TERMINATED

fun agent_transitions :: "agent_state \<Rightarrow> agent_state list" where
  "agent_transitions IDLE = [THINKING, TERMINATED]"
| "agent_transitions THINKING = [ACTING, WAITING_CONFIRMATION, IDLE, ERROR, TERMINATED]"
| "agent_transitions ACTING = [THINKING, WAITING_CONFIRMATION, IDLE, ERROR, TERMINATED]"
| "agent_transitions WAITING_CONFIRMATION = [ACTING, IDLE, ERROR, TERMINATED]"
| "agent_transitions ERROR = [IDLE, TERMINATED]"
| "agent_transitions TERMINATED = []"

datatype agent_error = InvalidStateTransitionError agent_state agent_state | AgentCancelled

text \<open>\<open>ag_log\<close> records every callback invocation; what a callback raises is logged and ignored.\<close>

record agent =
  ag_state :: agent_state
  ag_history :: history
  ag_callbacks :: "nat list"
  ag_log :: "(nat \<times> agent_state \<times> agent_state) list"

definition new_agent :: "string \<Rightarrow> agent" where
  "new_agent prompt = \<lparr>ag_state = IDLE,
     ag_history = (if prompt = [] then default_history
                   else append_message (\<lambda>_. 0) (plain_message SYSTEM prompt) default_history),
     ag_callbacks = [], ag_log = []\<rparr>"

definition add_state_callback :: "nat \<Rightarrow> agent \<Rightarrow> agent" where
  "add_state_callback c ag =
     (if c \<in> set (ag_callbacks ag) then ag else ag\<lparr>ag_callbacks := ag_callbacks ag @ [c]\<rparr>)"

definition remove_state_callback :: "nat \<Rightarrow> agent \<Rightarrow> agent" where
  "remove_state_callback c ag = ag\<lparr>ag_callbacks := remove1 c (ag_callbacks ag)\<rparr>"

definition agent_transition :: "agent_state \<Rightarrow> agent \<Rightarrow> (agent_error + unit) \<times> agent" where
  "agent_transition target ag =
     (if target \<notin> set (agent_transitions (ag_state ag))
      then (Inl (InvalidStateTransitionError (ag_state ag) target), ag)
      else (Inr (), ag\<lparr>ag_state := target,
              ag_log := ag_log ag @ map (\<lambda>c. (c, ag_state ag, target)) (ag_callbacks ag)\<rparr>))"

definition and_then :: "(agent_error + unit) \<times> agent \<Rightarrow> (agent \<Rightarrow> (agent_error + unit) \<times> agent) \<Rightarrow>
    (agent_error + unit) \<times> agent" where
  "and_then r f = (case r of (Inl e, ag) \<Rightarrow> (Inl e, ag) | (Inr _, ag) \<Rightarrow> f ag)"

interpretation at: transition_table agent_transitions "\<lambda>s. s = TERMINATED"
proof
  show "(s = TERMINATED) = (agent_transitions s = [])" for s by (cases s) simp_all
qed

subsection \<open>The agent-aware confirmation hook\<close>

definition aware_request ::
  "(conf_request \<Rightarrow> 's \<Rightarrow> hook_result \<times> 's) \<Rightarrow> conf_request \<Rightarrow> agent \<times> 's \<Rightarrow> hook_result \<times> agent \<times> 's"
  where
  "aware_request inner req p =
     (let (ag, st) = p;
          ag1 = (if ag_state ag = ACTING then snd (agent_transition WAITING_CONFIRMATION ag) else ag);
          (res, st') = inner req st;
          confirmed = (res = Answer True)
      in if res = CancelledOut then (CancelledOut, ag1, st')
         else (Answer confirmed,
               (if confirmed \<and> ag_state ag1 = WAITING_CONFIRMATION
                then snd (agent_transition ACTING ag1) else ag1), st'))"

subsection \<open>Executing a tool\<close>

record 's agent_env =
  ae_exec :: exec_env
  ae_ask :: "conf_request \<Rightarrow> 's \<Rightarrow> hook_result \<times> 's"
  ae_error_text :: "exec_error \<Rightarrow> string"
  ae_render :: "tool_data \<Rightarrow> string"
  ae_mlen :: "message \<Rightarrow> nat"

definition enter_acting :: "agent \<Rightarrow> (agent_error + unit) \<times> agent" where
  "enter_acting ag =
     (if ag_state ag = IDLE then and_then (agent_transition THINKING ag) (agent_transition ACTING)
      else if ag_state ag = THINKING then agent_transition ACTING ag
      else if ag_state ag \<noteq> ACTING then agent_transition ACTING ag
      else (Inr (), ag))"

definition result_text :: "'s agent_env \<Rightarrow> tool_result \<Rightarrow> string" where
  "result_text env r =
     (if res_success r then ae_render env (res_data r)
      else case res_error r of
             None \<Rightarrow> ''Tool execution failed''
           | Some e \<Rightarrow> if e = [] then ''Tool execution failed'' else e)"

definition observation_message :: "'s agent_env \<Rightarrow> string \<Rightarrow> string option \<Rightarrow> tool_result \<Rightarrow> message" where
  "observation_message env name cid r = \<lparr>msg_role = TOOL_RESULT, msg_content = result_text env r,
     msg_name = Some name, msg_call_id = cid, msg_calls = None, msg_success = Some (res_success r)\<rparr>"

definition leave_acting :: "agent_state \<Rightarrow> agent \<Rightarrow> (agent_error + unit) \<times> agent" where
  "leave_acting return_to ag =
     (if ag_state ag = WAITING_CONFIRMATION
      then and_then (agent_transition IDLE ag)
             (\<lambda>ag. if return_to = THINKING then agent_transition THINKING ag else (Inr (), ag))
      else if ag_state ag = ACTING then agent_transition return_to ag
      else (Inr (), ag))"

text \<open>What an exception of the executor becomes; \<open>None\<close> is the cancellation, which is raised again.\<close>

definition caught_result :: "'s agent_env \<Rightarrow> exec_error + tool_result \<Rightarrow> tool_result option" where
  "caught_result env res =
     (case res of
        Inr r \<Rightarrow> Some r
      | Inl ExecCancelled \<Rightarrow> None
      | Inl e \<Rightarrow> Some (result_fail (ae_error_text env e) 0))"

definition agent_execute ::
  "'s agent_env \<Rightarrow> string \<Rightarrow> exec_params \<Rightarrow> rat option \<Rightarrow> agent_state \<Rightarrow> string option \<Rightarrow> rat \<Rightarrow>
   (binding \<Rightarrow> rat \<Rightarrow> handler_outcome) \<Rightarrow> agent \<times> 's \<Rightarrow> (agent_error + tool_result) \<times> agent \<times> 's" where
  "agent_execute env name ps timeout return_to cid elapsed outcome p =
     (case enter_acting (fst p) of
        (Inl e, ag) \<Rightarrow> (Inl e, ag, snd p)
      | (Inr _, ag1) \<Rightarrow>
          (let run = execute_tool (ae_exec env) (aware_request (ae_ask env)) name ps timeout POther
                       elapsed outcome (ag1, snd p);
               (ag2, st) = run_hook run
           in case caught_result env (run_result run) of
                None \<Rightarrow> (Inl AgentCancelled,
                         (if TERMINATED \<in> set (agent_transitions (ag_state ag2))
                          then snd (agent_transition TERMINATED ag2) else ag2), st)
              | Some r \<Rightarrow>
                  (let ag3 = ag2\<lparr>ag_history := append_message (ae_mlen env)
                               (observation_message env name cid r) (ag_history ag2)\<rparr>
                   in case leave_acting return_to ag3 of
                        (Inl e, ag4) \<Rightarrow> (Inl e, ag4, st)
                      | (Inr _, ag4) \<Rightarrow> (Inr r, ag4, st))))"

subsection \<open>The hook during a call\<close>

lemma agent_transition_simps [simp]:
  "ag_state (snd (agent_transition t ag)) = (if t \<in> set (agent_transitions (ag_state ag)) then t else ag_state ag)"
  "ag_history (snd (agent_transition t ag)) = ag_history ag"
  "ag_callbacks (snd (agent_transition t ag)) = ag_callbacks ag"
  by (simp_all add: agent_transition_def)

lemma agent_transition_ok:
  "fst (agent_transition t ag) = Inr () \<longleftrightarrow> t \<in> set (agent_transitions (ag_state ag))"
  by (simp add: agent_transition_def)

lemma agent_transition_fails:
  "t \<notin> set (agent_transitions (ag_state ag)) \<Longrightarrow>
   agent_transition t ag = (Inl (InvalidStateTransitionError (ag_state ag) t), ag)"
  by (simp add: agent_transition_def)

lemma aware_request_cases:
  assumes "aware_request inner req (ag, st) = (res, ag', st')" and "ag_state ag = ACTING"
  obtains "fst (inner req st) = CancelledOut" and "res = CancelledOut" and "ag_state ag' = WAITING_CONFIRMATION"
      and "ag_history ag' = ag_history ag"
  | "fst (inner req st) = Answer True" and "res = Answer True" and "ag_state ag' = ACTING"
      and "ag_history ag' = ag_history ag"
  | "fst (inner req st) \<in> {Answer False, SecurityErrorOut}" and "res = Answer False"
      and "ag_state ag' = WAITING_CONFIRMATION" and "ag_history ag' = ag_history ag"
proof -
  obtain r st1 where inner: "inner req st = (r, st1)" by fastforce
  consider "r = CancelledOut" | "r = Answer True" | "r \<in> {Answer False, SecurityErrorOut}"
    by (cases r) auto
  then show ?thesis
  proof cases
    case 1
    then show ?thesis using assms inner by (intro that(1)) (auto simp: aware_request_def Let_def)
  next
    case 2
    then show ?thesis using assms inner by (intro that(2)) (auto simp: aware_request_def Let_def)
  next
    case 3
    then show ?thesis using assms inner by (intro that(3)) (auto simp: aware_request_def Let_def)
  qed
qed

text \<open>The agent-aware hook keeps the law of the hook it wraps.\<close>

context confirmation_hook
begin

lemma aware_fail_closed:
  assumes "fst (aware_request (\<lambda>req. ask req out) req p) = Answer True"
  shows "consents out"
proof -
  obtain ag st where p: "p = (ag, st)" by (cases p)
  obtain r st1 where r: "ask req out st = (r, st1)" by fastforce
  with p assms have "r = Answer True" by (auto simp: aware_request_def Let_def split: if_splits)
  with r show ?thesis using fail_closed [of req out st] by simp
qed

end

interpretation ch_aware: confirmation_hook
  "\<lambda>req (emits, isatty, now, input) p. aware_request (\<lambda>req c. console_request emits req isatty now input c) req p"
  "\<lambda>(emits, isatty, now, input). emits \<and> (\<exists>s. input = Answers s \<and> affirmative s)"
proof
  fix req out p
  assume "fst ((case out of (emits, isatty, now, input) \<Rightarrow>
      \<lambda>p. aware_request (\<lambda>req c. console_request emits req isatty now input c) req p) p) = Answer True"
  then show "case out of (emits, isatty, now, input) \<Rightarrow> emits \<and> (\<exists>s. input = Answers s \<and> affirmative s)"
    using ch_console.aware_fail_closed [of out req p] by (cases out) simp
qed

text \<open>The hook runs at most once in an execution; its state afterwards comes from that one call.\<close>

lemma execute_tool_hook:
  "run_hook (execute_tool env ask name p given prio elapsed outcome st) = st \<or>
   (\<exists>req res. ask req st = (res, run_hook (execute_tool env ask name p given prio elapsed outcome st)))"
proof -
  have hook: "run_hook (invoke_tool env tool ps name p given prio elapsed outcome st') = st'" for tool ps and st' :: 'a
    by (auto simp: invoke_tool_def Let_def split: sum.splits)
  show ?thesis
    unfolding execute_tool_def Let_def
    by (simp add: hook split: sum.split option.split hook_result.split bool.split prod.split) blast
qed

subsection \<open>Properties of the agent\<close>

text \<open>While a call runs, the agent is acting or waiting, and its history does not move.\<close>

lemma agent_during_call:
  assumes "ag_state ag = ACTING"
    and "run_hook (execute_tool env (aware_request inner) name p given prio elapsed outcome (ag, st)) = (ag', st')"
  shows "ag_state ag' \<in> {ACTING, WAITING_CONFIRMATION} \<and> ag_history ag' = ag_history ag"
  using execute_tool_hook [of env "aware_request inner" name p given prio elapsed outcome "(ag, st)"]
proof (elim disjE exE)
  assume "run_hook (execute_tool env (aware_request inner) name p given prio elapsed outcome (ag, st)) = (ag, st)"
  with assms show ?thesis by simp
next
  fix req res
  assume "aware_request inner req (ag, st) =
      (res, run_hook (execute_tool env (aware_request inner) name p given prio elapsed outcome (ag, st)))"
  with assms(2) have "aware_request inner req (ag, st) = (res, ag', st')" by simp
  then show ?thesis by (rule aware_request_cases [OF _ assms(1)]) auto
qed

lemma enter_acting_cases:
  obtains "enter_acting ag = (Inl (InvalidStateTransitionError (ag_state ag) ACTING), ag)"
      and "ag_state ag \<in> {ERROR, TERMINATED}"
  | ag1 where "enter_acting ag = (Inr (), ag1)" and "ag_state ag1 = ACTING" and "ag_history ag1 = ag_history ag"
      and "ag_state ag \<notin> {ERROR, TERMINATED}"
proof (cases "ag_state ag")
  case IDLE
  then show ?thesis
    using that(2) [of "snd (agent_transition ACTING (snd (agent_transition THINKING ag)))"]
    by (simp add: enter_acting_def and_then_def agent_transition_def)
next
  case THINKING
  then show ?thesis
    using that(2) [of "snd (agent_transition ACTING ag)"] by (simp add: enter_acting_def agent_transition_def)
next
  case WAITING_CONFIRMATION
  then show ?thesis
    using that(2) [of "snd (agent_transition ACTING ag)"] by (simp add: enter_acting_def agent_transition_def)
qed (use that in \<open>simp_all add: enter_acting_def agent_transition_def\<close>)

lemma leave_acting_thinking:
  assumes "ag_state ag \<in> {ACTING, WAITING_CONFIRMATION}"
  shows "\<exists>ag'. leave_acting THINKING ag = (Inr (), ag') \<and> ag_state ag' = THINKING \<and> ag_history ag' = ag_history ag"
  using assms by (auto simp: leave_acting_def and_then_def agent_transition_def)

text \<open>The three ways a tool call of the agent ends, when it returns to THINKING.\<close>

lemma agent_execute_cases:
  obtains "fst (agent_execute env name ps timeout THINKING cid elapsed outcome (ag, st)) =
        Inl (InvalidStateTransitionError (ag_state ag) ACTING)"
      and "snd (agent_execute env name ps timeout THINKING cid elapsed outcome (ag, st)) = (ag, st)"
      and "ag_state ag \<in> {ERROR, TERMINATED}"
  | ag' st' where "agent_execute env name ps timeout THINKING cid elapsed outcome (ag, st) = (Inl AgentCancelled, ag', st')"
      and "ag_state ag' = TERMINATED" and "ag_history ag' = ag_history ag" and "ag_state ag \<notin> {ERROR, TERMINATED}"
  | r ag' st' where "agent_execute env name ps timeout THINKING cid elapsed outcome (ag, st) = (Inr r, ag', st')"
      and "ag_state ag' = THINKING" and "ag_state ag \<notin> {ERROR, TERMINATED}"
      and "ag_history ag' = append_message (ae_mlen env) (observation_message env name cid r) (ag_history ag)"
proof (cases rule: enter_acting_cases [of ag])
  case 1
  then show ?thesis using that(1) by (simp add: agent_execute_def)
next
  case (2 ag1)
  let ?run = "execute_tool (ae_exec env) (aware_request (ae_ask env)) name ps timeout POther elapsed outcome (ag1, st)"
  obtain ag2 st2 where hook: "run_hook ?run = (ag2, st2)" by fastforce
  note during = agent_during_call [OF 2(2) hook]
  show ?thesis
  proof (cases "caught_result env (run_result ?run)")
    case None
    then show ?thesis
      using that(2) [of "snd (agent_transition TERMINATED ag2)" st2] 2 hook during
      by (auto simp: agent_execute_def Let_def)
  next
    case (Some r)
    let ?ag3 = "ag2\<lparr>ag_history := append_message (ae_mlen env) (observation_message env name cid r) (ag_history ag2)\<rparr>"
    obtain ag4 where "leave_acting THINKING ?ag3 = (Inr (), ag4)" "ag_state ag4 = THINKING"
        "ag_history ag4 = ag_history ?ag3"
      using leave_acting_thinking [of ?ag3] during by auto
    then show ?thesis
      using that(3) [of r ag4 st2] 2 hook during Some by (simp add: agent_execute_def Let_def)
  qed
qed

text \<open>A tool call of the agent settles: it returns a result with the agent THINKING and exactly one
  tool-result message appended for the call; or it is cancelled with the agent TERMINATED and the
  history untouched; or the agent was in ERROR or TERMINATED, the call raises and nothing changes.\<close>

theorem agent_call_settles:
  "case agent_execute env name ps timeout THINKING cid elapsed outcome (ag, st) of
     (Inr r, ag', st') \<Rightarrow> ag_state ag' = THINKING \<and>
       ag_history ag' = append_message (ae_mlen env) (observation_message env name cid r) (ag_history ag)
   | (Inl AgentCancelled, ag', st') \<Rightarrow> ag_state ag' = TERMINATED \<and> ag_history ag' = ag_history ag
   | (Inl (InvalidStateTransitionError s t), ag', st') \<Rightarrow>
       s = ag_state ag \<and> t = ACTING \<and> s \<in> {ERROR, TERMINATED} \<and> ag' = ag \<and> st' = st"
  by (rule agent_execute_cases [of env name ps timeout cid elapsed outcome ag st])
    (simp_all add: prod_eq_iff split: prod.split)

text \<open>Every operation of the agent.\<close>

inductive agent_step :: "'s agent_env \<Rightarrow> agent \<Rightarrow> agent \<Rightarrow> bool" for env where
  "agent_step env ag (snd (agent_transition target ag))"
| "agent_step env ag (fst (snd (agent_execute env name ps timeout return_to cid elapsed outcome (ag, st))))"
| "agent_step env ag (add_state_callback c ag)"
| "agent_step env ag (remove_state_callback c ag)"

definition agent_moves :: "agent \<Rightarrow> agent \<Rightarrow> bool" where
  "agent_moves ag ag' \<longleftrightarrow> (\<lambda>a b. b \<in> set (agent_transitions a))\<^sup>*\<^sup>* (ag_state ag) (ag_state ag')"

lemma agent_moves_refl [simp]: "agent_moves ag ag"
  by (simp add: agent_moves_def)

lemma agent_moves_trans [trans]: "agent_moves a b \<Longrightarrow> agent_moves b c \<Longrightarrow> agent_moves a c"
  unfolding agent_moves_def by (rule rtranclp_trans)

lemma agent_moves_transition: "agent_moves ag (snd (agent_transition t ag))"
  by (auto simp: agent_moves_def)

lemma agent_moves_history [simp]: "agent_moves ag (ag'\<lparr>ag_history := h\<rparr>) = agent_moves ag ag'"
    "agent_moves (ag\<lparr>ag_history := h\<rparr>) ag' = agent_moves ag ag'"
  by (simp_all add: agent_moves_def)

lemma agent_moves_and_then:
  assumes "agent_moves ag (snd r)" and "\<And>a. agent_moves a (snd (f a))"
  shows "agent_moves ag (snd (and_then r f))"
  using assms agent_moves_trans [of ag "snd r" "snd (f (snd r))"]
  by (auto simp: and_then_def split: prod.split sum.split)

lemma agent_moves_callbacks [simp]: "agent_moves ag (add_state_callback c ag)" "agent_moves ag (remove_state_callback c ag)"
  by (simp_all add: add_state_callback_def remove_state_callback_def agent_moves_def)

lemma agent_moves_enter: "agent_moves ag (snd (enter_acting ag))"
  by (simp add: enter_acting_def agent_moves_and_then agent_moves_transition)

lemma agent_moves_leave: "agent_moves ag (snd (leave_acting return_to ag))"
  by (simp add: leave_acting_def agent_moves_and_then agent_moves_transition)

lemma agent_moves_aware: "agent_moves ag (fst (snd (aware_request inner req (ag, st))))"
proof -
  define ag1 where "ag1 = (if ag_state ag = ACTING then snd (agent_transition WAITING_CONFIRMATION ag) else ag)"
  have one: "agent_moves ag ag1" by (simp add: ag1_def agent_moves_transition)
  then have "agent_moves ag (snd (agent_transition ACTING ag1))"
    using agent_moves_transition agent_moves_trans by blast
  moreover obtain r st1 where "inner req st = (r, st1)" by fastforce
  then have "fst (snd (aware_request inner req (ag, st))) =
      (if r = Answer True \<and> ag_state ag1 = WAITING_CONFIRMATION then snd (agent_transition ACTING ag1) else ag1)"
    unfolding aware_request_def Let_def prod.case ag1_def by auto
  ultimately show ?thesis using one by simp
qed

lemma agent_moves_execute:
  "agent_moves ag (fst (snd (agent_execute env name ps timeout return_to cid elapsed outcome (ag, st))))"
proof -
  obtain e ag1 where enter: "enter_acting ag = (e, ag1)" by fastforce
  have one: "agent_moves ag ag1" using agent_moves_enter [of ag] enter by simp
  let ?run = "execute_tool (ae_exec env) (aware_request (ae_ask env)) name ps timeout POther elapsed outcome (ag1, st)"
  obtain ag2 st2 where hook: "run_hook ?run = (ag2, st2)" by fastforce
  have "agent_moves ag1 ag2"
    using execute_tool_hook [of "ae_exec env" "aware_request (ae_ask env)" name ps timeout POther elapsed outcome "(ag1, st)"]
      hook agent_moves_aware [of ag1 "ae_ask env" _ st]
    by (metis agent_moves_refl fst_conv snd_conv)
  with one have two: "agent_moves ag ag2" by (rule agent_moves_trans)
  have "agent_moves ag (snd (agent_transition t ag2))" for t
    by (rule agent_moves_trans [OF two agent_moves_transition])
  moreover have "agent_moves ag (snd (leave_acting return_to (ag2\<lparr>ag_history := h\<rparr>)))" for h
    using agent_moves_trans [OF two] agent_moves_leave [of "ag2\<lparr>ag_history := h\<rparr>" return_to] by simp
  ultimately show ?thesis
    using one two hook enter
    by (auto simp: agent_execute_def Let_def split: sum.split option.split prod.split)
      (metis snd_conv)+
qed

lemma agent_step_moves: "agent_step env ag ag' \<Longrightarrow> agent_moves ag ag'"
  by (induction rule: agent_step.induct)
    (simp_all add: agent_moves_transition agent_moves_execute)

text \<open>Over any sequence of transitions, tool calls and callback registrations the agent's state moves
  along its transition table, and a terminated agent stays terminated.\<close>

theorem agent_life:
  assumes "(agent_step env)\<^sup>*\<^sup>* ag ag'"
  shows "(\<lambda>a b. b \<in> set (agent_transitions a))\<^sup>*\<^sup>* (ag_state ag) (ag_state ag') \<and>
         (ag_state ag = TERMINATED \<longrightarrow> ag_state ag' = TERMINATED)"
proof -
  from assms have "agent_moves ag ag'"
  proof (induction rule: rtranclp_induct)
    case base
    show ?case by simp
  next
    case (step a b)
    then show ?case using agent_moves_trans agent_step_moves by blast
  qed
  then show ?thesis using at.terminal_reaches_itself_only [of "ag_state ag" "ag_state ag'"] by (auto simp: agent_moves_def)
qed

definition demo_agent_env :: "console agent_env" where
  "demo_agent_env = \<lparr>ae_exec = demo_env, ae_ask = (\<lambda>req. console_request True req True 3 (Answers ''no'')),
     ae_error_text = (\<lambda>_. ''denied''), ae_render = (\<lambda>_. ''ok''), ae_mlen = (\<lambda>_. 0)\<rparr>"

lemma agent_life_witness:
  "ag_state (snd (agent_transition THINKING (snd (agent_transition TERMINATED (new_agent ''hi''))))) = TERMINATED"
proof -
  let ?ag = "snd (agent_transition TERMINATED (new_agent ''hi''))"
  have "agent_step demo_agent_env ?ag (snd (agent_transition THINKING ?ag))" by (rule agent_step.intros)
  then have "(agent_step demo_agent_env)\<^sup>*\<^sup>* ?ag (snd (agent_transition THINKING ?ag))" by blast
  from agent_life [OF this] show ?thesis by (simp add: new_agent_def)
qed

text \<open>A tool that needs a confirmation and is called through an agent with the console hook runs only
  if the user typed an explicit yes that was written to the audit log.\<close>

theorem agent_consent_needed:
  assumes "run_invoked (execute_tool env (aware_request (\<lambda>req c. console_request emits req isatty now input c))
             name p given prio elapsed outcome (ag, c)) = Some call"
    and "dict_get (env_registry env) name = Some tool"
    and "evaluate (env_scan env) (env_engine env) (ToolDef (td_name tool) (td_permission tool))
           (Some (normalize_params p)) ''SAFE'' = Some d"
    and "requires_confirmation d"
  shows "emits \<and> (\<exists>s. input = Answers s \<and> lower (strip s) \<in> {''y'', ''yes''})"
  using ch_aware.invoked_with_consent [of env "(emits, isatty, now, input)" name p given prio elapsed outcome "(ag, c)"
      call tool d] assms
  by (simp add: get_tool_def affirmative_def)

lemma agent_consent_needed_witness:
  "\<exists>s. Answers ''yes'' = Answers s \<and> lower (strip s) \<in> {''y'', ''yes''}"
proof -
  let ?run = "execute_tool demo_env (aware_request (\<lambda>req c. console_request True req True 3 (Answers ''yes'') c))
     ''files.delete_file'' demo_params None POther 1 (\<lambda>_ _. HandlerReturns (PlainData (PStr ''done'')))
     (snd (agent_transition ACTING (snd (agent_transition THINKING (new_agent [])))), demo_console)"
  have "run_invoked ?run \<noteq> None"
    unfolding demo_env_def demo_tool_def demo_scrubber_def demo_params_def demo_console_def
      default_tracker_def by code_simp
  then obtain call where call: "run_invoked ?run = Some call" by auto
  have tool: "dict_get (env_registry demo_env) ''files.delete_file'' = Some demo_tool" by (simp add: demo_env_def)
  have "map_option requires_confirmation (evaluate (env_scan demo_env) (env_engine demo_env)
      (ToolDef (td_name demo_tool) (td_permission demo_tool)) (Some (normalize_params demo_params)) ''SAFE'') = Some True"
    unfolding demo_env_def demo_tool_def demo_params_def by code_simp
  then obtain d where "evaluate (env_scan demo_env) (env_engine demo_env)
      (ToolDef (td_name demo_tool) (td_permission demo_tool)) (Some (normalize_params demo_params)) ''SAFE'' = Some d"
    and "requires_confirmation d" by auto
  from agent_consent_needed [OF call tool this] show ?thesis by blast
qed

end
