(* ===== verification/Orchestrator.thy ===== *)
theory Orchestrator
  imports Agent_Machine
begin

text \<open>
  Models \<open>AgentOrchestrator\<close> of \<open>python/tom/agents/orchestrator.py\<close>: \<open>run\<close>, \<open>stream\<close>, the direct tool
  path, both bounded loops and the cooperative cancellation checks. The router's decision, the
  answers of the cancellation token at each check, what each model call returns (with the resource
  lease around it) and the handlers' outcomes are arguments; the agent is the model of
  \<open>Agent_Machine\<close>. The consumer of a stream takes every delta. The loops are recursive on the number
  of steps left, so they terminate.
\<close>

subsection \<open>Environment and state\<close>

datatype think_outcome = ThinkCancelled | ThinkRaises string | ThinkReturns string "tool_call list"

record chunk =
  chunk_content :: string
  chunk_call :: "tool_call option"

datatype stream_end = StreamEnds | StreamRaises string | StreamCancelled

record 's orch_env =
  oe_agent :: "'s agent_env"
  oe_token :: "(nat \<Rightarrow> bool) option"
  oe_provider :: bool
  oe_think :: "nat \<Rightarrow> message list \<Rightarrow> think_outcome"
  oe_stream :: "nat \<Rightarrow> message list \<Rightarrow> chunk list \<times> stream_end"
  oe_outcome :: "nat \<Rightarrow> binding \<Rightarrow> rat \<Rightarrow> handler_outcome"
  oe_elapsed :: "nat \<Rightarrow> rat"

text \<open>\<open>or_checks\<close>, \<open>or_calls\<close> and \<open>or_thinks\<close> count the token checks, tool calls and model calls so
  far; \<open>or_yielded\<close> collects the deltas of a stream.\<close>

record 's orch =
  or_agent :: agent
  or_hook :: 's
  or_checks :: nat
  or_calls :: nat
  or_thinks :: nat
  or_yielded :: "string list"

type_synonym 's orch_exit = "(agent_error + string) \<times> 's orch"

abbreviation on_agent :: "(agent \<Rightarrow> agent) \<Rightarrow> 's orch \<Rightarrow> 's orch" where
  "on_agent f st \<equiv> st\<lparr>or_agent := f (or_agent st)\<rparr>"

definition agent_moved :: "agent_state \<Rightarrow> 's orch \<Rightarrow> (agent_error + unit) \<times> 's orch" where
  "agent_moved target st =
     (let (r, ag) = agent_transition target (or_agent st) in (r, st\<lparr>or_agent := ag\<rparr>))"

definition terminate_agent :: "'s orch \<Rightarrow> 's orch" where
  "terminate_agent st =
     (if ag_state (or_agent st) \<noteq> TERMINATED then snd (agent_moved TERMINATED st) else st)"

definition check_cancelled :: "'s orch_env \<Rightarrow> 's orch \<Rightarrow> bool \<times> 's orch" where
  "check_cancelled env st =
     (let st1 = st\<lparr>or_checks := or_checks st + 1\<rparr>
      in case oe_token env of
           None \<Rightarrow> (False, st1)
         | Some f \<Rightarrow> if f (or_checks st) then (True, terminate_agent st1) else (False, st1))"

definition add_history :: "'s orch_env \<Rightarrow> message \<Rightarrow> 's orch \<Rightarrow> 's orch" where
  "add_history env m = on_agent (\<lambda>ag. ag\<lparr>ag_history := append_message (ae_mlen (oe_agent env)) m (ag_history ag)\<rparr>)"

subsection \<open>Tools\<close>

definition orch_tool ::
  "'s orch_env \<Rightarrow> string \<Rightarrow> exec_params \<Rightarrow> string option \<Rightarrow> 's orch \<Rightarrow> (agent_error + tool_result) \<times> 's orch" where
  "orch_tool env name ps cid st =
     (let i = or_calls st;
          (r, ag, hook) = agent_execute (oe_agent env) name ps None THINKING cid (oe_elapsed env i)
                            (oe_outcome env i) (or_agent st, or_hook st)
      in (r, st\<lparr>or_agent := ag, or_hook := hook, or_calls := i + 1\<rparr>))"

definition execute_direct_tool :: "'s orch_env \<Rightarrow> string \<Rightarrow> 's orch \<Rightarrow> 's orch_exit" where
  "execute_direct_tool env name st =
     (let st0 = (if ag_state (or_agent st) = IDLE then snd (agent_moved THINKING st) else st)
      in case orch_tool env name NoParams None st0 of
           (Inl e, st1) \<Rightarrow> (Inl e, st1)
         | (Inr r, st1) \<Rightarrow>
             (let st2 = (if ag_state (or_agent st1) = THINKING then snd (agent_moved IDLE st1) else st1)
              in (Inr (result_text (oe_agent env) r), st2)))"

text \<open>The tool calls of one step: an early exit, or the state to go on with.\<close>

fun run_tools :: "'s orch_env \<Rightarrow> tool_call list \<Rightarrow> 's orch \<Rightarrow> 's orch_exit + 's orch" where
  "run_tools env [] st = Inr st"
| "run_tools env (c # cs) st =
     (case check_cancelled env st of
        (True, st1) \<Rightarrow> Inl (Inr ''Task cancelled'', terminate_agent st1)
      | (False, st1) \<Rightarrow>
          (case orch_tool env (call_name c) (DictParams (call_arguments c)) (call_id c) st1 of
             (Inl AgentCancelled, st2) \<Rightarrow> Inl (Inl AgentCancelled, terminate_agent st2)
           | (Inl e, st2) \<Rightarrow> Inl (Inl e, st2)
           | (Inr _, st2) \<Rightarrow> run_tools env cs st2))"

subsection \<open>The loop of run\<close>

definition begin_step :: "'s orch \<Rightarrow> (agent_error + unit) \<times> 's orch" where
  "begin_step st =
     (if ag_state (or_agent st) \<noteq> TERMINATED \<and> ag_state (or_agent st) \<noteq> THINKING
      then agent_moved THINKING st else (Inr (), st))"

definition model_failed :: "'s orch \<Rightarrow> 's orch" where
  "model_failed st = (if ag_state (or_agent st) = THINKING then snd (agent_moved ERROR st) else st)"

definition to_idle :: "'s orch \<Rightarrow> 's orch" where
  "to_idle st = (if ag_state (or_agent st) = THINKING then snd (agent_moved IDLE st) else st)"

definition steps_exceeded :: "string \<Rightarrow> 's orch \<Rightarrow> 's orch_exit" where
  "steps_exceeded text st =
     (if ag_state (or_agent st) \<noteq> TERMINATED
      then (case agent_moved ERROR st of
              (Inl e, st1) \<Rightarrow> (Inl e, st1)
            | (Inr _, st1) \<Rightarrow> (Inr text, st1))
      else (Inr text, st))"

definition assistant_message :: "string \<Rightarrow> tool_call list \<Rightarrow> message" where
  "assistant_message text calls =
     (plain_message ASSISTANT text)\<lparr>msg_calls := (if calls = [] then None else Some calls)\<rparr>"

fun agent_loop :: "'s orch_env \<Rightarrow> nat \<Rightarrow> 's orch \<Rightarrow> 's orch_exit" where
  "agent_loop env 0 st = steps_exceeded ''Maximum steps exceeded'' st"
| "agent_loop env (Suc n) st =
     (case check_cancelled env st of
        (True, st1) \<Rightarrow> (Inr ''Task cancelled'', st1)
      | (False, st1) \<Rightarrow>
          (case begin_step st1 of
             (Inl e, st2) \<Rightarrow> (Inl e, st2)
           | (Inr _, st2) \<Rightarrow>
               (let st3 = st2\<lparr>or_thinks := or_thinks st2 + 1\<rparr>
                in case oe_think env (or_thinks st2) (messages (ag_history (or_agent st2))) of
                     ThinkCancelled \<Rightarrow> (Inl AgentCancelled, terminate_agent st3)
                   | ThinkRaises e \<Rightarrow> (Inr (''Model error: '' @ e), model_failed st3)
                   | ThinkReturns text calls \<Rightarrow>
                       (let st4 = add_history env (assistant_message text calls) st3
                        in if calls \<noteq> []
                           then (case run_tools env calls st4 of
                                   Inl out \<Rightarrow> out
                                 | Inr st5 \<Rightarrow> agent_loop env n st5)
                           else (Inr (if text = [] then ''Done'' else text), to_idle st4)))))"

text \<open>Without a model provider.\<close>

definition no_provider :: "'s orch \<Rightarrow> 's orch_exit" where
  "no_provider st =
     (let text = ''I'' @ [CHR 0x27] @ ''m not sure how to help with that''
      in if ag_state (or_agent st) = TERMINATED then (Inr text, st)
         else case agent_moved THINKING st of
                (Inl e, st1) \<Rightarrow> (Inl e, st1)
              | (Inr _, st1) \<Rightarrow> (case agent_moved ERROR st1 of
                                   (Inl e, st2) \<Rightarrow> (Inl e, st2)
                                 | (Inr _, st2) \<Rightarrow> (Inr text, st2)))"

text \<open>\<open>target\<close> is the tool of a tier 1 match.\<close>

definition orch_run :: "'s orch_env \<Rightarrow> string \<Rightarrow> string option \<Rightarrow> nat \<Rightarrow> 's orch \<Rightarrow> 's orch_exit" where
  "orch_run env prompt target max_steps st =
     (case check_cancelled env st of
        (True, st1) \<Rightarrow> (Inr ''Task cancelled'', st1)
      | (False, st1) \<Rightarrow>
          (let st2 = add_history env (plain_message USER prompt) st1
           in case target of
                Some name \<Rightarrow> execute_direct_tool env name st2
              | None \<Rightarrow> if \<not> oe_provider env then no_provider st2 else agent_loop env max_steps st2))"

subsection \<open>The loop of stream\<close>

definition yield_delta :: "string \<Rightarrow> 's orch \<Rightarrow> 's orch" where
  "yield_delta d st = st\<lparr>or_yielded := or_yielded st @ [d]\<rparr>"

text \<open>The chunks of one model call: the state, the collected text and tool calls, and whether a
  cancellation check halted the consumption (then the text so far is recorded).\<close>

fun consume :: "'s orch_env \<Rightarrow> chunk list \<Rightarrow> string list \<Rightarrow> tool_call list \<Rightarrow> 's orch \<Rightarrow>
    bool \<times> string list \<times> tool_call list \<times> 's orch" where
  "consume env [] collected calls st = (False, collected, calls, st)"
| "consume env (c # cs) collected calls st =
     (case check_cancelled env st of
        (True, st1) \<Rightarrow>
          (True, collected, calls,
           if collected \<noteq> [] then add_history env (plain_message ASSISTANT (concat collected)) st1 else st1)
      | (False, st1) \<Rightarrow>
          (let (collected', st2) = (if chunk_content c \<noteq> []
                                    then (collected @ [chunk_content c], yield_delta (chunk_content c) st1)
                                    else (collected, st1));
               calls' = (case chunk_call c of None \<Rightarrow> calls | Some t \<Rightarrow> calls @ [t])
           in consume env cs collected' calls' st2))"

text \<open>A finished generator returns nothing: the text of the exit is empty.\<close>

fun stream_loop :: "'s orch_env \<Rightarrow> nat \<Rightarrow> 's orch \<Rightarrow> 's orch_exit" where
  "stream_loop env 0 st = steps_exceeded [] st"
| "stream_loop env (Suc n) st =
     (case check_cancelled env st of
        (True, st1) \<Rightarrow> (Inr [], st1)
      | (False, st1) \<Rightarrow>
          (case begin_step st1 of
             (Inl e, st2) \<Rightarrow> (Inl e, st2)
           | (Inr _, st2) \<Rightarrow>
               (let (chunks, ending) = oe_stream env (or_thinks st2) (messages (ag_history (or_agent st2)));
                    (halted, collected, calls, st3) =
                      consume env chunks [] [] (st2\<lparr>or_thinks := or_thinks st2 + 1\<rparr>)
                in if halted then (Inr [], st3)
                   else (case ending of
                           StreamCancelled \<Rightarrow> (Inl AgentCancelled, terminate_agent st3)
                         | StreamRaises e \<Rightarrow> (Inr [], yield_delta (''Model error: '' @ e) (model_failed st3))
                         | StreamEnds \<Rightarrow>
                             (let st4 = add_history env (assistant_message (concat collected) calls) st3
                              in if calls \<noteq> []
                                 then (case run_tools env calls st4 of
                                         Inl (Inl e, st5) \<Rightarrow> (Inl e, st5)
                                       | Inl (Inr _, st5) \<Rightarrow> (Inr [], st5)
                                       | Inr st5 \<Rightarrow> stream_loop env n st5)
                                 else (Inr [], to_idle st4))))))"

definition orch_stream :: "'s orch_env \<Rightarrow> string \<Rightarrow> string option \<Rightarrow> 's orch \<Rightarrow> 's orch_exit" where
  "orch_stream env prompt target st =
     (case check_cancelled env st of
        (True, st1) \<Rightarrow> (Inr [], st1)
      | (False, st1) \<Rightarrow>
          (let st2 = add_history env (plain_message USER prompt) st1;
               emit = (\<lambda>out. case out of
                         (Inl e, s) \<Rightarrow> (Inl e, s)
                       | (Inr text, s) \<Rightarrow> (Inr [], if text = [] then s else yield_delta text s))
           in case target of
                Some name \<Rightarrow> emit (execute_direct_tool env name st2)
              | None \<Rightarrow> if \<not> oe_provider env then emit (no_provider st2) else stream_loop env 10 st2))"

subsection \<open>The agent's state through a run\<close>

abbreviation agent_at :: "'s orch \<Rightarrow> agent_state" where
  "agent_at st \<equiv> ag_state (or_agent st)"

lemma agent_moved_fields [simp]:
  "fst (agent_moved t st) = (if t \<in> set (agent_transitions (agent_at st)) then Inr ()
     else Inl (InvalidStateTransitionError (agent_at st) t))"
  "agent_at (snd (agent_moved t st)) = (if t \<in> set (agent_transitions (agent_at st)) then t else agent_at st)"
  "or_thinks (snd (agent_moved t st)) = or_thinks st"
  "or_yielded (snd (agent_moved t st)) = or_yielded st"
  by (simp_all add: agent_moved_def agent_transition_def)

lemma terminate_agent_fields [simp]:
  "agent_at (terminate_agent st) = TERMINATED"
  "or_thinks (terminate_agent st) = or_thinks st"
  "or_yielded (terminate_agent st) = or_yielded st"
  by (cases "agent_at st"; simp add: terminate_agent_def)+

lemma check_cancelled_cases:
  obtains st1 where "check_cancelled env st = (True, st1)" and "agent_at st1 = TERMINATED"
      and "or_thinks st1 = or_thinks st" and "or_yielded st1 = or_yielded st"
  | st1 where "check_cancelled env st = (False, st1)" and "agent_at st1 = agent_at st"
      and "or_thinks st1 = or_thinks st" and "or_yielded st1 = or_yielded st"
proof (cases "oe_token env")
  case None
  then show ?thesis using that(2) by (simp add: check_cancelled_def)
next
  case (Some f)
  then show ?thesis using that by (cases "f (or_checks st)") (simp_all add: check_cancelled_def)
qed

lemma add_history_fields [simp]:
  "agent_at (add_history env m st) = agent_at st"
  "or_thinks (add_history env m st) = or_thinks st"
  "or_yielded (add_history env m st) = or_yielded st"
  by (simp_all add: add_history_def)

lemma yield_delta_fields [simp]:
  "agent_at (yield_delta d st) = agent_at st" "or_thinks (yield_delta d st) = or_thinks st"
  "or_yielded (yield_delta d st) = or_yielded st @ [d]"
  by (simp_all add: yield_delta_def)

lemma model_failed_fields [simp]:
  "agent_at (model_failed st) = (if agent_at st = THINKING then ERROR else agent_at st)"
  "or_thinks (model_failed st) = or_thinks st" "or_yielded (model_failed st) = or_yielded st"
  by (simp_all add: model_failed_def)

lemma to_idle_fields [simp]:
  "agent_at (to_idle st) = (if agent_at st = THINKING then IDLE else agent_at st)"
  "or_thinks (to_idle st) = or_thinks st" "or_yielded (to_idle st) = or_yielded st"
  by (simp_all add: to_idle_def)

lemma begin_step_thinking:
  assumes "agent_at st \<in> {IDLE, THINKING}"
  obtains st' where "begin_step st = (Inr (), st')" and "agent_at st' = THINKING"
    and "or_thinks st' = or_thinks st" and "or_yielded st' = or_yielded st"
proof (cases "agent_at st = THINKING")
  case True
  then show ?thesis using that [of st] by (simp add: begin_step_def)
next
  case False
  with assms have idle: "agent_at st = IDLE" by simp
  have "agent_moved THINKING st = (Inr (), snd (agent_moved THINKING st))"
    using idle by (simp add: prod_eq_iff)
  with idle show ?thesis using that [of "snd (agent_moved THINKING st)"] by (simp add: begin_step_def)
qed

lemma orch_tool_cases:
  assumes "agent_at st \<notin> {ERROR, TERMINATED}"
  obtains st' where "orch_tool env name ps cid st = (Inl AgentCancelled, st')" and "agent_at st' = TERMINATED"
      and "or_thinks st' = or_thinks st" and "or_yielded st' = or_yielded st"
  | r st' where "orch_tool env name ps cid st = (Inr r, st')" and "agent_at st' = THINKING"
      and "or_thinks st' = or_thinks st" and "or_yielded st' = or_yielded st"
  by (rule agent_execute_cases [of "oe_agent env" name ps None cid "oe_elapsed env (or_calls st)"
        "oe_outcome env (or_calls st)" "or_agent st" "or_hook st"])
    (use that assms in \<open>auto simp: orch_tool_def Let_def\<close>)

text \<open>A settled exit: the agent is at rest, and only a cancellation is raised.\<close>

definition at_rest :: "'s orch_exit \<Rightarrow> bool" where
  "at_rest out \<longleftrightarrow>
     (case fst out of
        Inl e \<Rightarrow> e = AgentCancelled \<and> agent_at (snd out) = TERMINATED
      | Inr _ \<Rightarrow> agent_at (snd out) \<in> {IDLE, ERROR, TERMINATED})"

lemma run_tools_cases:
  assumes "agent_at st = THINKING"
  shows "case run_tools env calls st of
           Inl out \<Rightarrow> at_rest out \<and> or_thinks (snd out) = or_thinks st \<and> or_yielded (snd out) = or_yielded st
         | Inr st' \<Rightarrow> agent_at st' = THINKING \<and> or_thinks st' = or_thinks st \<and> or_yielded st' = or_yielded st"
  using assms
proof (induction calls arbitrary: st)
  case (Cons c cs)
  show ?case
  proof (cases rule: check_cancelled_cases [of env st])
    case (1 st1)
    then show ?thesis by (simp add: at_rest_def)
  next
    case (2 st1)
    then have "agent_at st1 \<notin> {ERROR, TERMINATED}" using Cons.prems by simp
    then show ?thesis
    proof (cases rule: orch_tool_cases [of st1 env "call_name c" "DictParams (call_arguments c)" "call_id c"])
      case (1 st2)
      with 2 show ?thesis by (simp add: at_rest_def)
    next
      case (2 r st2)
      with \<open>check_cancelled env st = (False, st1)\<close> Cons.IH [of st2]
        \<open>or_thinks st1 = or_thinks st\<close> \<open>or_yielded st1 = or_yielded st\<close>
      show ?thesis by (auto split: sum.splits)
    qed
  qed
qed simp

lemma steps_exceeded_rest:
  "agent_at st = THINKING \<Longrightarrow> at_rest (steps_exceeded text st) \<and> or_thinks (snd (steps_exceeded text st)) = or_thinks st"
  by (simp add: steps_exceeded_def at_rest_def agent_moved_def agent_transition_def)

lemma agent_loop_rest:
  assumes "agent_at st = THINKING \<or> agent_at st = IDLE \<and> 0 < n"
  shows "at_rest (agent_loop env n st) \<and> or_thinks (snd (agent_loop env n st)) \<le> or_thinks st + n"
  using assms
proof (induction n arbitrary: st)
  case 0
  then show ?case by (simp add: steps_exceeded_rest)
next
  case (Suc n)
  show ?case
  proof (cases rule: check_cancelled_cases [of env st])
    case (1 st1)
    then show ?thesis by (simp add: at_rest_def)
  next
    case (2 st1)
    with Suc.prems have "agent_at st1 \<in> {IDLE, THINKING}" by auto
    then obtain st2 where st2: "begin_step st1 = (Inr (), st2)" "agent_at st2 = THINKING" "or_thinks st2 = or_thinks st1"
      by (rule begin_step_thinking)
    let ?st3 = "st2\<lparr>or_thinks := or_thinks st2 + 1\<rparr>"
    show ?thesis
    proof (cases "oe_think env (or_thinks st2) (messages (ag_history (or_agent st2)))")
      case ThinkCancelled
      with 2 st2 show ?thesis by (simp add: at_rest_def)
    next
      case (ThinkRaises e)
      with 2 st2 show ?thesis by (simp add: at_rest_def)
    next
      case (ThinkReturns answer calls)
      let ?st4 = "add_history env (assistant_message answer calls) ?st3"
      show ?thesis
      proof (cases "calls = []")
        case True
        with ThinkReturns 2 st2 show ?thesis by (simp add: at_rest_def)
      next
        case False
        have st4: "agent_at ?st4 = THINKING" using st2 by simp
        show ?thesis
        proof (cases "run_tools env calls ?st4")
          case (Inl out)
          with run_tools_cases [OF st4, of env calls] ThinkReturns False 2 st2
          show ?thesis by simp
        next
          case (Inr st5)
          with run_tools_cases [OF st4, of env calls] have "agent_at st5 = THINKING" "or_thinks st5 = or_thinks st + 1"
            using 2 st2 by simp_all
          with Suc.IH [of st5] Inr ThinkReturns False 2 st2 show ?thesis by simp
        qed
      qed
    qed
  qed
qed

text \<open>What is collected of a model answer is what has been yielded of it.\<close>

lemma consume_cases:
  assumes "agent_at st = THINKING" and "consume env cs collected calls st = (halted, collected', calls', st')"
    and "or_yielded st = before @ collected"
  shows "agent_at st' = (if halted then TERMINATED else THINKING) \<and> or_thinks st' = or_thinks st \<and>
         or_yielded st' = before @ collected'"
  using assms
proof (induction cs arbitrary: collected calls st)
  case (Cons c cs)
  show ?case
  proof (cases rule: check_cancelled_cases [of env st])
    case (1 st1)
    with Cons.prems show ?thesis by (auto split: if_splits)
  next
    case (2 st1)
    let ?calls = "case chunk_call c of None \<Rightarrow> calls | Some t \<Rightarrow> calls @ [t]"
    show ?thesis
    proof (cases "chunk_content c = []")
      case True
      with Cons.prems 2 have "consume env cs collected ?calls st1 = (halted, collected', calls', st')" by simp
      from Cons.IH [OF _ this] Cons.prems 2 show ?thesis by simp
    next
      case False
      with Cons.prems 2 have "consume env cs (collected @ [chunk_content c]) ?calls (yield_delta (chunk_content c) st1) =
          (halted, collected', calls', st')" by simp
      from Cons.IH [OF _ this] Cons.prems 2 show ?thesis by simp
    qed
  qed
qed auto

lemma stream_loop_rest:
  assumes "agent_at st = THINKING \<or> agent_at st = IDLE \<and> 0 < n"
  shows "at_rest (stream_loop env n st) \<and> or_thinks (snd (stream_loop env n st)) \<le> or_thinks st + n"
  using assms
proof (induction n arbitrary: st)
  case 0
  then show ?case by (simp add: steps_exceeded_rest)
next
  case (Suc n)
  show ?case
  proof (cases rule: check_cancelled_cases [of env st])
    case (1 st1)
    then show ?thesis by (simp add: at_rest_def)
  next
    case (2 st1)
    with Suc.prems have "agent_at st1 \<in> {IDLE, THINKING}" by auto
    then obtain st2 where st2: "begin_step st1 = (Inr (), st2)" "agent_at st2 = THINKING" "or_thinks st2 = or_thinks st1"
      by (rule begin_step_thinking)
    obtain chunks ending where stream: "oe_stream env (or_thinks st2) (messages (ag_history (or_agent st2))) = (chunks, ending)"
      by fastforce
    obtain halted collected calls st3 where
      run: "consume env chunks [] [] (st2\<lparr>or_thinks := or_thinks st2 + 1\<rparr>) = (halted, collected, calls, st3)"
      using prod_cases4 by blast
    have st3: "agent_at st3 = (if halted then TERMINATED else THINKING)" "or_thinks st3 = or_thinks st + 1"
      using consume_cases [OF _ run] st2 2 by simp_all
    show ?thesis
    proof (cases "halted \<or> ending \<noteq> StreamEnds \<or> calls = []")
      case True
      then show ?thesis
        using 2 st2 stream run st3 by (cases halted; cases ending) (auto simp: at_rest_def)
    next
      case False
      let ?st4 = "add_history env (assistant_message (concat collected) calls) st3"
      have st4: "agent_at ?st4 = THINKING" using False st3 by simp
      show ?thesis
      proof (cases "run_tools env calls ?st4")
        case (Inl out)
        obtain r st5 where "out = (r, st5)" by fastforce
        with Inl run_tools_cases [OF st4, of env calls] False 2 st2 stream run st3
        show ?thesis by (cases r) (simp_all add: at_rest_def)
      next
        case (Inr st5)
        with run_tools_cases [OF st4, of env calls] have "agent_at st5 = THINKING" "or_thinks st5 = or_thinks st + 1"
          using st3 by simp_all
        with Suc.IH [of st5] Inr False 2 st2 stream run st3 show ?thesis by simp
      qed
    qed
  qed
qed

lemma execute_direct_tool_rest:
  assumes "agent_at st = IDLE"
  shows "at_rest (execute_direct_tool env name st) \<and> or_thinks (snd (execute_direct_tool env name st)) = or_thinks st"
proof -
  let ?st0 = "snd (agent_moved THINKING st)"
  have "agent_at ?st0 \<notin> {ERROR, TERMINATED}" using assms by simp
  then show ?thesis
    by (rule orch_tool_cases [of ?st0 env name NoParams None])
      (use assms in \<open>auto simp: execute_direct_tool_def at_rest_def Let_def\<close>)
qed

lemma no_provider_rest:
  "agent_at st = IDLE \<Longrightarrow> at_rest (no_provider st) \<and> or_thinks (snd (no_provider st)) = or_thinks st"
  by (simp add: no_provider_def at_rest_def agent_moved_def agent_transition_def Let_def)

subsection \<open>Properties of the orchestrator\<close>

definition demo_orch_env :: "(nat \<Rightarrow> think_outcome) \<Rightarrow> console orch_env" where
  "demo_orch_env think = \<lparr>oe_agent = demo_agent_env, oe_token = None, oe_provider = True,
     oe_think = (\<lambda>i _. think i), oe_stream = (\<lambda>_ _. ([\<lparr>chunk_content = ''hi'', chunk_call = None\<rparr>], StreamEnds)),
     oe_outcome = (\<lambda>_ _ _. HandlerReturns (PlainData (PStr ''done''))), oe_elapsed = (\<lambda>_. 1)\<rparr>"

definition demo_orch :: "agent_state \<Rightarrow> console orch" where
  "demo_orch s = \<lparr>or_agent = (new_agent [])\<lparr>ag_state := s\<rparr>, or_hook = demo_console, or_checks = 0, or_calls = 0,
     or_thinks = 0, or_yielded = []\<rparr>"

text \<open>C20: A run of an idle agent settles: whatever the model, the tools and the token do, it makes at most
  the permitted number of model calls, never raises anything but the cancellation, and leaves the
  agent idle, in ERROR or TERMINATED, never thinking, acting or waiting.\<close>

theorem run_settles:
  assumes "ag_state (or_agent st) = IDLE" and "0 < max_steps"
  shows "case orch_run env prompt target max_steps st of
           (Inr answer, st') \<Rightarrow> ag_state (or_agent st') \<in> {IDLE, ERROR, TERMINATED} \<and>
             or_thinks st' \<le> or_thinks st + max_steps
         | (Inl e, st') \<Rightarrow> e = AgentCancelled \<and> ag_state (or_agent st') = TERMINATED \<and>
             or_thinks st' \<le> or_thinks st + max_steps"
proof -
  have "at_rest (orch_run env prompt target max_steps st) \<and>
      or_thinks (snd (orch_run env prompt target max_steps st)) \<le> or_thinks st + max_steps"
  proof (cases rule: check_cancelled_cases [of env st])
    case (1 st1)
    then show ?thesis by (simp add: orch_run_def at_rest_def)
  next
    case (2 st1)
    let ?st2 = "add_history env (plain_message USER prompt) st1"
    have idle: "agent_at ?st2 = IDLE" using 2 assms(1) by simp
    show ?thesis
    proof (cases target)
      case None
      with 2 idle assms(2) agent_loop_rest [of ?st2 max_steps env] no_provider_rest [OF idle]
      show ?thesis by (simp add: orch_run_def Let_def)
    next
      case (Some name)
      with 2 execute_direct_tool_rest [OF idle, of env name] show ?thesis by (simp add: orch_run_def Let_def)
    qed
  qed
  then show ?thesis by (auto simp: at_rest_def split: prod.split sum.split)
qed

lemma run_settles_witness:
  "or_thinks (snd (orch_run (demo_orch_env (\<lambda>_. ThinkReturns ''ok'' [])) ''hi'' None 3 (demo_orch IDLE))) \<le> 3"
proof -
  have "ag_state (or_agent (demo_orch IDLE)) = IDLE" "0 < (3 :: nat)" by (simp_all add: demo_orch_def)
  from run_settles [OF this, of "demo_orch_env (\<lambda>_. ThinkReturns ''ok'' [])" "''hi''" None]
  show ?thesis by (simp add: demo_orch_def split: prod.splits sum.splits)
qed

text \<open>The streaming path settles in the same way: at most ten model calls, only the cancellation is
  raised, and the agent ends idle, in ERROR or TERMINATED.\<close>

theorem stream_settles:
  assumes "ag_state (or_agent st) = IDLE"
  shows "case orch_stream env prompt target st of
           (Inr _, st') \<Rightarrow> ag_state (or_agent st') \<in> {IDLE, ERROR, TERMINATED} \<and> or_thinks st' \<le> or_thinks st + 10
         | (Inl e, st') \<Rightarrow> e = AgentCancelled \<and> ag_state (or_agent st') = TERMINATED \<and>
             or_thinks st' \<le> or_thinks st + 10"
proof -
  have "at_rest (orch_stream env prompt target st) \<and>
      or_thinks (snd (orch_stream env prompt target st)) \<le> or_thinks st + 10"
  proof (cases rule: check_cancelled_cases [of env st])
    case (1 st1)
    then show ?thesis by (simp add: orch_stream_def at_rest_def)
  next
    case (2 st1)
    let ?st2 = "add_history env (plain_message USER prompt) st1"
    have idle: "agent_at ?st2 = IDLE" using 2 assms(1) by simp
    show ?thesis
    proof (cases target)
      case None
      with 2 idle stream_loop_rest [of ?st2 10 env] no_provider_rest [OF idle]
      show ?thesis by (auto simp: orch_stream_def Let_def at_rest_def split: prod.split sum.split)
    next
      case (Some name)
      with 2 execute_direct_tool_rest [OF idle, of env name] show ?thesis
        by (auto simp: orch_stream_def Let_def at_rest_def split: prod.split sum.split)
    qed
  qed
  then show ?thesis by (auto simp: at_rest_def split: prod.split sum.split)
qed

lemma stream_settles_witness:
  "or_thinks (snd (orch_stream (demo_orch_env (\<lambda>_. ThinkReturns ''ok'' [])) ''hi'' None (demo_orch IDLE))) \<le> 10"
proof -
  have "ag_state (or_agent (demo_orch IDLE)) = IDLE" by (simp add: demo_orch_def)
  from stream_settles [OF this, of "demo_orch_env (\<lambda>_. ThinkReturns ''ok'' [])" "''hi''" None]
  show ?thesis by (simp add: demo_orch_def split: prod.splits sum.splits)
qed

text \<open>An agent left in ERROR (a model error, or the step limit) cannot be used again: every later run
  that is not cancelled at its first two checks raises an invalid transition out of ERROR and leaves the
  agent in ERROR, whichever path the router takes.\<close>

theorem error_agent_unusable:
  assumes "ag_state (or_agent st) = ERROR" and "\<not> fst (check_cancelled env st)"
    and "oe_token env = None \<or> max_steps = 0 \<or> (\<exists>f. oe_token env = Some f \<and> \<not> f (or_checks st + 1))"
  shows "\<exists>target'. fst (orch_run env prompt target max_steps st) = Inl (InvalidStateTransitionError ERROR target') \<and>
           ag_state (or_agent (snd (orch_run env prompt target max_steps st))) = ERROR"
proof -
  obtain st1 where st1: "check_cancelled env st = (False, st1)" "agent_at st1 = ERROR" "or_checks st1 = or_checks st + 1"
    using assms(1,2) by (cases "oe_token env") (auto simp: check_cancelled_def Let_def split: if_splits)
  let ?st2 = "add_history env (plain_message USER prompt) st1"
  have err: "agent_at ?st2 = ERROR" "or_checks ?st2 = or_checks st + 1"
    using st1 by (simp_all add: add_history_def)
  have moved: "agent_moved t s = (Inl (InvalidStateTransitionError ERROR t), s)"
    if "agent_at s = ERROR" "t \<in> {THINKING, ERROR}" for t and s :: "'a orch"
    using that by (auto simp: agent_moved_def agent_transition_def)
  show ?thesis
  proof (cases target)
    case (Some name)
    obtain ag hook where ag: "or_agent ?st2 = ag" "or_hook ?st2 = hook" by blast
    have "fst (orch_tool env name NoParams None ?st2) = Inl (InvalidStateTransitionError ERROR ACTING) \<and>
        agent_at (snd (orch_tool env name NoParams None ?st2)) = ERROR"
      using err(1)
      by (auto simp: orch_tool_def agent_execute_def enter_acting_def agent_transition_def Let_def)
    with Some st1 err show ?thesis
      by (auto simp: orch_run_def execute_direct_tool_def Let_def split: prod.split sum.split)
  next
    case None
    show ?thesis
    proof (cases "oe_provider env \<and> 0 < max_steps")
      case False
      with None st1 err moved [of ?st2 THINKING] moved [of ?st2 ERROR] show ?thesis
        by (auto simp: orch_run_def no_provider_def steps_exceeded_def Let_def)
    next
      case True
      then obtain n where n: "max_steps = Suc n" by (cases max_steps) auto
      obtain st3 where st3: "check_cancelled env ?st2 = (False, st3)" "agent_at st3 = ERROR"
        using assms(3) err n by (cases "oe_token env") (auto simp: check_cancelled_def Let_def)
      with None st1 True n moved [of st3 THINKING] show ?thesis
        by (simp add: orch_run_def begin_step_def Let_def)
    qed
  qed
qed

lemma error_agent_unusable_witness:
  "\<exists>t. fst (orch_run (demo_orch_env (\<lambda>_. ThinkReturns ''ok'' [])) ''again'' None 10
     (snd (orch_run (demo_orch_env (\<lambda>_. ThinkRaises ''down'')) ''hi'' None 10 (demo_orch IDLE)))) =
     Inl (InvalidStateTransitionError ERROR t)"
proof -
  let ?st = "snd (orch_run (demo_orch_env (\<lambda>_. ThinkRaises ''down'')) ''hi'' None 10 (demo_orch IDLE))"
  have "ag_state (or_agent ?st) = ERROR"
    by (simp add: demo_orch_env_def demo_orch_def orch_run_def check_cancelled_def eval_nat_numeral begin_step_def
        model_failed_def agent_moved_def agent_transition_def add_history_def new_agent_def)
  moreover have "\<not> fst (check_cancelled (demo_orch_env (\<lambda>_. ThinkReturns ''ok'' [])) ?st)"
    and "oe_token (demo_orch_env (\<lambda>_. ThinkReturns ''ok'' [])) = None"
    by (simp_all add: demo_orch_env_def check_cancelled_def)
  ultimately show ?thesis using error_agent_unusable by blast
qed

text \<open>A terminated agent is not revived, yet a later run that is not cancelled still consults the
  model and returns its answer.\<close>

lemma terminated_agent_still_thinks:
  assumes "ag_state (or_agent st) = TERMINATED" and "oe_token env = None" and "oe_provider env"
    and "\<And>i ms. oe_think env i ms = ThinkReturns answer []" and "answer \<noteq> []"
  shows "\<exists>st'. orch_run env prompt None (Suc n) st = (Inr answer, st') \<and> or_thinks st' = or_thinks st + 1 \<and>
           ag_state (or_agent st') = TERMINATED"
  using assms by (simp add: orch_run_def check_cancelled_def begin_step_def add_history_def to_idle_def Let_def)

end
