(* ===== verification/Proactive.thy ===== *)
theory Proactive
  imports Task_Executor
begin

text \<open>
  Models \<open>python/tom/schemas/proactive.py\<close> and \<open>python/tom/agents/proactive.py\<close>: quiet hours, cron
  fields and triggers, and \<open>ProactiveScheduler\<close> over the task manager and the task executor. A time
  carries what the code reads of a \<open>datetime\<close>: the instant in seconds, the calendar fields and the
  time of day in microseconds. A raised \<open>ValueError\<close> is \<open>None\<close>. A trigger is dispatched from the
  registry; the section under the dispatch lock is one step, the execution of its plan another. In a
  task's metadata the flag \<open>True\<close> and numbers are \<^const>\<open>POther\<close>.
\<close>

subsection \<open>Times and quiet hours\<close>

record datetime =
  dt_instant :: rat
  dt_year :: int
  dt_month :: int
  dt_day :: int
  dt_hour :: int
  dt_minute :: int
  dt_weekday :: int
  dt_time :: int

definition day_length :: int where
  "day_length = 86400000000"

record quiet_hours =
  qh_enabled :: bool
  qh_start :: int
  qh_end :: int

definition default_quiet_hours :: quiet_hours where
  "default_quiet_hours = \<lparr>qh_enabled = True, qh_start = 22 * 3600000000, qh_end = 8 * 3600000000\<rparr>"

definition is_quiet_hours :: "quiet_hours \<Rightarrow> int \<Rightarrow> bool" where
  "is_quiet_hours q t =
     (if \<not> qh_enabled q then False
      else if qh_end q < qh_start q then qh_start q \<le> t \<or> t < qh_end q
      else if qh_start q < qh_end q then qh_start q \<le> t \<and> t < qh_end q
      else False)"

subsection \<open>Cron fields\<close>

text \<open>\<open>int(s)\<close> on the characters a validated expression may hold.\<close>

definition digits_value :: "string \<Rightarrow> int" where
  "digits_value s = fold (\<lambda>c n. n * 10 + (of_char c - 48)) s 0"

definition parse_int :: "string \<Rightarrow> int option" where
  "parse_int s =
     (case strip s of
        [] \<Rightarrow> None
      | c # ds \<Rightarrow>
          if c = CHR ''-'' then (if ds \<noteq> [] \<and> list_all is_digit ds then Some (- digits_value ds) else None)
          else if c = CHR ''+'' then (if ds \<noteq> [] \<and> list_all is_digit ds then Some (digits_value ds) else None)
          else if list_all is_digit (c # ds) then Some (digits_value (c # ds)) else None)"

text \<open>One comma-separated part: whether it matches, or a raised error.\<close>

definition match_part :: "string \<Rightarrow> int \<Rightarrow> int \<Rightarrow> bool option" where
  "match_part part v lo =
     (if prefix ''*/'' part
      then (case parse_int (drop 2 part) of
              None \<Rightarrow> None
            | Some n \<Rightarrow> if n \<le> 0 then None else Some ((v - lo) mod n = 0))
      else if CHR ''-'' \<in> set part
        then (case split_on (CHR ''-'') part of
                [a, b] \<Rightarrow> (case (parse_int a, parse_int b) of
                             (Some x, Some y) \<Rightarrow> Some (x \<le> v \<and> v \<le> y)
                           | _ \<Rightarrow> None)
              | _ \<Rightarrow> Some False)
      else map_option (\<lambda>n. n = v) (parse_int part))"

fun match_parts :: "string list \<Rightarrow> int \<Rightarrow> int \<Rightarrow> bool option" where
  "match_parts [] v lo = Some False"
| "match_parts (p # ps) v lo =
     (if strip p = [] then match_parts ps v lo
      else case match_part (strip p) v lo of
             None \<Rightarrow> None
           | Some True \<Rightarrow> Some True
           | Some False \<Rightarrow> match_parts ps v lo)"

definition match_cron_field :: "string \<Rightarrow> int \<Rightarrow> int \<Rightarrow> bool option" where
  "match_cron_field expr v lo =
     (if strip expr = ''*'' then Some True else match_parts (split_on (CHR '','') (strip expr)) v lo)"

definition validate_cron_expression :: "string \<Rightarrow> bool" where
  "validate_cron_expression expr \<longleftrightarrow>
     length (split_ws (strip expr)) = 5 \<and>
     (\<forall>p\<in>set (split_ws (strip expr)). p = ''*'' \<or>
        p \<noteq> [] \<and> list_all (\<lambda>c. is_digit c \<or> c \<in> {CHR ''*'', CHR ''/'', CHR '','', CHR ''-''}) p)"

text \<open>The fields are tested in order; the first that fails or raises decides.\<close>

fun all_fields :: "(string \<times> int \<times> int) list \<Rightarrow> bool option" where
  "all_fields [] = Some True"
| "all_fields ((expr, v, lo) # rest) =
     (case match_cron_field expr v lo of
        None \<Rightarrow> None | Some False \<Rightarrow> Some False | Some True \<Rightarrow> all_fields rest)"

definition cron_matches :: "string \<Rightarrow> datetime \<Rightarrow> bool option" where
  "cron_matches expr dt =
     (case split_ws expr of
        [minute, hour, mday, month, wday] \<Rightarrow>
          all_fields [(minute, dt_minute dt, 0), (hour, dt_hour dt, 0), (mday, dt_day dt, 1),
                      (month, dt_month dt, 1), (wday, (dt_weekday dt + 1) mod 7, 0)]
      | _ \<Rightarrow> None)"

subsection \<open>Triggers\<close>

datatype trigger_kind = Cron string | Interval rat | SystemEvent string rat

record trigger =
  trigger_id :: string
  tg_name :: string
  tg_goal :: string
  tg_plan :: "plan_step list option"
  urgent_health :: bool
  tg_enabled :: bool
  last_run :: "datetime option"
  tg_kind :: trigger_kind

definition same_minute :: "datetime \<Rightarrow> datetime \<Rightarrow> bool" where
  "same_minute a b \<longleftrightarrow> dt_year a = dt_year b \<and> dt_month a = dt_month b \<and> dt_day a = dt_day b \<and>
     dt_hour a = dt_hour b \<and> dt_minute a = dt_minute b"

definition elapsed_since :: "datetime option \<Rightarrow> datetime \<Rightarrow> rat \<Rightarrow> bool" where
  "elapsed_since earlier dt s = (case earlier of None \<Rightarrow> True | Some e \<Rightarrow> s \<le> dt_instant dt - dt_instant e)"

definition is_due :: "trigger \<Rightarrow> datetime \<Rightarrow> bool option" where
  "is_due tg dt =
     (if \<not> tg_enabled tg then Some False
      else case tg_kind tg of
             Cron expr \<Rightarrow>
               (case cron_matches expr dt of
                  None \<Rightarrow> None
                | Some False \<Rightarrow> Some False
                | Some True \<Rightarrow> Some (case last_run tg of None \<Rightarrow> True | Some e \<Rightarrow> \<not> same_minute e dt))
           | Interval s \<Rightarrow> Some (elapsed_since (last_run tg) dt s)
           | SystemEvent _ s \<Rightarrow> Some (elapsed_since (last_run tg) dt s))"

subsection \<open>The scheduler\<close>

text \<open>\<open>sch_active\<close> is the task whose token is the active proactive token.\<close>

record scheduler =
  sch_enabled :: bool
  sch_quiet :: quiet_hours
  sch_cooldown :: rat
  sch_triggers :: "(string, trigger) dict"
  sch_last :: "datetime option"
  sch_user_active :: bool
  sch_active :: "string option"
  sch_manager :: manager

definition register_trigger :: "trigger \<Rightarrow> scheduler \<Rightarrow> scheduler" where
  "register_trigger tg s = s\<lparr>sch_triggers := dict_set (trigger_id tg) tg (sch_triggers s)\<rparr>"

definition unregister_trigger :: "string \<Rightarrow> scheduler \<Rightarrow> bool \<times> scheduler" where
  "unregister_trigger k s =
     (if k \<in> set (dict_keys (sch_triggers s))
      then (True, s\<lparr>sch_triggers := dict_del k (sch_triggers s)\<rparr>) else (False, s))"

text \<open>\<open>token.cancel()\<close> sets the flag and leaves the task's state alone.\<close>

definition cancel_token :: "string \<Rightarrow> manager \<Rightarrow> manager" where
  "cancel_token tid m =
     (case get_entry tid m of Inl _ \<Rightarrow> m | Inr (t, _) \<Rightarrow> put_task tid t True m)"

definition signal_user_task_started :: "scheduler \<Rightarrow> scheduler" where
  "signal_user_task_started s =
     (let s1 = s\<lparr>sch_user_active := True\<rparr>
      in case sch_active s1 of
           None \<Rightarrow> s1
         | Some tid \<Rightarrow> s1\<lparr>sch_manager := cancel_token tid (sch_manager s1)\<rparr>)"

definition signal_user_task_ended :: "scheduler \<Rightarrow> scheduler" where
  "signal_user_task_ended s = s\<lparr>sch_user_active := False\<rparr>"

fun truthy :: "payload \<Rightarrow> bool" where
  "truthy (PStr s) = (s \<noteq> [])"
| "truthy (PDict d) = (d \<noteq> [])"
| "truthy (PSeq l) = (l \<noteq> [])"
| "truthy POther = True"

definition is_proactive :: "task \<Rightarrow> bool" where
  "is_proactive t = (case dict_get (t_metadata t) ''is_proactive'' of None \<Rightarrow> False | Some v \<Rightarrow> truthy v)"

definition is_user_active :: "scheduler \<Rightarrow> bool" where
  "is_user_active s \<longleftrightarrow> sch_user_active s \<or> list_ex (\<lambda>t. \<not> is_proactive t) (list_active (sch_manager s))"

datatype policy_reason =
    SCHEDULER_DISABLED | USER_TASK_ACTIVE | QUIET_HOURS_ACTIVE | RATE_LIMIT_COOLDOWN | TRIGGER_NOT_DUE | ALLOWED

definition evaluate_policy :: "trigger \<Rightarrow> datetime \<Rightarrow> scheduler \<Rightarrow> policy_reason option" where
  "evaluate_policy tg now s =
     (if \<not> sch_enabled s then Some SCHEDULER_DISABLED
      else if is_user_active s then Some USER_TASK_ACTIVE
      else if is_quiet_hours (sch_quiet s) (dt_time now) \<and> \<not> urgent_health tg then Some QUIET_HOURS_ACTIVE
      else if \<not> elapsed_since (sch_last s) now (sch_cooldown s) then Some RATE_LIMIT_COOLDOWN
      else case is_due tg now of
             None \<Rightarrow> None
           | Some False \<Rightarrow> Some TRIGGER_NOT_DUE
           | Some True \<Rightarrow> Some ALLOWED)"

definition proactive_metadata :: "trigger \<Rightarrow> (string \<times> payload) list" where
  "proactive_metadata tg = [(''is_proactive'', POther), (''trigger_id'', PStr (trigger_id tg)),
     (''trigger_name'', PStr (tg_name tg)), (''resource_priority'', POther)]"

text \<open>\<open>trigger.last_run = now\<close> changes the trigger object: a registered one is seen changed in the registry, and one
  that was unregistered or replaced meanwhile is not put back. Triggers are values here, so the object in the registry
  is recognised by its identifier and its fields.\<close>

definition mark_run :: "trigger \<Rightarrow> datetime \<Rightarrow> (string, trigger) dict \<Rightarrow> (string, trigger) dict" where
  "mark_run tg now trs =
     (if dict_get trs (trigger_id tg) = Some tg then dict_set (trigger_id tg) (tg\<lparr>last_run := Some now\<rparr>) trs else trs)"

text \<open>The section under the dispatch lock; \<open>tid\<close> is the identifier of the new task, which starts with
  the default limits of \<open>create\<close>. \<open>None\<close> is a raised error.\<close>

definition dispatch_begin ::
  "bool \<Rightarrow> string \<Rightarrow> rat \<Rightarrow> trigger \<Rightarrow> datetime \<Rightarrow> scheduler \<Rightarrow> task option option \<times> scheduler" where
  "dispatch_begin db tid created tg now s =
     (case evaluate_policy tg now s of
        None \<Rightarrow> (None, s)
      | Some ALLOWED \<Rightarrow>
          (let s1 = s\<lparr>sch_last := Some now,
                      sch_triggers := mark_run tg now (sch_triggers s)\<rparr>
           in case create_task db tid created (tg_goal tg) 15 300 (proactive_metadata tg) (sch_manager s1) of
                (Inl _, m) \<Rightarrow> (None, s1\<lparr>sch_manager := m\<rparr>)
              | (Inr t, m) \<Rightarrow> (Some (Some t), s1\<lparr>sch_manager := m, sch_active := Some tid\<rparr>))
      | Some _ \<Rightarrow> (Some None, s))"

text \<open>The rest of a dispatch: the plan's execution, if there is an executor and a plan, and the release
  of the active token.\<close>

datatype dispatched = Executed task_result | Created task

definition release_active :: "string \<Rightarrow> scheduler \<Rightarrow> scheduler" where
  "release_active tid s = (if sch_active s = Some tid then s\<lparr>sch_active := None\<rparr> else s)"

definition dispatch_run ::
  "('s te_env \<times> detector \<times> 's) option \<Rightarrow> trigger \<Rightarrow> task \<Rightarrow> scheduler \<Rightarrow>
   (te_error + dispatched) \<times> scheduler" where
  "dispatch_run ex tg t s =
     (case (ex, tg_plan tg) of
        (Some (env, det, hook), Some steps) \<Rightarrow>
          (let (r, st) = execute_plan env (tg_goal tg) steps (Some (task_id t)) [] (sch_manager s) det hook
           in (map_sum id Executed r, release_active (task_id t) (s\<lparr>sch_manager := ts_manager st\<rparr>)))
      | _ \<Rightarrow> (Inr (Created t), release_active (task_id t) s))"

text \<open>Which registered triggers \<open>tick\<close> and \<open>handle_system_event\<close> try, in order.\<close>

definition tick_triggers :: "scheduler \<Rightarrow> trigger list" where
  "tick_triggers s = filter (\<lambda>tg. case tg_kind tg of SystemEvent _ _ \<Rightarrow> False | _ \<Rightarrow> True) (dict_values (sch_triggers s))"

definition event_trigger :: "string \<Rightarrow> scheduler \<Rightarrow> trigger option" where
  "event_trigger name s =
     find (\<lambda>tg. case tg_kind tg of SystemEvent n _ \<Rightarrow> n = name | _ \<Rightarrow> False) (dict_values (sch_triggers s))"

text \<open>The loop of \<open>tick\<close> up to its first dispatch.\<close>

fun tick_loop ::
  "bool \<Rightarrow> string \<Rightarrow> rat \<Rightarrow> datetime \<Rightarrow> trigger list \<Rightarrow> scheduler \<Rightarrow> (trigger \<times> task) option option \<times> scheduler"
  where
  "tick_loop db tid created now [] s = (Some None, s)"
| "tick_loop db tid created now (tg # tgs) s =
     (case dispatch_begin db tid created tg now s of
        (None, s1) \<Rightarrow> (None, s1)
      | (Some (Some t), s1) \<Rightarrow> (Some (Some (tg, t)), s1)
      | (Some None, s1) \<Rightarrow> tick_loop db tid created now tgs s1)"

subsection \<open>One dispatch\<close>

definition tick :: "bool \<Rightarrow> string \<Rightarrow> rat \<Rightarrow> datetime \<Rightarrow> scheduler \<Rightarrow> (trigger \<times> task) option option \<times> scheduler" where
  "tick db tid created now s = tick_loop db tid created now (tick_triggers s) s"

definition handle_system_event ::
  "bool \<Rightarrow> string \<Rightarrow> rat \<Rightarrow> string \<Rightarrow> datetime \<Rightarrow> scheduler \<Rightarrow> task option option \<times> scheduler" where
  "handle_system_event db tid created name now s =
     (case event_trigger name s of
        None \<Rightarrow> (Some None, s)
      | Some tg \<Rightarrow> dispatch_begin db tid created tg now s)"

lemma evaluate_policy_ALLOWED:
  "evaluate_policy tg now s = Some ALLOWED \<longleftrightarrow>
     sch_enabled s \<and> \<not> is_user_active s \<and> (is_quiet_hours (sch_quiet s) (dt_time now) \<longrightarrow> urgent_health tg) \<and>
     elapsed_since (sch_last s) now (sch_cooldown s) \<and> is_due tg now = Some True"
  by (auto simp: evaluate_policy_def split: option.splits bool.splits)

definition proactive_task :: "string \<Rightarrow> rat \<Rightarrow> trigger \<Rightarrow> task" where
  "proactive_task tid created tg = \<lparr>task_id = tid, goal = tg_goal tg, t_state = CREATED, created_at = created,
     updated_at = created, max_steps = 15, timeout_seconds = 300, current_step_index = 0, replan_count = 0,
     t_error = None, t_metadata = proactive_metadata tg\<rparr>"

lemma dispatch_begin_cases:
  obtains "evaluate_policy tg now s \<noteq> Some ALLOWED"
      and "dispatch_begin db tid created tg now s =
             (if evaluate_policy tg now s = None then None else Some None, s)"
  | "evaluate_policy tg now s = Some ALLOWED" and "tg_goal tg = []"
      and "dispatch_begin db tid created tg now s = (None, s\<lparr>sch_last := Some now,
             sch_triggers := mark_run tg now (sch_triggers s)\<rparr>)"
  | m where "evaluate_policy tg now s = Some ALLOWED" and "tg_goal tg \<noteq> []"
      and "m = persist_task db (proactive_task tid created tg)
             (put_task tid (proactive_task tid created tg) False (sch_manager s))"
      and "dispatch_begin db tid created tg now s = (Some (Some (proactive_task tid created tg)),
             s\<lparr>sch_last := Some now, sch_triggers := mark_run tg now (sch_triggers s),
               sch_manager := m, sch_active := Some tid\<rparr>)"
proof (cases "evaluate_policy tg now s")
  case None
  then show ?thesis using that(1) by (simp add: dispatch_begin_def)
next
  case (Some r)
  show ?thesis
  proof (cases "r = ALLOWED")
    case False
    with Some show ?thesis using that(1) by (cases r) (simp_all add: dispatch_begin_def)
  next
    case True
    show ?thesis
    proof (cases "tg_goal tg = []")
      case True
      with Some \<open>r = ALLOWED\<close> show ?thesis
        using that(2) by (simp add: dispatch_begin_def create_task_def valid_task_def Let_def)
    next
      case False
      with Some \<open>r = ALLOWED\<close> show ?thesis
        using that(3) by (simp add: dispatch_begin_def create_task_def valid_task_def proactive_task_def Let_def)
    qed
  qed
qed

lemma dispatch_begin_settings [simp]:
  "sch_cooldown (snd (dispatch_begin db tid created tg now s)) = sch_cooldown s"
  by (cases rule: dispatch_begin_cases [of tg now s db tid created]) auto

subsection \<open>Runs of the scheduler\<close>

text \<open>Every operation, with the times at which a task was dispatched.\<close>

inductive sch_trace :: "scheduler \<Rightarrow> datetime list \<Rightarrow> scheduler \<Rightarrow> bool" for s0 where
  start: "sch_trace s0 [] s0"
| dispatched: "sch_trace s0 ds s \<Longrightarrow> dispatch_begin db tid created tg now s = (Some (Some t), s') \<Longrightarrow>
    sch_trace s0 (ds @ [now]) s'"
| refused: "sch_trace s0 ds s \<Longrightarrow> dispatch_begin db tid created tg now s = (r, s') \<Longrightarrow> r = None \<or> r = Some None \<Longrightarrow>
    sch_trace s0 ds s'"
| finished: "sch_trace s0 ds s \<Longrightarrow> sch_trace s0 ds (release_active tid (s\<lparr>sch_manager := m\<rparr>))"
| registered: "sch_trace s0 ds s \<Longrightarrow> sch_trace s0 ds (register_trigger tg s)"
| unregistered: "sch_trace s0 ds s \<Longrightarrow> sch_trace s0 ds (snd (unregister_trigger k s))"
| user_started: "sch_trace s0 ds s \<Longrightarrow> sch_trace s0 ds (signal_user_task_started s)"
| user_ended: "sch_trace s0 ds s \<Longrightarrow> sch_trace s0 ds (signal_user_task_ended s)"

lemma operations_keep_clock [simp]:
  "sch_last (release_active tid s) = sch_last s" "sch_cooldown (release_active tid s) = sch_cooldown s"
  "sch_last (register_trigger tg s) = sch_last s" "sch_cooldown (register_trigger tg s) = sch_cooldown s"
  "sch_last (snd (unregister_trigger k s)) = sch_last s" "sch_cooldown (snd (unregister_trigger k s)) = sch_cooldown s"
  "sch_last (signal_user_task_started s) = sch_last s" "sch_cooldown (signal_user_task_started s) = sch_cooldown s"
  "sch_last (signal_user_task_ended s) = sch_last s" "sch_cooldown (signal_user_task_ended s) = sch_cooldown s"
  by (auto simp: release_active_def register_trigger_def unregister_trigger_def signal_user_task_started_def
      signal_user_task_ended_def Let_def split: option.splits)

text \<open>A dispatch, successful or not, moves the last dispatch time forward by at least the cooldown.\<close>

lemma dispatch_begin_last:
  assumes "dispatch_begin db tid created tg now s = (r, s')"
  shows "sch_last s' = sch_last s \<and> (r = None \<or> r = Some None) \<or>
         sch_last s' = Some now \<and> elapsed_since (sch_last s) now (sch_cooldown s)"
proof (cases rule: dispatch_begin_cases [of tg now s db tid created])
  case 1
  with assms show ?thesis by (auto split: if_splits)
next
  case 2
  with assms show ?thesis by (auto simp: evaluate_policy_ALLOWED)
next
  case (3 m)
  with assms show ?thesis by (auto simp: evaluate_policy_ALLOWED)
qed

definition spaced :: "scheduler \<Rightarrow> datetime list \<Rightarrow> bool" where
  "spaced s ds \<longleftrightarrow>
     sorted_wrt (\<lambda>a b. sch_cooldown s \<le> dt_instant b - dt_instant a) ds \<and>
     (\<forall>d\<in>set ds. \<exists>e. sch_last s = Some e \<and> dt_instant d \<le> dt_instant e)"

lemma spaced_cong: "sch_last s' = sch_last s \<Longrightarrow> sch_cooldown s' = sch_cooldown s \<Longrightarrow> spaced s' ds = spaced s ds"
  by (simp add: spaced_def)

lemma spaced_later:
  assumes "spaced s ds" and "sch_last s' = Some now" and "elapsed_since (sch_last s) now (sch_cooldown s)"
    and "sch_cooldown s' = sch_cooldown s" and "0 \<le> sch_cooldown s"
  shows "spaced s' ds" and "spaced s' (ds @ [now])"
proof -
  have late: "sch_cooldown s \<le> dt_instant now - dt_instant d" if "d \<in> set ds" for d
    using assms(1,3) that by (fastforce simp: spaced_def elapsed_since_def)
  then have "dt_instant d \<le> dt_instant now" if "d \<in> set ds" for d
    using that assms(5) by force
  with late assms show "spaced s' ds" and "spaced s' (ds @ [now])"
    by (auto simp: spaced_def sorted_wrt_append)
qed

lemma sch_trace_spaced:
  assumes "sch_trace s0 ds s" and "0 \<le> sch_cooldown s0"
  shows "spaced s ds \<and> sch_cooldown s = sch_cooldown s0"
  using assms
proof (induction rule: sch_trace.induct)
  case start
  show ?case by (simp add: spaced_def)
next
  case (dispatched ds s db tid created tg now t s')
  have "sch_cooldown s' = sch_cooldown s"
    using dispatch_begin_settings [of db tid created tg now s] dispatched.hyps(2) by simp
  with dispatched dispatch_begin_last [OF dispatched.hyps(2)] spaced_later(2) [of s ds s' now] show ?case by auto
next
  case (refused ds s db tid created tg now r s')
  have "sch_cooldown s' = sch_cooldown s"
    using dispatch_begin_settings [of db tid created tg now s] refused.hyps(2) by simp
  with refused dispatch_begin_last [OF refused.hyps(2)] spaced_later(1) [of s ds s' now]
    spaced_cong [of s' s ds] show ?case by auto
next
  case (finished ds s tid m)
  then show ?case
    using spaced_cong [of "release_active tid (s\<lparr>sch_manager := m\<rparr>)" s ds] by simp
qed (auto simp: spaced_def)

subsection \<open>Properties of proactive work\<close>

definition demo_time :: "rat \<Rightarrow> int \<Rightarrow> datetime" where
  "demo_time t h = \<lparr>dt_instant = t, dt_year = 2026, dt_month = 3, dt_day = 2, dt_hour = h, dt_minute = 0,
     dt_weekday = 0, dt_time = h * 3600000000\<rparr>"

definition demo_trigger :: trigger where
  "demo_trigger = \<lparr>trigger_id = ''i1'', tg_name = ''health'', tg_goal = ''Check the disk'', tg_plan = None,
     urgent_health = False, tg_enabled = True, last_run = None, tg_kind = Interval 60\<rparr>"

definition demo_scheduler :: scheduler where
  "demo_scheduler = \<lparr>sch_enabled = True, sch_quiet = default_quiet_hours, sch_cooldown = 1800,
     sch_triggers = [(''i1'', demo_trigger)], sch_last = None, sch_user_active = False, sch_active = None,
     sch_manager = empty_manager\<rparr>"

definition demo_dispatch :: "task option option \<times> scheduler" where
  "demo_dispatch = dispatch_begin True ''task_1'' 0 demo_trigger (demo_time 0 12) demo_scheduler"

lemma demo_dispatch_works: "\<exists>t. fst demo_dispatch = Some (Some t)"
proof -
  have "evaluate_policy demo_trigger (demo_time 0 12) demo_scheduler = Some ALLOWED"
    by (simp add: evaluate_policy_ALLOWED demo_scheduler_def is_user_active_def list_active_def empty_manager_def
        is_quiet_hours_def default_quiet_hours_def demo_time_def elapsed_since_def is_due_def demo_trigger_def)
  then show ?thesis
    unfolding demo_dispatch_def
    by (cases rule: dispatch_begin_cases [of demo_trigger "demo_time 0 12" demo_scheduler True "''task_1''" 0])
      (auto simp: demo_trigger_def)
qed

text \<open>C21: A proactive task is created only if the scheduler is enabled, no user interaction is signalled
  and no active task is the user's, it is not quiet hours unless the trigger is urgent, the global
  cooldown has passed and the trigger is due; the new task is in state CREATED, marked proactive,
  with an uncancelled token that is the active one.\<close>

theorem dispatch_obeys_policy:
  assumes "dispatch_begin db tid created tg now s = (Some (Some t), s')"
  shows "sch_enabled s \<and> \<not> sch_user_active s \<and>
         (\<forall>u\<in>set (list_active (sch_manager s)). is_proactive u) \<and>
         (is_quiet_hours (sch_quiet s) (dt_time now) \<longrightarrow> urgent_health tg) \<and>
         (\<forall>e. sch_last s = Some e \<longrightarrow> sch_cooldown s \<le> dt_instant now - dt_instant e) \<and>
         is_due tg now = Some True \<and>
         t_state t = CREATED \<and> is_proactive t \<and> sch_active s' = Some tid \<and>
         dict_get (tasks (sch_manager s')) tid = Some (t, False)"
proof (cases rule: dispatch_begin_cases [of tg now s db tid created])
  case 1
  with assms show ?thesis by (auto split: if_splits)
next
  case 2
  with assms show ?thesis by simp
next
  case (3 m)
  have "is_proactive (proactive_task tid created tg)"
    by (simp add: is_proactive_def proactive_task_def proactive_metadata_def)
  with 3 assms show ?thesis
    by (auto simp: evaluate_policy_ALLOWED is_user_active_def list_ex_iff elapsed_since_def proactive_task_def)
qed

lemma dispatch_obeys_policy_witness:
  "\<exists>t. fst demo_dispatch = Some (Some t) \<and> is_proactive t"
proof -
  obtain t where t: "fst demo_dispatch = Some (Some t)" using demo_dispatch_works by blast
  then have "dispatch_begin True ''task_1'' 0 demo_trigger (demo_time 0 12) demo_scheduler =
      (Some (Some t), snd demo_dispatch)"
    unfolding demo_dispatch_def by (simp add: prod_eq_iff)
  from dispatch_obeys_policy [OF this] t show ?thesis by blast
qed

text \<open>The rate limit is global: over any sequence of scheduler operations, from any state, two
  dispatches are at least the cooldown apart.\<close>

theorem dispatches_rate_limited:
  assumes "sch_trace s0 ds s" and "0 \<le> sch_cooldown s0"
  shows "sorted_wrt (\<lambda>a b. sch_cooldown s0 \<le> dt_instant b - dt_instant a) ds"
  using sch_trace_spaced [OF assms] by (auto simp: spaced_def)

lemma dispatches_rate_limited_witness:
  "\<exists>s. sch_trace demo_scheduler [demo_time 0 12] s \<and>
     sorted_wrt (\<lambda>a b. sch_cooldown demo_scheduler \<le> dt_instant b - dt_instant a) [demo_time 0 12]"
proof -
  obtain t where t: "fst demo_dispatch = Some (Some t)" using demo_dispatch_works by blast
  then have "dispatch_begin True ''task_1'' 0 demo_trigger (demo_time 0 12) demo_scheduler =
      (Some (Some t), snd demo_dispatch)"
    unfolding demo_dispatch_def by (simp add: prod_eq_iff)
  from sch_trace.dispatched [OF sch_trace.start this] have run: "sch_trace demo_scheduler [demo_time 0 12] (snd demo_dispatch)"
    by simp
  have "0 \<le> sch_cooldown demo_scheduler" by (simp add: demo_scheduler_def)
  from dispatches_rate_limited [OF run this] run show ?thesis by blast
qed

text \<open>The three branches of the quiet-hours test are one interval on the clock: a time of day is
  quiet exactly when its distance after the start, around midnight, is less than the window's
  length.\<close>

theorem quiet_hours_interval:
  assumes "0 \<le> t" and "t < day_length" and "0 \<le> qh_start q" and "qh_start q < day_length"
    and "0 \<le> qh_end q" and "qh_end q < day_length"
  shows "is_quiet_hours q t \<longleftrightarrow>
         qh_enabled q \<and> (t - qh_start q) mod day_length < (qh_end q - qh_start q) mod day_length"
proof -
  have m: "(x - y) mod day_length = (if y \<le> x then x - y else x - y + day_length)"
    if "0 \<le> x" "x < day_length" "0 \<le> y" "y < day_length" for x y
  proof (cases "y \<le> x")
    case True
    then show ?thesis using that by (simp add: mod_pos_pos_trivial)
  next
    case False
    then have "(x - y + day_length) mod day_length = x - y + day_length"
      using that by (intro mod_pos_pos_trivial) auto
    with False show ?thesis by simp
  qed
  show ?thesis
    unfolding m [OF assms(1-4)] m [OF assms(5,6,3,4)] is_quiet_hours_def
    using assms by auto
qed

lemma quiet_hours_interval_witness:
  "is_quiet_hours default_quiet_hours (23 * 3600000000) \<and> \<not> is_quiet_hours default_quiet_hours (12 * 3600000000)"
  using quiet_hours_interval [of "23 * 3600000000" default_quiet_hours]
    quiet_hours_interval [of "12 * 3600000000" default_quiet_hours]
  by (simp add: default_quiet_hours_def day_length_def)

text \<open>A user who starts to interact preempts proactive work: the running proactive task's token is
  cancelled, and until the interaction ends nothing is dispatched.\<close>

theorem user_preempts:
  assumes "sch_active s = Some tid" and "get_token tid (sch_manager s) = Inr b"
  shows "get_token tid (sch_manager (signal_user_task_started s)) = Inr True \<and>
         fst (dispatch_begin db tid' created tg now (signal_user_task_started s)) \<in> {None, Some None}"
proof -
  obtain t where t: "dict_get (tasks (sch_manager s)) tid = Some (t, b)"
    using assms(2) by (auto simp: get_token_def get_entry_def split: option.splits)
  have "get_token tid (sch_manager (signal_user_task_started s)) = Inr True"
    using assms(1) t by (simp add: signal_user_task_started_def cancel_token_def get_token_def get_entry_def Let_def)
  moreover have "sch_user_active (signal_user_task_started s)"
    by (simp add: signal_user_task_started_def Let_def split: option.split)
  then have "evaluate_policy tg now (signal_user_task_started s) \<noteq> Some ALLOWED"
    by (simp add: evaluate_policy_ALLOWED is_user_active_def)
  then have "fst (dispatch_begin db tid' created tg now (signal_user_task_started s)) \<in> {None, Some None}"
    by (cases rule: dispatch_begin_cases [of tg now "signal_user_task_started s" db tid' created]) auto
  ultimately show ?thesis by blast
qed

lemma user_preempts_witness:
  "get_token ''task_1'' (sch_manager (signal_user_task_started (snd demo_dispatch))) = Inr True"
proof -
  obtain t where t: "fst demo_dispatch = Some (Some t)" using demo_dispatch_works by blast
  have "sch_active (snd demo_dispatch) = Some ''task_1'' \<and> get_token ''task_1'' (sch_manager (snd demo_dispatch)) = Inr False"
    using t unfolding demo_dispatch_def
    by (cases rule: dispatch_begin_cases [of demo_trigger "demo_time 0 12" demo_scheduler True "''task_1''" 0])
      (auto simp: get_token_def get_entry_def split: if_splits)
  then show ?thesis using user_preempts by blast
qed

text \<open>The validation of cron expressions is too weak: it accepts \<open>5/2 * * * *\<close> and a zero step, on
  which matching raises at every tick; the exception leaves the tick loop, so no trigger registered
  after the faulty one is ever reached.\<close>

theorem valid_cron_raises:
  assumes "sch_enabled s" and "\<not> is_user_active s" and "\<not> is_quiet_hours (sch_quiet s) (dt_time now)"
    and "elapsed_since (sch_last s) now (sch_cooldown s)"
  shows "validate_cron_expression ''5/2 * * * *'' \<and> validate_cron_expression ''*/0 * * * *'' \<and>
   cron_matches ''5/2 * * * *'' now = None \<and> cron_matches ''*/0 * * * *'' now = None \<and>
   tick_loop db tid created now (demo_trigger\<lparr>tg_kind := Cron ''5/2 * * * *''\<rparr> # rest) s = (None, s)"
proof -
  have v: "validate_cron_expression ''5/2 * * * *''" "validate_cron_expression ''*/0 * * * *''"
    by code_simp+
  have f: "match_cron_field ''5/2'' v 0 = None" "match_cron_field ''*/0'' v 0 = None" for v
    by (simp_all add: match_cron_field_def strip_def lstrip_def rstrip_def is_space_def match_part_def
        parse_int_def is_digit_def digits_value_def)
  have w: "split_ws ''5/2 * * * *'' = [''5/2'', ''*'', ''*'', ''*'', ''*'']"
    "split_ws ''*/0 * * * *'' = [''*/0'', ''*'', ''*'', ''*'', ''*'']" by code_simp+
  have c: "cron_matches ''5/2 * * * *'' now = None" "cron_matches ''*/0 * * * *'' now = None" for now
    by (simp_all add: cron_matches_def w f)
  show ?thesis
    using v c assms by (auto simp: dispatch_begin_def evaluate_policy_def is_due_def demo_trigger_def)
qed

lemma valid_cron_raises_witness:
  "tick_loop True ''task_1'' 0 (demo_time 0 12) [demo_trigger\<lparr>tg_kind := Cron ''5/2 * * * *''\<rparr>, demo_trigger] demo_scheduler =
     (None, demo_scheduler)"
proof -
  have "sch_enabled demo_scheduler" "\<not> is_user_active demo_scheduler"
    "\<not> is_quiet_hours (sch_quiet demo_scheduler) (dt_time (demo_time 0 12))"
    "elapsed_since (sch_last demo_scheduler) (demo_time 0 12) (sch_cooldown demo_scheduler)"
    by (simp_all add: demo_scheduler_def is_user_active_def list_active_def empty_manager_def
        is_quiet_hours_def default_quiet_hours_def demo_time_def elapsed_since_def)
  from valid_cron_raises [OF this] show ?thesis by blast
qed

text \<open>A cron trigger fires at most once per minute.\<close>

lemma cron_fires_once_per_minute:
  "last_run tg = Some e \<Longrightarrow> same_minute e now \<Longrightarrow> tg_kind tg = Cron expr \<Longrightarrow> is_due tg now \<noteq> Some True"
  by (auto simp: is_due_def split: option.splits bool.splits if_splits)

text \<open>A tick serves: if no trigger's test raises, a tick dispatches a task exactly when the policy
  allows some registered cron or interval trigger, and then for the first of them.\<close>

theorem tick_serves:
  assumes "\<And>tg. tg \<in> set (tick_triggers s) \<Longrightarrow> evaluate_policy tg now s \<noteq> None \<and> tg_goal tg \<noteq> []"
  shows "case find (\<lambda>tg. evaluate_policy tg now s = Some ALLOWED) (tick_triggers s) of
           None \<Rightarrow> tick db tid created now s = (Some None, s)
         | Some tg \<Rightarrow> \<exists>t. fst (tick db tid created now s) = Some (Some (tg, t)) \<and>
             sch_last (snd (tick db tid created now s)) = Some now"
proof -
  have "case find (\<lambda>tg. evaluate_policy tg now s = Some ALLOWED) tgs of
           None \<Rightarrow> tick_loop db tid created now tgs s = (Some None, s)
         | Some tg \<Rightarrow> \<exists>t. fst (tick_loop db tid created now tgs s) = Some (Some (tg, t)) \<and>
             sch_last (snd (tick_loop db tid created now tgs s)) = Some now"
    if "\<And>tg. tg \<in> set tgs \<Longrightarrow> evaluate_policy tg now s \<noteq> None \<and> tg_goal tg \<noteq> []" for tgs
    using that
  proof (induction tgs)
    case (Cons tg tgs)
    show ?case
    proof (cases rule: dispatch_begin_cases [of tg now s db tid created])
      case 1
      obtain r where "evaluate_policy tg now s = Some r" using Cons.prems [of tg] by auto
      with 1 have eq: "tick_loop db tid created now (tg # tgs) s = tick_loop db tid created now tgs s" by simp
      show ?thesis unfolding eq find.simps using 1 Cons by simp
    qed (use Cons.prems [of tg] in auto)
  qed simp
  from this [OF assms] show ?thesis unfolding tick_def .
qed

lemma tick_serves_witness:
  "\<exists>t. fst (tick True ''task_1'' 0 (demo_time 0 12) demo_scheduler) = Some (Some (demo_trigger, t))"
proof -
  have tgs: "tick_triggers demo_scheduler = [demo_trigger]"
    by (simp add: tick_triggers_def demo_scheduler_def demo_trigger_def)
  have allowed: "evaluate_policy demo_trigger (demo_time 0 12) demo_scheduler = Some ALLOWED"
    by (simp add: evaluate_policy_ALLOWED demo_scheduler_def is_user_active_def list_active_def empty_manager_def
        is_quiet_hours_def default_quiet_hours_def demo_time_def elapsed_since_def is_due_def demo_trigger_def)
  have "\<And>tg. tg \<in> set (tick_triggers demo_scheduler) \<Longrightarrow>
      evaluate_policy tg (demo_time 0 12) demo_scheduler \<noteq> None \<and> tg_goal tg \<noteq> []"
    using allowed by (simp add: tgs) (simp add: demo_trigger_def)
  from tick_serves [OF this, where db = True and tid = "''task_1''" and created = 0] allowed
  show ?thesis by (auto simp: tgs)
qed

end
