(* ===== verification/Ipc_Transport.thy ===== *)
theory Ipc_Transport
  imports Tom_Prelude "HOL-Library.Word"
begin

text \<open>
  Models \<open>NamedPipeTransport\<close> of \<open>python/tom/ipc/transport.py\<close>: the connection flag, newline framing
  and its size limits. Bytes are 8-bit words. The asyncio stream is the list of bytes still to be
  read with an end-of-file flag; \<open>readline\<close> is its documented behaviour, including the buffer limit.
  Whether the operating system refuses a call or a deadline passes is an argument. Opening the pipe
  is an argument too.
\<close>

subsection \<open>Bytes and lines\<close>

type_synonym byte = "8 word"

definition newline :: byte where "newline = 10"
definition carriage_return :: byte where "carriage_return = 13"

text \<open>\<open>MAX_FRAME_BYTES\<close> is the argument \<open>mx\<close> of the framing functions, so that small limits can be
  tried; this is its value.\<close>

definition max_frame_bytes :: nat where "max_frame_bytes = 4194304"

definition is_eol :: "byte \<Rightarrow> bool" where
  "is_eol b \<longleftrightarrow> b = newline \<or> b = carriage_return"

text \<open>\<open>data.rstrip(b"\r\n")\<close>.\<close>

definition rstrip_eol :: "byte list \<Rightarrow> byte list" where
  "rstrip_eol d = rev (dropWhile is_eol (rev d))"

subsection \<open>The transport\<close>

datatype transport_error =
    NotConnected | FrameTooLarge nat | ConnectionLost | TimedOutRead | ConnectFailed

record pipe =
  p_connected :: bool
  p_open :: bool
  p_in :: "byte list"
  p_eof :: bool
  p_out :: "byte list"

definition is_connected :: "pipe \<Rightarrow> bool" where
  "is_connected p \<longleftrightarrow> p_connected p \<and> p_open p"

text \<open>\<open>stream\<close>: the bytes of the new connection, when the operating system grants one.\<close>

definition connect_pipe :: "(byte list \<times> bool) option \<Rightarrow> pipe \<Rightarrow> (transport_error + unit) \<times> pipe" where
  "connect_pipe stream p =
     (if is_connected p then (Inr (), p)
      else case stream of
             None \<Rightarrow> (Inl ConnectFailed, p)
           | Some (bytes, eof) \<Rightarrow>
               (Inr (), \<lparr>p_connected = True, p_open = True, p_in = bytes, p_eof = eof, p_out = []\<rparr>))"

definition frame_of :: "byte list \<Rightarrow> byte list" where
  "frame_of d = rstrip_eol d @ [newline]"

definition write_frame :: "nat \<Rightarrow> bool \<Rightarrow> byte list \<Rightarrow> pipe \<Rightarrow> (transport_error + unit) \<times> pipe" where
  "write_frame mx fault d p =
     (if \<not> is_connected p then (Inl NotConnected, p)
      else if mx < length d then (Inl (FrameTooLarge (length d)), p)
      else let payload = frame_of d
           in if mx + 1 < length payload then (Inl (FrameTooLarge (length payload)), p)
              else if fault then (Inl ConnectionLost, p\<lparr>p_connected := False\<rparr>)
              else (Inr (), p\<lparr>p_out := p_out p @ payload\<rparr>))"

text \<open>\<open>StreamReader.readline\<close> with the buffer limit: a line with its delimiter, a partial line at the
  end of the file, an overrun, or no answer yet.\<close>

datatype line_read = Line "byte list" "byte list" | Overrun "byte list" | Waits

definition read_line :: "nat \<Rightarrow> byte list \<Rightarrow> bool \<Rightarrow> line_read" where
  "read_line limit bs eof =
     (let (body, rest) = (takeWhile (\<lambda>b. b \<noteq> newline) bs, dropWhile (\<lambda>b. b \<noteq> newline) bs)
      in if limit < length body then Overrun (drop 1 rest)
         else case rest of
                [] \<Rightarrow> if eof then Line body [] else Waits
              | nl # after \<Rightarrow> Line (body @ [nl]) after)"

datatype read_fault = NoFault | Deadline | OsError

text \<open>\<open>read_frame\<close> after its connection check: the answer of \<open>readline\<close> may come after the flag has
  been cleared by someone else. \<open>None\<close>: the read is still waiting.\<close>

definition finish_read :: "nat \<Rightarrow> read_fault \<Rightarrow> pipe \<Rightarrow> ((transport_error + byte list) \<times> pipe) option" where
  "finish_read mx fault p =
     (case fault of
        Deadline \<Rightarrow> Some (Inl TimedOutRead, p\<lparr>p_connected := False\<rparr>)
      | OsError \<Rightarrow> Some (Inl ConnectionLost, p\<lparr>p_connected := False\<rparr>)
      | NoFault \<Rightarrow>
          (case read_line (2 * mx) (p_in p) (p_eof p) of
             Waits \<Rightarrow> None
           | Overrun rest \<Rightarrow> Some (Inl (FrameTooLarge (mx + 1)), p\<lparr>p_connected := False, p_in := rest\<rparr>)
           | Line line rest \<Rightarrow>
               (let p1 = p\<lparr>p_in := rest\<rparr>
                in if line = [] \<or> last line \<noteq> newline
                   then Some (Inl ConnectionLost, p1\<lparr>p_connected := False\<rparr>)
                   else let payload = rstrip_eol line
                        in if mx < length payload \<or> mx + 1 < length line
                           then Some (Inl (FrameTooLarge (length line)), p1)
                           else Some (Inr payload, p1))))"

definition read_frame :: "nat \<Rightarrow> read_fault \<Rightarrow> pipe \<Rightarrow> ((transport_error + byte list) \<times> pipe) option" where
  "read_frame mx fault p =
     (if \<not> is_connected p then Some (Inl NotConnected, p) else finish_read mx fault p)"

definition close_pipe :: "pipe \<Rightarrow> pipe" where
  "close_pipe p = p\<lparr>p_connected := False, p_open := False\<rparr>"

text \<open>Reading until the stream is exhausted or a read fails.\<close>

fun read_frames :: "nat \<Rightarrow> nat \<Rightarrow> pipe \<Rightarrow> byte list list \<times> pipe" where
  "read_frames mx 0 p = ([], p)"
| "read_frames mx (Suc n) p =
     (case read_frame mx NoFault p of
        Some (Inr d, p1) \<Rightarrow> (let (ds, p2) = read_frames mx n p1 in (d # ds, p2))
      | Some (Inl _, p1) \<Rightarrow> ([], p1)
      | None \<Rightarrow> ([], p))"

subsection \<open>Framing\<close>

lemma rstrip_eol_length: "length (rstrip_eol d) \<le> length d"
  using length_dropWhile_le [of is_eol "rev d"] by (simp add: rstrip_eol_def)

lemma rstrip_eol_append_newline [simp]: "rstrip_eol (d @ [newline]) = rstrip_eol d"
  by (simp add: rstrip_eol_def is_eol_def)

lemma rstrip_eol_idem [simp]: "rstrip_eol (rstrip_eol d) = rstrip_eol d"
proof -
  have "dropWhile is_eol (dropWhile is_eol xs) = dropWhile is_eol xs" for xs
    by (induction xs) auto
  then show ?thesis by (simp add: rstrip_eol_def)
qed

text \<open>A frame whose payload has no newline is read back whole, and the rest of the stream is left.\<close>

lemma read_line_frame:
  assumes "newline \<notin> set (rstrip_eol d)" and "length d \<le> limit"
  shows "read_line limit (frame_of d @ rest) eof = Line (frame_of d) rest"
proof -
  have tw: "takeWhile (\<lambda>b. b \<noteq> newline) (xs @ newline # ys) = xs"
    and dw: "dropWhile (\<lambda>b. b \<noteq> newline) (xs @ newline # ys) = newline # ys"
    if "newline \<notin> set xs" for xs ys
    using that by (induction xs) auto
  show ?thesis
    using tw [OF assms(1)] dw [OF assms(1)] rstrip_eol_length [of d] assms(2)
    by (simp add: read_line_def frame_of_def)
qed

lemma read_frame_frame:
  assumes "newline \<notin> set (rstrip_eol d)" and "length d \<le> mx" and "is_connected p"
    and "p_in p = frame_of d @ rest"
  shows "read_frame mx NoFault p = Some (Inr (rstrip_eol d), p\<lparr>p_in := rest\<rparr>)"
  using assms read_line_frame [of d "2 * mx" rest "p_eof p"] rstrip_eol_length [of d]
  by (simp add: read_frame_def finish_read_def) (simp add: frame_of_def Let_def)

subsection \<open>Properties of the framing\<close>

definition demo_pipe :: "byte list \<Rightarrow> pipe" where
  "demo_pipe bs = \<lparr>p_connected = True, p_open = True, p_in = bs, p_eof = False, p_out = []\<rparr>"

text \<open>C24: Framing round trip: any sequence of payloads within the limit, none with a newline inside,
  written by one side and read by the other arrives as the same sequence up to trailing line ends,
  and the connection stays open.\<close>

theorem frames_roundtrip:
  assumes "\<And>d. d \<in> set ds \<Longrightarrow> newline \<notin> set (rstrip_eol d) \<and> length d \<le> mx" and "is_connected w" and "is_connected r"
    and "p_out w = []" and "p_in r = p_out (fold (\<lambda>d p. snd (write_frame mx False d p)) ds w)"
  shows "read_frames mx (length ds) r = (map rstrip_eol ds, r\<lparr>p_in := []\<rparr>)"
proof -
  have wr: "is_connected p \<Longrightarrow> (\<And>d. d \<in> set ds \<Longrightarrow> length d \<le> mx) \<Longrightarrow>
      p_out (fold (\<lambda>d p. snd (write_frame mx False d p)) ds p) = p_out p @ concat (map frame_of ds)" for p
  proof (induction ds arbitrary: p)
    case (Cons d ds)
    have "length (frame_of d) \<le> mx + 1"
      using Cons.prems(2) [of d] rstrip_eol_length [of d] by (simp add: frame_of_def)
    moreover have "length d \<le> mx" using Cons.prems(2) by simp
    ultimately have "write_frame mx False d p = (Inr (), p\<lparr>p_out := p_out p @ frame_of d\<rparr>)"
      using Cons.prems(1) by (simp add: write_frame_def Let_def)
    with Cons show ?case by (simp add: is_connected_def)
  qed simp
  have rd: "is_connected p \<Longrightarrow> p_in p = concat (map frame_of ds) \<Longrightarrow>
      (\<And>d. d \<in> set ds \<Longrightarrow> newline \<notin> set (rstrip_eol d) \<and> length d \<le> mx) \<Longrightarrow>
      read_frames mx (length ds) p = (map rstrip_eol ds, p\<lparr>p_in := []\<rparr>)" for p
  proof (induction ds arbitrary: p)
    case (Cons d ds)
    have "read_frame mx NoFault p = Some (Inr (rstrip_eol d), p\<lparr>p_in := concat (map frame_of ds)\<rparr>)"
      using Cons.prems by (intro read_frame_frame) auto
    with Cons show ?case by (simp add: is_connected_def)
  qed simp
  have "p_in r = concat (map frame_of ds)" using wr [OF assms(2)] assms(1,4,5) by simp
  from rd [OF assms(3) this assms(1)] show ?thesis .
qed

lemma frames_roundtrip_witness:
  "read_frames 4 2 (demo_pipe [1, 2, 10, 3, 10]) = ([[1, 2], [3]], demo_pipe [])"
proof -
  have "read_frames 4 (length [[1, 2], [3, 13 :: byte]]) (demo_pipe [1, 2, 10, 3, 10]) =
      (map rstrip_eol [[1, 2], [3, 13 :: byte]], (demo_pipe [1, 2, 10, 3, 10])\<lparr>p_in := []\<rparr>)"
    by (rule frames_roundtrip [where w = "demo_pipe []"])
      (auto simp: demo_pipe_def is_connected_def write_frame_def frame_of_def rstrip_eol_def is_eol_def
        newline_def carriage_return_def Let_def)
  moreover have "map rstrip_eol [[1, 2], [3, 13 :: byte]] = [[1, 2], [3]]" "length [[1, 2], [3, 13 :: byte]] = 2"
      "(demo_pipe [1, 2, 10, 3, 10])\<lparr>p_in := []\<rparr> = demo_pipe []"
    by (simp_all add: demo_pipe_def rstrip_eol_def is_eol_def newline_def carriage_return_def)
  ultimately show ?thesis by metis
qed

text \<open>Whatever a peer sends, a payload that \<open>read_frame\<close> returns is within the limit and holds no
  newline; after every other answer but the oversized line and the refusal of an unconnected
  transport the connection is marked lost.\<close>

theorem read_frame_bounded:
  assumes "read_frame mx fault p = Some (res, p')"
  shows "case res of
           Inr d \<Rightarrow> length d \<le> mx \<and> newline \<notin> set d \<and> is_connected p' \<and>
             (\<exists>line. p_in p = line @ p_in p' \<and> d = rstrip_eol line \<and> length line \<le> mx + 1)
         | Inl NotConnected \<Rightarrow> \<not> is_connected p \<and> p' = p
         | Inl (FrameTooLarge n) \<Rightarrow> mx < n
         | Inl _ \<Rightarrow> \<not> is_connected p'"
proof -
  have sub: "set (rstrip_eol (xs @ [newline])) \<subseteq> set xs" for xs
  proof -
    have "set (rstrip_eol xs) \<subseteq> set xs" using set_dropWhileD [of _ is_eol "rev xs"] by (auto simp: rstrip_eol_def)
    then show ?thesis by simp
  qed
  have line: "(\<exists>body. l = body @ [newline] \<and> newline \<notin> set body \<and> bs = l @ rest) \<or> (rest = [] \<and> newline \<notin> set l)"
    if "read_line limit bs eof = Line l rest" for limit bs eof l rest
  proof (cases "dropWhile (\<lambda>b. b \<noteq> newline) bs")
    case Nil
    then have "newline \<notin> set bs" by (auto simp: dropWhile_eq_Nil_conv)
    with that Nil show ?thesis
      by (auto simp: read_line_def split: if_splits dest: set_takeWhileD)
  next
    case (Cons nl rest')
    then have "nl = newline" by (metis (mono_tags, lifting) hd_dropWhile list.distinct(1) list.sel(1))
    moreover have "newline \<notin> set (takeWhile (\<lambda>b. b \<noteq> newline) bs)" by (auto dest: set_takeWhileD)
    moreover have "bs = takeWhile (\<lambda>b. b \<noteq> newline) bs @ nl # rest'"
      using Cons takeWhile_dropWhile_id by metis
    ultimately show ?thesis using that Cons by (auto simp: read_line_def split: if_splits)
  qed
  show ?thesis
  proof (cases "is_connected p \<and> fault = NoFault")
    case False
    with assms show ?thesis by (cases fault) (auto simp: read_frame_def finish_read_def is_connected_def split: if_splits)
  next
    case True
    show ?thesis
    proof (cases "read_line (2 * mx) (p_in p) (p_eof p)")
      case Waits
      with assms True show ?thesis by (simp add: read_frame_def finish_read_def)
    next
      case (Overrun rest)
      with assms True show ?thesis by (auto simp: read_frame_def finish_read_def)
    next
      case (Line l rest)
      from line [OF this] show ?thesis
      proof
        assume "rest = [] \<and> newline \<notin> set l"
        then have "l = [] \<or> last l \<noteq> newline" using last_in_set by metis
        with assms True Line show ?thesis by (auto simp: read_frame_def finish_read_def is_connected_def Let_def)
      next
        assume "\<exists>body. l = body @ [newline] \<and> newline \<notin> set body \<and> p_in p = l @ rest"
        then obtain body where l: "l = body @ [newline]" "newline \<notin> set body" "p_in p = l @ rest" by blast
        have "newline \<notin> set (rstrip_eol l)" using sub [of body] l by blast
        with assms True Line l show ?thesis
          using rstrip_eol_length [of body]
          by (auto simp: read_frame_def finish_read_def is_connected_def Let_def split: if_splits)
      qed
    qed
  qed
qed

lemma read_frame_bounded_witness: "length (rstrip_eol [1, 2, 13, 10]) \<le> 3"
proof -
  have "read_frame 3 NoFault (demo_pipe [1, 2, 13, 10, 5]) = Some (Inr (rstrip_eol [1, 2, 13, 10]), demo_pipe [5])"
    by (simp add: read_frame_def finish_read_def demo_pipe_def is_connected_def read_line_def newline_def rstrip_eol_def is_eol_def
        carriage_return_def Let_def)
  from read_frame_bounded [OF this] show ?thesis by simp
qed

end
