(* ===== verification/Ipc_Client.thy ===== *)
theory Ipc_Client
  imports Ipc_Transport
begin

text \<open>
  Models \<open>NamedPipeIpcClient\<close> of \<open>python/tom/ipc/client.py\<close>: request correlation, the receive loop,
  reconnection and teardown. Each definition is the code between two suspension points, which the
  event loop runs without interruption; \<open>client_event\<close> lets them interleave in any order. Receive
  and reconnect tasks are numbered by their position in a list. Parsing a response and printing a
  request (JSON), the frame limit and the attempts of a burst form the record \<open>wire\<close>; what the
  operating system answers is part of the events. A read in flight takes its answer from the
  transport's present stream. Cancelling a reconnect task is immediate, because the cancelled task
  runs nothing but its return; a cancelled receive task runs its \<open>finally\<close> block later.
\<close>

subsection \<open>State\<close>

datatype conn_state = DISCONNECTED | CONNECTING | CONNECTED | RECONNECTING | CLOSED

record 'v response =
  rs_id :: string
  rs_version :: int
  rs_success :: bool
  rs_data :: "(string, 'v) dict option"
  rs_error :: "(string \<times> string) option"

record 'v wire =
  wr_parse :: "byte list \<Rightarrow> 'v response option"
  wr_encode :: "string \<Rightarrow> string \<Rightarrow> byte list"
  wr_limit :: nat
  wr_max_attempts :: nat

datatype 'v future = Waiting | Resolved "'v response" | FutureFailed | FutureCancelled

datatype 'v request_end =
    Returned "(string, 'v) dict" | RemoteFailed string string | RequestTimedOut | RequestLost
  | SendFailed transport_error | RequestCancelled

datatype 'v request_phase = Sending | Awaiting | Settled "'v request_end"

datatype loop_phase = LoopHead | Reading | Dropping | Stopping bool | LoopDone

record receiver =
  rc_phase :: loop_phase
  rc_count :: nat

datatype redial_phase = Starting | BackingOff nat | Dialing nat | Undoing nat | Exhausted | Resting | RedialDone

datatype client_call = ConnectAfterRedial | ConnectDialing | CloseAfterRedial | CloseAfterReceive nat

record 'v client =
  cl_state :: conn_state
  cl_closed :: bool
  cl_pipe :: pipe
  cl_receivers :: "receiver list"
  cl_receive :: "nat option"
  cl_redials :: "redial_phase list"
  cl_reconnect :: "nat option"
  cl_pending :: "string list"
  cl_futures :: "string \<rightharpoonup> 'v future"
  cl_requests :: "string \<rightharpoonup> 'v request_phase"
  cl_recent :: "string list"
  cl_calls :: "client_call list"

definition new_client :: "'v client" where
  "new_client =
     \<lparr>cl_state = DISCONNECTED, cl_closed = False,
      cl_pipe = \<lparr>p_connected = False, p_open = False, p_in = [], p_eof = False, p_out = []\<rparr>,
      cl_receivers = [], cl_receive = None, cl_redials = [], cl_reconnect = None, cl_pending = [],
      cl_futures = Map.empty, cl_requests = Map.empty, cl_recent = [], cl_calls = []\<rparr>"

text \<open>A task handle that is set and whose task is not done.\<close>

definition receiving :: "'v client \<Rightarrow> bool" where
  "receiving c = (case cl_receive c of None \<Rightarrow> False | Some i \<Rightarrow> rc_phase (cl_receivers c ! i) \<noteq> LoopDone)"

definition redialing :: "'v client \<Rightarrow> bool" where
  "redialing c = (case cl_reconnect c of None \<Rightarrow> False | Some j \<Rightarrow> cl_redials c ! j \<noteq> RedialDone)"

definition client_connected :: "'v client \<Rightarrow> bool" where
  "client_connected c \<longleftrightarrow>
     cl_state c = CONNECTED \<and> \<not> cl_closed c \<and> is_connected (cl_pipe c) \<and> receiving c"

definition pending_count :: "'v client \<Rightarrow> nat" where
  "pending_count c = length (cl_pending c)"

subsection \<open>Receive loop\<close>

definition fail_future :: "'v future \<Rightarrow> 'v future" where
  "fail_future f = (if f = Waiting then FutureFailed else f)"

definition fail_pending :: "'v client \<Rightarrow> 'v client" where
  "fail_pending c = c\<lparr>cl_pending := [],
     cl_futures := (\<lambda>rid. if rid \<in> set (cl_pending c) then map_option fail_future (cl_futures c rid)
                          else cl_futures c rid)\<rparr>"

definition set_phase :: "nat \<Rightarrow> loop_phase \<Rightarrow> 'v client \<Rightarrow> 'v client" where
  "set_phase i ph c = c\<lparr>cl_receivers := (cl_receivers c)[i := (cl_receivers c ! i)\<lparr>rc_phase := ph\<rparr>]\<rparr>"

definition start_receiver :: "'v client \<Rightarrow> 'v client" where
  "start_receiver c = c\<lparr>cl_receivers := cl_receivers c @ [\<lparr>rc_phase = LoopHead, rc_count = 0\<rparr>],
     cl_receive := Some (length (cl_receivers c)), cl_state := CONNECTED\<rparr>"

text \<open>The loop test: with a lost connection the loop ends without an error, and without a reconnect.\<close>

definition receive_head :: "nat \<Rightarrow> 'v client \<Rightarrow> 'v client" where
  "receive_head i c =
     (if is_connected (cl_pipe c) then set_phase i Reading c
      else set_phase i LoopDone (fail_pending c))"

definition count_response :: "nat \<Rightarrow> 'v client \<Rightarrow> 'v client" where
  "count_response i c =
     (let r = cl_receivers c ! i; n = rc_count r + 1
      in if 100 \<le> n
         then c\<lparr>cl_receivers := (cl_receivers c)[i := r\<lparr>rc_count := 0\<rparr>],
                cl_recent := filter (\<lambda>rid. rid \<in> set (cl_pending c)) (cl_recent c)\<rparr>
         else c\<lparr>cl_receivers := (cl_receivers c)[i := r\<lparr>rc_count := n\<rparr>]\<rparr>)"

definition handle_frame :: "'v wire \<Rightarrow> nat \<Rightarrow> byte list \<Rightarrow> 'v client \<Rightarrow> 'v client" where
  "handle_frame w i frame c =
     (case wr_parse w frame of
        None \<Rightarrow> c
      | Some r \<Rightarrow>
          if rs_id r \<notin> set (cl_pending c)
          then c\<lparr>cl_recent := removeAll (rs_id r) (cl_recent c)\<rparr>
          else if cl_futures c (rs_id r) \<noteq> Some Waiting then c
          else count_response i (c\<lparr>cl_futures := (cl_futures c)(rs_id r \<mapsto> Resolved r)\<rparr>))"

text \<open>The exit by an error: the \<open>finally\<close> block, then the transport is closed.\<close>

definition receive_drop :: "nat \<Rightarrow> 'v client \<Rightarrow> 'v client" where
  "receive_drop i c =
     (let c1 = fail_pending c
      in if cl_closed c then set_phase i LoopDone c1
         else set_phase i Dropping (c1\<lparr>cl_pipe := close_pipe (cl_pipe c)\<rparr>))"

definition receive_dropped :: "nat \<Rightarrow> 'v client \<Rightarrow> 'v client" where
  "receive_dropped i c =
     (let c1 = set_phase i LoopDone c
      in if cl_closed c then c1
         else c1\<lparr>cl_state := RECONNECTING, cl_redials := cl_redials c @ [Starting],
                 cl_reconnect := Some (length (cl_redials c))\<rparr>)"

definition receive_answer :: "'v wire \<Rightarrow> nat \<Rightarrow> read_fault \<Rightarrow> 'v client \<Rightarrow> 'v client option" where
  "receive_answer w i fault c =
     (case finish_read (wr_limit w) fault (cl_pipe c) of
        None \<Rightarrow> None
      | Some (Inl err, p) \<Rightarrow> Some (receive_drop i (c\<lparr>cl_pipe := p\<rparr>))
      | Some (Inr frame, p) \<Rightarrow> Some (receive_head i (handle_frame w i frame (c\<lparr>cl_pipe := p\<rparr>))))"

text \<open>A cancelled receive task: the \<open>finally\<close> block runs when the loop had started.\<close>

definition receive_stopped :: "nat \<Rightarrow> 'v client \<Rightarrow> 'v client option" where
  "receive_stopped i c =
     (case rc_phase (cl_receivers c ! i) of
        Stopping started \<Rightarrow> Some (set_phase i LoopDone (if started then fail_pending c else c))
      | _ \<Rightarrow> None)"

subsection \<open>Requests\<close>

datatype refusal = RefusedNotConnected | RefusedInvalid

definition begin_request :: "string \<Rightarrow> string \<Rightarrow> 'v client \<Rightarrow> (refusal + unit) \<times> 'v client" where
  "begin_request rid meth c =
     (if \<not> client_connected c then (Inl RefusedNotConnected, c)
      else if strip meth = '''' then (Inl RefusedInvalid, c)
      else (Inr (), c\<lparr>cl_futures := (cl_futures c)(rid \<mapsto> Waiting), cl_pending := cl_pending c @ [rid],
                     cl_requests := (cl_requests c)(rid \<mapsto> Sending)\<rparr>))"

definition settle :: "string \<Rightarrow> 'v request_end \<Rightarrow> 'v client \<Rightarrow> 'v client" where
  "settle rid e c = c\<lparr>cl_requests := (cl_requests c)(rid \<mapsto> Settled e)\<rparr>"

definition drop_pending :: "string \<Rightarrow> 'v client \<Rightarrow> 'v client" where
  "drop_pending rid c = c\<lparr>cl_pending := removeAll rid (cl_pending c)\<rparr>"

definition add_recent :: "string \<Rightarrow> 'v client \<Rightarrow> 'v client" where
  "add_recent rid c = c\<lparr>cl_recent := List.insert rid (cl_recent c)\<rparr>"

definition send_request :: "'v wire \<Rightarrow> bool \<Rightarrow> string \<Rightarrow> string \<Rightarrow> 'v client \<Rightarrow> 'v client" where
  "send_request w fault rid meth c =
     (case write_frame (wr_limit w) fault (wr_encode w rid meth) (cl_pipe c) of
        (Inl err, p) \<Rightarrow> settle rid (SendFailed err) (drop_pending rid (c\<lparr>cl_pipe := p\<rparr>))
      | (Inr _, p) \<Rightarrow> c\<lparr>cl_pipe := p, cl_requests := (cl_requests c)(rid \<mapsto> Awaiting)\<rparr>)"

definition response_end :: "'v response \<Rightarrow> 'v request_end" where
  "response_end r =
     (if rs_success r then Returned (case rs_data r of None \<Rightarrow> [] | Some d \<Rightarrow> d)
      else case rs_error r of
             None \<Rightarrow> RemoteFailed ''INTERNAL'' ''Unknown remote error''
           | Some (code, msg) \<Rightarrow> RemoteFailed code msg)"

definition finish_request :: "string \<Rightarrow> 'v client \<Rightarrow> 'v client option" where
  "finish_request rid c =
     (case cl_futures c rid of
        Some (Resolved r) \<Rightarrow> Some (settle rid (response_end r) (drop_pending rid c))
      | Some FutureFailed \<Rightarrow> Some (settle rid RequestLost (drop_pending rid c))
      | _ \<Rightarrow> None)"

definition cancel_future :: "'v future \<Rightarrow> 'v future" where
  "cancel_future f = (if f = Waiting then FutureCancelled else f)"

definition time_out_request :: "string \<Rightarrow> 'v client \<Rightarrow> 'v client" where
  "time_out_request rid c =
     settle rid RequestTimedOut (drop_pending rid (add_recent rid
       (c\<lparr>cl_futures := (cl_futures c)(rid := map_option cancel_future (cl_futures c rid))\<rparr>)))"

text \<open>Cancellation is handled while the answer is awaited, but not while the frame is written.\<close>

definition cancel_request :: "string \<Rightarrow> 'v client \<Rightarrow> 'v client option" where
  "cancel_request rid c =
     (case cl_requests c rid of
        Some Sending \<Rightarrow> Some (settle rid RequestCancelled c)
      | Some Awaiting \<Rightarrow> Some (settle rid RequestCancelled (drop_pending rid (add_recent rid c)))
      | _ \<Rightarrow> None)"

subsection \<open>Reconnection\<close>

text \<open>\<open>jitter\<close>: the uniform random factor, when jitter is enabled.\<close>

definition backoff_delay :: "rat \<Rightarrow> rat \<Rightarrow> rat option \<Rightarrow> nat \<Rightarrow> rat" where
  "backoff_delay base mx jitter attempt =
     (let raw = min mx (base * 2 ^ (attempt - 1))
      in case jitter of Some u \<Rightarrow> if 0 < raw then u * raw else raw | None \<Rightarrow> raw)"

definition set_redial :: "nat \<Rightarrow> redial_phase \<Rightarrow> 'v client \<Rightarrow> 'v client" where
  "set_redial j ph c = c\<lparr>cl_redials := (cl_redials c)[j := ph]\<rparr>"

text \<open>The head of the inner loop after \<open>attempt\<close> attempts.\<close>

definition next_attempt :: "'v wire \<Rightarrow> nat \<Rightarrow> nat \<Rightarrow> 'v client \<Rightarrow> 'v client" where
  "next_attempt w j attempt c =
     (if cl_state c = CLOSED then set_redial j RedialDone c
      else if 0 < wr_max_attempts w \<and> wr_max_attempts w < attempt + 1
      then set_redial j Exhausted (c\<lparr>cl_state := DISCONNECTED, cl_pipe := close_pipe (cl_pipe c)\<rparr>)
      else set_redial j (BackingOff (attempt + 1)) c)"

text \<open>A reconnect task resumes at a suspension point other than the connection attempt.\<close>

definition redial_resume :: "'v wire \<Rightarrow> nat \<Rightarrow> 'v client \<Rightarrow> 'v client option" where
  "redial_resume w j c =
     (case cl_redials c ! j of
        Starting \<Rightarrow> Some (next_attempt w j 0 c)
      | BackingOff a \<Rightarrow> Some (set_redial j (if cl_state c = CLOSED then RedialDone else Dialing a) c)
      | Undoing a \<Rightarrow> Some (next_attempt w j a c)
      | Exhausted \<Rightarrow> Some (set_redial j (if cl_state c = CLOSED then RedialDone else Resting) c)
      | Resting \<Rightarrow> Some (next_attempt w j 0 c)
      | Dialing _ \<Rightarrow> None
      | RedialDone \<Rightarrow> None)"

definition redial_dialed :: "nat \<Rightarrow> (byte list \<times> bool) option \<Rightarrow> 'v client \<Rightarrow> 'v client option" where
  "redial_dialed j stream c =
     (case cl_redials c ! j of
        Dialing a \<Rightarrow>
          (case connect_pipe stream (cl_pipe c) of
             (Inl _, p) \<Rightarrow> Some (set_redial j (Undoing a) (c\<lparr>cl_pipe := close_pipe p\<rparr>))
           | (Inr _, p) \<Rightarrow>
               if cl_state c = CLOSED then Some (set_redial j RedialDone (c\<lparr>cl_pipe := close_pipe p\<rparr>))
               else Some (set_redial j RedialDone (start_receiver (c\<lparr>cl_pipe := p\<rparr>))))
      | _ \<Rightarrow> None)"

subsection \<open>Connect and close\<close>

definition cancel_redial :: "'v client \<Rightarrow> 'v client" where
  "cancel_redial c = (case cl_reconnect c of None \<Rightarrow> c | Some j \<Rightarrow> set_redial j RedialDone c)"

definition connect_dial :: "'v client \<Rightarrow> 'v client" where
  "connect_dial c = c\<lparr>cl_state := CONNECTING, cl_calls := ConnectDialing # cl_calls c\<rparr>"

definition connect_begin :: "'v client \<Rightarrow> 'v client" where
  "connect_begin c =
     (if cl_state c = CONNECTED then c
      else let c1 = c\<lparr>cl_closed := False\<rparr>
           in if redialing c1
              then (cancel_redial c1)\<lparr>cl_calls := ConnectAfterRedial # cl_calls c1\<rparr>
              else connect_dial c1)"

definition connect_after_redial :: "'v client \<Rightarrow> 'v client" where
  "connect_after_redial c =
     connect_dial (c\<lparr>cl_reconnect := None, cl_calls := remove1 ConnectAfterRedial (cl_calls c)\<rparr>)"

definition connect_dialed :: "(byte list \<times> bool) option \<Rightarrow> 'v client \<Rightarrow> 'v client" where
  "connect_dialed stream c =
     (let c1 = c\<lparr>cl_calls := remove1 ConnectDialing (cl_calls c)\<rparr>
      in case connect_pipe stream (cl_pipe c) of
           (Inl _, p) \<Rightarrow> c1\<lparr>cl_pipe := p, cl_state := DISCONNECTED\<rparr>
         | (Inr _, p) \<Rightarrow> start_receiver (c1\<lparr>cl_pipe := p\<rparr>))"

definition close_drop :: "'v client \<Rightarrow> 'v client" where
  "close_drop c = (fail_pending c)\<lparr>cl_pipe := close_pipe (cl_pipe c)\<rparr>"

definition close_stop :: "'v client \<Rightarrow> 'v client" where
  "close_stop c =
     (case cl_receive c of
        None \<Rightarrow> close_drop c
      | Some i \<Rightarrow>
          if rc_phase (cl_receivers c ! i) = LoopDone then close_drop c
          else (set_phase i (Stopping (rc_phase (cl_receivers c ! i) \<in> {Reading, Stopping True})) c)
                 \<lparr>cl_calls := CloseAfterReceive i # cl_calls c\<rparr>)"

definition close_begin :: "'v client \<Rightarrow> 'v client" where
  "close_begin c =
     (if cl_closed c then c
      else let c1 = c\<lparr>cl_closed := True, cl_state := CLOSED\<rparr>
           in if redialing c1 then (cancel_redial c1)\<lparr>cl_calls := CloseAfterRedial # cl_calls c1\<rparr>
              else close_stop c1)"

definition close_after_redial :: "'v client \<Rightarrow> 'v client" where
  "close_after_redial c =
     close_stop (c\<lparr>cl_reconnect := None, cl_calls := remove1 CloseAfterRedial (cl_calls c)\<rparr>)"

definition close_after_receive :: "nat \<Rightarrow> 'v client \<Rightarrow> 'v client" where
  "close_after_receive i c =
     close_drop (c\<lparr>cl_receive := None, cl_calls := remove1 (CloseAfterReceive i) (cl_calls c)\<rparr>)"

subsection \<open>Interleaving\<close>

datatype wire_event =
    ConnectCall | ConnectResumes | ConnectAnswered "(byte list \<times> bool) option"
  | RequestCall string string | Written bool string string | Answered string | TimesOut string | Cancels string
  | ReceiverStarts nat | ReceiverReads nat read_fault | ReceiverDrops nat | ReceiverStops nat
  | RedialResumes nat | RedialAnswered nat "(byte list \<times> bool) option"
  | CloseCall | CloseResumes | CloseFinishes nat | PeerSends "byte list" bool

definition phase_of :: "'v client \<Rightarrow> nat \<Rightarrow> loop_phase" where
  "phase_of c i = (if i < length (cl_receivers c) then rc_phase (cl_receivers c ! i) else LoopDone)"

text \<open>\<open>None\<close>: the event cannot happen in this state. Request ids are fresh (\<open>uuid4\<close>).\<close>

fun client_event :: "'v wire \<Rightarrow> wire_event \<Rightarrow> 'v client \<Rightarrow> 'v client option" where
  "client_event w ConnectCall c = Some (connect_begin c)"
| "client_event w ConnectResumes c =
     (if ConnectAfterRedial \<in> set (cl_calls c) then Some (connect_after_redial c) else None)"
| "client_event w (ConnectAnswered stream) c =
     (if ConnectDialing \<in> set (cl_calls c) then Some (connect_dialed stream c) else None)"
| "client_event w (RequestCall rid meth) c =
     (if cl_requests c rid = None \<and> cl_futures c rid = None then Some (snd (begin_request rid meth c)) else None)"
| "client_event w (Written fault rid meth) c =
     (if cl_requests c rid = Some Sending then Some (send_request w fault rid meth c) else None)"
| "client_event w (Answered rid) c =
     (if cl_requests c rid = Some Awaiting then finish_request rid c else None)"
| "client_event w (TimesOut rid) c =
     (if cl_requests c rid = Some Awaiting then Some (time_out_request rid c) else None)"
| "client_event w (Cancels rid) c = cancel_request rid c"
| "client_event w (ReceiverStarts i) c = (if phase_of c i = LoopHead then Some (receive_head i c) else None)"
| "client_event w (ReceiverReads i fault) c = (if phase_of c i = Reading then receive_answer w i fault c else None)"
| "client_event w (ReceiverDrops i) c = (if phase_of c i = Dropping then Some (receive_dropped i c) else None)"
| "client_event w (ReceiverStops i) c = (if i < length (cl_receivers c) then receive_stopped i c else None)"
| "client_event w (RedialResumes j) c = (if j < length (cl_redials c) then redial_resume w j c else None)"
| "client_event w (RedialAnswered j stream) c =
     (if j < length (cl_redials c) then redial_dialed j stream c else None)"
| "client_event w CloseCall c = Some (close_begin c)"
| "client_event w CloseResumes c =
     (if CloseAfterRedial \<in> set (cl_calls c) then Some (close_after_redial c) else None)"
| "client_event w (CloseFinishes i) c =
     (if CloseAfterReceive i \<in> set (cl_calls c) \<and> phase_of c i = LoopDone then Some (close_after_receive i c) else None)"
| "client_event w (PeerSends bytes eof) c =
     (if p_open (cl_pipe c) then Some (c\<lparr>cl_pipe := (cl_pipe c)\<lparr>p_in := p_in (cl_pipe c) @ bytes, p_eof := eof\<rparr>\<rparr>)
      else None)"

fun run_events :: "'v wire \<Rightarrow> wire_event list \<Rightarrow> 'v client \<Rightarrow> 'v client option" where
  "run_events w [] c = Some c"
| "run_events w (e # es) c = (case client_event w e c of None \<Rightarrow> None | Some c' \<Rightarrow> run_events w es c')"

inductive client_reachable :: "'v wire \<Rightarrow> 'v client \<Rightarrow> bool" for w where
  created: "client_reachable w new_client"
| happens: "client_reachable w c \<Longrightarrow> client_event w e c = Some c' \<Longrightarrow> client_reachable w c'"

lemma run_events_reachable:
  "client_reachable w c \<Longrightarrow> run_events w es c = Some c' \<Longrightarrow> client_reachable w c'"
  by (induction es arbitrary: c) (auto split: option.splits intro: happens)

subsection \<open>Invariants\<close>

text \<open>Someone will still settle the futures that wait: a receive task that has not ended, or a
  \<open>close()\<close> on its way.\<close>

definition closing :: "'v client \<Rightarrow> bool" where
  "closing c \<longleftrightarrow> CloseAfterRedial \<in> set (cl_calls c) \<or> (\<exists>i. CloseAfterReceive i \<in> set (cl_calls c))"

definition listening :: "'v client \<Rightarrow> bool" where
  "listening c \<longleftrightarrow> (\<exists>i. phase_of c i \<notin> {Dropping, LoopDone})"

definition in_flight :: "'v client \<Rightarrow> string \<Rightarrow> bool" where
  "in_flight c rid \<longleftrightarrow> cl_requests c rid \<in> {Some Sending, Some Awaiting}"

definition unanswered :: "'v client \<Rightarrow> string \<Rightarrow> bool" where
  "unanswered c rid \<longleftrightarrow> in_flight c rid \<and> cl_futures c rid = Some Waiting"

definition tasks_ok :: "'v client \<Rightarrow> bool" where
  "tasks_ok c \<longleftrightarrow>
     (\<forall>i. cl_receive c = Some i \<longrightarrow> i < length (cl_receivers c) \<and> (phase_of c i = Dropping \<longrightarrow> \<not> is_connected (cl_pipe c))) \<and>
     (\<forall>j. cl_reconnect c = Some j \<longrightarrow> j < length (cl_redials c)) \<and>
     (\<forall>i b. phase_of c i = Stopping b \<longrightarrow> CloseAfterReceive i \<in> set (cl_calls c))"

definition futures_ok :: "'v client \<Rightarrow> bool" where
  "futures_ok c \<longleftrightarrow>
     (\<forall>rid. unanswered c rid \<longrightarrow> rid \<in> set (cl_pending c) \<and> (listening c \<or> closing c)) \<and>
     (\<forall>rid. in_flight c rid \<longrightarrow> cl_futures c rid \<noteq> None)"

lemmas task_defs =
  connect_begin_def connect_after_redial_def connect_dial_def connect_dialed_def cancel_redial_def set_redial_def
  begin_request_def send_request_def settle_def drop_pending_def add_recent_def finish_request_def
  time_out_request_def cancel_request_def receive_head_def receive_answer_def handle_frame_def count_response_def
  receive_drop_def receive_dropped_def receive_stopped_def set_phase_def start_receiver_def fail_pending_def
  redial_resume_def next_attempt_def redial_dialed_def close_begin_def close_stop_def close_drop_def
  close_after_redial_def close_after_receive_def

lemma phase_of_set_phase [simp]:
  "phase_of (set_phase i ph c) k = (if k = i \<and> i < length (cl_receivers c) then ph else phase_of c k)"
  by (auto simp: phase_of_def set_phase_def nth_list_update)

lemma close_pipe_disconnects [simp]: "\<not> is_connected (close_pipe p)"
  by (simp add: close_pipe_def is_connected_def)

lemma finish_read_keeps_lost:
  "finish_read mx fault p = Some (res, p') \<Longrightarrow> is_connected p' \<Longrightarrow> is_connected p"
  by (auto simp: finish_read_def is_connected_def Let_def split: read_fault.splits line_read.splits if_splits)

lemma connect_pipe_failed: "connect_pipe stream p = (Inl err, p') \<Longrightarrow> p' = p"
  by (auto simp: connect_pipe_def split: if_splits option.splits prod.splits)

lemma write_frame_keeps_lost:
  "write_frame mx fault d p = (res, p') \<Longrightarrow> is_connected p' \<Longrightarrow> is_connected p"
  by (auto simp: write_frame_def is_connected_def Let_def split: if_splits)

subsection \<open>What the small operations leave alone\<close>

lemma set_phase_fields [simp]:
  "cl_state (set_phase i ph c) = cl_state c" "cl_closed (set_phase i ph c) = cl_closed c"
  "cl_pipe (set_phase i ph c) = cl_pipe c" "cl_receive (set_phase i ph c) = cl_receive c"
  "cl_redials (set_phase i ph c) = cl_redials c" "cl_reconnect (set_phase i ph c) = cl_reconnect c"
  "cl_pending (set_phase i ph c) = cl_pending c" "cl_futures (set_phase i ph c) = cl_futures c"
  "cl_requests (set_phase i ph c) = cl_requests c" "cl_calls (set_phase i ph c) = cl_calls c"
  "length (cl_receivers (set_phase i ph c)) = length (cl_receivers c)"
  by (simp_all add: set_phase_def)

lemma fail_pending_fields [simp]:
  "cl_state (fail_pending c) = cl_state c" "cl_closed (fail_pending c) = cl_closed c"
  "cl_pipe (fail_pending c) = cl_pipe c" "cl_receive (fail_pending c) = cl_receive c"
  "cl_redials (fail_pending c) = cl_redials c" "cl_reconnect (fail_pending c) = cl_reconnect c"
  "cl_receivers (fail_pending c) = cl_receivers c" "cl_pending (fail_pending c) = []"
  "cl_requests (fail_pending c) = cl_requests c" "cl_calls (fail_pending c) = cl_calls c"
  "phase_of (fail_pending c) k = phase_of c k"
  by (simp_all add: fail_pending_def phase_of_def)

lemma phase_of_update [simp]:
  "phase_of (c\<lparr>cl_pipe := p\<rparr>) k = phase_of c k" "phase_of (c\<lparr>cl_state := s\<rparr>) k = phase_of c k"
  "phase_of (c\<lparr>cl_closed := b\<rparr>) k = phase_of c k" "phase_of (c\<lparr>cl_redials := rs\<rparr>) k = phase_of c k"
  "phase_of (c\<lparr>cl_reconnect := j\<rparr>) k = phase_of c k" "phase_of (c\<lparr>cl_calls := cs\<rparr>) k = phase_of c k"
  "phase_of (c\<lparr>cl_receive := h\<rparr>) k = phase_of c k" "phase_of (c\<lparr>cl_pending := pd\<rparr>) k = phase_of c k"
  "phase_of (c\<lparr>cl_futures := fs\<rparr>) k = phase_of c k" "phase_of (c\<lparr>cl_requests := qs\<rparr>) k = phase_of c k"
  "phase_of (c\<lparr>cl_recent := rec\<rparr>) k = phase_of c k"
  by (simp_all add: phase_of_def)

lemma phase_of_append [simp]:
  "phase_of (c\<lparr>cl_receivers := cl_receivers c @ [r]\<rparr>) k =
     (if k = length (cl_receivers c) then rc_phase r else phase_of c k)"
  by (auto simp: phase_of_def nth_append)

lemma handle_frame_fields [simp]:
  "cl_state (handle_frame w i frame c) = cl_state c" "cl_closed (handle_frame w i frame c) = cl_closed c"
  "cl_pipe (handle_frame w i frame c) = cl_pipe c" "cl_receive (handle_frame w i frame c) = cl_receive c"
  "cl_redials (handle_frame w i frame c) = cl_redials c" "cl_reconnect (handle_frame w i frame c) = cl_reconnect c"
  "cl_pending (handle_frame w i frame c) = cl_pending c" "cl_requests (handle_frame w i frame c) = cl_requests c"
  "cl_calls (handle_frame w i frame c) = cl_calls c"
  "length (cl_receivers (handle_frame w i frame c)) = length (cl_receivers c)"
  by (auto simp: handle_frame_def count_response_def Let_def split: option.splits)

lemma handle_frame_phases [simp]: "phase_of (handle_frame w i frame c) k = phase_of c k"
  by (cases "k = i")
    (auto simp: handle_frame_def count_response_def phase_of_def Let_def nth_list_update split: option.splits)

text \<open>A frame changes at most the future of its own id, from waiting to its response.\<close>

lemma handle_frame_futures:
  "cl_futures (handle_frame w i frame c) =
     (case wr_parse w frame of
        Some r \<Rightarrow> if rs_id r \<in> set (cl_pending c) \<and> cl_futures c (rs_id r) = Some Waiting
                  then (cl_futures c)(rs_id r \<mapsto> Resolved r) else cl_futures c
      | None \<Rightarrow> cl_futures c)"
  by (auto simp: handle_frame_def count_response_def Let_def split: option.splits)

lemma fail_pending_futures:
  "cl_futures (fail_pending c) rid =
     (if rid \<in> set (cl_pending c) then map_option fail_future (cl_futures c rid) else cl_futures c rid)"
  by (simp add: fail_pending_def)

lemma request_ops_fields [simp]:
  "cl_calls (settle rid e c) = cl_calls c" "cl_calls (drop_pending rid c) = cl_calls c" "cl_calls (add_recent rid c) = cl_calls c"
  "cl_receive (settle rid e c) = cl_receive c" "cl_receive (drop_pending rid c) = cl_receive c" "cl_receive (add_recent rid c) = cl_receive c"
  "cl_receivers (settle rid e c) = cl_receivers c" "cl_receivers (drop_pending rid c) = cl_receivers c" "cl_receivers (add_recent rid c) = cl_receivers c"
  "cl_redials (settle rid e c) = cl_redials c" "cl_redials (drop_pending rid c) = cl_redials c" "cl_redials (add_recent rid c) = cl_redials c"
  "cl_reconnect (settle rid e c) = cl_reconnect c" "cl_reconnect (drop_pending rid c) = cl_reconnect c" "cl_reconnect (add_recent rid c) = cl_reconnect c"
  "cl_pipe (settle rid e c) = cl_pipe c" "cl_pipe (drop_pending rid c) = cl_pipe c" "cl_pipe (add_recent rid c) = cl_pipe c"
  "cl_futures (settle rid e c) = cl_futures c" "cl_futures (drop_pending rid c) = cl_futures c" "cl_futures (add_recent rid c) = cl_futures c"
  "phase_of (settle rid e c) k = phase_of c k" "phase_of (drop_pending rid c) k = phase_of c k" "phase_of (add_recent rid c) k = phase_of c k"
  by (simp_all add: settle_def drop_pending_def add_recent_def phase_of_def)

lemma requests_of_ops [simp]:
  "cl_requests (settle rid e c) = (cl_requests c)(rid \<mapsto> Settled e)" "cl_requests (drop_pending rid c) = cl_requests c"
  "cl_requests (add_recent rid c) = cl_requests c" "cl_pending (settle rid e c) = cl_pending c"
  "cl_pending (drop_pending rid c) = removeAll rid (cl_pending c)" "cl_pending (add_recent rid c) = cl_pending c"
  by (simp_all add: settle_def drop_pending_def add_recent_def)

lemma set_redial_fields [simp]:
  "cl_pipe (set_redial j ph c) = cl_pipe c" "cl_receive (set_redial j ph c) = cl_receive c"
  "cl_receivers (set_redial j ph c) = cl_receivers c" "cl_reconnect (set_redial j ph c) = cl_reconnect c"
  "length (cl_redials (set_redial j ph c)) = length (cl_redials c)" "cl_calls (set_redial j ph c) = cl_calls c"
  "cl_pending (set_redial j ph c) = cl_pending c" "cl_futures (set_redial j ph c) = cl_futures c"
  "cl_requests (set_redial j ph c) = cl_requests c" "cl_state (set_redial j ph c) = cl_state c"
  "cl_closed (set_redial j ph c) = cl_closed c" "phase_of (set_redial j ph c) k = phase_of c k"
  by (simp_all add: set_redial_def phase_of_def)

lemma start_receiver_fields [simp]:
  "cl_pipe (start_receiver c) = cl_pipe c" "cl_receive (start_receiver c) = Some (length (cl_receivers c))"
  "length (cl_receivers (start_receiver c)) = length (cl_receivers c) + 1"
  "cl_reconnect (start_receiver c) = cl_reconnect c" "cl_redials (start_receiver c) = cl_redials c"
  "cl_calls (start_receiver c) = cl_calls c" "cl_pending (start_receiver c) = cl_pending c"
  "cl_futures (start_receiver c) = cl_futures c" "cl_requests (start_receiver c) = cl_requests c"
  "phase_of (start_receiver c) k = (if k = length (cl_receivers c) then LoopHead else phase_of c k)"
  by (simp_all add: start_receiver_def)

lemma phase_of_bound: "phase_of c i \<noteq> LoopDone \<Longrightarrow> i < length (cl_receivers c)"
  by (simp add: phase_of_def split: if_splits)

subsection \<open>The task handles\<close>

lemma tasks_ok_close_stop: "tasks_ok c \<Longrightarrow> tasks_ok (close_stop c)"
  by (auto simp: tasks_ok_def close_stop_def close_drop_def split: option.splits if_splits)

lemma tasks_ok_close_begin:
  assumes "tasks_ok c" shows "tasks_ok (close_begin c)"
proof -
  let ?c1 = "c\<lparr>cl_closed := True, cl_state := CLOSED\<rparr>"
  have "tasks_ok ?c1" using assms by (simp add: tasks_ok_def)
  from tasks_ok_close_stop [OF this] show ?thesis
    using assms unfolding close_begin_def Let_def
    by (auto simp: cancel_redial_def tasks_ok_def split: option.splits)
qed

lemma close_receive_other:
  "phase_of c k = Stopping b \<Longrightarrow> phase_of c i = LoopDone \<Longrightarrow> CloseAfterReceive k \<in> set cs \<Longrightarrow>
     CloseAfterReceive k \<in> set (remove1 (CloseAfterReceive i) cs)"
  by (subst in_set_remove1) auto

lemma tasks_ok_close_after_redial: "tasks_ok c \<Longrightarrow> tasks_ok (close_after_redial c)"
  unfolding close_after_redial_def by (rule tasks_ok_close_stop) (auto simp: tasks_ok_def)

lemma tasks_ok_client_event:
  assumes "tasks_ok c" and "client_event w e c = Some c'"
  shows "tasks_ok c'"
proof (cases e)
  case ConnectCall
  with assms show ?thesis
    by (auto simp: tasks_ok_def connect_begin_def connect_dial_def cancel_redial_def Let_def split: option.splits if_splits)
next
  case ConnectResumes
  with assms show ?thesis by (auto simp: tasks_ok_def connect_after_redial_def connect_dial_def split: if_splits)
next
  case (ConnectAnswered stream)
  with assms show ?thesis
    by (auto simp: tasks_ok_def connect_dialed_def Let_def split: prod.splits sum.splits if_splits
        dest: connect_pipe_failed)
next
  case (RequestCall rid meth)
  with assms show ?thesis by (auto simp: tasks_ok_def begin_request_def split: if_splits)
next
  case (Written fault rid meth)
  with assms show ?thesis
    by (auto simp: tasks_ok_def send_request_def split: prod.splits sum.splits if_splits dest: write_frame_keeps_lost)
next
  case (Answered rid)
  with assms show ?thesis
    by (auto simp: tasks_ok_def finish_request_def split: option.splits if_splits future.splits)
next
  case (TimesOut rid)
  with assms show ?thesis by (auto simp: tasks_ok_def time_out_request_def split: if_splits)
next
  case (Cancels rid)
  with assms show ?thesis
    by (auto simp: tasks_ok_def cancel_request_def split: option.splits request_phase.splits)
next
  case (ReceiverStarts i)
  with assms show ?thesis by (auto simp: tasks_ok_def receive_head_def split: if_splits)
next
  case (ReceiverReads i fault)
  with assms show ?thesis
    by (auto simp: tasks_ok_def receive_answer_def receive_head_def receive_drop_def Let_def
        split: option.splits if_splits prod.splits sum.splits dest: finish_read_keeps_lost)
next
  case (ReceiverDrops i)
  with assms show ?thesis by (auto simp: tasks_ok_def receive_dropped_def Let_def split: if_splits)
next
  case (ReceiverStops i)
  with assms show ?thesis
    by (auto simp: tasks_ok_def receive_stopped_def split: if_splits loop_phase.splits)
next
  case (RedialResumes j)
  with assms show ?thesis
    by (auto simp: tasks_ok_def redial_resume_def next_attempt_def split: if_splits redial_phase.splits)
next
  case (RedialAnswered j stream)
  with assms show ?thesis
    by (auto simp: tasks_ok_def redial_dialed_def split: if_splits redial_phase.splits prod.splits sum.splits)
next
  case CloseCall
  with assms show ?thesis by (auto intro: tasks_ok_close_begin)
next
  case CloseResumes
  with assms show ?thesis by (auto intro: tasks_ok_close_after_redial split: if_splits)
next
  case (CloseFinishes i)
  with assms show ?thesis
    by (auto simp: tasks_ok_def close_after_receive_def close_drop_def split: if_splits)
      (blast intro: close_receive_other)
next
  case (PeerSends bytes eof)
  with assms show ?thesis by (auto simp: tasks_ok_def is_connected_def split: if_splits)
qed

subsection \<open>No request is left waiting\<close>

lemma futures_ok_quiet:
  assumes "futures_ok c" and "cl_pending c' = cl_pending c" "cl_futures c' = cl_futures c" "cl_requests c' = cl_requests c"
    and "listening c \<Longrightarrow> listening c' \<or> closing c'" and "closing c \<Longrightarrow> closing c'"
  shows "futures_ok c'"
  using assms unfolding futures_ok_def unanswered_def in_flight_def by auto

lemma futures_ok_silent:
  assumes "futures_ok c" and "\<And>rid. cl_futures c rid \<noteq> None \<Longrightarrow> cl_futures c' rid \<noteq> None"
    and "\<And>rid. in_flight c' rid \<Longrightarrow> in_flight c rid" and "\<And>rid. \<not> unanswered c' rid"
  shows "futures_ok c'"
  using assms unfolding futures_ok_def by blast

lemma fail_pending_silent:
  assumes "futures_ok c" and "cl_futures c' = cl_futures (fail_pending c)" "cl_requests c' = cl_requests c"
  shows "futures_ok c'"
proof (rule futures_ok_silent [OF assms(1)])
  show "\<not> unanswered c' rid" for rid
    using assms unfolding futures_ok_def unanswered_def in_flight_def
    by (auto simp: fail_pending_futures fail_future_def split: if_splits)
qed (use assms in \<open>auto simp: in_flight_def fail_pending_futures\<close>)

lemma futures_ok_settle:
  assumes "futures_ok c" and "cl_requests c' = (cl_requests c)(rid \<mapsto> Settled e)"
    and "\<And>r. r \<noteq> rid \<Longrightarrow> cl_futures c' r = cl_futures c r \<and> (r \<in> set (cl_pending c) \<longrightarrow> r \<in> set (cl_pending c'))"
    and "\<And>i. phase_of c' i = phase_of c i" and "cl_calls c' = cl_calls c"
  shows "futures_ok c'"
  using assms unfolding futures_ok_def unanswered_def in_flight_def listening_def closing_def
  by (auto split: if_splits)

lemma listening_mono:
  "listening c \<Longrightarrow> (\<And>i. phase_of c i \<notin> {Dropping, LoopDone} \<Longrightarrow> phase_of c' i \<notin> {Dropping, LoopDone}) \<Longrightarrow> listening c'"
  unfolding listening_def by blast

lemma closing_mono: "closing c \<Longrightarrow> (\<And>k. k \<in> set (cl_calls c) \<Longrightarrow> k \<in> {CloseAfterRedial} \<union> range CloseAfterReceive \<Longrightarrow> k \<in> set (cl_calls c')) \<Longrightarrow> closing c'"
  unfolding closing_def by blast

lemma futures_ok_close_stop:
  assumes "futures_ok c" and "tasks_ok c" shows "futures_ok (close_stop c)"
proof -
  have drop: "futures_ok (close_drop c)"
    by (rule fail_pending_silent [OF assms(1)]) (simp_all add: close_drop_def)
  have stop: "futures_ok ((set_phase i ph c)\<lparr>cl_calls := CloseAfterReceive i # cl_calls c\<rparr>)" for i ph
    by (rule futures_ok_quiet [OF assms(1)]) (auto simp: closing_def)
  show ?thesis unfolding close_stop_def using drop stop by (auto split: option.splits)
qed

lemma futures_ok_close_begin:
  assumes "futures_ok c" and "tasks_ok c" shows "futures_ok (close_begin c)"
proof -
  let ?c1 = "c\<lparr>cl_closed := True, cl_state := CLOSED\<rparr>"
  have "futures_ok ?c1" by (rule futures_ok_quiet [OF assms(1)]) (auto simp: closing_def listening_def)
  moreover have "tasks_ok ?c1" using assms(2) by (simp add: tasks_ok_def)
  ultimately have stop: "futures_ok (close_stop ?c1)" by (rule futures_ok_close_stop)
  have "futures_ok ((cancel_redial ?c1)\<lparr>cl_calls := CloseAfterRedial # cl_calls ?c1\<rparr>)"
    by (rule futures_ok_quiet [OF assms(1)]) (auto simp: closing_def cancel_redial_def split: option.splits)
  with stop assms(1) show ?thesis by (simp add: close_begin_def Let_def)
qed

lemma futures_ok_close_after_redial:
  assumes "futures_ok c" and "tasks_ok c" shows "futures_ok (close_after_redial c)"
proof -
  let ?c1 = "c\<lparr>cl_reconnect := None, cl_calls := remove1 CloseAfterRedial (cl_calls c)\<rparr>"
  have drop: "futures_ok (close_drop ?c1)"
    by (rule fail_pending_silent [OF assms(1)]) (auto simp: close_drop_def fail_pending_futures fun_eq_iff)
  have stop: "futures_ok ((set_phase i ph ?c1)\<lparr>cl_calls := CloseAfterReceive i # cl_calls ?c1\<rparr>)" for i ph
    by (rule futures_ok_quiet [OF assms(1)]) (auto simp: closing_def)
  show ?thesis unfolding close_after_redial_def close_stop_def using drop stop by (auto split: option.splits)
qed

lemma futures_ok_begin_request:
  assumes "futures_ok c" and "tasks_ok c" and "cl_requests c rid = None"
  shows "futures_ok (snd (begin_request rid meth c))"
proof (cases "client_connected c")
  case False
  with assms show ?thesis by (simp add: begin_request_def)
next
  case True
  then obtain i where i: "cl_receive c = Some i" "rc_phase (cl_receivers c ! i) \<noteq> LoopDone"
    by (auto simp: client_connected_def receiving_def split: option.splits)
  with assms(2) True have "phase_of c i \<notin> {Dropping, LoopDone}"
    by (auto simp: tasks_ok_def client_connected_def phase_of_def)
  then have "listening c" unfolding listening_def by blast
  with assms(1) show ?thesis
    by (auto simp: begin_request_def futures_ok_def unanswered_def in_flight_def listening_def closing_def)
qed

lemma futures_ok_receive_head:
  assumes "futures_ok c" shows "futures_ok (receive_head i c)"
proof (cases "is_connected (cl_pipe c)")
  case True
  have "futures_ok (set_phase i Reading c)"
  proof (rule futures_ok_quiet [OF assms])
    show "listening (set_phase i Reading c) \<or> closing (set_phase i Reading c)" if "listening c"
      using listening_mono [OF that, of "set_phase i Reading c"] by simp
  qed (auto simp: closing_def)
  with True show ?thesis by (simp add: receive_head_def)
next
  case False
  then show ?thesis
    by (intro fail_pending_silent [OF assms]) (simp_all add: receive_head_def)
qed

lemma futures_ok_handle_frame:
  assumes "futures_ok c" shows "futures_ok (handle_frame w i frame c)"
proof -
  have "unanswered (handle_frame w i frame c) rid \<Longrightarrow> unanswered c rid" for rid
    by (auto simp: unanswered_def in_flight_def handle_frame_futures split: option.splits if_splits)
  moreover have "in_flight (handle_frame w i frame c) rid = in_flight c rid" for rid by (simp add: in_flight_def)
  ultimately show ?thesis
    using assms unfolding futures_ok_def
    by (auto simp: listening_def closing_def handle_frame_futures split: option.splits)
qed

lemma futures_ok_pipe: "futures_ok c \<Longrightarrow> futures_ok (c\<lparr>cl_pipe := p\<rparr>)"
  by (erule futures_ok_quiet) (simp_all add: listening_def closing_def)

lemma futures_ok_receive_answer:
  assumes "futures_ok c" and "receive_answer w i fault c = Some c'" shows "futures_ok c'"
proof -
  have drop: "futures_ok (receive_drop i (c\<lparr>cl_pipe := p\<rparr>))" for p
    by (rule fail_pending_silent [OF futures_ok_pipe [OF assms(1), of p]]) (simp_all add: receive_drop_def Let_def)
  have head: "futures_ok (receive_head i (handle_frame w i frame (c\<lparr>cl_pipe := p\<rparr>)))" for frame p
    by (intro futures_ok_receive_head futures_ok_handle_frame futures_ok_pipe assms(1))
  from assms(2) drop head show ?thesis
    by (auto simp: receive_answer_def split: option.splits sum.splits)
qed

lemma futures_ok_send_request:
  assumes "futures_ok c" and "cl_requests c rid = Some Sending"
  shows "futures_ok (send_request w fault rid meth c)"
proof (cases "write_frame (wr_limit w) fault (wr_encode w rid meth) (cl_pipe c)")
  case (Pair res p)
  show ?thesis
  proof (cases res)
    case (Inl err)
    show ?thesis
      by (rule futures_ok_settle [OF assms(1), of _ rid "SendFailed err"]) (simp_all add: send_request_def Pair Inl)
  next
    case (Inr u)
    with Pair assms show ?thesis
      by (auto simp: send_request_def futures_ok_def unanswered_def in_flight_def listening_def closing_def)
  qed
qed

lemma futures_ok_receive_stopped:
  assumes "futures_ok c" and "tasks_ok c" and "receive_stopped i c = Some c'" and "i < length (cl_receivers c)"
  shows "futures_ok c'"
proof -
  from assms(3) obtain b where b: "rc_phase (cl_receivers c ! i) = Stopping b"
    and c': "c' = set_phase i LoopDone (if b then fail_pending c else c)"
    by (auto simp: receive_stopped_def split: loop_phase.splits)
  from b assms(4) have "phase_of c i = Stopping b" by (simp add: phase_of_def)
  with assms(2) have "closing c" by (auto simp: tasks_ok_def closing_def)
  then show ?thesis
    by (cases b) (auto simp: c' closing_def intro: fail_pending_silent [OF assms(1)] futures_ok_quiet [OF assms(1)])
qed

lemma futures_ok_connects:
  assumes "futures_ok c"
  shows "futures_ok (connect_begin c)" "futures_ok (connect_after_redial c)" "futures_ok (connect_dialed stream c)"
proof -
  show "futures_ok (connect_begin c)"
    by (rule futures_ok_quiet [OF assms])
      (auto simp: connect_begin_def connect_dial_def cancel_redial_def closing_def listening_def Let_def split: option.splits)
  show "futures_ok (connect_after_redial c)"
    by (rule futures_ok_quiet [OF assms]) (auto simp: connect_after_redial_def connect_dial_def closing_def listening_def)
  have "listening (connect_dialed stream c)" if "listening c"
    using that
    by (rule listening_mono) (auto simp: connect_dialed_def Let_def split: prod.splits sum.splits)
  then show "futures_ok (connect_dialed stream c)"
    by (intro futures_ok_quiet [OF assms])
      (auto simp: connect_dialed_def closing_def Let_def split: prod.splits sum.splits)
qed

lemma futures_ok_redial:
  assumes "futures_ok c"
  shows "redial_resume w j c = Some c' \<Longrightarrow> futures_ok c'" "redial_dialed j stream c = Some c' \<Longrightarrow> futures_ok c'"
proof -
  assume a: "redial_resume w j c = Some c'"
  show "futures_ok c'"
    by (rule futures_ok_quiet [OF assms]; insert a)
      (auto simp: redial_resume_def next_attempt_def closing_def listening_def split: redial_phase.splits if_splits)
next
  assume a: "redial_dialed j stream c = Some c'"
  have "listening c'" if "listening c"
    using that
    by (rule listening_mono; insert a)
      (auto simp: redial_dialed_def split: redial_phase.splits prod.splits sum.splits if_splits)
  then show "futures_ok c'"
    by (intro futures_ok_quiet [OF assms]; insert a)
      (auto simp: redial_dialed_def closing_def split: redial_phase.splits prod.splits sum.splits if_splits)
qed

lemma futures_ok_client_event:
  assumes "futures_ok c" and "tasks_ok c" and "client_event w e c = Some c'"
  shows "futures_ok c'"
proof (cases e)
  case (Answered rid)
  have "futures_ok c''" if "finish_request rid c = Some c''" for c''
    using that
    by (auto simp: finish_request_def split: option.splits future.splits
        intro: futures_ok_settle [OF assms(1), of _ rid])
  with assms Answered show ?thesis by (auto split: if_splits)
next
  case (TimesOut rid)
  have "futures_ok (time_out_request rid c)"
    by (rule futures_ok_settle [OF assms(1), of _ rid RequestTimedOut]) (simp_all add: time_out_request_def)
  with assms TimesOut show ?thesis by (auto split: if_splits)
next
  case (Cancels rid)
  with assms(3) show ?thesis
    by (auto simp: cancel_request_def split: option.splits request_phase.splits
        intro: futures_ok_settle [OF assms(1), of _ rid RequestCancelled])
next
  case (ReceiverDrops i)
  have "listening c'" if "listening c"
    using that
    by (rule listening_mono; insert assms(3) ReceiverDrops) (auto simp: receive_dropped_def Let_def split: if_splits)
  then show ?thesis
    by (intro futures_ok_quiet [OF assms(1)]; insert assms(3) ReceiverDrops)
      (auto simp: receive_dropped_def Let_def closing_def split: if_splits)
next
  case (CloseFinishes i)
  have "futures_ok (close_after_receive i c)"
    by (rule fail_pending_silent [OF assms(1)]) (auto simp: close_after_receive_def close_drop_def fail_pending_futures fun_eq_iff)
  with assms CloseFinishes show ?thesis by (auto split: if_splits)
qed (use assms in \<open>auto split: if_splits
      intro: futures_ok_connects futures_ok_begin_request futures_ok_send_request futures_ok_receive_head
        futures_ok_receive_answer futures_ok_receive_stopped futures_ok_redial futures_ok_close_begin
        futures_ok_close_after_redial futures_ok_pipe\<close>)

subsection \<open>A response settles its own request\<close>

text \<open>The event is a read that takes the response \<open>r\<close> from the transport while a request of its id is pending.\<close>

definition delivered :: "'v wire \<Rightarrow> wire_event \<Rightarrow> 'v client \<Rightarrow> 'v response \<Rightarrow> bool" where
  "delivered w e c r \<longleftrightarrow>
     rs_id r \<in> set (cl_pending c) \<and>
     (\<exists>i fault frame p. e = ReceiverReads i fault \<and> phase_of c i = Reading \<and>
        finish_read (wr_limit w) fault (cl_pipe c) = Some (Inr frame, p) \<and> wr_parse w frame = Some r)"

inductive future_step :: "'v wire \<Rightarrow> wire_event \<Rightarrow> 'v client \<Rightarrow> string \<Rightarrow> 'v future option \<Rightarrow> 'v future option \<Rightarrow> bool" for w e c rid where
  same: "future_step w e c rid f f"
| opened: "e = RequestCall rid meth \<Longrightarrow> future_step w e c rid None (Some Waiting)"
| failed: "future_step w e c rid (Some Waiting) (Some FutureFailed)"
| cancelled: "e = TimesOut rid \<Longrightarrow> future_step w e c rid (Some Waiting) (Some FutureCancelled)"
| resolved: "rs_id r = rid \<Longrightarrow> delivered w e c r \<Longrightarrow> future_step w e c rid (Some Waiting) (Some (Resolved r))"

inductive_cases future_step_resolved: "future_step w e c rid f (Some (Resolved r))"
inductive_cases future_step_from_resolved: "future_step w e c rid (Some (Resolved r)) f"

lemma future_step_fail_pending:
  "future_step w e c rid (cl_futures c' rid) (cl_futures (fail_pending c') rid)"
  by (cases "cl_futures c' rid") (auto simp: fail_pending_futures fail_future_def intro: future_step.intros)

lemma close_stop_futures:
  "cl_futures (close_stop c) = cl_futures c \<or> cl_futures (close_stop c) = cl_futures (fail_pending c)"
  by (auto simp: close_stop_def close_drop_def split: option.splits)

lemma quiet_futures [simp]:
  "cl_futures (connect_begin c) = cl_futures c" "cl_futures (connect_after_redial c) = cl_futures c"
  "cl_futures (connect_dialed stream c) = cl_futures c" "cl_futures (receive_dropped i c) = cl_futures c"
  "cl_futures (send_request w fault rid meth c) = cl_futures c"
  by (auto simp: connect_begin_def connect_after_redial_def connect_dial_def connect_dialed_def cancel_redial_def
      receive_dropped_def send_request_def Let_def split: option.splits prod.splits sum.splits)

lemma quiet_futures_SomeD:
  "redial_resume w j c = Some c' \<Longrightarrow> cl_futures c' = cl_futures c"
  "redial_dialed j stream c = Some c' \<Longrightarrow> cl_futures c' = cl_futures c"
  "finish_request rid c = Some c' \<Longrightarrow> cl_futures c' = cl_futures c"
  "cancel_request rid c = Some c' \<Longrightarrow> cl_futures c' = cl_futures c"
  by (auto simp: redial_resume_def redial_dialed_def next_attempt_def finish_request_def cancel_request_def
      split: redial_phase.splits if_splits prod.splits sum.splits option.splits future.splits request_phase.splits)

lemma receive_head_futures:
  "cl_futures (receive_head i c) = cl_futures c \<or> cl_futures (receive_head i c) = cl_futures (fail_pending c)"
  by (simp add: receive_head_def)

lemma future_step_receive_answer:
  assumes "receive_answer w i fault c = Some c'" and "phase_of c i = Reading"
  shows "future_step w (ReceiverReads i fault) c rid (cl_futures c rid) (cl_futures c' rid)"
proof -
  let ?e = "ReceiverReads i fault"
  from assms(1) obtain res p where fin: "finish_read (wr_limit w) fault (cl_pipe c) = Some (res, p)"
    by (auto simp: receive_answer_def split: option.splits)
  let ?c1 = "c\<lparr>cl_pipe := p\<rparr>"
  show ?thesis
  proof (cases res)
    case (Inl err)
    with assms fin have "cl_futures c' = cl_futures (fail_pending ?c1)"
      by (auto simp: receive_answer_def receive_drop_def Let_def)
    then show ?thesis using future_step_fail_pending [of w ?e c rid ?c1] by simp
  next
    case (Inr frame)
    with assms fin have c': "c' = receive_head i (handle_frame w i frame ?c1)" by (simp add: receive_answer_def)
    show ?thesis
    proof (cases "cl_futures (handle_frame w i frame ?c1) rid = cl_futures c rid")
      case True
      then show ?thesis
        using receive_head_futures [of i "handle_frame w i frame ?c1"]
          future_step_fail_pending [of w ?e c rid "handle_frame w i frame ?c1"] future_step.same [of w ?e c rid]
        by (auto simp: c')
    next
      case False
      then obtain r where r: "wr_parse w frame = Some r" "rs_id r = rid" "rid \<in> set (cl_pending c)"
          "cl_futures c rid = Some Waiting" "cl_futures (handle_frame w i frame ?c1) rid = Some (Resolved r)"
        by (auto simp: handle_frame_futures split: option.splits if_splits)
      then have "delivered w ?e c r" using fin assms(2) Inr unfolding delivered_def by blast
      then have "future_step w ?e c rid (Some Waiting) (Some (Resolved r))" by (rule resolved [OF r(2)])
      then show ?thesis
        using receive_head_futures [of i "handle_frame w i frame ?c1"] r
        by (auto simp: c' fail_pending_futures fail_future_def)
    qed
  qed
qed

lemma future_step_client_event:
  assumes "client_event w e c = Some c'"
  shows "future_step w e c rid (cl_futures c rid) (cl_futures c' rid)"
proof (cases e)
  case (RequestCall r meth)
  with assms show ?thesis by (auto simp: begin_request_def intro: future_step.intros split: if_splits)
next
  case (TimesOut r)
  with assms show ?thesis
    by (cases "cl_futures c r") (auto simp: time_out_request_def cancel_future_def intro: future_step.intros split: if_splits)
next
  case (ReceiverStarts i)
  with assms show ?thesis
    using receive_head_futures [of i c] future_step_fail_pending [of w e c rid c]
    by (auto intro: future_step.intros split: if_splits)
next
  case (ReceiverStops i)
  with assms show ?thesis
    using future_step_fail_pending [of w e c rid c]
    by (auto simp: receive_stopped_def intro: future_step.intros split: loop_phase.splits if_splits)
next
  case (ReceiverReads i fault)
  with assms show ?thesis by (auto intro: future_step_receive_answer split: if_splits)
next
  case CloseCall
  let ?c1 = "c\<lparr>cl_closed := True, cl_state := CLOSED\<rparr>"
  show ?thesis
    using assms CloseCall close_stop_futures [of ?c1] future_step_fail_pending [of w e c rid ?c1]
    by (auto simp: close_begin_def cancel_redial_def Let_def intro: future_step.intros split: if_splits option.splits)
next
  case CloseResumes
  let ?c1 = "c\<lparr>cl_reconnect := None, cl_calls := remove1 CloseAfterRedial (cl_calls c)\<rparr>"
  show ?thesis
    using assms CloseResumes close_stop_futures [of ?c1] future_step_fail_pending [of w e c rid ?c1]
    by (auto simp: close_after_redial_def intro: future_step.intros split: if_splits)
next
  case (CloseFinishes i)
  with assms show ?thesis
    using future_step_fail_pending [of w e c rid "c\<lparr>cl_receive := None, cl_calls := remove1 (CloseAfterReceive i) (cl_calls c)\<rparr>"]
    by (auto simp: close_after_receive_def close_drop_def split: if_splits)
qed (use assms in \<open>auto intro: future_step.same split: if_splits simp: quiet_futures_SomeD\<close>)

inductive request_step :: "'v client \<Rightarrow> wire_event \<Rightarrow> string \<Rightarrow> 'v request_phase option \<Rightarrow> 'v request_phase option \<Rightarrow> bool" for c e rid where
  unchanged: "e \<noteq> TimesOut rid \<or> cl_requests c rid \<noteq> Some Awaiting \<Longrightarrow> request_step c e rid q q"
| begun: "e = RequestCall rid meth \<Longrightarrow> request_step c e rid None (Some Sending)"
| sent: "request_step c e rid (Some Sending) (Some Awaiting)"
| not_sent: "request_step c e rid (Some Sending) (Some (Settled (SendFailed err)))"
| answered: "cl_futures c rid = Some (Resolved r) \<Longrightarrow> request_step c e rid (Some Awaiting) (Some (Settled (response_end r)))"
| lost: "cl_futures c rid = Some FutureFailed \<Longrightarrow> request_step c e rid (Some Awaiting) (Some (Settled RequestLost))"
| late: "e = TimesOut rid \<Longrightarrow> request_step c e rid (Some Awaiting) (Some (Settled RequestTimedOut))"
| given_up: "q \<in> {Sending, Awaiting} \<Longrightarrow> request_step c e rid (Some q) (Some (Settled RequestCancelled))"

inductive_cases request_step_settled: "request_step c e rid q (Some (Settled s))"
inductive_cases request_step_from_settled: "request_step c e rid (Some (Settled s)) q"

lemma quiet_requests [simp]:
  "cl_requests (connect_begin c) = cl_requests c" "cl_requests (connect_after_redial c) = cl_requests c"
  "cl_requests (connect_dialed stream c) = cl_requests c" "cl_requests (receive_dropped i c) = cl_requests c"
  "cl_requests (receive_head i c) = cl_requests c" "cl_requests (receive_drop i c) = cl_requests c"
  "cl_requests (close_stop c) = cl_requests c" "cl_requests (close_begin c) = cl_requests c"
  "cl_requests (close_after_redial c) = cl_requests c" "cl_requests (close_after_receive i c) = cl_requests c"
  by (auto simp: connect_begin_def connect_after_redial_def connect_dial_def connect_dialed_def cancel_redial_def
      receive_dropped_def receive_head_def receive_drop_def close_stop_def close_begin_def close_after_redial_def
      close_after_receive_def close_drop_def Let_def split: option.splits prod.splits sum.splits)

lemma quiet_requests_SomeD:
  "redial_resume w j c = Some c' \<Longrightarrow> cl_requests c' = cl_requests c"
  "redial_dialed j stream c = Some c' \<Longrightarrow> cl_requests c' = cl_requests c"
  "receive_answer w i fault c = Some c' \<Longrightarrow> cl_requests c' = cl_requests c"
  "receive_stopped i c = Some c' \<Longrightarrow> cl_requests c' = cl_requests c"
  by (auto simp: redial_resume_def redial_dialed_def next_attempt_def receive_answer_def receive_stopped_def
      split: redial_phase.splits if_splits prod.splits sum.splits option.splits loop_phase.splits)

lemma request_step_client_event:
  assumes "client_event w e c = Some c'"
  shows "request_step c e rid (cl_requests c rid) (cl_requests c' rid)"
proof (cases e)
  case (RequestCall r meth)
  with assms show ?thesis by (auto simp: begin_request_def intro: request_step.intros split: if_splits)
next
  case (Written fault r meth)
  with assms show ?thesis
    by (auto simp: send_request_def intro: request_step.intros split: if_splits prod.splits sum.splits)
next
  case (Answered r)
  with assms show ?thesis
    by (auto simp: finish_request_def intro: request_step.intros split: if_splits option.splits future.splits)
next
  case (TimesOut r)
  with assms show ?thesis by (auto simp: time_out_request_def intro: request_step.intros split: if_splits)
next
  case (Cancels r)
  with assms show ?thesis
    by (auto simp: cancel_request_def intro: request_step.intros split: option.splits request_phase.splits)
qed (use assms in \<open>auto intro: request_step.unchanged split: if_splits simp: quiet_requests_SomeD\<close>)

definition answers_ok :: "'v wire \<Rightarrow> 'v client \<Rightarrow> bool" where
  "answers_ok w c \<longleftrightarrow>
     (\<forall>rid r. cl_futures c rid = Some (Resolved r) \<longrightarrow> rs_id r = rid \<and> (\<exists>e c1. client_reachable w c1 \<and> delivered w e c1 r)) \<and>
     (\<forall>rid s. cl_requests c rid = Some (Settled s) \<longrightarrow>
        s \<in> {RequestTimedOut, RequestLost, RequestCancelled} \<union> range SendFailed \<or>
        (\<exists>r. cl_futures c rid = Some (Resolved r) \<and> s = response_end r)) \<and>
     (\<forall>rid. in_flight c rid \<longrightarrow> cl_futures c rid \<noteq> Some FutureCancelled)"

lemma answers_ok_client_event:
  assumes "answers_ok w c" and "futures_ok c" and "client_reachable w c" and ev: "client_event w e c = Some c'"
  shows "answers_ok w c'"
  unfolding answers_ok_def
proof (intro conjI allI impI)
  note fs = future_step_client_event [OF ev] and rs = request_step_client_event [OF ev]
  fix rid
  {
    fix r assume r: "cl_futures c' rid = Some (Resolved r)"
    show "rs_id r = rid" and "\<exists>e c1. client_reachable w c1 \<and> delivered w e c1 r"
      using fs [of rid] assms(1,3) unfolding r answers_ok_def by (auto elim!: future_step_resolved)
  }
  {
    fix s assume s: "cl_requests c' rid = Some (Settled s)"
    have keep: "cl_futures c' rid = Some (Resolved r)" if "cl_futures c rid = Some (Resolved r)" for r
      using fs [of rid] unfolding that by (auto elim: future_step_from_resolved)
    have old: "s \<in> {RequestTimedOut, RequestLost, RequestCancelled} \<union> range SendFailed \<or>
        (\<exists>r. cl_futures c rid = Some (Resolved r) \<and> s = response_end r)" if "cl_requests c rid = Some (Settled s)"
      using assms(1) that unfolding answers_ok_def by blast
    show "s \<in> {RequestTimedOut, RequestLost, RequestCancelled} \<union> range SendFailed \<or>
        (\<exists>r. cl_futures c' rid = Some (Resolved r) \<and> s = response_end r)"
      using rs [of rid]
    proof (cases rule: request_step.cases)
      case unchanged
      with s have "cl_requests c rid = Some (Settled s)" by simp
      from old [OF this] keep show ?thesis by blast
    next
      case (answered r)
      with s keep show ?thesis by auto
    qed (use s in auto)
  }
  assume fl: "in_flight c' rid"
  show "cl_futures c' rid \<noteq> Some FutureCancelled"
  proof
    assume canc: "cl_futures c' rid = Some FutureCancelled"
    from fs [of rid] show False
    proof (cases rule: future_step.cases)
      case same
      from rs [of rid] fl have "in_flight c rid \<or> cl_requests c rid = None"
        unfolding in_flight_def by (cases rule: request_step.cases) auto
      with same canc assms(1) rs [of rid] fl ev show False
        unfolding answers_ok_def in_flight_def
        by (auto elim!: request_step.cases split: if_splits)
    next
      case cancelled
      with rs [of rid] fl ev show False
        unfolding in_flight_def by (cases rule: request_step.cases) (auto split: if_splits)
    qed (use canc in auto)
  qed
qed

lemma client_reachable_ok:
  "client_reachable w c \<Longrightarrow> tasks_ok c \<and> futures_ok c \<and> answers_ok w c"
proof (induction rule: client_reachable.induct)
  case created
  show ?case
    by (simp add: new_client_def tasks_ok_def futures_ok_def answers_ok_def unanswered_def in_flight_def phase_of_def)
next
  case (happens c e c')
  then show ?case
    using tasks_ok_client_event futures_ok_client_event answers_ok_client_event by blast
qed

text \<open>Settled requests stay as they are.\<close>

lemma settled_final:
  assumes "client_event w e c = Some c'" and "cl_requests c rid = Some (Settled s)"
  shows "cl_requests c' rid = Some (Settled s)"
  using request_step_client_event [OF assms(1), of rid] unfolding assms(2)
  by (auto elim: request_step_from_settled)

subsection \<open>Reconnecting\<close>

fun redial_advance :: "'v wire \<Rightarrow> nat \<Rightarrow> nat \<Rightarrow> 'v client \<Rightarrow> 'v client" where
  "redial_advance w j 0 c = c"
| "redial_advance w j (Suc n) c =
     (case redial_resume w j c of None \<Rightarrow> c | Some c' \<Rightarrow> redial_advance w j n c')"

text \<open>The reconnect task alone, with what its successive attempts meet. Four resumptions lead to the
  next attempt: at most the end of a burst, its pause, the new burst and the back-off.\<close>

fun redial_loop :: "'v wire \<Rightarrow> nat \<Rightarrow> (byte list \<times> bool) option list \<Rightarrow> 'v client \<Rightarrow> 'v client" where
  "redial_loop w j [] c = redial_advance w j 4 c"
| "redial_loop w j (s # ss) c =
     (let c1 = redial_advance w j 4 c
      in case redial_dialed j s c1 of None \<Rightarrow> c1 | Some c2 \<Rightarrow> redial_loop w j ss c2)"

definition redial_ready :: "nat \<Rightarrow> 'v client \<Rightarrow> bool" where
  "redial_ready j c \<longleftrightarrow> j < length (cl_redials c) \<and> cl_state c \<noteq> CLOSED \<and> \<not> is_connected (cl_pipe c) \<and>
     (cl_redials c ! j = Starting \<or> (\<exists>a. cl_redials c ! j = Undoing a))"

lemma redials_set_redial [simp]:
  "j < length (cl_redials c) \<Longrightarrow> cl_redials (set_redial j ph c) ! j = ph"
  by (simp add: set_redial_def)

lemma redial_advance_dials:
  assumes "redial_ready j c"
  shows "\<exists>a. cl_redials (redial_advance w j 4 c) ! j = Dialing a" "cl_state (redial_advance w j 4 c) \<noteq> CLOSED"
    "\<not> is_connected (cl_pipe (redial_advance w j 4 c))" "length (cl_redials (redial_advance w j 4 c)) = length (cl_redials c)"
    "cl_receivers (redial_advance w j 4 c) = cl_receivers c" "cl_closed (redial_advance w j 4 c) = cl_closed c"
proof -
  have step: "redial_resume w j c1 = Some c2 \<Longrightarrow> redial_advance w j (Suc n) c1 = redial_advance w j n c2" for c1 c2 n
    by simp
  have stop: "redial_resume w j c1 = None \<Longrightarrow> redial_advance w j n c1 = c1" for c1 n by (cases n) simp_all
  have dial: "redial_advance w j (Suc n) (set_redial j (BackingOff a) c1) = set_redial j (Dialing a) (set_redial j (BackingOff a) c1)"
    if "j < length (cl_redials c1)" "cl_state c1 \<noteq> CLOSED" for n a c1
    by (subst step, use that in \<open>simp add: redial_resume_def\<close>, rule stop) (use that in \<open>simp add: redial_resume_def\<close>)
  have j: "j < length (cl_redials c)" "cl_state c \<noteq> CLOSED" "\<not> is_connected (cl_pipe c)"
    using assms by (simp_all add: redial_ready_def)
  have four: "4 = Suc (Suc (Suc (Suc 0)))" by simp
  consider (start) "cl_redials c ! j = Starting"
    | (burst) a where "cl_redials c ! j = Undoing a" "0 < wr_max_attempts w \<and> wr_max_attempts w < a + 1"
    | (retry) a where "cl_redials c ! j = Undoing a" "\<not> (0 < wr_max_attempts w \<and> wr_max_attempts w < a + 1)"
    using assms unfolding redial_ready_def by blast
  then obtain c' a where adv: "redial_advance w j 4 c = set_redial j (Dialing a) c'"
    and c': "j < length (cl_redials c')" "cl_state c' \<noteq> CLOSED" "\<not> is_connected (cl_pipe c')"
      "length (cl_redials c') = length (cl_redials c)" "cl_receivers c' = cl_receivers c" "cl_closed c' = cl_closed c"
  proof cases
    case start
    then have "redial_resume w j c = Some (set_redial j (BackingOff 1) c)"
      using j by (auto simp: redial_resume_def next_attempt_def)
    from step [OF this] dial [of c] j have "redial_advance w j 4 c = set_redial j (Dialing 1) (set_redial j (BackingOff 1) c)"
      unfolding four by metis
    with that j show ?thesis by simp
  next
    case (burst a)
    let ?c1 = "set_redial j Exhausted (c\<lparr>cl_state := DISCONNECTED, cl_pipe := close_pipe (cl_pipe c)\<rparr>)"
    let ?c2 = "set_redial j Resting ?c1"
    have r: "redial_resume w j c = Some ?c1" "redial_resume w j ?c1 = Some ?c2"
        "redial_resume w j ?c2 = Some (set_redial j (BackingOff 1) ?c2)"
      using j burst by (auto simp: redial_resume_def next_attempt_def)
    have "redial_advance w j 4 c = redial_advance w j (Suc 0) (set_redial j (BackingOff 1) ?c2)"
      unfolding four step [OF r(1)] step [OF r(2)] step [OF r(3)] ..
    also have "\<dots> = set_redial j (Dialing 1) (set_redial j (BackingOff 1) ?c2)" using j by (intro dial) simp_all
    finally show ?thesis using that j by simp
  next
    case (retry a)
    then have "redial_resume w j c = Some (set_redial j (BackingOff (a + 1)) c)"
      using j by (auto simp: redial_resume_def next_attempt_def)
    from step [OF this] dial [of c] j have "redial_advance w j 4 c = set_redial j (Dialing (a + 1)) (set_redial j (BackingOff (a + 1)) c)"
      unfolding four by metis
    with that j show ?thesis by simp
  qed
  show "\<exists>a. cl_redials (redial_advance w j 4 c) ! j = Dialing a" "cl_state (redial_advance w j 4 c) \<noteq> CLOSED"
    "\<not> is_connected (cl_pipe (redial_advance w j 4 c))" "length (cl_redials (redial_advance w j 4 c)) = length (cl_redials c)"
    "cl_receivers (redial_advance w j 4 c) = cl_receivers c" "cl_closed (redial_advance w j 4 c) = cl_closed c"
    using c' unfolding adv by simp_all
qed

lemma redial_loop_connects:
  assumes "redial_ready j c"
  shows "let c' = redial_loop w j (replicate n None @ [Some (bytes, eof)]) c in
     cl_state c' = CONNECTED \<and> is_connected (cl_pipe c') \<and> p_in (cl_pipe c') = bytes \<and>
     cl_receive c' = Some (length (cl_receivers c)) \<and> phase_of c' (length (cl_receivers c)) = LoopHead \<and>
     cl_closed c' = cl_closed c"
  using assms
proof (induction n arbitrary: c)
  case 0
  let ?c1 = "redial_advance w j 4 c"
  from redial_advance_dials [OF 0, of w] obtain a where a: "cl_redials ?c1 ! j = Dialing a" by blast
  have dial: "connect_pipe (Some (bytes, eof)) (cl_pipe ?c1) =
      (Inr (), \<lparr>p_connected = True, p_open = True, p_in = bytes, p_eof = eof, p_out = []\<rparr>)"
    using redial_advance_dials(3) [OF 0, of w] by (simp add: connect_pipe_def)
  let ?c2 = "set_redial j RedialDone (start_receiver (?c1\<lparr>cl_pipe :=
      \<lparr>p_connected = True, p_open = True, p_in = bytes, p_eof = eof, p_out = []\<rparr>\<rparr>))"
  have "redial_dialed j (Some (bytes, eof)) ?c1 = Some ?c2"
    using a dial redial_advance_dials(2) [OF 0, of w] by (simp add: redial_dialed_def)
  moreover have "redial_advance w j 4 ?c2 = ?c2"
    using 0 redial_advance_dials(4) [OF 0, of w]
    by (simp add: numeral_eq_Suc redial_resume_def redial_ready_def)
  ultimately show ?case
    using redial_advance_dials(5,6) [OF 0, of w] by (simp add: Let_def is_connected_def start_receiver_def phase_of_def nth_append)
next
  case (Suc n)
  let ?c1 = "redial_advance w j 4 c"
  from redial_advance_dials [OF Suc.prems, of w] obtain a where a: "cl_redials ?c1 ! j = Dialing a" by blast
  let ?c2 = "set_redial j (Undoing a) (?c1\<lparr>cl_pipe := close_pipe (cl_pipe ?c1)\<rparr>)"
  have dialed: "redial_dialed j None ?c1 = Some ?c2"
    using a redial_advance_dials(3) [OF Suc.prems, of w] by (simp add: redial_dialed_def connect_pipe_def)
  have "redial_ready j ?c2"
    using Suc.prems redial_advance_dials(2,4) [OF Suc.prems, of w] by (simp add: redial_ready_def)
  from Suc.IH [OF this] show ?case
    using dialed redial_advance_dials(5,6) [OF Suc.prems, of w] by (simp add: Let_def)
qed

lemma backoff_delay_bounds:
  assumes "0 \<le> base" "0 \<le> mx" "\<And>u. jitter = Some u \<Longrightarrow> 0 \<le> u \<and> u \<le> 1"
  shows "0 \<le> backoff_delay base mx jitter n" "backoff_delay base mx jitter n \<le> mx"
proof -
  have raw: "0 \<le> min mx (base * 2 ^ (n - 1))" using assms by simp
  then have "u * min mx (base * 2 ^ (n - 1)) \<le> 1 * min mx (base * 2 ^ (n - 1))" if "jitter = Some u" for u
    by (intro mult_right_mono) (use assms(3) [OF that] in auto)
  then show "0 \<le> backoff_delay base mx jitter n" "backoff_delay base mx jitter n \<le> mx"
    using raw assms(2,3) by (auto simp: backoff_delay_def Let_def split: option.splits intro: order_trans)
qed

lemma backoff_delay_grows:
  "0 \<le> base \<Longrightarrow> m \<le> n \<Longrightarrow> backoff_delay base mx None m \<le> backoff_delay base mx None n"
proof -
  assume a: "0 \<le> base" "m \<le> n"
  then have "base * 2 ^ (m - 1) \<le> base * 2 ^ (n - 1)" by (intro mult_left_mono power_increasing) auto
  then show ?thesis by (auto simp: backoff_delay_def Let_def)
qed

text \<open>Where in a run a future was opened and resolved.\<close>

lemma run_events_snoc:
  "run_events w (es @ [e]) c = (case run_events w es c of None \<Rightarrow> None | Some c1 \<Rightarrow> client_event w e c1)"
  by (induction es arbitrary: c) (auto split: option.split)

lemma futures_history:
  assumes "run_events w es new_client = Some c"
  shows "(\<forall>rid. cl_futures c rid \<noteq> None \<longrightarrow> (\<exists>meth. RequestCall rid meth \<in> set es)) \<and>
    (\<forall>rid r. cl_futures c rid = Some (Resolved r) \<longrightarrow> rs_id r = rid \<and>
       (\<exists>es1 e es2 c1 meth. es = es1 @ e # es2 \<and> run_events w es1 new_client = Some c1 \<and> delivered w e c1 r \<and> RequestCall rid meth \<in> set es1))"
  using assms
proof (induction es arbitrary: c rule: rev_induct)
  case Nil
  then have "c = new_client" by simp
  then show ?case by (simp add: new_client_def)
next
  case (snoc e es)
  then obtain c1 where c1: "run_events w es new_client = Some c1" "client_event w e c1 = Some c"
    by (auto simp: run_events_snoc split: option.splits)
  note fs = future_step_client_event [OF c1(2)] and IH = snoc.IH [OF c1(1)]
  have "\<exists>meth. RequestCall rid meth \<in> set (es @ [e])" if "cl_futures c rid \<noteq> None" for rid
    using fs [of rid] that IH by (cases rule: future_step.cases) auto
  moreover have "rs_id r = rid \<and> (\<exists>es1 e' es2 c1 meth. es @ [e] = es1 @ e' # es2 \<and> run_events w es1 new_client = Some c1 \<and>
      delivered w e' c1 r \<and> RequestCall rid meth \<in> set es1)" if r: "cl_futures c rid = Some (Resolved r)" for rid r
    using fs [of rid]
  proof (cases rule: future_step.cases)
    case same
    with r have "cl_futures c1 rid = Some (Resolved r)" by simp
    with IH obtain es1 e' es2 c0 meth where *: "rs_id r = rid" "es = es1 @ e' # es2" "run_events w es1 new_client = Some c0"
      "delivered w e' c0 r" "RequestCall rid meth \<in> set es1" by blast
    then have "es @ [e] = es1 @ e' # (es2 @ [e])" by simp
    with * show ?thesis by blast
  next
    case (resolved r')
    with r have r': "r' = r" by simp
    from resolved IH obtain meth where "RequestCall rid meth \<in> set es" by fastforce
    with resolved c1(1) r' show ?thesis by blast
  qed (use r in simp_all)
  ultimately show ?case by blast
qed

subsection \<open>Properties of the client\<close>

definition demo_response :: "nat response" where
  "demo_response = \<lparr>rs_id = ''a'', rs_version = 1, rs_success = True, rs_data = Some [(''k'', 7)], rs_error = None\<rparr>"

definition demo_wire :: "nat wire" where
  "demo_wire = \<lparr>wr_parse = (\<lambda>f. if f = [1] then Some demo_response else None), wr_encode = (\<lambda>_ _. [9]),
     wr_limit = 4, wr_max_attempts = 2\<rparr>"

lemmas demo_client_simps = demo_wire_def demo_response_def new_client_def task_defs phase_of_def closing_def receiving_def redialing_def
  client_connected_def is_connected_def connect_pipe_def close_pipe_def write_frame_def frame_of_def finish_read_def read_line_def
  rstrip_eol_def is_eol_def newline_def carriage_return_def response_end_def Let_def strip_def lstrip_def rstrip_def is_space_def

definition demo_reconnect :: "wire_event list" where
  "demo_reconnect = [ConnectCall, ConnectAnswered (Some ([1, 10], False)), ReceiverStarts 0, RequestCall ''a'' ''ping'']"

text \<open>C7: Correlation, in every interleaving: when a request returns data, the run has an earlier moment at which the
  receive task read from the transport a response that carries the request's id and says success, the request had been
  registered before that moment and was still pending then, and the data is exactly that of the response. (The
  request is registered before its frame is written, so a peer that answers an id it has not been sent yet is
  believed.)\<close>

theorem response_correlated:
  assumes "run_events w es new_client = Some c" and "cl_requests c rid = Some (Settled (Returned d))"
  shows "\<exists>before i fault after c1 frame p r meth.
     es = before @ ReceiverReads i fault # after \<and> run_events w before new_client = Some c1 \<and>
     RequestCall rid meth \<in> set before \<and> rid \<in> set (cl_pending c1) \<and>
     finish_read (wr_limit w) fault (cl_pipe c1) = Some (Inr frame, p) \<and> wr_parse w frame = Some r \<and>
     rs_id r = rid \<and> rs_success r \<and> d = (case rs_data r of None \<Rightarrow> [] | Some d' \<Rightarrow> d')"
proof -
  have ok: "answers_ok w c" using client_reachable_ok [OF run_events_reachable [OF created assms(1)]] by blast
  with assms(2) obtain r where r: "cl_futures c rid = Some (Resolved r)" "Returned d = response_end r"
    unfolding answers_ok_def by blast
  then have "rs_success r" "d = (case rs_data r of None \<Rightarrow> [] | Some d' \<Rightarrow> d')"
    by (auto simp: response_end_def split: if_splits option.splits prod.splits)
  moreover obtain es1 e es2 c1 meth where "rs_id r = rid" "es = es1 @ e # es2" "run_events w es1 new_client = Some c1"
    "delivered w e c1 r" "RequestCall rid meth \<in> set es1"
    using futures_history [OF assms(1)] r(1) by blast
  ultimately show ?thesis unfolding delivered_def by blast
qed

text \<open>A run in which the peer answers after the request was written.\<close>

definition demo_exchange :: "wire_event list" where
  "demo_exchange = [ConnectCall, ConnectAnswered (Some ([], False)), ReceiverStarts 0, RequestCall ''a'' ''ping'',
     Written False ''a'' ''ping'', PeerSends [1, 10] False, ReceiverReads 0 NoFault, Answered ''a'']"

lemma demo_returns:
  "\<exists>c. run_events demo_wire demo_exchange new_client = Some c \<and> cl_requests c ''a'' = Some (Settled (Returned [(''k'', 7)]))"
  by (simp add: demo_exchange_def demo_client_simps)

lemma response_correlated_witness:
  "\<exists>before i fault after (r :: nat response). demo_exchange = before @ ReceiverReads i fault # after \<and> rs_id r = ''a'' \<and> rs_success r \<and>
     (\<exists>meth. RequestCall ''a'' meth \<in> set before) \<and> [(''k'', 7 :: nat)] = (case rs_data r of None \<Rightarrow> [] | Some d' \<Rightarrow> d')"
proof -
  from demo_returns obtain c where "run_events demo_wire demo_exchange new_client = Some c"
      and "cl_requests c ''a'' = Some (Settled (Returned [(''k'', 7)]))" by blast
  from response_correlated [OF this] show ?thesis by blast
qed

text \<open>C13: When every receive task has ended or is closing the transport and no \<open>close()\<close> is under
  way, every request that awaits its answer can settle at once, without any further event: the end
  of a receive loop strands no request.\<close>

theorem no_stranded_request:
  assumes "client_reachable w c" and "\<And>i. phase_of c i \<in> {Dropping, LoopDone}" and "\<not> closing c"
    and "cl_requests c rid = Some Awaiting"
  shows "\<exists>c' s. client_event w (Answered rid) c = Some c' \<and> cl_requests c' rid = Some (Settled s)"
proof -
  have ok: "futures_ok c" "answers_ok w c" using client_reachable_ok [OF assms(1)] by blast+
  have "in_flight c rid" using assms(4) by (simp add: in_flight_def)
  moreover have "\<not> unanswered c rid"
    using ok(1) assms(2,3) unfolding futures_ok_def listening_def by blast
  ultimately obtain f where f: "cl_futures c rid = Some f" "f \<noteq> Waiting" "f \<noteq> FutureCancelled"
    using ok unfolding futures_ok_def answers_ok_def unanswered_def by blast
  then show ?thesis using assms(4) by (cases f) (simp_all add: finish_request_def)
qed

lemma demo_dropped:
  "\<exists>c. run_events demo_wire (demo_reconnect @ [Written False ''a'' ''ping'', ReceiverReads 0 OsError]) new_client = Some c \<and>
     cl_requests c ''a'' = Some Awaiting \<and> cl_calls c = [] \<and> (\<forall>i. phase_of c i \<in> {Dropping, LoopDone})"
  by (simp add: demo_reconnect_def demo_client_simps)

lemma no_stranded_request_witness:
  "\<exists>c c' s. cl_requests c ''a'' = Some Awaiting \<and> client_event demo_wire (Answered ''a'') c = Some c' \<and>
     cl_requests c' ''a'' = Some (Settled s)"
proof -
  from demo_dropped obtain c where c: "run_events demo_wire (demo_reconnect @ [Written False ''a'' ''ping'', ReceiverReads 0 OsError]) new_client = Some c"
      and st: "cl_requests c ''a'' = Some Awaiting" "cl_calls c = []" "\<And>i. phase_of c i \<in> {Dropping, LoopDone}" by blast
  have "\<not> closing c" using st(2) by (simp add: closing_def)
  from no_stranded_request [OF run_events_reachable [OF created c] st(3) this st(1)] st(1) show ?thesis by blast
qed

text \<open>The state after the receive loop ended without an error: the transport is gone, no task runs,
  and the state still says connected.\<close>

definition lost_in :: "loop_phase \<Rightarrow> nat \<Rightarrow> 'v client \<Rightarrow> bool" where
  "lost_in ph i c \<longleftrightarrow> cl_state c = CONNECTED \<and> \<not> is_connected (cl_pipe c) \<and> cl_calls c = [] \<and>
     (\<forall>k. phase_of c k = (if k = i then ph else LoopDone)) \<and> (\<forall>j < length (cl_redials c). cl_redials c ! j = RedialDone)"

text \<open>While the flag is cleared, nothing but \<open>close()\<close> and the pending read changes anything.\<close>

lemma lost_in_step:
  assumes "lost_in ph i c1" and "client_event w e c1 = Some c2" and "e \<noteq> CloseCall" and "ph = LoopDone \<or> ph = Reading \<and> (\<forall>f. e \<noteq> ReceiverReads i f)"
  shows "lost_in ph i c2"
proof (cases e)
  case (Written fault rid meth)
  with assms show ?thesis
    by (auto simp: lost_in_def send_request_def settle_def drop_pending_def write_frame_def split: if_splits)
next
  case (PeerSends bytes eof)
  with assms show ?thesis by (auto simp: lost_in_def is_connected_def split: if_splits)
next
  case (RedialResumes j)
  with assms show ?thesis by (auto simp: lost_in_def redial_resume_def split: if_splits redial_phase.splits)
next
  case (RedialAnswered j stream)
  with assms show ?thesis by (auto simp: lost_in_def redial_dialed_def split: if_splits redial_phase.splits)
next
  case (ReceiverStarts k)
  with assms show ?thesis by (auto simp: lost_in_def split: if_splits)
next
  case (ReceiverReads k f)
  with assms show ?thesis by (auto simp: lost_in_def split: if_splits)
next
  case (ReceiverDrops k)
  with assms show ?thesis by (auto simp: lost_in_def split: if_splits)
next
  case (ReceiverStops k)
  then have k: "k < length (cl_receivers c1)" using assms(2) by (auto split: if_splits)
  have "phase_of c1 k \<in> {Reading, LoopDone}" using assms(1,4) by (auto simp: lost_in_def)
  with k have "rc_phase (cl_receivers c1 ! k) \<in> {Reading, LoopDone}" by (simp add: phase_of_def)
  with ReceiverStops assms(2) k show ?thesis by (auto simp: receive_stopped_def)
next
  case (Cancels rid)
  with assms show ?thesis
    by (auto simp: lost_in_def cancel_request_def settle_def drop_pending_def add_recent_def
        split: option.splits request_phase.splits)
qed (use assms in \<open>auto simp: lost_in_def connect_begin_def begin_request_def time_out_request_def finish_request_def
    settle_def drop_pending_def add_recent_def split: if_splits option.splits future.splits\<close>)

lemma lost_in_run:
  assumes "lost_in ph i c" and "run_events w es c = Some c'" and "CloseCall \<notin> set es"
    and "ph = LoopDone \<or> ph = Reading \<and> (\<forall>f. ReceiverReads i f \<notin> set es)"
  shows "lost_in ph i c'"
  using assms
proof (induction es arbitrary: c)
  case (Cons e es)
  then obtain c1 where c1: "client_event w e c = Some c1" "run_events w es c1 = Some c'" by (auto split: option.splits)
  have "lost_in ph i c1" by (rule lost_in_step [OF Cons.prems(1) c1(1)]) (use Cons.prems in auto)
  from Cons.IH [OF this c1(2)] Cons.prems show ?case by auto
qed simp

lemma read_ends_silently:
  assumes "lost_in Reading i c" and "finish_read (wr_limit w) fault (cl_pipe c) = Some (Inr frame, p)"
    and "client_event w (ReceiverReads i fault) c = Some c'"
  shows "lost_in LoopDone i c'"
proof -
  have "\<not> is_connected p" using finish_read_keeps_lost [OF assms(2)] assms(1) by (auto simp: lost_in_def)
  moreover have "c' = receive_head i (handle_frame w i frame (c\<lparr>cl_pipe := p\<rparr>))"
    using assms by (auto simp: receive_answer_def split: if_splits)
  moreover have "i < length (cl_receivers c)" using assms(1) phase_of_bound [of c i] by (simp add: lost_in_def)
  ultimately show ?thesis
    using assms(1) by (auto simp: lost_in_def receive_head_def)
qed

text \<open>C35: A write failure can disconnect the client silently and for good. While the receive task of a connected
  client waits in its read, the write of a request fails, which clears the connection flag; whatever else happens, the
  next thing the receive task reads is a frame that was on its way. Its loop then ends at the loop condition,
  without the handling of a loss, and from then on, until \<open>close()\<close> is called: the state stays CONNECTED, no
  receive task runs, no reconnect task is started, \<open>connect()\<close> returns without doing anything, and every request is
  refused. (If that read fails instead, the client reconnects.)\<close>

theorem silent_loss_is_permanent:
  assumes "client_connected c" and "cl_calls c = []" and "\<forall>k. phase_of c k = (if k = i then Reading else LoopDone)"
    and "\<forall>j < length (cl_redials c). cl_redials c ! j = RedialDone"
    and "fst (write_frame (wr_limit w) True (wr_encode w rid meth) (cl_pipe c)) = Inl ConnectionLost"
    and "run_events w (Written True rid meth # es) c = Some c1" and "CloseCall \<notin> set es" and "\<forall>f. ReceiverReads i f \<notin> set es"
    and "finish_read (wr_limit w) fault (cl_pipe c1) = Some (Inr frame, p)"
    and "run_events w (ReceiverReads i fault # later) c1 = Some c2" and "CloseCall \<notin> set later"
  shows "cl_state c2 = CONNECTED \<and> \<not> client_connected c2 \<and> (\<forall>k. phase_of c2 k = LoopDone) \<and>
     (\<forall>j < length (cl_redials c2). cl_redials c2 ! j = RedialDone) \<and> connect_begin c2 = c2 \<and> begin_request rid' meth' c2 = (Inl RefusedNotConnected, c2)"
proof -
  obtain c0 where c0: "client_event w (Written True rid meth) c = Some c0" "run_events w es c0 = Some c1"
    using assms(6) by (auto split: option.splits)
  obtain p0 where "write_frame (wr_limit w) True (wr_encode w rid meth) (cl_pipe c) = (Inl ConnectionLost, p0)"
    using assms(5) by (cases "write_frame (wr_limit w) True (wr_encode w rid meth) (cl_pipe c)") auto
  moreover from this have "\<not> is_connected p0"
    by (auto simp: write_frame_def is_connected_def Let_def split: if_splits)
  ultimately have "lost_in Reading i c0"
    using c0(1) assms(1-4) by (auto simp: lost_in_def send_request_def settle_def drop_pending_def client_connected_def split: if_splits)
  then have "lost_in Reading i c1" by (rule lost_in_run [OF _ c0(2) assms(7)]) (use assms(8) in simp)
  moreover obtain c3 where c3: "client_event w (ReceiverReads i fault) c1 = Some c3" "run_events w later c3 = Some c2"
    using assms(10) by (auto simp del: client_event.simps split: option.splits)
  ultimately have "lost_in LoopDone i c3" using read_ends_silently assms(9) by blast
  then have lost: "lost_in LoopDone i c2" by (rule lost_in_run [OF _ c3(2) assms(11)]) simp
  then have "\<not> client_connected c2" by (simp add: lost_in_def client_connected_def)
  with lost show ?thesis by (simp add: lost_in_def connect_begin_def begin_request_def)
qed

text \<open>The loss, and a later \<open>connect()\<close>.\<close>

definition demo_linked :: "nat client" where
  "demo_linked = the (run_events demo_wire [ConnectCall, ConnectAnswered (Some ([1, 10], False)), ReceiverStarts 0, RequestCall ''a'' ''ping''] new_client)"

lemma demo_loss:
  "\<exists>c1 c2 p. run_events demo_wire [Written True ''a'' ''ping''] demo_linked = Some c1 \<and>
     finish_read (wr_limit demo_wire) NoFault (cl_pipe c1) = Some (Inr [1], p) \<and>
     run_events demo_wire [ReceiverReads 0 NoFault, ConnectCall] c1 = Some c2"
  by (simp add: demo_linked_def demo_client_simps)

lemma demo_linked_up:
  "client_connected demo_linked" "cl_calls demo_linked = []" "\<forall>k. phase_of demo_linked k = (if k = 0 then Reading else LoopDone)"
  "\<forall>j < length (cl_redials demo_linked). cl_redials demo_linked ! j = RedialDone"
  "fst (write_frame (wr_limit demo_wire) True (wr_encode demo_wire ''a'' ''ping'') (cl_pipe demo_linked)) = Inl ConnectionLost"
  by (simp_all add: demo_linked_def demo_client_simps)

lemma silent_loss_is_permanent_witness:
  "\<exists>c2. run_events demo_wire [Written True ''a'' ''ping'', ReceiverReads 0 NoFault, ConnectCall] demo_linked = Some c2 \<and>
     cl_state c2 = CONNECTED \<and> \<not> client_connected c2"
proof -
  obtain c1 c2 p where r: "run_events demo_wire [Written True ''a'' ''ping''] demo_linked = Some c1"
      "finish_read (wr_limit demo_wire) NoFault (cl_pipe c1) = Some (Inr [1], p)"
      "run_events demo_wire [ReceiverReads 0 NoFault, ConnectCall] c1 = Some c2"
    using demo_loss by blast
  then have "run_events demo_wire [Written True ''a'' ''ping'', ReceiverReads 0 NoFault, ConnectCall] demo_linked = Some c2"
    by (auto simp del: client_event.simps split: option.splits)
  with silent_loss_is_permanent [OF demo_linked_up r(1) _ _ r(2,3)] show ?thesis by simp
qed

text \<open>A reconnect task whose client is not closed connects at the first attempt that the system
  answers, however many attempts and exhausted bursts came before, and leaves a fresh receive task
  and the state CONNECTED.\<close>

theorem reconnects_when_answered:
  assumes "redial_ready j c"
  shows "cl_state (redial_loop w j (replicate n None @ [Some (bytes, eof)]) c) = CONNECTED \<and>
     is_connected (cl_pipe (redial_loop w j (replicate n None @ [Some (bytes, eof)]) c)) \<and>
     p_in (cl_pipe (redial_loop w j (replicate n None @ [Some (bytes, eof)]) c)) = bytes \<and>
     cl_receive (redial_loop w j (replicate n None @ [Some (bytes, eof)]) c) = Some (length (cl_receivers c)) \<and>
     phase_of (redial_loop w j (replicate n None @ [Some (bytes, eof)]) c) (length (cl_receivers c)) = LoopHead"
  using redial_loop_connects [OF assms, of w n bytes eof] by (simp add: Let_def)

lemma reconnects_when_answered_witness:
  "\<exists>c. client_reachable demo_wire c \<and>
     cl_state (redial_loop demo_wire 0 (replicate 7 None @ [Some ([5], False)]) c) = CONNECTED"
proof -
  have "\<exists>c. run_events demo_wire (demo_reconnect @ [ReceiverReads 0 OsError, ReceiverDrops 0]) new_client = Some c \<and> redial_ready 0 c"
    by (simp add: demo_reconnect_def demo_client_simps redial_ready_def)
  then obtain c where c: "run_events demo_wire (demo_reconnect @ [ReceiverReads 0 OsError, ReceiverDrops 0]) new_client = Some c"
      and r: "redial_ready 0 c" by blast
  from reconnects_when_answered [OF r, of demo_wire 7 "[5]" False] run_events_reachable [OF created c]
  show ?thesis by blast
qed

text \<open>A request that is cancelled while its frame is written leaves its id among the pending ones, and
  its response does not remove it.\<close>

lemma cancelled_write_leaks:
  "\<exists>c. run_events demo_wire (demo_reconnect @ [Cancels ''a'', ReceiverReads 0 NoFault]) new_client = Some c \<and>
     cl_requests c ''a'' = Some (Settled RequestCancelled) \<and> pending_count c = 1"
  by (simp add: demo_reconnect_def demo_client_simps pending_count_def)

text \<open>\<open>connect()\<close> that was waiting for the transport when \<open>close()\<close> ran connects the closed client.\<close>

lemma close_loses_to_connect:
  "\<exists>c. run_events demo_wire [ConnectCall, CloseCall, ConnectAnswered (Some ([], False))] new_client = Some c \<and>
     cl_closed c \<and> cl_state c = CONNECTED \<and> is_connected (cl_pipe c)"
  by (simp add: demo_client_simps)

end
