(* ===== verification/Py_Regex.thy ===== *)
theory Py_Regex
  imports Tom_Prelude
begin

text \<open>
  The part of Python's \<open>re\<close> that the repository's compiled patterns use. A pattern is a value of \<open>rx\<close>;
  a position is the character before it and the text after it, which is what \<open>\b\<close> looks at and
  what anchors and one-character look-arounds (\<open>Test\<close>) test.
  \<open>rx_ends\<close> computes every position a match can end at, so \<open>rx_search\<close> decides \<open>pattern.search\<close>
  as a truth value, for which greediness does not matter. \<open>rx_run\<close> is the declarative meaning and
  \<open>rx_ends_iff\<close> shows that the two agree.
\<close>

subsection \<open>Patterns\<close>

type_synonym pos = "char option \<times> string"

datatype rx =
    Chars "char \<Rightarrow> bool" | Nil_rx | Boundary | Seq rx rx | Alt rx rx | Star rx | Not_ahead rx | Lazy rx | Test "pos \<Rightarrow> bool"

definition is_word_char :: "char \<Rightarrow> bool" where
  "is_word_char c \<longleftrightarrow> (let n = (of_char c :: nat) in
     (48 \<le> n \<and> n \<le> 57) \<or> (65 \<le> n \<and> n \<le> 90) \<or> (97 \<le> n \<and> n \<le> 122) \<or> n = 95)"

definition at_boundary :: "pos \<Rightarrow> bool" where
  "at_boundary x \<longleftrightarrow>
     (case fst x of None \<Rightarrow> False | Some c \<Rightarrow> is_word_char c) \<noteq>
     (case snd x of [] \<Rightarrow> False | c # _ \<Rightarrow> is_word_char c)"

text \<open>Zero or more rounds, each of which consumes something, up to \<open>n\<close> of them.\<close>

fun star_ends :: "(pos \<Rightarrow> pos list) \<Rightarrow> nat \<Rightarrow> pos \<Rightarrow> pos list" where
  "star_ends f 0 x = [x]"
| "star_ends f (Suc n) x =
     x # remdups (concat (map (star_ends f n) (filter (\<lambda>y. length (snd y) < length (snd x)) (f x))))"

primrec rx_ends :: "rx \<Rightarrow> pos \<Rightarrow> pos list" where
  "rx_ends (Chars P) x = (case snd x of [] \<Rightarrow> [] | c # cs \<Rightarrow> if P c then [(Some c, cs)] else [])"
| "rx_ends Nil_rx x = [x]"
| "rx_ends Boundary x = (if at_boundary x then [x] else [])"
| "rx_ends (Seq a b) x = remdups (concat (map (rx_ends b) (rx_ends a x)))"
| "rx_ends (Alt a b) x = rx_ends a x @ rx_ends b x"
| "rx_ends (Star r) x = star_ends (rx_ends r) (length (snd x)) x"
| "rx_ends (Not_ahead r) x = (if rx_ends r x = [] then [x] else [])"
| "rx_ends (Lazy r) x = star_ends (rx_ends r) (length (snd x)) x"
| "rx_ends (Test T) x = (if T x then [x] else [])"

fun positions :: "char option \<Rightarrow> string \<Rightarrow> pos list" where
  "positions p [] = [(p, [])]"
| "positions p (c # cs) = (p, c # cs) # positions (Some c) cs"

definition rx_search :: "rx \<Rightarrow> string \<Rightarrow> bool" where
  "rx_search r s = list_ex (\<lambda>x. rx_ends r x \<noteq> []) (positions None s)"

text \<open>Derived forms: a literal, \<open>r?\<close>, \<open>r{n}\<close>, \<open>r{n,}\<close>, a character set, and the \<open>(?i)\<close> forms.\<close>

definition rx_opt :: "rx \<Rightarrow> rx" where "rx_opt r = Alt r Nil_rx"

primrec rx_repeat :: "nat \<Rightarrow> rx \<Rightarrow> rx" where
  "rx_repeat 0 r = Nil_rx"
| "rx_repeat (Suc n) r = Seq r (rx_repeat n r)"

definition rx_at_least :: "nat \<Rightarrow> rx \<Rightarrow> rx" where
  "rx_at_least n r = Seq (rx_repeat n r) (Star r)"

definition rx_seq :: "rx list \<Rightarrow> rx" where "rx_seq rs = foldr Seq rs Nil_rx"

definition rx_alt :: "rx list \<Rightarrow> rx" where
  "rx_alt rs = (case rs of [] \<Rightarrow> Chars (\<lambda>_. False) | r # rs' \<Rightarrow> foldl Alt r rs')"

definition lit :: "string \<Rightarrow> rx" where "lit s = rx_seq (map (\<lambda>c. Chars (\<lambda>d. d = c)) s)"

definition lit_ci :: "string \<Rightarrow> rx" where
  "lit_ci s = rx_seq (map (\<lambda>c. Chars (\<lambda>d. lower_char d = lower_char c)) s)"

definition one_of :: "string \<Rightarrow> rx" where "one_of s = Chars (\<lambda>c. c \<in> set s)"

definition space_rx :: rx where "space_rx = Chars is_space"

definition is_alnum :: "char \<Rightarrow> bool" where
  "is_alnum c \<longleftrightarrow> is_word_char c \<and> c \<noteq> CHR ''_''"

definition alnum_or :: "string \<Rightarrow> rx" where
  "alnum_or extra = Chars (\<lambda>c. is_alnum c \<or> c \<in> set extra)"

subsection \<open>Meaning\<close>

inductive rx_run :: "rx \<Rightarrow> pos \<Rightarrow> pos \<Rightarrow> bool" where
  char: "P c \<Longrightarrow> rx_run (Chars P) (p, c # cs) (Some c, cs)"
| nil: "rx_run Nil_rx x x"
| boundary: "at_boundary x \<Longrightarrow> rx_run Boundary x x"
| seq: "rx_run a x y \<Longrightarrow> rx_run b y z \<Longrightarrow> rx_run (Seq a b) x z"
| left: "rx_run a x y \<Longrightarrow> rx_run (Alt a b) x y"
| right: "rx_run b x y \<Longrightarrow> rx_run (Alt a b) x y"
| stop: "rx_run (Star r) x x"
| round: "rx_run r x y \<Longrightarrow> rx_run (Star r) y z \<Longrightarrow> rx_run (Star r) x z"
| ahead: "rx_ends r x = [] \<Longrightarrow> rx_run (Not_ahead r) x x"
| lazy: "rx_run (Star r) x y \<Longrightarrow> rx_run (Lazy r) x y"
| test: "T x \<Longrightarrow> rx_run (Test T) x x"

inductive_cases rx_run_Star: "rx_run (Star r) x y"
inductive_simps rx_run_simps:
  "rx_run (Chars P) x y" "rx_run Nil_rx x y" "rx_run Boundary x y" "rx_run (Seq a b) x y" "rx_run (Alt a b) x y"
  "rx_run (Not_ahead r) x y" "rx_run (Lazy r) x y" "rx_run (Test T) x y"

lemma rx_run_suffix: "rx_run r x y \<Longrightarrow> suffix (snd y) (snd x)"
  by (induction rule: rx_run.induct) (auto intro: suffix_ConsI suffix_order.order_trans)

text \<open>Two positions of one run with the same rest are equal, so a round without progress goes nowhere.\<close>

lemma rx_run_no_progress: "rx_run r x y \<Longrightarrow> length (snd y) = length (snd x) \<Longrightarrow> y = x"
proof (induction rule: rx_run.induct)
  case (seq a x y b z)
  have "suffix (snd y) (snd x)" "suffix (snd z) (snd y)" using seq.hyps rx_run_suffix by blast+
  then have "length (snd y) = length (snd x)" "length (snd z) = length (snd y)"
    using suffix_length_le seq.prems by (metis le_antisym)+
  with seq.IH show ?case by simp
next
  case (round r x y z)
  have "suffix (snd y) (snd x)" "suffix (snd z) (snd y)" using round.hyps rx_run_suffix by blast+
  then have "length (snd y) = length (snd x)" "length (snd z) = length (snd y)"
    using suffix_length_le round.prems by (metis le_antisym)+
  with round.IH show ?case by simp
qed auto

lemma star_ends_Suc:
  "y \<in> set (star_ends f (Suc n) x) \<longleftrightarrow>
     y = x \<or> (\<exists>z \<in> set (f x). length (snd z) < length (snd x) \<and> y \<in> set (star_ends f n z))"
  by auto

lemma star_ends_iff:
  assumes f: "\<And>x y. y \<in> set (f x) \<longleftrightarrow> rx_run r x y" and "length (snd x) \<le> n"
  shows "y \<in> set (star_ends f n x) \<longleftrightarrow> rx_run (Star r) x y"
proof
  assume "y \<in> set (star_ends f n x)"
  then show "rx_run (Star r) x y"
  proof (induction n arbitrary: x)
    case (Suc n)
    then consider "y = x" | z where "z \<in> set (f x)" "y \<in> set (star_ends f n z)" by auto
    then show ?case using Suc.IH by cases (auto simp: f intro: rx_run.intros)
  qed (auto intro: rx_run.intros)
next
  assume "rx_run (Star r) x y"
  then show "y \<in> set (star_ends f n x)" using assms(2)
  proof (induction "Star r" x y arbitrary: n rule: rx_run.induct)
    case (stop x) then show ?case by (cases n) auto
  next
    case (round x y z)
    show ?case
    proof (cases "length (snd y) < length (snd x)")
      case True
      with round.prems obtain m where m: "n = Suc m" "length (snd y) \<le> m" by (cases n) auto
      from round.hyps(4) [OF m(2)] have z: "z \<in> set (star_ends f m y)" .
      have "y \<in> set (f x)" using round.hyps(1) by (simp only: f)
      with z True show ?thesis unfolding m(1) star_ends_Suc by blast
    next
      case False
      with rx_run_suffix [OF round.hyps(1)] have "length (snd y) = length (snd x)"
        by (auto dest: suffix_length_le)
      with rx_run_no_progress [OF round.hyps(1)] have "y = x" by simp
      with round show ?thesis by simp
    qed
  qed
qed

lemma rx_ends_iff: "y \<in> set (rx_ends r x) \<longleftrightarrow> rx_run r x y"
proof (induction r arbitrary: x y)
  case (Star r)
  from star_ends_iff [OF this order_refl] show ?case by simp
next
  case (Lazy r)
  from star_ends_iff [OF this order_refl] show ?case by (simp add: rx_run_simps)
next
  case (Seq a b)
  have "y \<in> set (rx_ends (Seq a b) x) \<longleftrightarrow> (\<exists>z \<in> set (rx_ends a x). y \<in> set (rx_ends b z))" by simp
  also have "\<dots> \<longleftrightarrow> (\<exists>z. rx_run a x z \<and> rx_run b z y)" unfolding Seq.IH Bex_def ..
  finally show ?case by (simp only: rx_run_simps(4) split_paired_Ex)
qed (auto simp: rx_run_simps split: list.splits)

lemma positions_iff: "(q, t) \<in> set (positions p s) \<longleftrightarrow>
    (\<exists>u. s = u @ t \<and> q = (if u = [] then p else Some (last u)))"
proof (induction s arbitrary: p)
  case Nil then show ?case by auto
next
  case (Cons c cs)
  note IH = Cons.IH [of "Some c"]
  show ?case
  proof
    assume "(q, t) \<in> set (positions p (c # cs))"
    then consider "q = p" "t = c # cs" | "(q, t) \<in> set (positions (Some c) cs)" by auto
    then show "\<exists>u. c # cs = u @ t \<and> q = (if u = [] then p else Some (last u))"
    proof cases
      case 2
      with Cons obtain u where "cs = u @ t" "q = (if u = [] then Some c else Some (last u))" by blast
      then show ?thesis by (intro exI [of _ "c # u"]) auto
    qed auto
  next
    assume "\<exists>u. c # cs = u @ t \<and> q = (if u = [] then p else Some (last u))"
    then obtain u where u: "c # cs = u @ t" "q = (if u = [] then p else Some (last u))" by blast
    show "(q, t) \<in> set (positions p (c # cs))"
    proof (cases u)
      case Nil
      with u have "t = c # cs" "q = p" by auto
      then show ?thesis by simp
    next
      case (Cons d v)
      note tail = this
      from tail u have "cs = v @ t" "q = (if v = [] then Some c else Some (last v))" by auto
      then show ?thesis using IH by auto
    qed
  qed
qed

text \<open>\<open>search\<close> succeeds when a run of the pattern starts somewhere in the text.\<close>

lemma rx_search_iff:
  "rx_search r s \<longleftrightarrow> (\<exists>u t y. s = u @ t \<and> rx_run r (if u = [] then None else Some (last u), t) y)"
proof -
  have "rx_ends r x \<noteq> [] \<longleftrightarrow> (\<exists>y. rx_run r x y)" for x
    using rx_ends_iff [of _ r x] by (metis last_in_set list.set_intros(1) neq_Nil_conv empty_iff list.set(1))
  then show ?thesis
    unfolding rx_search_def list_ex_iff Bex_def split_paired_Ex positions_iff by blast
qed

subsection \<open>Texts a pattern accepts anywhere\<close>

definition after_text :: "char option \<Rightarrow> string \<Rightarrow> char option" where
  "after_text p u = (if u = [] then p else Some (last u))"

text \<open>The pattern can consume exactly \<open>u\<close>, whatever stands around it.\<close>

definition takes :: "rx \<Rightarrow> string \<Rightarrow> bool" where
  "takes r u \<longleftrightarrow> (\<forall>p t. rx_run r (p, u @ t) (after_text p u, t))"

lemma after_text_append: "after_text (after_text p u) v = after_text p (u @ v)"
  by (simp add: after_text_def)

lemma takes_Seq: "takes a u \<Longrightarrow> takes b v \<Longrightarrow> takes (Seq a b) (u @ v)"
  unfolding takes_def by (metis after_text_append append.assoc rx_run.seq)

lemma takes_Nil_rx: "takes Nil_rx []" by (simp add: takes_def after_text_def rx_run.nil)

lemma takes_Chars: "P c \<Longrightarrow> takes (Chars P) [c]" by (simp add: takes_def after_text_def rx_run.char)

lemma takes_Alt: "takes a u \<Longrightarrow> takes (Alt a b) u" "takes b u \<Longrightarrow> takes (Alt a b) u"
  unfolding takes_def by (auto intro: rx_run.intros)

lemma takes_opt: "u = [] \<or> takes r u \<Longrightarrow> takes (rx_opt r) u"
  unfolding rx_opt_def using takes_Alt takes_Nil_rx by blast

lemma takes_Star: "list_all P u \<Longrightarrow> takes (Star (Chars P)) u"
proof (induction u)
  case Nil then show ?case by (simp add: takes_def after_text_def rx_run.stop)
next
  case (Cons c u)
  have "rx_run (Star (Chars P)) (p, (c # u) @ t) (after_text p (c # u), t)" for p t
  proof (rule rx_run.round)
    show "rx_run (Chars P) (p, (c # u) @ t) (Some c, u @ t)" using Cons.prems by (simp add: rx_run.char)
    have "rx_run (Star (Chars P)) (Some c, u @ t) (after_text (Some c) u, t)" using Cons unfolding takes_def by simp
    then show "rx_run (Star (Chars P)) (Some c, u @ t) (after_text p (c # u), t)" by (cases u) (simp_all add: after_text_def)
  qed
  then show ?case by (simp add: takes_def)
qed

lemma takes_repeat: "list_all P u \<Longrightarrow> takes (rx_repeat (length u) (Chars P)) u"
  using takes_Seq [OF takes_Chars] by (induction u) (fastforce simp: takes_Nil_rx)+

lemma takes_at_least:
  assumes "list_all P u" and "n \<le> length u"
  shows "takes (rx_at_least n (Chars P)) u"
proof -
  have "takes (rx_repeat n (Chars P)) (take n u)"
    using takes_repeat [of P "take n u"] assms by (simp add: list_all_length min_absorb2)
  moreover have "takes (Star (Chars P)) (drop n u)" using assms by (intro takes_Star) (auto simp: list_all_length)
  ultimately show ?thesis unfolding rx_at_least_def using takes_Seq by fastforce
qed

lemma takes_rx_seq: "list_all2 takes rs us \<Longrightarrow> takes (rx_seq rs) (concat us)"
  by (induction rule: list_all2_induct) (auto simp: rx_seq_def takes_Nil_rx intro: takes_Seq)

lemma takes_chars_seq: "list_all2 (\<lambda>P c. P c) Ps u \<Longrightarrow> takes (rx_seq (map Chars Ps)) u"
proof (induction Ps u rule: list_all2_induct)
  case Nil then show ?case by (simp add: rx_seq_def takes_Nil_rx)
next
  case (Cons P Ps c u)
  with takes_Seq [OF takes_Chars, of P c] show ?case by (simp add: rx_seq_def)
qed

lemma takes_lit: "takes (lit u) u"
proof -
  have "lit u = rx_seq (map Chars (map (\<lambda>c d. d = c) u))" by (simp add: lit_def comp_def)
  then show ?thesis using takes_chars_seq [of "map (\<lambda>c d. d = c) u" u] by (simp add: list_all2_conv_all_nth)
qed

lemma takes_lit_ci: "lower v = lower u \<Longrightarrow> takes (lit_ci u) v"
proof -
  assume "lower v = lower u"
  then have "list_all2 (\<lambda>P c. P c) (map (\<lambda>c d. lower_char d = lower_char c) u) v"
    unfolding lower_def by (auto simp: list_all2_conv_all_nth dest: map_eq_imp_length_eq) (metis map_eq_imp_length_eq nth_map)
  moreover have "lit_ci u = rx_seq (map Chars (map (\<lambda>c d. lower_char d = lower_char c) u))" by (simp add: lit_ci_def comp_def)
  ultimately show ?thesis using takes_chars_seq by metis
qed

lemma takes_search: "takes r u \<Longrightarrow> rx_search r (pre @ u @ post)"
  unfolding rx_search_iff takes_def by blast

text \<open>The fewest characters a match consumes.\<close>

primrec min_len :: "rx \<Rightarrow> nat" where
  "min_len (Chars P) = 1"
| "min_len Nil_rx = 0"
| "min_len Boundary = 0"
| "min_len (Seq a b) = min_len a + min_len b"
| "min_len (Alt a b) = min (min_len a) (min_len b)"
| "min_len (Star r) = 0"
| "min_len (Not_ahead r) = 0"
| "min_len (Lazy r) = 0"
| "min_len (Test T) = 0"

lemma rx_run_min_len: "rx_run r x y \<Longrightarrow> min_len r + length (snd y) \<le> length (snd x)"
proof (induction rule: rx_run.induct)
  case (round r x y z)
  then show ?case using suffix_length_le rx_run_suffix [OF rx_run.round, OF round.hyps] by fastforce
qed auto

lemma rx_search_min_len: "rx_search r s \<Longrightarrow> min_len r \<le> length s"
  unfolding rx_search_iff using rx_run_min_len by fastforce

lemma min_len_rx_seq [simp]: "min_len (rx_seq rs) = sum_list (map min_len rs)"
  unfolding rx_seq_def by (induction rs) simp_all

lemma min_len_derived [simp]:
  "min_len (lit s) = length s" "min_len (lit_ci s) = length s" "min_len (rx_opt r) = 0"
  "min_len (rx_repeat n r) = n * min_len r" "min_len (rx_at_least n r) = n * min_len r"
  "min_len (one_of s) = 1" "min_len (alnum_or s) = 1" "min_len space_rx = 1"
proof -
  have rep: "min_len (rx_repeat k r) = k * min_len r" for k by (induction k) simp_all
  then show "min_len (rx_repeat n r) = n * min_len r" "min_len (rx_at_least n r) = n * min_len r"
    by (simp_all add: rx_at_least_def)
  show "min_len (lit s) = length s" "min_len (lit_ci s) = length s"
    by (simp_all add: lit_def lit_ci_def comp_def sum_list_triv)
qed (simp_all add: rx_opt_def one_of_def alnum_or_def space_rx_def)

lemma min_len_rx_alt: "min_len (rx_alt (r # rs)) = fold (\<lambda>r n. min n (min_len r)) rs (min_len r)"
  unfolding rx_alt_def by (induction rs arbitrary: r) simp_all

end
