(* ===== verification/Memory_Policy.thy ===== *)
theory Memory_Policy
  imports Py_Regex Permissions
begin

text \<open>
  Models \<open>python/tom/memory/policies.py\<close> and the record schema of \<open>python/tom/schemas/memory.py\<close>: the
  credential patterns, the entropy test, the scan of metadata and the verdict on a record. The
  patterns are values of the regular expressions of \<^theory_text>\<open>Py_Regex\<close>. Entropies are real numbers
  where the code has floats. A datetime is an instant with the offset it is written in.
\<close>

subsection \<open>Records\<close>

datatype memory_type = EPISODIC | SEMANTIC | PREFERENCE | TASK_MEMORY | EVENT_MEMORY
datatype memory_importance = LOW | USEFUL | IMPORTANT | CRITICAL_MEMORY

fun importance_weight :: "memory_importance \<Rightarrow> nat" where
  "importance_weight LOW = 1"
| "importance_weight USEFUL = 2"
| "importance_weight IMPORTANT = 3"
| "importance_weight CRITICAL_MEMORY = 4"

record stamp =
  at_utc :: rat
  utc_offset :: int

record memory_record =
  mr_id :: string
  mr_type :: memory_type
  mr_content :: string
  mr_created :: stamp
  mr_updated :: stamp
  mr_importance :: memory_importance
  mr_source :: "string option"
  mr_confirmed :: bool
  mr_expires :: "stamp option"
  mr_metadata :: "(string \<times> payload) list"

subsection \<open>Credential patterns\<close>

definition spaces :: rx where "spaces = rx_at_least 1 space_rx"

definition pem_header :: "string list \<Rightarrow> rx" where
  "pem_header ws = rx_seq [lit ''-----'', lit_ci ''BEGIN'', spaces,
     rx_seq (map (\<lambda>w. Seq (lit_ci w) spaces) (butlast ws)), lit_ci (last ws), lit ''-----'']"

definition pem_private_key :: rx where
  "pem_private_key = rx_seq [lit ''-----'', lit_ci ''BEGIN'', spaces,
     rx_opt (Seq (rx_at_least 1 (alnum_or ''_-'')) spaces), lit_ci ''PRIVATE'', spaces, lit_ci ''KEY'', lit ''-----'']"

definition upper_or_digit :: "char \<Rightarrow> bool" where
  "upper_or_digit c \<longleftrightarrow> is_digit c \<or> (of_char c :: nat) \<in> {65..90}"

definition digit_rx :: rx where "digit_rx = Chars is_digit"

definition bounded_by_words :: "rx list \<Rightarrow> rx" where
  "bounded_by_words rs = Seq Boundary (Seq (rx_seq rs) Boundary)"

definition credential_names :: "rx list" where
  "credential_names =
     (let sep = rx_opt (one_of ''_-'')
      in [rx_seq [lit_ci ''api'', sep, lit_ci ''key''], rx_seq [lit_ci ''secret'', sep, lit_ci ''key''],
          rx_seq [lit_ci ''access'', sep, lit_ci ''token''], rx_seq [lit_ci ''auth'', sep, lit_ci ''token''],
          rx_seq [lit_ci ''client'', sep, lit_ci ''secret''], lit_ci ''password'', lit_ci ''passwd'', lit_ci ''pwd'',
          lit_ci ''db_password''])"

definition quote_chars :: string where "quote_chars = [CHR 0x27, CHR 0x22]"

definition assignment_rx :: rx where
  "assignment_rx = rx_seq [Boundary, rx_alt credential_names, Boundary, Star space_rx, one_of '':='', Star space_rx,
     rx_opt (one_of quote_chars), rx_at_least 6 (Chars (\<lambda>c. \<not> is_space c \<and> c \<notin> set quote_chars)),
     rx_opt (one_of quote_chars)]"

definition secret_patterns :: "rx list" where
  "secret_patterns =
    [pem_private_key,
     pem_header [''RSA'', ''PRIVATE'', ''KEY''], pem_header [''EC'', ''PRIVATE'', ''KEY''],
     pem_header [''DSA'', ''PRIVATE'', ''KEY''], pem_header [''OPENSSH'', ''PRIVATE'', ''KEY''],
     pem_header [''PGP'', ''PRIVATE'', ''KEY'', ''BLOCK''], pem_header [''ENCRYPTED'', ''PRIVATE'', ''KEY''],
     pem_header [''CERTIFICATE''],
     bounded_by_words [lit ''sk-'', rx_opt (rx_alt [lit ''proj-'', lit ''ant-'', lit ''svcacct-'']), rx_at_least 20 (alnum_or ''_-'')],
     bounded_by_words [rx_alt [lit ''AKIA'', lit ''ABIA'', lit ''ACCA'', lit ''ASIA''], rx_repeat 16 (Chars upper_or_digit)],
     bounded_by_words [rx_alt [lit ''ghp'', lit ''gho'', lit ''ghu'', lit ''ghs'', lit ''ghr''], lit ''_'', rx_at_least 36 (alnum_or ''_'')],
     bounded_by_words [lit ''github_pat_'', rx_at_least 22 (alnum_or ''_'')],
     bounded_by_words [lit ''xox'', one_of ''baprs'', lit ''-'', rx_at_least 10 digit_rx, lit ''-'', rx_at_least 10 (alnum_or [])],
     bounded_by_words [lit ''AIza'', rx_repeat 35 (alnum_or ''-_'')],
     bounded_by_words [rx_alt [lit ''sk'', lit ''rk''], lit ''_'', rx_alt [lit ''live'', lit ''test''], lit ''_'', rx_at_least 24 (alnum_or [])],
     bounded_by_words [lit ''hf_'', rx_at_least 34 (alnum_or [])],
     assignment_rx,
     bounded_by_words [lit_ci ''Bearer'', spaces, rx_at_least 20 (alnum_or ''_-.~+/''), Star (lit ''='')],
     bounded_by_words [lit ''eyJ'', rx_at_least 10 (alnum_or ''_-''), lit ''.'', rx_at_least 10 (alnum_or ''_-''), lit ''.'',
       rx_at_least 10 (alnum_or ''_-'')]]"

subsection \<open>Entropy\<close>

text \<open>\<open>findall\<close> of a character class with a minimal length: the maximal runs that are long enough.\<close>

fun class_runs :: "(char \<Rightarrow> bool) \<Rightarrow> string \<Rightarrow> string \<Rightarrow> string list" where
  "class_runs P w [] = [w]"
| "class_runs P w (c # cs) = (if P c then class_runs P (w @ [c]) cs else w # class_runs P [] cs)"

definition entropy_tokens :: "string \<Rightarrow> string list" where
  "entropy_tokens s =
     filter (\<lambda>w. 24 \<le> length w) (class_runs (\<lambda>c. is_alnum c \<or> c \<in> set ''+/=_-$#@!~^%&*'') [] s)"

definition shannon_entropy :: "string \<Rightarrow> real" where
  "shannon_entropy s =
     (if s = [] then 0
      else \<Sum>c \<leftarrow> remdups s. - (let p = real (count_list s c) / real (length s) in p * log 2 p))"

definition char_classes :: "string \<Rightarrow> nat" where
  "char_classes s =
     of_bool (list_ex is_digit s) + of_bool (list_ex (\<lambda>c. (of_char c :: nat) \<in> {65..90}) s) +
     of_bool (list_ex (\<lambda>c. (of_char c :: nat) \<in> {97..122}) s) + of_bool (list_ex (\<lambda>c. \<not> is_alnum c) s)"

record memory_policy =
  entropy_threshold :: real
  min_token_len :: nat

definition default_memory_policy :: memory_policy where
  "default_memory_policy = \<lparr>entropy_threshold = 42 / 10, min_token_len = 24\<rparr>"

definition suspicious_token :: "memory_policy \<Rightarrow> string \<Rightarrow> bool" where
  "suspicious_token pol w \<longleftrightarrow>
     min_token_len pol \<le> length w \<and> 2 \<le> char_classes w \<and> entropy_threshold pol \<le> shannon_entropy w"

definition scan_for_secrets :: "memory_policy \<Rightarrow> string \<Rightarrow> bool" where
  "scan_for_secrets pol s \<longleftrightarrow>
     s \<noteq> [] \<and> (list_ex (\<lambda>r. rx_search r s) secret_patterns \<or> list_ex (suspicious_token pol) (entropy_tokens s))"

subsection \<open>Metadata and the verdict\<close>

text \<open>Strings and dictionaries inside a sequence are scanned; a sequence inside a sequence is not.\<close>

fun scan_metadata :: "memory_policy \<Rightarrow> (string \<times> payload) list \<Rightarrow> bool"
  and scan_items :: "memory_policy \<Rightarrow> payload list \<Rightarrow> bool" where
  "scan_metadata pol [] = False"
| "scan_metadata pol ((k, PStr s) # d) = (scan_for_secrets pol s \<or> scan_metadata pol d)"
| "scan_metadata pol ((k, PDict d') # d) = (scan_metadata pol d' \<or> scan_metadata pol d)"
| "scan_metadata pol ((k, PSeq vs) # d) = (scan_items pol vs \<or> scan_metadata pol d)"
| "scan_metadata pol ((k, POther) # d) = scan_metadata pol d"
| "scan_items pol [] = False"
| "scan_items pol (PStr s # vs) = (scan_for_secrets pol s \<or> scan_items pol vs)"
| "scan_items pol (PDict d # vs) = (scan_metadata pol d \<or> scan_items pol vs)"
| "scan_items pol (PSeq ws # vs) = scan_items pol vs"
| "scan_items pol (POther # vs) = scan_items pol vs"

datatype verdict = ACCEPT | REJECT_SECRET | REJECT_EXPIRY | REQUIRE_CONFIRMATION

definition evaluate_memory :: "memory_policy \<Rightarrow> memory_record \<Rightarrow> verdict" where
  "evaluate_memory pol r =
     (if scan_for_secrets pol (mr_content r) then REJECT_SECRET
      else if mr_metadata r \<noteq> [] \<and> scan_metadata pol (mr_metadata r) then REJECT_SECRET
      else if (case mr_expires r of None \<Rightarrow> False | Some x \<Rightarrow> at_utc x \<le> at_utc (mr_created r)) then REJECT_EXPIRY
      else if mr_importance r \<in> {IMPORTANT, CRITICAL_MEMORY} \<and> \<not> mr_confirmed r then REQUIRE_CONFIRMATION
      else ACCEPT)"

subsection \<open>What the scan finds\<close>

lemma takes_spaces: "sp \<noteq> [] \<Longrightarrow> list_all is_space sp \<Longrightarrow> takes spaces sp"
  unfolding spaces_def space_rx_def by (rule takes_at_least) (auto simp: Suc_le_eq)

lemma secret_pattern_found:
  "r \<in> set secret_patterns \<Longrightarrow> takes r u \<Longrightarrow> u \<noteq> [] \<Longrightarrow> scan_for_secrets pol (pre @ u @ post)"
  using takes_search [of r u pre post] by (auto simp: scan_for_secrets_def list_ex_iff)

text \<open>A PEM header of a private key is found anywhere in a text, in any letter case, with any
  white space between its words and with any algorithm name of letters, digits, \<open>_\<close> and \<open>-\<close>.\<close>

theorem private_key_found:
  assumes "lower b = ''begin''" "lower pr = ''private''" "lower k = ''key''"
    and "sp1 \<noteq> []" "list_all is_space sp1" "sp2 \<noteq> []" "list_all is_space sp2"
    and "algo = [] \<or> (\<exists>name sp. algo = name @ sp \<and> name \<noteq> [] \<and> list_all (\<lambda>c. is_alnum c \<or> c \<in> set ''_-'') name \<and>
           sp \<noteq> [] \<and> list_all is_space sp)"
  shows "scan_for_secrets pol (pre @ (''-----'' @ b @ sp1 @ algo @ pr @ sp2 @ k @ ''-----'') @ post)"
proof (rule secret_pattern_found)
  show "pem_private_key \<in> set secret_patterns" by (simp add: secret_patterns_def)
  have ci: "takes (lit_ci ''BEGIN'') b" "takes (lit_ci ''PRIVATE'') pr" "takes (lit_ci ''KEY'') k"
  proof -
    have "lower ''BEGIN'' = ''begin''" "lower ''PRIVATE'' = ''private''" "lower ''KEY'' = ''key''" by code_simp+
    with assms(1-3) show "takes (lit_ci ''BEGIN'') b" "takes (lit_ci ''PRIVATE'') pr" "takes (lit_ci ''KEY'') k"
      by (simp_all add: takes_lit_ci)
  qed
  have algo: "takes (rx_opt (Seq (rx_at_least 1 (alnum_or ''_-'')) spaces)) algo"
  proof (rule takes_opt)
    show "algo = [] \<or> takes (Seq (rx_at_least 1 (alnum_or ''_-'')) spaces) algo"
      using assms(8) by (auto simp: alnum_or_def Suc_le_eq intro!: takes_Seq takes_at_least takes_spaces)
  qed
  have "list_all2 takes [lit ''-----'', lit_ci ''BEGIN'', spaces, rx_opt (Seq (rx_at_least 1 (alnum_or ''_-'')) spaces),
      lit_ci ''PRIVATE'', spaces, lit_ci ''KEY'', lit ''-----''] [''-----'', b, sp1, algo, pr, sp2, k, ''-----'']"
    using ci algo takes_lit takes_spaces assms(4-7) by simp
  from takes_rx_seq [OF this] show "takes pem_private_key (''-----'' @ b @ sp1 @ algo @ pr @ sp2 @ k @ ''-----'')"
    by (simp add: pem_private_key_def)
qed simp

lemma private_key_found_witness:
  "scan_for_secrets default_memory_policy
     (''note: '' @ (''-----'' @ ''Begin'' @ '' '' @ (''RSA'' @ '' '') @ ''PRIVATE'' @ ''  '' @ ''KEY'' @ ''-----'') @ ''MIIE'')"
proof (rule private_key_found)
  show "lower ''Begin'' = ''begin''" "lower ''PRIVATE'' = ''private''" "lower ''KEY'' = ''key''" by code_simp+
  show "''RSA'' @ '' '' = [] \<or> (\<exists>name sp. ''RSA'' @ '' '' = name @ sp \<and> name \<noteq> [] \<and>
      list_all (\<lambda>c. is_alnum c \<or> c \<in> set ''_-'') name \<and> sp \<noteq> [] \<and> list_all is_space sp)"
    by (intro disjI2 exI [of _ "''RSA''"] exI [of _ "'' ''"]) (simp add: is_space_def is_alnum_def is_word_char_def)
qed (simp_all add: is_space_def)

inductive scanned_text :: "(string \<times> payload) list \<Rightarrow> string \<Rightarrow> bool" where
  direct: "(k, PStr s) \<in> set d \<Longrightarrow> scanned_text d s"
| nested: "(k, PDict d') \<in> set d \<Longrightarrow> scanned_text d' s \<Longrightarrow> scanned_text d s"
| item: "(k, PSeq vs) \<in> set d \<Longrightarrow> PStr s \<in> set vs \<Longrightarrow> scanned_text d s"
| item_dict: "(k, PSeq vs) \<in> set d \<Longrightarrow> PDict d' \<in> set vs \<Longrightarrow> scanned_text d' s \<Longrightarrow> scanned_text d s"

lemma scanned_text_Cons: "scanned_text d s \<Longrightarrow> scanned_text (e # d) s"
  by (induction rule: scanned_text.induct) (auto intro: scanned_text.intros)

lemma scan_metadata_member:
  "scan_metadata pol d \<longleftrightarrow> (\<exists>(k, v) \<in> set d. case v of PStr s \<Rightarrow> scan_for_secrets pol s | PDict d' \<Rightarrow> scan_metadata pol d'
     | PSeq vs \<Rightarrow> scan_items pol vs | POther \<Rightarrow> False)"
proof (induction d)
  case (Cons e d)
  obtain k v where "e = (k, v)" by force
  with Cons show ?case by (cases v) auto
qed simp

lemma scan_items_member:
  "scan_items pol vs \<longleftrightarrow> (\<exists>v \<in> set vs. case v of PStr s \<Rightarrow> scan_for_secrets pol s | PDict d' \<Rightarrow> scan_metadata pol d' | _ \<Rightarrow> False)"
proof (induction vs)
  case (Cons v vs)
  then show ?case by (cases v) auto
qed simp

text \<open>The scan of metadata is exact: it reports a secret just when a text that is a value, is inside
  nested dictionaries, or is an item of a list that is such a value, is one.\<close>

theorem metadata_scan_exact:
  "scan_metadata pol d = (\<exists>s. scanned_text d s \<and> scan_for_secrets pol s)"
proof
  have "scan_metadata pol d \<Longrightarrow> \<exists>s. scanned_text d s \<and> scan_for_secrets pol s"
    and "scan_items pol vs \<Longrightarrow> \<exists>s. (PStr s \<in> set vs \<or> (\<exists>d'. PDict d' \<in> set vs \<and> scanned_text d' s)) \<and> scan_for_secrets pol s"
    for d vs
  proof (induction pol d and pol vs rule: scan_metadata_scan_items.induct)
    case (2 pol k s d)
    then show ?case using direct [of k s "(k, PStr s) # d"] scanned_text_Cons [of d] by auto
  next
    case (3 pol k d' d)
    then show ?case using nested [of k d' "(k, PDict d') # d"] scanned_text_Cons [of d]
      by (metis list.set_intros(1) scan_metadata.simps(3))
  next
    case (4 pol k vs d)
    then show ?case
      using item [of k vs "(k, PSeq vs) # d"] item_dict [of k vs "(k, PSeq vs) # d"] scanned_text_Cons [of d]
      by (metis list.set_intros(1) scan_metadata.simps(4))
  next
    case (5 pol k d)
    then show ?case using scanned_text_Cons [of d] by auto
  next
    case (7 pol s vs)
    then show ?case by auto
  next
    case (8 pol d vs)
    then show ?case by auto
  qed auto
  then show "scan_metadata pol d \<Longrightarrow> \<exists>s. scanned_text d s \<and> scan_for_secrets pol s" by blast
next
  assume "\<exists>s. scanned_text d s \<and> scan_for_secrets pol s"
  then obtain s where "scanned_text d s" "scan_for_secrets pol s" by blast
  then show "scan_metadata pol d"
  proof (induction rule: scanned_text.induct)
    case (item_dict k vs d d' s)
    then have "scan_items pol vs" by (subst scan_items_member) (auto intro!: bexI [of _ "PDict d'"])
    with item_dict.hyps(1) show ?case by (subst scan_metadata_member) (auto intro!: bexI [of _ "(k, PSeq vs)"])
  next
    case (item k vs d s)
    then have "scan_items pol vs" by (subst scan_items_member) (auto intro!: bexI [of _ "PStr s"])
    with item show ?case by (subst scan_metadata_member) (auto intro!: bexI [of _ "(k, PSeq vs)"])
  next
    case (direct k s d)
    then show ?case by (subst scan_metadata_member) (auto intro!: bexI [of _ "(k, PStr s)"])
  next
    case (nested k d' d s)
    then show ?case by (subst scan_metadata_member) (auto intro!: bexI [of _ "(k, PDict d')"])
  qed
qed

text \<open>A text in a list inside a list is never looked at, whatever it is.\<close>

lemma list_in_list_unscanned: "\<not> scan_metadata pol [(k, PSeq [PSeq [PStr s]])]"
  by simp

text \<open>The shortest credential has ten characters, so shorter texts pass.\<close>

lemma short_text_clean: "length s < 10 \<Longrightarrow> \<not> scan_for_secrets pol s"
proof -
  assume short: "length s < 10"
  have "list_all (\<lambda>r. 10 \<le> min_len r) secret_patterns"
    by (simp add: secret_patterns_def pem_private_key_def pem_header_def bounded_by_words_def assignment_rx_def
        credential_names_def spaces_def digit_rx_def min_len_rx_alt Let_def)
  then have "\<not> rx_search r s" if "r \<in> set secret_patterns" for r
    using rx_search_min_len [of r s] that short by (fastforce simp: list_all_iff)
  moreover have "length w \<le> length (u @ s)" if "w \<in> set (class_runs P u s)" for P w u
    using that
  proof (induction P u s rule: class_runs.induct)
    case (2 P u c cs)
    then show ?case by (auto split: if_splits)
  qed simp
  then have "entropy_tokens s = []" using short unfolding entropy_tokens_def filter_empty_conv by fastforce
  ultimately show ?thesis by (auto simp: scan_for_secrets_def list_ex_iff)
qed

end
