(* ===== verification/Memory_Store.thy ===== *)
theory Memory_Store
  imports Memory_Policy "HOL-Library.Multiset"
begin

text \<open>
  Models \<open>SQLiteMemory\<close> of \<open>python/tom/memory/sqlite.py\<close>: one table of memory rows, keyed by id, in the
  order of insertion. Columns that hold datetimes are ISO strings and SQL compares them as strings:
  \<open>iso_key\<close> is that order (local time first, then the text of the offset). SQL leaves the order of
  equal \<open>created_at\<close> open; the model lists the later inserted row first. JSON printing of metadata is
  an argument. SQL text, connections and locking are left out.
\<close>

subsection \<open>Rows\<close>

definition iso_key :: "stamp \<Rightarrow> rat \<times> nat \<times> nat" where
  "iso_key x = (at_utc x + rat_of_int (utc_offset x), if utc_offset x < 0 then 1 else 0, nat \<bar>utc_offset x\<bar>)"

record memory_row =
  row_record :: memory_record
  row_weight :: nat

type_synonym memory_table = "(string, memory_row) dict"

definition row_live :: "stamp \<Rightarrow> memory_row \<Rightarrow> bool" where
  "row_live now row = (case mr_expires (row_record row) of None \<Rightarrow> True | Some x \<Rightarrow> iso_key now \<le> iso_key x)"

definition newest_first :: "memory_row list \<Rightarrow> memory_row list" where
  "newest_first rows = rev (sort_key (\<lambda>row. iso_key (mr_created (row_record row))) rows)"

subsection \<open>Writing\<close>

text \<open>The upsert keeps the \<open>created_at\<close> of an existing row.\<close>

definition store_memory :: "memory_record \<Rightarrow> memory_table \<Rightarrow> memory_table" where
  "store_memory r t =
     (let r' = (case dict_get t (mr_id r) of None \<Rightarrow> r | Some old \<Rightarrow> r\<lparr>mr_created := mr_created (row_record old)\<rparr>)
      in dict_set (mr_id r) \<lparr>row_record = r', row_weight = importance_weight (mr_importance r)\<rparr> t)"

definition get_memory :: "string \<Rightarrow> memory_table \<Rightarrow> memory_record option" where
  "get_memory mid t = map_option row_record (dict_get t mid)"

text \<open>A keyword argument of \<open>update\<close>: a permitted column with its value, a value the code refuses, or
  any other name.\<close>

datatype field_update =
    Set_type memory_type | Set_content string | Set_importance memory_importance | Set_source "string option"
  | Set_confirmed bool | Set_expires "stamp option" | Set_metadata "(string \<times> payload) list" | Set_updated stamp
  | Bad_value | Unknown_field string

datatype store_error = InvalidFields | ValueRefused

definition is_unknown :: "field_update \<Rightarrow> bool" where
  "is_unknown f = (case f of Unknown_field _ \<Rightarrow> True | _ \<Rightarrow> False)"

definition refused_value :: "field_update \<Rightarrow> bool" where
  "refused_value f = (case f of Set_content s \<Rightarrow> strip s = [] | Bad_value \<Rightarrow> True | _ \<Rightarrow> False)"

fun apply_field :: "field_update \<Rightarrow> memory_row \<Rightarrow> memory_row" where
  "apply_field (Set_type x) row = row\<lparr>row_record := (row_record row)\<lparr>mr_type := x\<rparr>\<rparr>"
| "apply_field (Set_content x) row = row\<lparr>row_record := (row_record row)\<lparr>mr_content := x\<rparr>\<rparr>"
| "apply_field (Set_importance x) row =
     row\<lparr>row_record := (row_record row)\<lparr>mr_importance := x\<rparr>, row_weight := importance_weight x\<rparr>"
| "apply_field (Set_source x) row = row\<lparr>row_record := (row_record row)\<lparr>mr_source := x\<rparr>\<rparr>"
| "apply_field (Set_confirmed x) row = row\<lparr>row_record := (row_record row)\<lparr>mr_confirmed := x\<rparr>\<rparr>"
| "apply_field (Set_expires x) row = row\<lparr>row_record := (row_record row)\<lparr>mr_expires := x\<rparr>\<rparr>"
| "apply_field (Set_metadata x) row = row\<lparr>row_record := (row_record row)\<lparr>mr_metadata := x\<rparr>\<rparr>"
| "apply_field (Set_updated x) row = row\<lparr>row_record := (row_record row)\<lparr>mr_updated := x\<rparr>\<rparr>"
| "apply_field _ row = row"

definition sets_updated :: "field_update \<Rightarrow> bool" where
  "sets_updated f = (case f of Set_updated _ \<Rightarrow> True | _ \<Rightarrow> False)"

definition update_memory ::
  "stamp \<Rightarrow> string \<Rightarrow> field_update list \<Rightarrow> memory_table \<Rightarrow> (store_error + bool) \<times> memory_table" where
  "update_memory now mid fs t =
     (if fs = [] then (Inr False, t)
      else if list_ex is_unknown fs then (Inl InvalidFields, t)
      else case dict_get t mid of
             None \<Rightarrow> (Inr False, t)
           | Some row \<Rightarrow>
               if list_ex refused_value fs then (Inl ValueRefused, t)
               else let row' = fold apply_field (fs @ (if list_ex sets_updated fs then [] else [Set_updated now])) row
                    in (Inr True, dict_set mid row' t))"

definition delete_memory :: "string \<Rightarrow> memory_table \<Rightarrow> bool \<times> memory_table" where
  "delete_memory mid t = (mid \<in> set (dict_keys t), dict_del mid t)"

definition cleanup_expired :: "stamp \<Rightarrow> memory_table \<Rightarrow> nat \<times> memory_table" where
  "cleanup_expired now t =
     (length (filter (\<lambda>e. \<not> row_live now (snd e)) t), filter (\<lambda>e. row_live now (snd e)) t)"

subsection \<open>Reading\<close>

definition recent_memories :: "stamp \<Rightarrow> nat \<Rightarrow> bool \<Rightarrow> memory_table \<Rightarrow> memory_record list" where
  "recent_memories now n include_expired t =
     take n (map row_record (newest_first (filter (\<lambda>row. include_expired \<or> row_live now row) (dict_values t))))"

definition preferences :: "stamp \<Rightarrow> bool \<Rightarrow> memory_table \<Rightarrow> memory_record list" where
  "preferences now include_expired t =
     map row_record (newest_first (filter (\<lambda>row. mr_type (row_record row) = PREFERENCE \<and> (include_expired \<or> row_live now row))
       (dict_values t)))"

record memory_query =
  q_text :: string
  q_types :: "memory_type list option"
  q_importance_min :: "memory_importance option"
  q_limit :: nat
  q_include_expired :: bool

definition row_selected :: "stamp \<Rightarrow> memory_query \<Rightarrow> memory_row \<Rightarrow> bool" where
  "row_selected now q row \<longleftrightarrow>
     (q_include_expired q \<or> row_live now row) \<and>
     (case q_types q of None \<Rightarrow> True | Some ts \<Rightarrow> ts = [] \<or> mr_type (row_record row) \<in> set ts) \<and>
     (case q_importance_min q of None \<Rightarrow> True | Some i \<Rightarrow> importance_weight i \<le> row_weight row)"

text \<open>\<open>round(x, 4)\<close>, up to the choice at exact ties.\<close>

definition round4 :: "rat \<Rightarrow> rat" where
  "round4 x = rat_of_int (round (x * 10000)) / 10000"

definition keyword_score :: "((string \<times> payload) list \<Rightarrow> string) \<Rightarrow> string \<Rightarrow> memory_record \<Rightarrow> rat option" where
  "keyword_score dumps qtext r =
     (let content = lower (mr_content r); toks = split_ws qtext;
          hits = length (filter (\<lambda>w. contains_sub w content \<or> contains_sub w (lower (dumps (mr_metadata r))) \<or>
                   contains_sub w (lower (case mr_source r of None \<Rightarrow> [] | Some s \<Rightarrow> s))) toks)
      in if contains_sub qtext content then Some 1
         else if hits = 0 then None
         else Some (round4 (rat_of_nat hits / rat_of_nat (length toks))))"

definition score_rows :: "((string \<times> payload) list \<Rightarrow> string) \<Rightarrow> string \<Rightarrow> memory_record list \<Rightarrow> (memory_record \<times> rat) list" where
  "score_rows dumps qtext rs =
     concat (map (\<lambda>r. case keyword_score dumps qtext r of None \<Rightarrow> [] | Some s \<Rightarrow> [(r, s)]) rs)"

definition keyword_search ::
  "((string \<times> payload) list \<Rightarrow> string) \<Rightarrow> stamp \<Rightarrow> memory_query \<Rightarrow> memory_table \<Rightarrow> (memory_record \<times> rat) list" where
  "keyword_search dumps now q t =
     (let rs = map row_record (newest_first (filter (row_selected now q) (dict_values t)));
          qtext = lower (strip (q_text q))
      in if qtext = [] then map (\<lambda>r. (r, 1)) (take (q_limit q) rs)
         else take (q_limit q) (sort_key (\<lambda>(r, s). (- s, - at_utc (mr_created r))) (score_rows dumps qtext rs)))"

subsection \<open>The table\<close>

definition row_ok :: "string \<Rightarrow> memory_row \<Rightarrow> bool" where
  "row_ok k row \<longleftrightarrow> mr_id (row_record row) = k \<and> row_weight row = importance_weight (mr_importance (row_record row))"

definition table_ok :: "memory_table \<Rightarrow> bool" where
  "table_ok t \<longleftrightarrow> distinct (dict_keys t) \<and> (\<forall>k row. dict_get t k = Some row \<longrightarrow> row_ok k row)"

lemma row_ok_apply_field: "row_ok k row \<Longrightarrow> row_ok k (apply_field f row)"
  by (cases f) (auto simp: row_ok_def)

lemma row_ok_fold: "row_ok k row \<Longrightarrow> row_ok k (fold apply_field fs row)"
  by (induction fs arbitrary: row) (auto intro: row_ok_apply_field)

lemma table_ok_set: "table_ok t \<Longrightarrow> row_ok k row \<Longrightarrow> table_ok (dict_set k row t)"
  by (auto simp: table_ok_def)

lemma table_ok_store [keeps_inv]: "table_ok t \<Longrightarrow> table_ok (store_memory r t)"
  unfolding store_memory_def Let_def by (rule table_ok_set) (auto simp: row_ok_def split: option.splits)

lemma table_ok_update [keeps_inv]: "table_ok t \<Longrightarrow> table_ok (snd (update_memory now mid fs t))"
proof -
  assume ok: "table_ok t"
  have "row_ok mid (fold apply_field gs row)" if "dict_get t mid = Some row" for row gs
    using ok that by (intro row_ok_fold) (simp add: table_ok_def)
  with ok show ?thesis unfolding update_memory_def Let_def by (auto simp del: fold_append split: option.splits intro!: table_ok_set)
qed

lemma table_ok_delete [keeps_inv]: "table_ok t \<Longrightarrow> table_ok (snd (delete_memory mid t))"
  by (simp add: table_ok_def delete_memory_def)

lemma dict_get_filter:
  "distinct (dict_keys d) \<Longrightarrow> dict_get (filter P d) k = (case dict_get d k of Some v \<Rightarrow> if P (k, v) then Some v else None | None \<Rightarrow> None)"
proof (induction d)
  case (Cons e d)
  have "dict_get d (fst e) = None" using Cons.prems by (simp add: map_of_eq_None_iff)
  with Cons show ?case by (cases e) (auto split: option.splits)
qed simp

lemma table_ok_cleanup [keeps_inv]: "table_ok t \<Longrightarrow> table_ok (snd (cleanup_expired now t))"
  unfolding table_ok_def cleanup_expired_def
  by (auto simp: dict_get_filter distinct_map_filter split: option.splits if_splits)

lemma get_update_memory:
  "update_memory now mid fs t = (Inr True, t') \<Longrightarrow> dict_get t mid = Some row \<Longrightarrow>
     get_memory k t' = (if k = mid
       then Some (row_record (fold apply_field (fs @ (if list_ex sets_updated fs then [] else [Set_updated now])) row))
       else get_memory k t)"
  by (auto simp: update_memory_def get_memory_def Let_def split: if_splits)

lemma update_memory_unchanged: "fst (update_memory now mid fs t) \<noteq> Inr True \<Longrightarrow> snd (update_memory now mid fs t) = t"
  by (auto simp: update_memory_def Let_def split: option.splits)

lemma get_memory_store:
  "get_memory k (store_memory r t) =
     (if k = mr_id r
      then Some (case get_memory k t of None \<Rightarrow> r | Some old \<Rightarrow> r\<lparr>mr_created := mr_created old\<rparr>)
      else get_memory k t)"
  by (auto simp: get_memory_def store_memory_def Let_def split: option.splits)

lemma get_memory_cleanup:
  "distinct (dict_keys t) \<Longrightarrow> get_memory k (snd (cleanup_expired now t)) = Some r \<Longrightarrow> get_memory k t = Some r"
  by (auto simp: get_memory_def cleanup_expired_def dict_get_filter split: option.splits if_splits)

text \<open>Storing a memory and reading it back gives the record as stored, except that the creation time
  of an existing memory is kept; every other memory reads as before.\<close>

theorem store_get_roundtrip:
  "get_memory k (store_memory r t) =
     (if k = mr_id r
      then Some (case get_memory k t of None \<Rightarrow> r | Some old \<Rightarrow> r\<lparr>mr_created := mr_created old\<rparr>)
      else get_memory k t)"
  by (rule get_memory_store)

subsection \<open>Search\<close>

lemma round4_bounds: "0 \<le> x \<Longrightarrow> x \<le> 1 \<Longrightarrow> 0 \<le> round4 x \<and> round4 x \<le> 1"
proof -
  assume x: "0 \<le> x" "x \<le> 1"
  have "round (0 :: rat) \<le> round (x * 10000)" "round (x * 10000) \<le> round (10000 :: rat)"
    using x by (intro round_mono; simp)+
  then have "0 \<le> round (x * 10000)" "round (x * 10000) \<le> 10000" by simp_all
  then show ?thesis by (simp add: round4_def)
qed

lemma keyword_score_bounds: "keyword_score dumps qtext r = Some s \<Longrightarrow> 0 \<le> s \<and> s \<le> 1"
  unfolding keyword_score_def Let_def
  by (auto split: if_splits intro!: round4_bounds [THEN conjunct1] round4_bounds [THEN conjunct2] divide_le_eq_1 [THEN iffD2])

definition selected_records :: "stamp \<Rightarrow> memory_query \<Rightarrow> memory_table \<Rightarrow> memory_record list" where
  "selected_records now q t = map row_record (newest_first (filter (row_selected now q) (dict_values t)))"

definition rank :: "memory_record \<times> rat \<Rightarrow> rat \<times> rat" where
  "rank = (\<lambda>(r, s). (- s, - at_utc (mr_created r)))"

lemma set_score_rows:
  "set (score_rows dumps qtext rs) = {(r, s). r \<in> set rs \<and> keyword_score dumps qtext r = Some s}"
  by (auto simp: score_rows_def split: option.splits)

lemma set_newest_first [simp]: "set (newest_first rows) = set rows" by (simp add: newest_first_def)

lemma set_selected_records:
  "set (selected_records now q t) = row_record ` {row \<in> set (dict_values t). row_selected now q row}"
  by (auto simp: selected_records_def)

lemma take_drop_sorted:
  "sorted (map f xs) \<Longrightarrow> x \<in> set (take n xs) \<Longrightarrow> y \<in> set (drop n xs) \<Longrightarrow> f x \<le> f y"
proof -
  assume "sorted (map f xs)"
  then have "sorted (map f (take n xs @ drop n xs))" by simp
  then show "x \<in> set (take n xs) \<Longrightarrow> y \<in> set (drop n xs) \<Longrightarrow> f x \<le> f y"
    unfolding map_append sorted_append by simp
qed

lemma keyword_search_text:
  "lower (strip (q_text q)) = qtext \<Longrightarrow> qtext \<noteq> [] \<Longrightarrow>
     keyword_search dumps now q t = take (q_limit q) (sort_key rank (score_rows dumps qtext (selected_records now q t)))"
  by (simp add: keyword_search_def selected_records_def rank_def Let_def)

text \<open>A keyword search returns the best matches: every answer is a stored memory that passes the
  filters with its score, between 0 and 1; the answers are sorted by score and then by age; there are
  as many as the limit and the matches allow; and no match that is left out ranks before one that is
  returned.\<close>

theorem keyword_search_best:
  assumes "lower (strip (q_text q)) = qtext" and "qtext \<noteq> []"
    and "matches = score_rows dumps qtext (selected_records now q t)" and "res = keyword_search dumps now q t"
  shows "length res = min (q_limit q) (length matches) \<and> sorted (map rank res) \<and>
    (\<forall>(r, s) \<in> set res. 0 \<le> s \<and> s \<le> 1 \<and> keyword_score dumps qtext r = Some s \<and>
       (\<exists>row \<in> set (dict_values t). row_record row = r \<and> row_selected now q row)) \<and>
    (\<exists>rest. mset matches = mset res + mset rest \<and> (\<forall>x \<in> set res. \<forall>y \<in> set rest. rank x \<le> rank y))"
proof -
  let ?s = "sort_key rank matches"
  have res: "res = take (q_limit q) ?s" unfolding assms(3,4) keyword_search_text [OF assms(1,2)] ..
  have sorted: "sorted (map rank ?s)" by simp
  have sub: "set res \<subseteq> set matches" unfolding res using set_take_subset [of "q_limit q" ?s] by simp
  have "length res = min (q_limit q) (length matches)" unfolding res by (simp add: min.commute)
  moreover have "sorted (map rank res)" unfolding res take_map [symmetric] by (rule sorted_wrt_take [OF sorted])
  moreover have "\<forall>(r, s) \<in> set res. 0 \<le> s \<and> s \<le> 1 \<and> keyword_score dumps qtext r = Some s \<and>
       (\<exists>row \<in> set (dict_values t). row_record row = r \<and> row_selected now q row)"
    using sub keyword_score_bounds unfolding assms(3) set_score_rows set_selected_records by fast
  moreover have "mset matches = mset res + mset (drop (q_limit q) ?s)"
    unfolding res mset_append [symmetric] append_take_drop_id by simp
  moreover have "\<forall>x \<in> set res. \<forall>y \<in> set (drop (q_limit q) ?s). rank x \<le> rank y"
    unfolding res using take_drop_sorted [OF sorted] by blast
  ultimately show ?thesis by blast
qed

definition utc :: "rat \<Rightarrow> stamp" where "utc x = \<lparr>at_utc = x, utc_offset = 0\<rparr>"

definition demo_memory :: "string \<Rightarrow> string \<Rightarrow> rat \<Rightarrow> stamp option \<Rightarrow> memory_record" where
  "demo_memory mid txt created expires =
     \<lparr>mr_id = mid, mr_type = SEMANTIC, mr_content = txt, mr_created = utc created, mr_updated = utc created,
      mr_importance = USEFUL, mr_source = None, mr_confirmed = False, mr_expires = expires, mr_metadata = []\<rparr>"

definition demo_query :: "string \<Rightarrow> memory_query" where
  "demo_query txt = \<lparr>q_text = txt, q_types = None, q_importance_min = None, q_limit = 5, q_include_expired = False\<rparr>"

lemma keyword_search_best_witness:
  "length (keyword_search (\<lambda>_. []) (utc 9) (demo_query ''tea'') (store_memory (demo_memory ''m1'' ''green Tea'' 1 None) [])) = 1"
proof -
  have q: "lower (strip (q_text (demo_query ''tea''))) = ''tea''" by (simp add: demo_query_def) code_simp
  have low: "lower ''green Tea'' = ''green tea''" by code_simp
  have "score_rows (\<lambda>_. []) ''tea'' (selected_records (utc 9) (demo_query ''tea'')
      (store_memory (demo_memory ''m1'' ''green Tea'' 1 None) [])) = [(demo_memory ''m1'' ''green Tea'' 1 None, 1)]"
    by (simp add: score_rows_def selected_records_def newest_first_def store_memory_def demo_query_def demo_memory_def
        row_selected_def row_live_def keyword_score_def low sublist_code)
  from keyword_search_best [OF q _ this [symmetric] refl] show ?thesis by (simp add: demo_query_def)
qed

text \<open>Expiry is compared as text: a memory written with an expiry of 18:00 at +05:00, which is 13:00
  UTC, is still served and kept at 14:00 UTC, and one with 08:00 at -05:00, which is 13:00 UTC, is
  deleted by the cleanup at 12:00 UTC.\<close>

theorem expiry_compared_as_text:
  "row_live (utc (14 * 3600)) \<lparr>row_record = demo_memory ''m'' ''x'' 0 (Some \<lparr>at_utc = 13 * 3600, utc_offset = 5 * 3600\<rparr>), row_weight = 2\<rparr> \<and>
   cleanup_expired (utc (12 * 3600))
     (store_memory (demo_memory ''m'' ''x'' 0 (Some \<lparr>at_utc = 13 * 3600, utc_offset = - 5 * 3600\<rparr>)) []) = (1, [])"
  by (simp add: row_live_def iso_key_def utc_def demo_memory_def cleanup_expired_def store_memory_def)

text \<open>In UTC the comparison is the one of instants.\<close>

lemma row_live_utc:
  "utc_offset now = 0 \<Longrightarrow> mr_expires (row_record row) = Some x \<Longrightarrow> utc_offset x = 0 \<Longrightarrow>
     row_live now row \<longleftrightarrow> at_utc now \<le> at_utc x"
  by (auto simp: row_live_def iso_key_def)

end
