(* ===== verification/Memory_Manager.thy ===== *)
theory Memory_Manager
  imports Memory_Store
begin

text \<open>
  Models \<open>MemoryManager\<close> of \<open>python/tom/memory/manager.py\<close> over the SQLite store and the in-memory
  branch of \<open>QdrantMemory\<close> (\<open>python/tom/memory/qdrant.py\<close>): the policy gate, the two-store writes,
  deletion, and the search that fuses keyword and vector ranks. The embedding model, the health of
  the index and the configuration are the record \<open>mem_env\<close>; each operation takes its own, so they may
  change between calls. The HTTP branch of the index is not modelled.
\<close>

subsection \<open>The vector index\<close>

type_synonym vectors = "(string, rat list) dict"

definition index_upsert :: "nat \<Rightarrow> string \<Rightarrow> rat list \<Rightarrow> vectors \<Rightarrow> vectors" where
  "index_upsert width mid v vs = (if length v \<noteq> width then vs else dict_set mid v vs)"

definition dot :: "rat list \<Rightarrow> rat list \<Rightarrow> rat" where
  "dot a b = sum_list (map2 (*) a b)"

definition index_search :: "rat list \<Rightarrow> nat \<Rightarrow> vectors \<Rightarrow> (string \<times> rat) list" where
  "index_search v k vs =
     take k (sort_key (\<lambda>(_, s). - s) (filter (\<lambda>(_, s). 5 / 100 < s) (map (\<lambda>(mid, u). (mid, dot v u)) vs)))"

subsection \<open>Writing\<close>

record mem_env =
  me_policy :: memory_policy
  me_semantic :: bool
  me_available :: bool
  me_healthy :: bool
  me_embed :: "string \<Rightarrow> rat list option"
  me_vector_size :: nat
  me_dumps :: "(string \<times> payload) list \<Rightarrow> string"

record memories =
  mm_table :: memory_table
  mm_vectors :: vectors

datatype memory_error = SecretDetected | PolicyViolation | StoreFailed store_error

text \<open>The optional indexing step; a failure of the embedding is logged and swallowed.\<close>

definition index_content :: "mem_env \<Rightarrow> string \<Rightarrow> string \<Rightarrow> vectors \<Rightarrow> vectors" where
  "index_content env mid content vs =
     (if me_semantic env \<and> me_available env
      then case me_embed env content of None \<Rightarrow> vs | Some v \<Rightarrow> index_upsert (me_vector_size env) mid v vs
      else vs)"

definition remember :: "mem_env \<Rightarrow> memory_record \<Rightarrow> memories \<Rightarrow> (memory_error + string) \<times> memories" where
  "remember env r m =
     (case evaluate_memory (me_policy env) r of
        REJECT_SECRET \<Rightarrow> (Inl SecretDetected, m)
      | REJECT_EXPIRY \<Rightarrow> (Inl PolicyViolation, m)
      | v \<Rightarrow>
          if v = REQUIRE_CONFIRMATION \<and> \<not> mr_confirmed r then (Inl PolicyViolation, m)
          else (Inr (mr_id r), \<lparr>mm_table = store_memory r (mm_table m),
                 mm_vectors = index_content env (mr_id r) (mr_content r) (mm_vectors m)\<rparr>))"

fun content_of :: "field_update list \<Rightarrow> string option" where
  "content_of [] = None"
| "content_of (Set_content s # fs) = Some s"
| "content_of (_ # fs) = content_of fs"

fun metadata_of :: "field_update list \<Rightarrow> (string \<times> payload) list option" where
  "metadata_of [] = None"
| "metadata_of (Set_metadata d # fs) = Some d"
| "metadata_of (_ # fs) = metadata_of fs"

definition revise ::
  "mem_env \<Rightarrow> stamp \<Rightarrow> string \<Rightarrow> field_update list \<Rightarrow> memories \<Rightarrow> (memory_error + bool) \<times> memories" where
  "revise env now mid fs m =
     (if case content_of fs of None \<Rightarrow> False | Some s \<Rightarrow> scan_for_secrets (me_policy env) s then (Inl SecretDetected, m)
      else if case metadata_of fs of None \<Rightarrow> False | Some d \<Rightarrow> scan_metadata (me_policy env) d then (Inl SecretDetected, m)
      else case update_memory now mid fs (mm_table m) of
             (Inl e, t) \<Rightarrow> (Inl (StoreFailed e), m\<lparr>mm_table := t\<rparr>)
           | (Inr False, t) \<Rightarrow> (Inr False, m\<lparr>mm_table := t\<rparr>)
           | (Inr True, t) \<Rightarrow>
               (Inr True, \<lparr>mm_table = t,
                  mm_vectors = (case content_of fs of None \<Rightarrow> mm_vectors m | Some s \<Rightarrow> index_content env mid s (mm_vectors m))\<rparr>))"

definition forget :: "mem_env \<Rightarrow> string \<Rightarrow> memories \<Rightarrow> bool \<times> memories" where
  "forget env mid m =
     (let vs = (if me_semantic env then dict_del mid (mm_vectors m) else mm_vectors m);
          (found, t) = delete_memory mid (mm_table m)
      in (found, \<lparr>mm_table = t, mm_vectors = vs\<rparr>))"

definition purge_expired :: "stamp \<Rightarrow> memories \<Rightarrow> nat \<times> memories" where
  "purge_expired now m = (let (n, t) = cleanup_expired now (mm_table m) in (n, m\<lparr>mm_table := t\<rparr>))"

subsection \<open>Hybrid search\<close>

definition record_matches_query :: "memory_record \<Rightarrow> memory_query \<Rightarrow> stamp \<Rightarrow> bool" where
  "record_matches_query r q now \<longleftrightarrow>
     (q_include_expired q \<or> (case mr_expires r of None \<Rightarrow> True | Some x \<Rightarrow> at_utc now \<le> at_utc x)) \<and>
     (case q_types q of None \<Rightarrow> True | Some ts \<Rightarrow> ts = [] \<or> mr_type r \<in> set ts) \<and>
     (case q_importance_min q of None \<Rightarrow> True | Some i \<Rightarrow> importance_weight i \<le> importance_weight (mr_importance r))"

text \<open>One ranked list of ids added to the fused scores: rank \<open>i\<close>, from 0, contributes \<open>1 / (60 + i + 1)\<close>.\<close>

fun add_ranks :: "nat \<Rightarrow> string list \<Rightarrow> (string, rat) dict \<Rightarrow> (string, rat) dict" where
  "add_ranks i [] d = d"
| "add_ranks i (x # xs) d =
     add_ranks (i + 1) xs (dict_set x ((case dict_get d x of None \<Rightarrow> 0 | Some s \<Rightarrow> s) + 1 / (60 + rat_of_nat i + 1)) d)"

definition fused_scores :: "string list \<Rightarrow> string list \<Rightarrow> (string, rat) dict" where
  "fused_scores kw sem = add_ranks 0 sem (add_ranks 0 kw [])"

definition normalized :: "rat \<Rightarrow> rat" where
  "normalized raw = min 1 (max 0 (round4 (raw / (2 / 61))))"

fun resolve_hits :: "stamp \<Rightarrow> memory_query \<Rightarrow> memory_table \<Rightarrow> nat \<Rightarrow> (string \<times> rat) list \<Rightarrow> (memory_record \<times> rat) list" where
  "resolve_hits now q t 0 hits = []"
| "resolve_hits now q t (Suc n) [] = []"
| "resolve_hits now q t (Suc n) ((mid, raw) # hits) =
     (case get_memory mid t of
        None \<Rightarrow> resolve_hits now q t (Suc n) hits
      | Some r \<Rightarrow> if record_matches_query r q now then (r, normalized raw) # resolve_hits now q t n hits
                  else resolve_hits now q t (Suc n) hits)"

definition hybrid_search :: "mem_env \<Rightarrow> stamp \<Rightarrow> memory_query \<Rightarrow> rat list \<Rightarrow> memories \<Rightarrow> (memory_record \<times> rat) list" where
  "hybrid_search env now q v m =
     (let kw = map (mr_id \<circ> fst) (keyword_search (me_dumps env) now q (mm_table m));
          sem = map fst (index_search v (q_limit q * 2) (mm_vectors m))
      in resolve_hits now q (mm_table m) (q_limit q) (sort_key (\<lambda>(_, s). - s) (fused_scores kw sem)))"

definition search_memories :: "mem_env \<Rightarrow> stamp \<Rightarrow> memory_query \<Rightarrow> memories \<Rightarrow> (memory_record \<times> rat) list" where
  "search_memories env now q m =
     (let keyword = keyword_search (me_dumps env) now q (mm_table m); qtext = strip (q_text q)
      in if qtext = [] \<or> \<not> me_semantic env then keyword
         else if \<not> (me_available env \<and> me_healthy env) then keyword
         else case me_embed env qtext of None \<Rightarrow> keyword | Some v \<Rightarrow> hybrid_search env now q v m)"

subsection \<open>No secret is kept\<close>

text \<open>Keyword arguments have distinct names.\<close>

fun field_name :: "field_update \<Rightarrow> string" where
  "field_name (Set_type _) = ''type''"
| "field_name (Set_content _) = ''content''"
| "field_name (Set_importance _) = ''importance''"
| "field_name (Set_source _) = ''source''"
| "field_name (Set_confirmed _) = ''user_confirmed''"
| "field_name (Set_expires _) = ''expires_at''"
| "field_name (Set_metadata _) = ''metadata''"
| "field_name (Set_updated _) = ''updated_at''"
| "field_name Bad_value = ''?''"
| "field_name (Unknown_field n) = n"

lemma content_of_None: "''content'' \<notin> set (map field_name fs) \<Longrightarrow> content_of fs = None"
  by (induction fs rule: content_of.induct) auto

lemma metadata_of_None: "''metadata'' \<notin> set (map field_name fs) \<Longrightarrow> metadata_of fs = None"
  by (induction fs rule: metadata_of.induct) auto

lemma content_of_fold:
  "distinct (map field_name fs) \<Longrightarrow> mr_content (row_record (fold apply_field fs row)) =
     (case content_of fs of None \<Rightarrow> mr_content (row_record row) | Some s \<Rightarrow> s)"
proof (induction fs arbitrary: row)
  case (Cons f fs)
  have "content_of fs = None" if "field_name f = ''content''" using Cons.prems that by (intro content_of_None) auto
  with Cons show ?case by (cases f) (auto split: option.splits)
qed simp

lemma metadata_of_fold:
  "distinct (map field_name fs) \<Longrightarrow> mr_metadata (row_record (fold apply_field fs row)) =
     (case metadata_of fs of None \<Rightarrow> mr_metadata (row_record row) | Some d \<Rightarrow> d)"
proof (induction fs arbitrary: row)
  case (Cons f fs)
  have "metadata_of fs = None" if "field_name f = ''metadata''" using Cons.prems that by (intro metadata_of_None) auto
  with Cons show ?case by (cases f) (auto split: option.splits)
qed simp

inductive mem_step :: "memory_policy \<Rightarrow> memories \<Rightarrow> memories \<Rightarrow> bool" for pol where
  remembered: "me_policy env = pol \<Longrightarrow> mem_step pol m (snd (remember env r m))"
| revised: "me_policy env = pol \<Longrightarrow> distinct (map field_name fs) \<Longrightarrow> mem_step pol m (snd (revise env now mid fs m))"
| forgot: "me_policy env = pol \<Longrightarrow> mem_step pol m (snd (forget env mid m))"
| purged: "mem_step pol m (snd (purge_expired now m))"

definition no_memories :: memories where "no_memories = \<lparr>mm_table = [], mm_vectors = []\<rparr>"

definition clean_record :: "memory_policy \<Rightarrow> memory_record \<Rightarrow> bool" where
  "clean_record pol r \<longleftrightarrow> \<not> scan_for_secrets pol (mr_content r) \<and> \<not> scan_metadata pol (mr_metadata r)"

definition mem_ok :: "memory_policy \<Rightarrow> memories \<Rightarrow> bool" where
  "mem_ok pol m \<longleftrightarrow> table_ok (mm_table m) \<and> distinct (dict_keys (mm_vectors m)) \<and>
     (\<forall>k r. get_memory k (mm_table m) = Some r \<longrightarrow> clean_record pol r)"

lemma distinct_index_content: "distinct (dict_keys vs) \<Longrightarrow> distinct (dict_keys (index_content env mid c vs))"
  by (auto simp: index_content_def index_upsert_def split: option.splits)

lemma evaluate_memory_clean:
  "evaluate_memory pol r \<in> {ACCEPT, REQUIRE_CONFIRMATION} \<Longrightarrow> clean_record pol r"
  by (cases "mr_metadata r") (auto simp: evaluate_memory_def clean_record_def split: if_splits)

lemma mem_ok_remember [keeps_inv]:
  assumes "mem_ok (me_policy env) m" shows "mem_ok (me_policy env) (snd (remember env r m))"
proof (cases "snd (remember env r m) = m")
  case False
  then have v: "evaluate_memory (me_policy env) r \<in> {ACCEPT, REQUIRE_CONFIRMATION}"
    and m': "snd (remember env r m) = \<lparr>mm_table = store_memory r (mm_table m),
       mm_vectors = index_content env (mr_id r) (mr_content r) (mm_vectors m)\<rparr>"
    by (auto simp: remember_def split: verdict.splits if_splits)
  have "clean_record (me_policy env) (r\<lparr>mr_created := c\<rparr>)" for c
    using evaluate_memory_clean [OF v] by (simp add: clean_record_def)
  then have "clean_record (me_policy env) r'" if "get_memory k (store_memory r (mm_table m)) = Some r'" for k r'
    using that assms evaluate_memory_clean [OF v] unfolding get_memory_store mem_ok_def
    by (auto split: if_splits option.splits)
  then show ?thesis
    using assms table_ok_store [of "mm_table m" r] unfolding m' mem_ok_def by (simp add: distinct_index_content)
qed (use assms in simp)

lemma mem_ok_revise [keeps_inv]:
  assumes "mem_ok (me_policy env) m" and "distinct (map field_name fs)"
  shows "mem_ok (me_policy env) (snd (revise env now mid fs m))"
proof (cases "snd (revise env now mid fs m) = m")
  case False
  let ?gs = "fs @ (if list_ex sets_updated fs then [] else [Set_updated now])"
  from False obtain t where upd: "update_memory now mid fs (mm_table m) = (Inr True, t)"
    and c: "\<And>s. content_of fs = Some s \<Longrightarrow> \<not> scan_for_secrets (me_policy env) s"
    and d: "\<And>d. metadata_of fs = Some d \<Longrightarrow> \<not> scan_metadata (me_policy env) d"
    and m': "snd (revise env now mid fs m) = \<lparr>mm_table = t, mm_vectors =
       (case content_of fs of None \<Rightarrow> mm_vectors m | Some s \<Rightarrow> index_content env mid s (mm_vectors m))\<rparr>"
    using update_memory_unchanged [of now mid fs "mm_table m"]
    by (auto simp: revise_def split: if_splits option.splits prod.splits sum.splits bool.splits)
  obtain row where row: "dict_get (mm_table m) mid = Some row"
    using upd by (auto simp: update_memory_def split: if_splits option.splits)
  have same: "mr_content (row_record (fold apply_field ?gs row)) = mr_content (row_record (fold apply_field fs row))"
    "mr_metadata (row_record (fold apply_field ?gs row)) = mr_metadata (row_record (fold apply_field fs row))" by simp_all
  have "clean_record (me_policy env) (row_record row)"
    using assms(1) row by (auto simp: mem_ok_def get_memory_def)
  then have "clean_record (me_policy env) (row_record (fold apply_field ?gs row))"
    unfolding clean_record_def same content_of_fold [OF assms(2)] metadata_of_fold [OF assms(2)]
    using c d by (auto split: option.splits)
  then have "\<forall>k r. get_memory k t = Some r \<longrightarrow> clean_record (me_policy env) r"
    using assms(1) unfolding get_update_memory [OF upd row] mem_ok_def by auto
  moreover have "table_ok t" using table_ok_update [of "mm_table m" now mid fs] assms(1) upd by (simp add: mem_ok_def)
  ultimately show ?thesis
    using assms(1) unfolding m' mem_ok_def by (auto simp: distinct_index_content split: option.splits)
qed (use assms in simp)

lemma mem_ok_forget [keeps_inv]: "mem_ok pol m \<Longrightarrow> mem_ok pol (snd (forget env mid m))"
  using table_ok_delete [of "mm_table m" mid]
  by (auto simp: mem_ok_def forget_def delete_memory_def get_memory_def Let_def split: if_splits)

lemma mem_ok_purge [keeps_inv]: "mem_ok pol m \<Longrightarrow> mem_ok pol (snd (purge_expired now m))"
  using table_ok_cleanup [of "mm_table m" now] get_memory_cleanup [of "mm_table m" _ now]
  by (auto simp: mem_ok_def purge_expired_def table_ok_def split: prod.splits) blast

lemma mem_ok_reachable:
  assumes "(mem_step pol)\<^sup>*\<^sup>* no_memories m" shows "mem_ok pol m"
  using assms
proof (induction rule: rtranclp_induct)
  case base
  show ?case by (simp add: no_memories_def mem_ok_def table_ok_def get_memory_def)
next
  case (step m m')
  from step.hyps(2) step.IH show ?case by (cases rule: mem_step.cases) (auto intro: keeps_inv)
qed

subsection \<open>Fusion\<close>

text \<open>What a ranked list contributes to an id: \<open>1 / (61 + rank)\<close> at its position.\<close>

definition share :: "string list \<Rightarrow> string \<Rightarrow> rat" where
  "share xs x = (if x \<in> set xs then 1 / (61 + rat_of_nat (length (takeWhile (\<lambda>y. y \<noteq> x) xs))) else 0)"

lemma add_ranks_get:
  "distinct xs \<Longrightarrow> dict_get (add_ranks i xs d) k =
     (if k \<in> set xs
      then Some ((case dict_get d k of None \<Rightarrow> 0 | Some s \<Rightarrow> s) + 1 / (61 + rat_of_nat (i + length (takeWhile (\<lambda>y. y \<noteq> k) xs))))
      else dict_get d k)"
  by (induction xs arbitrary: i d) (auto simp: add.commute add.left_commute)

lemma add_ranks_keys: "distinct (dict_keys d) \<Longrightarrow> distinct (dict_keys (add_ranks i xs d))"
  by (induction xs arbitrary: i d) auto

lemma fused_scores_get:
  assumes "distinct kw" and "distinct sem"
  shows "dict_get (fused_scores kw sem) k = (if k \<in> set kw \<union> set sem then Some (share kw k + share sem k) else None)"
  unfolding fused_scores_def add_ranks_get [OF assms(2)] add_ranks_get [OF assms(1)] by (simp add: share_def)

lemma distinct_map_sort_key: "distinct (map f (sort_key g xs)) = distinct (map f xs)"
  by (simp add: distinct_map)

lemma distinct_ids:
  assumes "table_ok t" shows "distinct (map mr_id (selected_records now q t))"
proof -
  have eq: "map (mr_id \<circ> row_record) (dict_values t) = dict_keys t"
    using assms by (auto simp: table_ok_def row_ok_def intro!: map_cong)
  have "distinct (map (mr_id \<circ> row_record) (dict_values t))" unfolding eq using assms by (simp add: table_ok_def)
  then have "distinct (map (mr_id \<circ> row_record) (filter (row_selected now q) (dict_values t)))"
    by (rule distinct_map_filter)
  then show ?thesis
    unfolding selected_records_def newest_first_def map_map [symmetric] rev_map distinct_rev
    by (simp add: distinct_map_sort_key map_map rev_map [symmetric])
qed

lemma score_rows_ids: "distinct (map f rs) \<Longrightarrow> distinct (map (f \<circ> fst) (score_rows dumps qtext rs))"
  by (induction rs) (auto simp: score_rows_def split: option.splits)

lemma keyword_ids_distinct:
  assumes "table_ok t" shows "distinct (map (mr_id \<circ> fst) (keyword_search dumps now q t))"
proof (cases "lower (strip (q_text q)) = []")
  case True
  then have "map (mr_id \<circ> fst) (keyword_search dumps now q t) = map mr_id (take (q_limit q) (selected_records now q t))"
    by (simp add: keyword_search_def selected_records_def Let_def comp_def)
  then show ?thesis using distinct_ids [OF assms, of now q] by (simp add: take_map [symmetric])
next
  case False
  have "distinct (map (mr_id \<circ> fst) (score_rows dumps (lower (strip (q_text q))) (selected_records now q t)))"
    by (rule score_rows_ids [OF distinct_ids [OF assms]])
  then show ?thesis
    unfolding keyword_search_text [OF refl False] take_map [symmetric] by (simp add: distinct_map_sort_key)
qed

lemma index_ids_distinct:
  assumes "distinct (dict_keys vs)" shows "distinct (map fst (index_search v k vs))"
proof -
  have "map fst (map (\<lambda>(mid, u). (mid, dot v u)) vs) = dict_keys vs" by (auto simp: comp_def split_def)
  then have "distinct (map fst (filter (\<lambda>(_, s). 5 / 100 < s) (map (\<lambda>(mid, u). (mid, dot v u)) vs)))"
    using assms distinct_map_filter by metis
  then show ?thesis unfolding index_search_def take_map [symmetric]
    by (intro distinct_take) (simp only: distinct_map_sort_key)
qed

subsection \<open>Resolving the hits\<close>

lemma resolve_hits_length: "length (resolve_hits now q t n hits) \<le> n"
  by (induction now q t n hits rule: resolve_hits.induct) (auto split: option.splits)

lemma resolve_hits_sound:
  "(r, s) \<in> set (resolve_hits now q t n hits) \<Longrightarrow>
     \<exists>mid raw. (mid, raw) \<in> set hits \<and> get_memory mid t = Some r \<and> s = normalized raw \<and> record_matches_query r q now"
  by (induction now q t n hits rule: resolve_hits.induct) (fastforce split: option.splits if_splits)+

lemma normalized_mono: "a \<le> b \<Longrightarrow> normalized a \<le> normalized b"
proof -
  assume "a \<le> b"
  then have "round (a / (2 / 61) * 10000) \<le> round (b / (2 / 61) * 10000)" by (intro round_mono) simp
  then show ?thesis by (auto simp: normalized_def round4_def intro!: min.mono max.mono divide_right_mono)
qed

lemma resolve_hits_sorted:
  "sorted (map (\<lambda>(_, s). - s) hits) \<Longrightarrow> sorted (map (\<lambda>(_, s). - s) (resolve_hits now q t n hits))"
proof (induction now q t n hits rule: resolve_hits.induct)
  case (3 now q t n mid raw hits)
  have "- normalized raw \<le> - s" if "(r, s) \<in> set (resolve_hits now q t n hits)" for r s
    using resolve_hits_sound [OF that] 3(4) by (auto intro!: normalized_mono)
  with 3 show ?case by (auto split: option.splits)
qed auto

lemma hybrid_search_sound:
  assumes "mem_ok pol m" and "(r, s) \<in> set (hybrid_search env now q v m)"
  shows "get_memory (mr_id r) (mm_table m) = Some r" "record_matches_query r q now"
    "s = normalized (share (map (mr_id \<circ> fst) (keyword_search (me_dumps env) now q (mm_table m))) (mr_id r) +
                     share (map fst (index_search v (q_limit q * 2) (mm_vectors m))) (mr_id r))"
proof -
  let ?kw = "map (mr_id \<circ> fst) (keyword_search (me_dumps env) now q (mm_table m))"
  let ?sem = "map fst (index_search v (q_limit q * 2) (mm_vectors m))"
  from assms(2) obtain mid raw where hit: "(mid, raw) \<in> set (fused_scores ?kw ?sem)" and get: "get_memory mid (mm_table m) = Some r"
      and s: "s = normalized raw" and match: "record_matches_query r q now"
    unfolding hybrid_search_def Let_def by (auto dest!: resolve_hits_sound)
  have mid: "mr_id r = mid" using get assms(1) by (auto simp: get_memory_def mem_ok_def table_ok_def row_ok_def)
  have d: "distinct ?kw" "distinct ?sem"
    using assms(1) by (auto simp: mem_ok_def intro: keyword_ids_distinct index_ids_distinct)
  have "distinct (dict_keys (fused_scores ?kw ?sem))" by (simp add: fused_scores_def add_ranks_keys)
  with hit have "dict_get (fused_scores ?kw ?sem) mid = Some raw" by simp
  with fused_scores_get [OF d, of mid] have "raw = share ?kw mid + share ?sem mid" by (auto split: if_splits)
  with get mid s match show "get_memory (mr_id r) (mm_table m) = Some r" "record_matches_query r q now"
    "s = normalized (share ?kw (mr_id r) + share ?sem (mr_id r))" by simp_all
qed

lemma keyword_search_members:
  assumes "table_ok t" and "(r, s) \<in> set (keyword_search dumps now q t)"
  shows "get_memory (mr_id r) t = Some r" "0 \<le> s" "s \<le> 1" "\<exists>row. row_record row = r \<and> row_weight row = importance_weight (mr_importance r) \<and> row_selected now q row"
proof -
  have r: "r \<in> set (selected_records now q t) \<and> 0 \<le> s \<and> s \<le> 1"
  proof (cases "lower (strip (q_text q)) = []")
    case True
    with assms(2) show ?thesis by (auto simp: keyword_search_def selected_records_def Let_def dest: in_set_takeD)
  next
    case False
    with assms(2) show ?thesis
      unfolding keyword_search_text [OF refl False] by (auto simp: set_score_rows dest!: in_set_takeD dest: keyword_score_bounds)
  qed
  then show "0 \<le> s" "s \<le> 1" by simp_all
  from r obtain k row where row: "(k, row) \<in> set t" "row_record row = r" "row_selected now q row"
    unfolding set_selected_records by auto
  with assms(1) have "dict_get t k = Some row" "row_ok k row" by (auto simp: table_ok_def)
  with row show "get_memory (mr_id r) t = Some r"
    "\<exists>row. row_record row = r \<and> row_weight row = importance_weight (mr_importance r) \<and> row_selected now q row"
    by (auto simp: get_memory_def row_ok_def)
qed

subsection \<open>Properties of the memory\<close>

text \<open>C8: No secret is kept: after any sequence of stores, updates, deletions and cleanups, starting from
  an empty memory and under one policy, no stored memory has content or metadata in which the
  policy's scan finds a secret.\<close>

theorem no_secret_kept:
  assumes "(mem_step pol)\<^sup>*\<^sup>* no_memories m" and "get_memory k (mm_table m) = Some r"
  shows "\<not> scan_for_secrets pol (mr_content r) \<and> \<not> scan_metadata pol (mr_metadata r)"
  using mem_ok_reachable [OF assms(1)] assms(2) by (simp add: mem_ok_def clean_record_def)

definition demo_mem_env :: "bool \<Rightarrow> mem_env" where
  "demo_mem_env semantic = \<lparr>me_policy = default_memory_policy, me_semantic = semantic, me_available = True, me_healthy = True,
     me_embed = (\<lambda>s. Some [rat_of_nat (length s)]), me_vector_size = 1, me_dumps = (\<lambda>_. [])\<rparr>"

lemma remember_demo:
  "length txt < 10 \<Longrightarrow> remember (demo_mem_env sem) (demo_memory mid txt c None) m =
     (Inr mid, \<lparr>mm_table = store_memory (demo_memory mid txt c None) (mm_table m),
        mm_vectors = index_content (demo_mem_env sem) mid txt (mm_vectors m)\<rparr>)"
  by (simp add: remember_def evaluate_memory_def demo_memory_def demo_mem_env_def short_text_clean)

definition tea_memories :: memories where
  "tea_memories = snd (remember (demo_mem_env True) (demo_memory ''m1'' ''tea'' 1 None) no_memories)"

lemma tea_memories_eq:
  "tea_memories = \<lparr>mm_table = [(''m1'', \<lparr>row_record = demo_memory ''m1'' ''tea'' 1 None, row_weight = 2\<rparr>)],
     mm_vectors = [(''m1'', [3])]\<rparr>"
  unfolding tea_memories_def
  by (subst remember_demo)
    (simp_all add: no_memories_def store_memory_def index_content_def index_upsert_def demo_mem_env_def demo_memory_def)

lemma tea_reachable: "(mem_step default_memory_policy)\<^sup>*\<^sup>* no_memories tea_memories"
  unfolding tea_memories_def by (rule r_into_rtranclp, rule mem_step.remembered) (simp add: demo_mem_env_def)

lemma no_secret_kept_witness:
  "(mem_step default_memory_policy)\<^sup>*\<^sup>* no_memories tea_memories \<and> \<not> scan_for_secrets default_memory_policy ''tea''"
  using no_secret_kept [OF tea_reachable, of "''m1''" "demo_memory ''m1'' ''tea'' 1 None"] tea_reachable
  by (simp add: tea_memories_eq get_memory_def) (simp add: demo_memory_def)

text \<open>A search answers from the authoritative table only: every answer is a memory that is stored now
  under its id, satisfies the type and importance filters and is unexpired by the comparison of the
  path taken; its score is between 0 and 1; there are at most as many as the limit; and answers of
  the hybrid path carry the score of their two ranks and come in descending order.\<close>

theorem search_answers_stored:
  assumes "mem_ok pol m" and "res = search_memories env now q m"
  shows "length res \<le> q_limit q \<and> (res = keyword_search (me_dumps env) now q (mm_table m) \<or> sorted (map (\<lambda>(_, s). - s) res)) \<and>
    (\<forall>(r, s) \<in> set res. get_memory (mr_id r) (mm_table m) = Some r \<and> 0 \<le> s \<and> s \<le> 1 \<and>
       (record_matches_query r q now \<or>
        row_selected now q \<lparr>row_record = r, row_weight = importance_weight (mr_importance r)\<rparr>))"
proof (cases "res = keyword_search (me_dumps env) now q (mm_table m)")
  case True
  have ok: "table_ok (mm_table m)" using assms(1) by (simp add: mem_ok_def)
  have sel: "row_selected now q \<lparr>row_record = r, row_weight = importance_weight (mr_importance r)\<rparr>"
    and get: "get_memory (mr_id r) (mm_table m) = Some r \<and> 0 \<le> s \<and> s \<le> 1" if "(r, s) \<in> set res" for r s
  proof -
    note mem = keyword_search_members [OF ok that [unfolded True]]
    from mem(4) obtain row where "row_record row = r" "row_weight row = importance_weight (mr_importance r)" "row_selected now q row"
      by blast
    then show "row_selected now q \<lparr>row_record = r, row_weight = importance_weight (mr_importance r)\<rparr>"
      by (metis (full_types) memory_row.surjective old.unit.exhaust memory_row.select_convs)
    from mem(1-3) show "get_memory (mr_id r) (mm_table m) = Some r \<and> 0 \<le> s \<and> s \<le> 1" by blast
  qed
  have "length res \<le> q_limit q" unfolding True by (simp add: keyword_search_def Let_def)
  with sel get True show ?thesis by blast
next
  case False
  with assms(2) obtain v where res: "res = hybrid_search env now q v m"
    by (auto simp: search_memories_def Let_def split: if_splits option.splits)
  have "sorted (map (\<lambda>(_, s). - s) res)"
    unfolding res hybrid_search_def Let_def by (intro resolve_hits_sorted) simp
  moreover have "length res \<le> q_limit q" unfolding res hybrid_search_def Let_def by (rule resolve_hits_length)
  moreover have "0 \<le> normalized x \<and> normalized x \<le> 1" for x by (simp add: normalized_def)
  then have "get_memory (mr_id r) (mm_table m) = Some r \<and> 0 \<le> s \<and> s \<le> 1 \<and> record_matches_query r q now"
    if "(r, s) \<in> set res" for r s
    using hybrid_search_sound [OF assms(1) that [unfolded res]] by simp
  ultimately show ?thesis by blast
qed

lemma search_answers_stored_witness:
  "length (search_memories (demo_mem_env True) (utc 2) (demo_query ''tea'') tea_memories) \<le> 5"
  using search_answers_stored [OF mem_ok_reachable [OF tea_reachable] refl, of "demo_mem_env True" "utc 2" "demo_query ''tea''"]
  by (simp add: demo_query_def)

text \<open>A forgotten memory is gone from the table, and no later search, keyword or hybrid, returns its
  id, even when its vector is still in the index.\<close>

theorem forgotten_stays_gone:
  assumes "mem_ok pol m" and "m' = snd (forget env mid m)"
  shows "get_memory mid (mm_table m') = None \<and> (\<forall>r s. (r, s) \<in> set (search_memories env' now q m') \<longrightarrow> mr_id r \<noteq> mid) \<and>
     (me_semantic env \<longrightarrow> dict_get (mm_vectors m') mid = None)"
proof -
  have gone: "get_memory mid (mm_table m') = None"
    unfolding assms(2) by (simp add: forget_def delete_memory_def get_memory_def Let_def)
  have ok: "mem_ok pol m'" unfolding assms(2) by (rule mem_ok_forget [OF assms(1)])
  have "get_memory (mr_id r) (mm_table m') = Some r" if "(r, s) \<in> set (search_memories env' now q m')" for r s
    using that ok keyword_search_members(1) [of "mm_table m'" r s] hybrid_search_sound(1) [OF ok]
    by (auto simp: search_memories_def mem_ok_def Let_def split: if_splits option.splits)
  with gone show ?thesis unfolding assms(2) by (auto simp: forget_def delete_memory_def Let_def)
qed

lemma forgotten_stays_gone_witness:
  "get_memory ''m1'' (mm_table tea_memories) \<noteq> None \<and>
   get_memory ''m1'' (mm_table (snd (forget (demo_mem_env True) ''m1'' tea_memories))) = None"
  using forgotten_stays_gone [OF mem_ok_reachable [OF tea_reachable] refl, of "''m1''" "demo_mem_env True"]
  by (simp add: tea_memories_eq get_memory_def)

text \<open>The confirmation and expiry rules hold only for \<open>store\<close>: an update turns an unconfirmed memory
  into a critical one, or gives it an expiry before its creation, and the policy would refuse to
  store the result.\<close>

theorem update_evades_policy:
  "\<exists>m r. (mem_step default_memory_policy)\<^sup>*\<^sup>* no_memories m \<and> get_memory ''m1'' (mm_table m) = Some r \<and>
     mr_importance r = CRITICAL_MEMORY \<and> \<not> mr_confirmed r \<and> mr_expires r = Some (utc 0) \<and> at_utc (mr_created r) = 1 \<and>
     fst (remember (demo_mem_env True) r no_memories) = Inl PolicyViolation"
proof -
  let ?fs = "[Set_importance CRITICAL_MEMORY, Set_expires (Some (utc 0))]"
  let ?m = "snd (revise (demo_mem_env True) (utc 2) ''m1'' ?fs tea_memories)"
  let ?r = "(demo_memory ''m1'' ''tea'' 1 (Some (utc 0)))\<lparr>mr_importance := CRITICAL_MEMORY, mr_updated := utc 2\<rparr>"
  have "mem_step default_memory_policy tea_memories ?m" by (rule mem_step.revised) (simp_all add: demo_mem_env_def)
  with tea_reachable have "(mem_step default_memory_policy)\<^sup>*\<^sup>* no_memories ?m" by (rule rtranclp.rtrancl_into_rtrancl)
  moreover have "get_memory ''m1'' (mm_table ?m) = Some ?r"
    by (simp add: revise_def update_memory_def tea_memories_eq get_memory_def is_unknown_def refused_value_def sets_updated_def)
      (simp add: demo_memory_def)
  moreover have "fst (remember (demo_mem_env True) ?r no_memories) = Inl PolicyViolation"
    by (simp add: remember_def evaluate_memory_def demo_memory_def short_text_clean utc_def)
  moreover have "mr_importance ?r = CRITICAL_MEMORY \<and> \<not> mr_confirmed ?r \<and> mr_expires ?r = Some (utc 0) \<and> at_utc (mr_created ?r) = 1"
    by (simp add: demo_memory_def utc_def)
  ultimately show ?thesis by blast
qed

text \<open>A secret in a list inside a list of the metadata is stored.\<close>

lemma nested_list_secret_stored:
  "fst (remember (demo_mem_env True) ((demo_memory ''m1'' ''tea'' 1 None)\<lparr>mr_metadata := [(''k'', PSeq [PSeq [PStr s]])]\<rparr>) no_memories) =
     Inr ''m1''"
  by (simp add: remember_def evaluate_memory_def demo_memory_def short_text_clean)

end
