(* ===== verification/Voice_Pipeline.thy ===== *)
theory Voice_Pipeline
  imports Tom_Prelude
begin

text \<open>
  Models \<open>VoicePipelineManager\<close> of \<open>python/tom/voice/pipeline.py\<close>: the state machine, barge-in, reset and
  the turn coroutine. Definitions are the sections between suspension points; \<open>pipeline_event\<close>
  interleaves them. Each \<open>run_turn\<close> call runs in a task of its own, numbered by its position in
  \<open>vp_turns\<close>; \<open>task.cancel()\<close> sets \<open>tn_cancel\<close> and the task sees it when it runs next. What the engine,
  the speech models, the agent and the formatter answer is part of the events. The state callbacks
  are represented by \<open>vp_log\<close>, the transitions they are called with; an exception in one is swallowed
  by the code.
\<close>

subsection \<open>State machine\<close>

datatype pipeline_state = IDLE | LISTENING | PROCESSING | SPEAKING | INTERRUPTED | ERROR

fun pipeline_transitions :: "pipeline_state \<Rightarrow> pipeline_state list" where
  "pipeline_transitions IDLE = [LISTENING, PROCESSING, ERROR]"
| "pipeline_transitions LISTENING = [PROCESSING, SPEAKING, IDLE, INTERRUPTED, ERROR]"
| "pipeline_transitions PROCESSING = [SPEAKING, IDLE, INTERRUPTED, ERROR]"
| "pipeline_transitions SPEAKING = [IDLE, LISTENING, INTERRUPTED, ERROR]"
| "pipeline_transitions INTERRUPTED = [IDLE, LISTENING, ERROR]"
| "pipeline_transitions ERROR = [IDLE, LISTENING]"

record turn_result =
  vr_transcript :: string
  vr_response :: string
  vr_formatted :: string
  vr_interrupted :: bool
  vr_error :: "string option"
  vr_state :: pipeline_state

datatype turn_outcome = Result turn_result | RaisedError string | RaisedCancelled

datatype turn_phase =
    Capturing | Transcribing | Thinking string | Synthesizing string string string | Playing string string string
  | FailCleanup string | CancelCleanup | Finished turn_outcome

record turn =
  tn_id :: nat
  tn_raise :: bool
  tn_phase :: turn_phase
  tn_cancel :: bool

datatype pipeline_call = BargeStopping | ResetStopping

record pipeline =
  vp_state :: pipeline_state
  vp_interrupted :: bool
  vp_turn :: nat
  vp_active :: "nat option"
  vp_turns :: "turn list"
  vp_calls :: "pipeline_call list"
  vp_log :: "(pipeline_state \<times> pipeline_state) list"

definition new_pipeline :: pipeline where
  "new_pipeline = \<lparr>vp_state = IDLE, vp_interrupted = False, vp_turn = 0, vp_active = None, vp_turns = [],
     vp_calls = [], vp_log = []\<rparr>"

text \<open>\<open>None\<close>: \<open>InvalidStateTransitionError\<close>.\<close>

definition transition_pipeline :: "pipeline_state \<Rightarrow> pipeline \<Rightarrow> pipeline option" where
  "transition_pipeline s v =
     (if s = vp_state v then Some v
      else if s \<notin> set (pipeline_transitions (vp_state v)) then None
      else Some (v\<lparr>vp_state := s, vp_log := vp_log v @ [(vp_state v, s)]\<rparr>))"

text \<open>A transition whose permission has been checked before.\<close>

definition move :: "pipeline_state \<Rightarrow> pipeline \<Rightarrow> pipeline" where
  "move s v = (case transition_pipeline s v of None \<Rightarrow> v | Some v' \<Rightarrow> v')"

subsection \<open>Turns\<close>

definition phase_at :: "pipeline \<Rightarrow> nat \<Rightarrow> turn_phase" where
  "phase_at v i = tn_phase (vp_turns v ! i)"

definition set_turn :: "nat \<Rightarrow> turn_phase \<Rightarrow> pipeline \<Rightarrow> pipeline" where
  "set_turn i ph v = v\<lparr>vp_turns := (vp_turns v)[i := (vp_turns v ! i)\<lparr>tn_phase := ph\<rparr>]\<rparr>"

definition set_cancel :: "nat \<Rightarrow> bool \<Rightarrow> pipeline \<Rightarrow> pipeline" where
  "set_cancel i b v = v\<lparr>vp_turns := (vp_turns v)[i := (vp_turns v ! i)\<lparr>tn_cancel := b\<rparr>]\<rparr>"

definition stale :: "nat \<Rightarrow> pipeline \<Rightarrow> bool" where
  "stale i v \<longleftrightarrow> vp_interrupted v \<or> vp_turn v \<noteq> tn_id (vp_turns v ! i)"

text \<open>The \<open>finally\<close> block.\<close>

definition finish_turn :: "nat \<Rightarrow> turn_outcome \<Rightarrow> pipeline \<Rightarrow> pipeline" where
  "finish_turn i out v = (set_turn i (Finished out) v)\<lparr>vp_active := if vp_active v = Some i then None else vp_active v\<rparr>"

definition result :: "string \<Rightarrow> string \<Rightarrow> string \<Rightarrow> bool \<Rightarrow> pipeline_state \<Rightarrow> turn_outcome" where
  "result tr resp fm intr s =
     Result \<lparr>vr_transcript = tr, vr_response = resp, vr_formatted = fm, vr_interrupted = intr, vr_error = None, vr_state = s\<rparr>"

text \<open>\<open>except Exception\<close>, up to its first suspension.\<close>

definition fail_turn :: "nat \<Rightarrow> string \<Rightarrow> pipeline \<Rightarrow> pipeline" where
  "fail_turn i err v = (set_turn i (FailCleanup err) v)\<lparr>vp_turn := vp_turn v + 1\<rparr>"

definition advance :: "nat \<Rightarrow> pipeline_state \<Rightarrow> (pipeline \<Rightarrow> pipeline) \<Rightarrow> pipeline \<Rightarrow> pipeline" where
  "advance i s k v =
     (case transition_pipeline s v of None \<Rightarrow> fail_turn i ''invalid transition'' v | Some v' \<Rightarrow> k v')"

definition captured :: "nat \<Rightarrow> rat list \<Rightarrow> pipeline \<Rightarrow> pipeline" where
  "captured i samples v =
     (if stale i v then finish_turn i (result [] [] [] True (vp_state v)) v
      else if samples = [] then advance i IDLE (finish_turn i (result [] [] [] False IDLE)) v
      else advance i PROCESSING (set_turn i Transcribing) v)"

definition transcribed :: "nat \<Rightarrow> string \<Rightarrow> pipeline \<Rightarrow> pipeline" where
  "transcribed i txt v =
     (let transcript = strip txt
      in if stale i v then finish_turn i (result transcript [] [] True (vp_state v)) v
         else if transcript = [] then advance i IDLE (finish_turn i (result [] [] [] False IDLE)) v
         else set_turn i (Thinking transcript) v)"

definition answered :: "nat \<Rightarrow> (string \<Rightarrow> string) \<Rightarrow> string \<Rightarrow> string \<Rightarrow> pipeline \<Rightarrow> pipeline" where
  "answered i format transcript resp v =
     (let raw = strip resp
      in if stale i v then finish_turn i (result transcript raw [] True (vp_state v)) v
         else if raw = [] then advance i IDLE (finish_turn i (result transcript [] [] False IDLE)) v
         else if strip (format raw) = [] then advance i IDLE (finish_turn i (result transcript raw [] False IDLE)) v
         else advance i SPEAKING (set_turn i (Synthesizing transcript raw (format raw))) v)"

definition synthesized :: "nat \<Rightarrow> string \<Rightarrow> string \<Rightarrow> string \<Rightarrow> pipeline \<Rightarrow> pipeline" where
  "synthesized i tr raw fm v =
     (if stale i v then finish_turn i (result tr raw fm True (vp_state v)) v
      else set_turn i (Playing tr raw fm) v)"

definition played :: "nat \<Rightarrow> string \<Rightarrow> string \<Rightarrow> string \<Rightarrow> pipeline \<Rightarrow> pipeline" where
  "played i tr raw fm v =
     (if stale i v then finish_turn i (result tr raw fm True (vp_state v)) v
      else advance i IDLE (finish_turn i (result tr raw fm False IDLE)) v)"

text \<open>What the awaited call of a turn gives.\<close>

datatype answer = Samples "rat list" | Spoken string | Reply "string \<Rightarrow> string" string | Done | Raises string

definition resume_turn :: "nat \<Rightarrow> answer \<Rightarrow> pipeline \<Rightarrow> pipeline option" where
  "resume_turn i a v =
     (case (phase_at v i, a) of
        (Capturing, Samples xs) \<Rightarrow> Some (captured i xs v)
      | (Transcribing, Spoken txt) \<Rightarrow> Some (transcribed i txt v)
      | (Thinking tr, Reply f r) \<Rightarrow> Some (answered i f tr r v)
      | (Synthesizing tr raw fm, Done) \<Rightarrow> Some (synthesized i tr raw fm v)
      | (Playing tr raw fm, Done) \<Rightarrow> Some (played i tr raw fm v)
      | (Capturing, Raises err) \<Rightarrow> Some (fail_turn i err v)
      | (Transcribing, Raises err) \<Rightarrow> Some (fail_turn i err v)
      | (Thinking tr, Raises err) \<Rightarrow> Some (fail_turn i err v)
      | (Synthesizing tr raw fm, Raises err) \<Rightarrow> Some (fail_turn i err v)
      | (Playing tr raw fm, Raises err) \<Rightarrow> Some (fail_turn i err v)
      | _ \<Rightarrow> None)"

text \<open>The start of \<open>run_turn\<close>; \<open>None\<close> is \<open>VoicePipelineBusyError\<close>.\<close>

definition open_turn :: "bool \<Rightarrow> pipeline \<Rightarrow> pipeline" where
  "open_turn raise v =
     (let v1 = (if vp_state v = INTERRUPTED then move IDLE v else v)
      in move LISTENING (v1\<lparr>vp_interrupted := False, vp_turn := vp_turn v + 1, vp_active := Some (length (vp_turns v)),
           vp_turns := vp_turns v @ [\<lparr>tn_id = vp_turn v + 1, tn_raise = raise, tn_phase = Capturing, tn_cancel = False\<rparr>]\<rparr>))"

definition begin_turn :: "rat list option \<Rightarrow> bool \<Rightarrow> pipeline \<Rightarrow> pipeline option" where
  "begin_turn samples raise v =
     (if vp_state v \<notin> {IDLE, INTERRUPTED} then None
      else Some (case samples of
                   None \<Rightarrow> open_turn raise v
                 | Some xs \<Rightarrow> captured (length (vp_turns v)) xs (open_turn raise v)))"

text \<open>The task of a turn runs with a pending cancellation: \<open>except CancelledError\<close> up to its first
  suspension, or an exit out of a handler that was already cleaning up.\<close>

definition deliver_cancel :: "nat \<Rightarrow> pipeline \<Rightarrow> pipeline option" where
  "deliver_cancel i v =
     (if \<not> tn_cancel (vp_turns v ! i) then None
      else let v1 = set_cancel i False v
           in case phase_at v i of
                Finished _ \<Rightarrow> None
              | FailCleanup _ \<Rightarrow> Some (finish_turn i RaisedCancelled v1)
              | CancelCleanup \<Rightarrow> Some (finish_turn i RaisedCancelled v1)
              | _ \<Rightarrow> Some ((set_turn i CancelCleanup v1)\<lparr>vp_interrupted := True, vp_turn := vp_turn v + 1\<rparr>))"

definition cleaned_up :: "nat \<Rightarrow> pipeline \<Rightarrow> pipeline option" where
  "cleaned_up i v =
     (case phase_at v i of
        FailCleanup err \<Rightarrow>
          (let v1 = (if ERROR \<in> set (pipeline_transitions (vp_state v)) then move ERROR v else v)
           in Some (finish_turn i (if tn_raise (vp_turns v ! i) then RaisedError err
                else Result \<lparr>vr_transcript = [], vr_response = [], vr_formatted = [], vr_interrupted = False,
                             vr_error = Some err, vr_state = vp_state v1\<rparr>) v1))
      | CancelCleanup \<Rightarrow>
          Some (finish_turn i RaisedCancelled
            (if vp_state v = SPEAKING then move INTERRUPTED v
             else if vp_state v \<noteq> INTERRUPTED \<and> IDLE \<in> set (pipeline_transitions (vp_state v)) then move IDLE v
             else v))
      | _ \<Rightarrow> None)"

subsection \<open>Barge-in and reset\<close>

definition cancel_active :: "pipeline \<Rightarrow> pipeline" where
  "cancel_active v = (case vp_active v of None \<Rightarrow> v | Some j \<Rightarrow> set_cancel j True v)"

definition barge_in_begin :: "pipeline \<Rightarrow> pipeline" where
  "barge_in_begin v = v\<lparr>vp_interrupted := True, vp_turn := vp_turn v + 1, vp_calls := BargeStopping # vp_calls v\<rparr>"

definition barge_in_end :: "pipeline \<Rightarrow> pipeline" where
  "barge_in_end v =
     (let v1 = cancel_active (v\<lparr>vp_calls := remove1 BargeStopping (vp_calls v)\<rparr>)
      in if vp_state v \<in> {SPEAKING, PROCESSING, LISTENING} then move INTERRUPTED v1 else v1)"

definition reset_begin :: "pipeline \<Rightarrow> pipeline" where
  "reset_begin v = cancel_active (v\<lparr>vp_interrupted := False, vp_turn := vp_turn v + 1, vp_calls := ResetStopping # vp_calls v\<rparr>)"

definition reset_end :: "pipeline \<Rightarrow> pipeline" where
  "reset_end v = move IDLE (v\<lparr>vp_calls := remove1 ResetStopping (vp_calls v)\<rparr>)"

datatype voice_event =
    RunTurn "rat list option" bool | TurnResumes nat answer | TurnCleaned nat | TurnCancelled nat | TaskCancel nat
  | BargeIn | BargeInEnds | Reset | ResetEnds

text \<open>\<open>None\<close>: the event cannot happen now. A turn with a pending cancellation runs nothing else.\<close>

definition turn_waits :: "nat \<Rightarrow> pipeline \<Rightarrow> bool" where
  "turn_waits i v \<longleftrightarrow> i < length (vp_turns v) \<and> \<not> tn_cancel (vp_turns v ! i)"

fun pipeline_event :: "voice_event \<Rightarrow> pipeline \<Rightarrow> pipeline option" where
  "pipeline_event (RunTurn samples raise) v = Some (case begin_turn samples raise v of None \<Rightarrow> v | Some v' \<Rightarrow> v')"
| "pipeline_event (TurnResumes i a) v = (if turn_waits i v then resume_turn i a v else None)"
| "pipeline_event (TurnCleaned i) v = (if turn_waits i v then cleaned_up i v else None)"
| "pipeline_event (TurnCancelled i) v = (if i < length (vp_turns v) then deliver_cancel i v else None)"
| "pipeline_event (TaskCancel i) v = (if i < length (vp_turns v) then Some (set_cancel i True v) else None)"
| "pipeline_event BargeIn v = Some (barge_in_begin v)"
| "pipeline_event BargeInEnds v = (if BargeStopping \<in> set (vp_calls v) then Some (barge_in_end v) else None)"
| "pipeline_event Reset v = Some (reset_begin v)"
| "pipeline_event ResetEnds v = (if ResetStopping \<in> set (vp_calls v) then Some (reset_end v) else None)"

fun run_pipeline :: "voice_event list \<Rightarrow> pipeline \<Rightarrow> pipeline option" where
  "run_pipeline [] v = Some v"
| "run_pipeline (e # es) v = (case pipeline_event e v of None \<Rightarrow> None | Some v' \<Rightarrow> run_pipeline es v')"

interpretation vm: event_machine pipeline_event run_pipeline
  by unfold_locales (simp_all split: option.split)

interpretation vt: transition_table pipeline_transitions "\<lambda>_. False"
proof
  show "False \<longleftrightarrow> pipeline_transitions s = []" for s by (cases s) simp_all
qed

subsection \<open>What the sections leave alone\<close>

lemma transition_fields:
  assumes "transition_pipeline s v = Some v'"
  shows "vp_turns v' = vp_turns v" "vp_turn v' = vp_turn v" "vp_interrupted v' = vp_interrupted v"
    "vp_active v' = vp_active v" "vp_calls v' = vp_calls v" "vp_state v' = s"
  using assms by (auto simp: transition_pipeline_def split: if_splits)

lemma move_fields [simp]:
  "vp_turns (move s v) = vp_turns v" "vp_turn (move s v) = vp_turn v" "vp_interrupted (move s v) = vp_interrupted v"
  "vp_active (move s v) = vp_active v" "vp_calls (move s v) = vp_calls v"
  by (auto simp: move_def dest: transition_fields split: option.splits)

lemma set_turn_fields [simp]:
  "length (vp_turns (set_turn i ph v)) = length (vp_turns v)" "vp_turn (set_turn i ph v) = vp_turn v"
  "vp_interrupted (set_turn i ph v) = vp_interrupted v" "vp_state (set_turn i ph v) = vp_state v"
  "vp_active (set_turn i ph v) = vp_active v" "vp_calls (set_turn i ph v) = vp_calls v" "vp_log (set_turn i ph v) = vp_log v"
  "length (vp_turns (set_cancel i b v)) = length (vp_turns v)" "vp_turn (set_cancel i b v) = vp_turn v"
  "vp_interrupted (set_cancel i b v) = vp_interrupted v" "vp_state (set_cancel i b v) = vp_state v"
  "vp_active (set_cancel i b v) = vp_active v" "vp_calls (set_cancel i b v) = vp_calls v" "vp_log (set_cancel i b v) = vp_log v"
  by (simp_all add: set_turn_def set_cancel_def)

lemma turns_set_turn [simp]:
  "k < length (vp_turns v) \<Longrightarrow> vp_turns (set_turn i ph v) ! k =
     (if k = i then (vp_turns v ! k)\<lparr>tn_phase := ph\<rparr> else vp_turns v ! k)"
  "k < length (vp_turns v) \<Longrightarrow> vp_turns (set_cancel i b v) ! k =
     (if k = i then (vp_turns v ! k)\<lparr>tn_cancel := b\<rparr> else vp_turns v ! k)"
  by (auto simp: set_turn_def set_cancel_def nth_list_update)

lemma finish_turn_fields [simp]:
  "length (vp_turns (finish_turn i out v)) = length (vp_turns v)" "vp_turn (finish_turn i out v) = vp_turn v"
  "vp_interrupted (finish_turn i out v) = vp_interrupted v" "vp_state (finish_turn i out v) = vp_state v"
  "vp_calls (finish_turn i out v) = vp_calls v" "vp_log (finish_turn i out v) = vp_log v"
  "k < length (vp_turns v) \<Longrightarrow> vp_turns (finish_turn i out v) ! k =
     (if k = i then (vp_turns v ! k)\<lparr>tn_phase := Finished out\<rparr> else vp_turns v ! k)"
  by (simp_all add: finish_turn_def)

lemma fail_turn_fields [simp]:
  "length (vp_turns (fail_turn i err v)) = length (vp_turns v)" "vp_turn (fail_turn i err v) = vp_turn v + 1"
  "vp_interrupted (fail_turn i err v) = vp_interrupted v" "vp_state (fail_turn i err v) = vp_state v"
  "vp_calls (fail_turn i err v) = vp_calls v" "vp_log (fail_turn i err v) = vp_log v"
  "k < length (vp_turns v) \<Longrightarrow> vp_turns (fail_turn i err v) ! k =
     (if k = i then (vp_turns v ! k)\<lparr>tn_phase := FailCleanup err\<rparr> else vp_turns v ! k)"
  by (simp_all add: fail_turn_def)

lemma cancel_active_fields [simp]:
  "length (vp_turns (cancel_active v)) = length (vp_turns v)" "vp_turn (cancel_active v) = vp_turn v"
  "vp_interrupted (cancel_active v) = vp_interrupted v" "vp_state (cancel_active v) = vp_state v" "vp_log (cancel_active v) = vp_log v"
  "vp_calls (cancel_active v) = vp_calls v" "vp_active (cancel_active v) = vp_active v"
  by (simp_all add: cancel_active_def split: option.splits)

lemma cancel_active_turns:
  "k < length (vp_turns v) \<Longrightarrow> tn_id (vp_turns (cancel_active v) ! k) = tn_id (vp_turns v ! k) \<and>
     tn_phase (vp_turns (cancel_active v) ! k) = tn_phase (vp_turns v ! k)"
  by (simp add: cancel_active_def split: option.splits)

text \<open>A section of turn \<open>i\<close> that starts from \<open>v\<close>: it touches no other turn, and it moves turn \<open>i\<close> only as
  stated.\<close>

definition turn_section :: "nat \<Rightarrow> pipeline \<Rightarrow> pipeline \<Rightarrow> bool" where
  "turn_section i v v' \<longleftrightarrow> length (vp_turns v') = length (vp_turns v) \<and> vp_turn v \<le> vp_turn v' \<and>
     (\<forall>k < length (vp_turns v). tn_id (vp_turns v' ! k) = tn_id (vp_turns v ! k) \<and> (k \<noteq> i \<longrightarrow> vp_turns v' ! k = vp_turns v ! k))"

lemma turn_section_refl: "turn_section i v v" by (simp add: turn_section_def)

lemma turn_section_basic:
  "turn_section i v (set_turn i ph v)" "turn_section i v (finish_turn i out v)" "turn_section i v (fail_turn i err v)"
  by (simp_all add: turn_section_def)

lemma turn_section_advance:
  assumes "\<And>v'. transition_pipeline s v = Some v' \<Longrightarrow> turn_section i v' (k v')"
  shows "turn_section i v (advance i s k v)"
proof (cases "transition_pipeline s v")
  case None
  then show ?thesis by (simp add: advance_def turn_section_basic)
next
  case (Some v')
  with assms [OF Some] transition_fields [OF Some] show ?thesis by (simp add: advance_def turn_section_def)
qed

lemma turn_section_resumes:
  "turn_section i v (captured i xs v)" "turn_section i v (transcribed i txt v)" "turn_section i v (answered i f tr r v)"
  "turn_section i v (synthesized i tr raw fm v)" "turn_section i v (played i tr raw fm v)"
  unfolding captured_def transcribed_def answered_def synthesized_def played_def Let_def
  by (simp_all add: turn_section_basic turn_section_advance)

lemma turn_section_resume: "resume_turn i a v = Some v' \<Longrightarrow> turn_section i v v'"
  unfolding resume_turn_def
  by (auto simp: turn_section_resumes turn_section_basic split: turn_phase.splits answer.splits)

lemma turn_section_cleaned: "cleaned_up i v = Some v' \<Longrightarrow> turn_section i v v'"
  unfolding cleaned_up_def Let_def by (auto simp: turn_section_def split: turn_phase.splits)

lemma turn_section_cancelled: "deliver_cancel i v = Some v' \<Longrightarrow> turn_section i v v'"
  unfolding deliver_cancel_def Let_def by (auto simp: turn_section_def split: turn_phase.splits if_splits)

text \<open>A new turn is appended; the others are untouched.\<close>

lemma begin_turn_turns:
  assumes "begin_turn samples raise v = Some v'"
  shows "length (vp_turns v') = Suc (length (vp_turns v))" "vp_turn v + 1 \<le> vp_turn v'"
    "k < length (vp_turns v) \<Longrightarrow> vp_turns v' ! k = vp_turns v ! k"
    "tn_id (vp_turns v' ! length (vp_turns v)) = vp_turn v + 1"
proof -
  define v3 where "v3 = open_turn raise v"
  have v': "v' = (case samples of None \<Rightarrow> v3 | Some xs \<Rightarrow> captured (length (vp_turns v)) xs v3)"
    unfolding v3_def using assms by (simp add: begin_turn_def split: if_splits)
  have v3: "vp_turns v3 = vp_turns v @ [\<lparr>tn_id = vp_turn v + 1, tn_raise = raise, tn_phase = Capturing, tn_cancel = False\<rparr>]"
      "vp_turn v3 = vp_turn v + 1" by (simp_all add: v3_def open_turn_def Let_def)
  have sec: "turn_section (length (vp_turns v)) v3 v'"
    unfolding v' by (auto simp: turn_section_refl turn_section_resumes split: option.splits)
  then show "length (vp_turns v') = Suc (length (vp_turns v))" "vp_turn v + 1 \<le> vp_turn v'"
    "tn_id (vp_turns v' ! length (vp_turns v)) = vp_turn v + 1"
    unfolding turn_section_def v3 by auto
  from sec show "k < length (vp_turns v) \<Longrightarrow> vp_turns v' ! k = vp_turns v ! k"
    unfolding turn_section_def v3 by (auto simp: nth_append)
qed

subsection \<open>Barge-in silences\<close>

text \<open>Turn \<open>i\<close> is out of date for good: its id is below the current one, and whatever it still reports is
  an interruption or a failure.\<close>

definition outdated :: "nat \<Rightarrow> turn_phase \<Rightarrow> pipeline \<Rightarrow> bool" where
  "outdated i ph v \<longleftrightarrow> i < length (vp_turns v) \<and> tn_id (vp_turns v ! i) < vp_turn v \<and>
     (case phase_at v i of
        Playing tr raw fm \<Rightarrow> ph = Playing tr raw fm
      | Finished (Result r) \<Rightarrow> ph = Finished (Result r) \<or> vr_interrupted r \<or> vr_error r \<noteq> None
      | _ \<Rightarrow> True)"

lemma outdated_section:
  assumes "outdated i ph v" and "turn_section j v v'" and "i \<noteq> j" shows "outdated i ph v'"
  using assms unfolding outdated_def turn_section_def phase_at_def by auto

lemma outdated_event:
  assumes "outdated i ph v" and "pipeline_event e v = Some v'" shows "outdated i ph v'"
proof (cases e)
  case (RunTurn samples raise)
  show ?thesis
  proof (cases "begin_turn samples raise v")
    case None with RunTurn assms show ?thesis by simp
  next
    case (Some w)
    with RunTurn assms begin_turn_turns [OF Some] show ?thesis by (auto simp: outdated_def phase_at_def)
  qed
next
  case (TurnResumes j a)
  then have r: "resume_turn j a v = Some v'" using assms(2) by (simp split: if_splits)
  show ?thesis
  proof (cases "i = j")
    case True
    with assms(1) have st: "stale j v" and i: "j < length (vp_turns v)" by (auto simp: outdated_def stale_def)
    from r st True i assms(1) show ?thesis
      unfolding resume_turn_def captured_def transcribed_def answered_def synthesized_def played_def Let_def outdated_def
      by (auto simp: result_def phase_at_def split: turn_phase.splits answer.splits)
  next
    case False
    with turn_section_resume [OF r] assms(1) show ?thesis by (auto intro: outdated_section)
  qed
next
  case (TurnCleaned j)
  then have r: "cleaned_up j v = Some v'" using assms(2) by (simp split: if_splits)
  show ?thesis
  proof (cases "i = j")
    case True
    with r assms(1) show ?thesis
      unfolding cleaned_up_def Let_def outdated_def by (auto simp: phase_at_def split: turn_phase.splits)
  qed (use turn_section_cleaned [OF r] assms(1) in \<open>auto intro: outdated_section\<close>)
next
  case (TurnCancelled j)
  then have r: "deliver_cancel j v = Some v'" using assms(2) by (simp split: if_splits)
  show ?thesis
  proof (cases "i = j")
    case True
    with r assms(1) show ?thesis
      unfolding deliver_cancel_def Let_def outdated_def by (auto simp: phase_at_def split: turn_phase.splits if_splits)
  qed (use turn_section_cancelled [OF r] assms(1) in \<open>auto intro: outdated_section\<close>)
next
  case (TaskCancel j)
  with assms show ?thesis by (auto simp: outdated_def phase_at_def split: if_splits)
next
  case BargeInEnds
  with assms cancel_active_turns [of i "v\<lparr>vp_calls := remove1 BargeStopping (vp_calls v)\<rparr>"] show ?thesis
    by (auto simp: outdated_def phase_at_def barge_in_end_def Let_def split: if_splits)
next
  case Reset
  with assms cancel_active_turns [of i "v\<lparr>vp_interrupted := False, vp_turn := vp_turn v + 1, vp_calls := ResetStopping # vp_calls v\<rparr>"]
  show ?thesis by (auto simp: outdated_def phase_at_def reset_begin_def)
qed (use assms in \<open>auto simp: outdated_def phase_at_def barge_in_begin_def reset_end_def split: if_splits\<close>)

lemma outdated_run: "outdated i ph v \<Longrightarrow> run_pipeline es v = Some v' \<Longrightarrow> outdated i ph v'"
  by (rule vm.run_invariant) (auto dest: outdated_event)

definition ids_ok :: "pipeline \<Rightarrow> bool" where
  "ids_ok v \<longleftrightarrow> (\<forall>i < length (vp_turns v). tn_id (vp_turns v ! i) \<le> vp_turn v)"

lemma ids_ok_section: "ids_ok v \<Longrightarrow> turn_section j v v' \<Longrightarrow> ids_ok v'"
  unfolding ids_ok_def turn_section_def by (metis order_trans)

lemma ids_ok_event:
  assumes "ids_ok v" and "pipeline_event e v = Some v'" shows "ids_ok v'"
proof (cases e)
  case (RunTurn samples raise)
  show ?thesis
  proof (cases "begin_turn samples raise v")
    case None with RunTurn assms show ?thesis by simp
  next
    case (Some w)
    have "tn_id (vp_turns w ! i) \<le> vp_turn w" if "i < length (vp_turns w)" for i
    proof (cases "i = length (vp_turns v)")
      case True with begin_turn_turns [OF Some] show ?thesis by simp
    next
      case False
      with that begin_turn_turns(1) [OF Some] have "i < length (vp_turns v)" by simp
      with begin_turn_turns(2,3) [OF Some] assms(1) show ?thesis by (fastforce simp: ids_ok_def)
    qed
    with RunTurn Some assms show ?thesis by (simp add: ids_ok_def)
  qed
next
  case BargeInEnds
  with assms cancel_active_turns [of _ "v\<lparr>vp_calls := remove1 BargeStopping (vp_calls v)\<rparr>"] show ?thesis
    by (auto simp: ids_ok_def barge_in_end_def Let_def split: if_splits)
next
  case Reset
  with assms cancel_active_turns [of _ "v\<lparr>vp_interrupted := False, vp_turn := vp_turn v + 1, vp_calls := ResetStopping # vp_calls v\<rparr>"]
  show ?thesis by (auto simp: ids_ok_def reset_begin_def le_SucI)
qed (use assms in \<open>auto simp: ids_ok_def barge_in_begin_def reset_end_def le_SucI split: if_splits
      dest: turn_section_resume turn_section_cleaned turn_section_cancelled intro: ids_ok_section [unfolded ids_ok_def, rule_format]\<close>)

subsection \<open>The state moves by the table\<close>

fun path_ok :: "pipeline_state \<Rightarrow> (pipeline_state \<times> pipeline_state) list \<Rightarrow> pipeline_state \<Rightarrow> bool" where
  "path_ok s [] t = (s = t)"
| "path_ok s ((a, b) # l) t = (a = s \<and> b \<in> set (pipeline_transitions a) \<and> path_ok b l t)"

lemma path_ok_append: "path_ok s (l @ l') t \<longleftrightarrow> (\<exists>u. path_ok s l u \<and> path_ok u l' t)"
  by (induction s l t rule: path_ok.induct) auto

definition moves :: "pipeline \<Rightarrow> pipeline \<Rightarrow> bool" where
  "moves v v' \<longleftrightarrow> (\<exists>l. vp_log v' = vp_log v @ l \<and> path_ok (vp_state v) l (vp_state v'))"

lemma moves_same: "vp_log v' = vp_log v \<Longrightarrow> vp_state v' = vp_state v \<Longrightarrow> moves v v'"
  unfolding moves_def by (intro exI [of _ "[]"]) simp

lemma moves_trans: "moves a b \<Longrightarrow> moves b c \<Longrightarrow> moves a c"
  unfolding moves_def by (metis append.assoc path_ok_append)

lemma moves_transition: "transition_pipeline s v = Some v' \<Longrightarrow> moves v v'"
  by (auto simp: transition_pipeline_def moves_def split: if_splits)

lemma moves_move: "moves v (move s v)"
  by (auto simp: move_def intro: moves_same moves_transition split: option.splits)

lemma moves_advance: "(\<And>w. moves w (k w)) \<Longrightarrow> moves v (advance i s k v)"
  unfolding advance_def by (auto split: option.splits intro: moves_same moves_trans moves_transition)

lemma moves_advance_basic [simp]:
  "moves v (finish_turn i out v)" "moves v (set_turn i ph v)"
  "moves v (advance i s (finish_turn i out) v)" "moves v (advance i s (set_turn i ph) v)"
  by (simp_all add: moves_same moves_advance)

lemma moves_sections:
  "moves v (captured i xs v)" "moves v (transcribed i txt v)" "moves v (answered i f tr r v)"
  "moves v (synthesized i tr raw fm v)" "moves v (played i tr raw fm v)"
  unfolding captured_def transcribed_def answered_def synthesized_def played_def Let_def by simp_all

lemma moves_open_turn: "moves v (open_turn raise v)"
proof -
  have "moves v (if vp_state v = INTERRUPTED then move IDLE v else v)" by (simp add: moves_move moves_same)
  then show ?thesis
    unfolding open_turn_def Let_def
    by (rule moves_trans) (rule moves_trans [OF _ moves_move], rule moves_same, simp_all)
qed

lemma moves_event:
  assumes "pipeline_event e v = Some v'" shows "moves v v'"
proof (cases e)
  case (RunTurn samples raise)
  then show ?thesis
    using assms moves_trans [OF moves_open_turn moves_sections(1)]
    by (auto simp: begin_turn_def intro: moves_same moves_open_turn split: option.splits if_splits)
next
  case (TurnResumes j a)
  with assms have "resume_turn j a v = Some v'" by (simp split: if_splits)
  then show ?thesis
    unfolding resume_turn_def by (auto intro: moves_sections moves_same split: turn_phase.splits answer.splits)
next
  case (TurnCleaned j)
  with assms have "cleaned_up j v = Some v'" by (simp split: if_splits)
  moreover have "moves v w \<Longrightarrow> moves v (finish_turn j out w)" for out w by (erule moves_trans) (simp add: moves_same)
  ultimately show ?thesis
    unfolding cleaned_up_def Let_def by (auto intro: moves_move moves_same split: turn_phase.splits if_splits)
next
  case (TurnCancelled j)
  with assms show ?thesis
    by (auto simp: deliver_cancel_def Let_def intro: moves_same split: if_splits turn_phase.splits)
next
  case BargeInEnds
  have "moves v (cancel_active (v\<lparr>vp_calls := cs\<rparr>))" for cs by (rule moves_same) simp_all
  with BargeInEnds assms show ?thesis
    by (auto simp: barge_in_end_def Let_def intro: moves_trans [OF _ moves_move] split: if_splits)
next
  case ResetEnds
  have "moves v (v\<lparr>vp_calls := cs\<rparr>)" for cs by (rule moves_same) simp_all
  with ResetEnds assms show ?thesis
    by (auto simp: reset_end_def intro: moves_trans [OF _ moves_move] split: if_splits)
qed (use assms in \<open>auto intro!: moves_same simp: barge_in_begin_def reset_begin_def split: if_splits\<close>)

lemma moves_run: "run_pipeline es v = Some v' \<Longrightarrow> moves v v'"
  by (rule vm.run_preorder [where R = moves]) (auto intro: moves_same moves_trans dest: moves_event)

subsection \<open>One turn at a time\<close>

definition finished :: "turn_phase \<Rightarrow> bool" where
  "finished ph = (case ph of Finished _ \<Rightarrow> True | _ \<Rightarrow> False)"

fun agrees :: "turn_phase \<Rightarrow> pipeline_state \<Rightarrow> bool" where
  "agrees Capturing s = (s = LISTENING)"
| "agrees Transcribing s = (s = PROCESSING)"
| "agrees (Thinking _) s = (s = PROCESSING)"
| "agrees (Synthesizing _ _ _) s = (s = SPEAKING)"
| "agrees (Playing _ _ _) s = (s = SPEAKING)"
| "agrees (FailCleanup _) s = False"
| "agrees CancelCleanup s = False"
| "agrees (Finished _) s = True"

text \<open>The pipeline as a careful caller uses it: a turn starts only when the earlier ones have ended and
  no barge-in or reset is under way.\<close>

definition pipeline_quiet :: "pipeline \<Rightarrow> bool" where
  "pipeline_quiet v \<longleftrightarrow> vp_calls v = [] \<and> (\<forall>i < length (vp_turns v). finished (phase_at v i))"

inductive serial :: "pipeline \<Rightarrow> bool" where
  created: "serial new_pipeline"
| happens: "serial v \<Longrightarrow> pipeline_event e v = Some v' \<Longrightarrow> (\<And>samples raise. e = RunTurn samples raise \<Longrightarrow> pipeline_quiet v) \<Longrightarrow> serial v'"

definition turn_ok :: "pipeline \<Rightarrow> nat \<Rightarrow> bool" where
  "turn_ok v i \<longleftrightarrow> tn_id (vp_turns v ! i) \<le> vp_turn v \<and>
     (vp_calls v \<noteq> [] \<longrightarrow> tn_id (vp_turns v ! i) < vp_turn v) \<and>
     (agrees (phase_at v i) (vp_state v) \<or> stale i v) \<and>
     (\<forall>err. phase_at v i \<in> {FailCleanup err, CancelCleanup} \<longrightarrow> tn_id (vp_turns v ! i) < vp_turn v)"

definition serial_ok :: "pipeline \<Rightarrow> bool" where
  "serial_ok v \<longleftrightarrow> (\<forall>i < length (vp_turns v). turn_ok v i) \<and>
     (\<forall>i < length (vp_turns v). \<forall>j < length (vp_turns v). \<not> finished (phase_at v i) \<and> \<not> finished (phase_at v j) \<longrightarrow> i = j)"

lemma open_turn_state:
  "vp_state v \<in> {IDLE, INTERRUPTED} \<Longrightarrow> vp_state (open_turn raise v) = LISTENING"
  by (auto simp: open_turn_def move_def transition_pipeline_def Let_def)

lemma open_turn_fields [simp]:
  "vp_turns (open_turn raise v) = vp_turns v @ [\<lparr>tn_id = vp_turn v + 1, tn_raise = raise, tn_phase = Capturing, tn_cancel = False\<rparr>]"
  "vp_turn (open_turn raise v) = vp_turn v + 1" "\<not> vp_interrupted (open_turn raise v)" "vp_calls (open_turn raise v) = vp_calls v"
  by (simp_all add: open_turn_def Let_def)

lemma advance_allowed:
  assumes "s \<in> set (pipeline_transitions (vp_state v))" "s \<noteq> vp_state v"
  shows "advance i s k v = k (v\<lparr>vp_state := s, vp_log := vp_log v @ [(vp_state v, s)]\<rparr>)"
  using assms by (simp add: advance_def transition_pipeline_def)

lemma finished_facts: "finished ph \<Longrightarrow> agrees ph s \<and> ph \<noteq> FailCleanup err \<and> ph \<noteq> CancelCleanup"
  by (cases ph) (simp_all add: finished_def)

lemma serial_ok_update:
  assumes "serial_ok v" and "turn_section j v v'" and j: "j < length (vp_turns v)" "\<not> finished (phase_at v j)"
    and "vp_calls v' = vp_calls v" and "agrees (phase_at v' j) (vp_state v') \<or> stale j v'"
    and "\<And>err. phase_at v' j \<in> {FailCleanup err, CancelCleanup} \<Longrightarrow> tn_id (vp_turns v' ! j) < vp_turn v'"
  shows "serial_ok v'"
proof -
  have len: "length (vp_turns v') = length (vp_turns v)" using assms(2) by (simp add: turn_section_def)
  have uniq: "\<forall>i < length (vp_turns v). \<forall>j < length (vp_turns v). \<not> finished (phase_at v i) \<and> \<not> finished (phase_at v j) \<longrightarrow> i = j"
    using assms(1) unfolding serial_ok_def by (rule conjunct2)
  have others: "finished (phase_at v i)" "phase_at v' i = phase_at v i" if "i < length (vp_turns v)" "i \<noteq> j" for i
  proof -
    show "finished (phase_at v i)" using uniq that j by metis
    show "phase_at v' i = phase_at v i" using assms(2) that by (simp add: turn_section_def phase_at_def)
  qed
  have ids: "tn_id (vp_turns v' ! i) \<le> vp_turn v' \<and> (vp_calls v' \<noteq> [] \<longrightarrow> tn_id (vp_turns v' ! i) < vp_turn v')"
    if "i < length (vp_turns v)" for i
  proof -
    have "turn_ok v i" using assms(1) that by (simp add: serial_ok_def)
    moreover have "vp_turn v \<le> vp_turn v'" "tn_id (vp_turns v' ! i) = tn_id (vp_turns v ! i)"
      using assms(2) that by (simp_all add: turn_section_def)
    ultimately show ?thesis using assms(5) by (auto simp: turn_ok_def)
  qed
  show ?thesis
    unfolding serial_ok_def
  proof (intro conjI allI impI)
    fix i assume "i < length (vp_turns v')"
    with len have i: "i < length (vp_turns v)" by simp
    show "turn_ok v' i"
    proof (cases "i = j")
      case True
      with ids [OF i] assms(6,7) show ?thesis by (simp add: turn_ok_def)
    next
      case False
      with others [OF i False] ids [OF i] finished_facts [of "phase_at v' i"] show ?thesis by (simp add: turn_ok_def)
    qed
  next
    fix i k assume "i < length (vp_turns v')" "k < length (vp_turns v')" "\<not> finished (phase_at v' i) \<and> \<not> finished (phase_at v' k)"
    with len others show "i = k" by metis
  qed
qed

lemma resume_unfinished: "resume_turn j a v = Some v' \<Longrightarrow> \<not> finished (phase_at v j)"
  by (auto simp: resume_turn_def finished_def split: turn_phase.splits answer.splits)

lemma resume_calls: "resume_turn j a v = Some v' \<Longrightarrow> vp_calls v' = vp_calls v"
  unfolding resume_turn_def captured_def transcribed_def answered_def synthesized_def played_def advance_def Let_def
  by (auto split: turn_phase.splits answer.splits if_splits option.splits dest: transition_fields)

text \<open>A turn that is live and agrees with the state moves without an error.\<close>

lemma resume_live:
  assumes "resume_turn j a v = Some v'" and "\<not> stale j v" and "agrees (phase_at v j) (vp_state v)" and "j < length (vp_turns v)"
    and "\<And>err. a \<noteq> Raises err"
  shows "agrees (phase_at v' j) (vp_state v')" "\<And>err. phase_at v' j \<notin> {FailCleanup err, CancelCleanup}"
  using assms
  unfolding resume_turn_def captured_def transcribed_def answered_def synthesized_def played_def Let_def
  by (auto simp: advance_allowed phase_at_def split: turn_phase.splits answer.splits if_splits)

lemma resume_stale:
  assumes "resume_turn j a v = Some v'" and "stale j v" and "j < length (vp_turns v)" and "\<And>err. a \<noteq> Raises err"
  shows "finished (phase_at v' j)"
  using assms
  unfolding resume_turn_def captured_def transcribed_def answered_def synthesized_def played_def Let_def
  by (auto simp: phase_at_def finished_def split: turn_phase.splits answer.splits)

lemma serial_ok_resume:
  assumes "serial_ok v" and r: "resume_turn j a v = Some v'" and j: "j < length (vp_turns v)"
  shows "serial_ok v'"
proof (rule serial_ok_update [OF assms(1) turn_section_resume [OF r] j resume_unfinished [OF r] resume_calls [OF r]])
  have idj: "tn_id (vp_turns v ! j) \<le> vp_turn v" and ag: "agrees (phase_at v j) (vp_state v) \<or> stale j v"
    using assms(1) j by (auto simp: serial_ok_def turn_ok_def)
  have "(agrees (phase_at v' j) (vp_state v') \<or> stale j v') \<and>
    (\<forall>err. phase_at v' j \<in> {FailCleanup err, CancelCleanup} \<longrightarrow> tn_id (vp_turns v' ! j) < vp_turn v')"
  proof (cases "\<exists>err. a = Raises err")
    case True
    then obtain err where "v' = fail_turn j err v"
      using r by (auto simp: resume_turn_def split: turn_phase.splits)
    with idj j show ?thesis by (auto simp: stale_def)
  next
    case noerr: False
    show ?thesis
    proof (cases "stale j v")
      case True
      with resume_stale [OF r True j] noerr show ?thesis by (auto simp: finished_def split: turn_phase.splits)
    next
      case False
      with resume_live [OF r False _ j] ag noerr show ?thesis by blast
    qed
  qed
  then show "agrees (phase_at v' j) (vp_state v') \<or> stale j v'"
    and "\<And>err. phase_at v' j \<in> {FailCleanup err, CancelCleanup} \<Longrightarrow> tn_id (vp_turns v' ! j) < vp_turn v'" by blast+
qed

lemma serial_ok_begin:
  assumes "serial_ok v" and q: "pipeline_quiet v" and b: "begin_turn samples raise v = Some v'"
  shows "serial_ok v'"
proof -
  let ?n = "length (vp_turns v)" and ?o = "open_turn raise v"
  have st: "vp_state v \<in> {IDLE, INTERRUPTED}" using b by (auto simp: begin_turn_def split: if_splits)
  have o: "serial_ok ?o"
  proof -
    have old: "finished (phase_at ?o i)" "tn_id (vp_turns ?o ! i) < vp_turn ?o" if "i < ?n" for i
      using q assms(1) that by (auto simp: pipeline_quiet_def serial_ok_def turn_ok_def phase_at_def nth_append less_Suc_eq_le)
    have new: "phase_at ?o ?n = Capturing" "tn_id (vp_turns ?o ! ?n) = vp_turn ?o" by (simp_all add: phase_at_def nth_append)
    have calls: "vp_calls v = []" using q by (simp add: pipeline_quiet_def)
    have split: "i < ?n \<or> i = ?n" if "i < length (vp_turns ?o)" for i using that by (auto simp: less_Suc_eq)
    show ?thesis
      unfolding serial_ok_def
    proof (intro conjI allI impI)
      fix i assume "i < length (vp_turns ?o)"
      from split [OF this] show "turn_ok ?o i"
      proof
        assume i: "i < ?n"
        with old [OF i] finished_facts [OF old(1) [OF i]] show ?thesis by (simp add: turn_ok_def calls)
      next
        assume "i = ?n"
        with new open_turn_state [OF st] show ?thesis by (simp add: turn_ok_def calls)
      qed
    next
      fix i k assume "i < length (vp_turns ?o)" "k < length (vp_turns ?o)" "\<not> finished (phase_at ?o i) \<and> \<not> finished (phase_at ?o k)"
      with split old(1) show "i = k" by metis
    qed
  qed
  show ?thesis
  proof (cases samples)
    case None
    with b st o show ?thesis by (auto simp: begin_turn_def)
  next
    case (Some xs)
    have "resume_turn ?n (Samples xs) ?o = Some (captured ?n xs ?o)" by (simp add: resume_turn_def phase_at_def nth_append)
    with serial_ok_resume [OF o this] b Some st show ?thesis by (auto simp: begin_turn_def)
  qed
qed

text \<open>Sections that only outdate turns, cancel them or move the state while every turn is out of date.\<close>

lemma serial_ok_outdating:
  assumes "serial_ok v" and "length (vp_turns v') = length (vp_turns v)"
    and same: "\<And>i. i < length (vp_turns v) \<Longrightarrow> tn_id (vp_turns v' ! i) = tn_id (vp_turns v ! i) \<and> phase_at v' i = phase_at v i"
    and "vp_turn v < vp_turn v' \<or> vp_turn v = vp_turn v' \<and> vp_calls v \<noteq> []"
  shows "serial_ok v'"
  unfolding serial_ok_def
proof (intro conjI allI impI)
  fix i assume "i < length (vp_turns v')"
  with assms(2) have i: "i < length (vp_turns v)" by simp
  then have "turn_ok v i" using assms(1) by (simp add: serial_ok_def)
  with same [OF i] assms(4) show "turn_ok v' i" by (auto simp: turn_ok_def stale_def)
next
  fix i k assume "i < length (vp_turns v')" "k < length (vp_turns v')" "\<not> finished (phase_at v' i) \<and> \<not> finished (phase_at v' k)"
  with assms(1,2) same show "i = k" unfolding serial_ok_def by metis
qed

lemma serial_ok_event:
  assumes ok: "serial_ok v" and ev: "pipeline_event e v = Some v'" and q: "\<And>samples raise. e = RunTurn samples raise \<Longrightarrow> pipeline_quiet v"
  shows "serial_ok v'"
proof (cases e)
  case (RunTurn samples raise)
  with ev q [OF RunTurn] ok show ?thesis by (auto split: option.splits intro: serial_ok_begin)
next
  case (TurnResumes j a)
  with ev ok show ?thesis by (auto simp: turn_waits_def intro: serial_ok_resume split: if_splits)
next
  case (TurnCleaned j)
  then have r: "cleaned_up j v = Some v'" and j: "j < length (vp_turns v)"
    using ev by (auto simp: turn_waits_def split: if_splits)
  have "\<not> finished (phase_at v j)" using r by (auto simp: cleaned_up_def finished_def split: turn_phase.splits)
  moreover have "vp_calls v' = vp_calls v" "finished (phase_at v' j)"
    using r j by (auto simp: cleaned_up_def finished_def phase_at_def Let_def split: turn_phase.splits)
  ultimately show ?thesis
    using finished_facts [of "phase_at v' j"] by (intro serial_ok_update [OF ok turn_section_cleaned [OF r] j]) auto
next
  case (TurnCancelled j)
  then have r: "deliver_cancel j v = Some v'" and j: "j < length (vp_turns v)"
    using ev by (auto split: if_splits)
  have nf: "\<not> finished (phase_at v j)" using r by (auto simp: deliver_cancel_def finished_def split: turn_phase.splits if_splits)
  have calls: "vp_calls v' = vp_calls v"
    using r by (auto simp: deliver_cancel_def Let_def finish_turn_def split: turn_phase.splits if_splits)
  have "tn_id (vp_turns v ! j) \<le> vp_turn v" using ok j by (auto simp: serial_ok_def turn_ok_def)
  then have "finished (phase_at v' j) \<or> (stale j v' \<and> tn_id (vp_turns v' ! j) < vp_turn v')"
    using r j by (auto simp: deliver_cancel_def finished_def phase_at_def stale_def Let_def split: turn_phase.splits if_splits)
  then show ?thesis
    using finished_facts [of "phase_at v' j"]
    by (intro serial_ok_update [OF ok turn_section_cancelled [OF r] j nf calls]) auto
next
  case (TaskCancel j)
  then have v': "v' = set_cancel j True v" "j < length (vp_turns v)" using ev by (auto split: if_splits)
  have "turn_ok v' i = turn_ok v i" "phase_at v' i = phase_at v i" if "i < length (vp_turns v)" for i
    using that unfolding v' by (auto simp: turn_ok_def phase_at_def stale_def)
  with ok v' show ?thesis by (simp add: serial_ok_def)
next
  case BargeIn
  with ev show ?thesis by (intro serial_ok_outdating [OF ok]) (auto simp: barge_in_begin_def phase_at_def)
next
  case BargeInEnds
  let ?v1 = "v\<lparr>vp_calls := remove1 BargeStopping (vp_calls v)\<rparr>"
  have "vp_calls v \<noteq> []" using ev BargeInEnds by (auto split: if_splits)
  moreover have "vp_turns v' = vp_turns (cancel_active ?v1)" "vp_turn v' = vp_turn v"
    using ev BargeInEnds by (auto simp: barge_in_end_def Let_def split: if_splits)
  ultimately show ?thesis
    using cancel_active_turns [of _ ?v1] by (intro serial_ok_outdating [OF ok]) (auto simp: phase_at_def)
next
  case Reset
  let ?v1 = "v\<lparr>vp_interrupted := False, vp_turn := vp_turn v + 1, vp_calls := ResetStopping # vp_calls v\<rparr>"
  have "v' = cancel_active ?v1" using ev Reset by (simp add: reset_begin_def)
  then show ?thesis
    using cancel_active_turns [of _ ?v1] by (intro serial_ok_outdating [OF ok]) (auto simp: phase_at_def)
next
  case ResetEnds
  then have "vp_calls v \<noteq> []" "vp_turns v' = vp_turns v" "vp_turn v' = vp_turn v"
    using ev by (auto simp: reset_end_def split: if_splits)
  then show ?thesis by (intro serial_ok_outdating [OF ok]) (auto simp: phase_at_def)
qed

lemma serial_serial_ok: "serial v \<Longrightarrow> serial_ok v"
proof (induction rule: serial.induct)
  case created show ?case by (simp add: serial_ok_def new_pipeline_def)
next
  case (happens v e v')
  then show ?case using serial_ok_event by blast
qed

subsection \<open>Properties of the pipeline\<close>

text \<open>Runs from a new pipeline are evaluated with these.\<close>

lemmas pipeline_run = begin_turn_def open_turn_def move_def transition_pipeline_def captured_def stale_def advance_def
  set_turn_def set_cancel_def turn_waits_def resume_turn_def phase_at_def transcribed_def answered_def synthesized_def played_def
  finish_turn_def fail_turn_def deliver_cancel_def cleaned_up_def cancel_active_def barge_in_begin_def barge_in_end_def
  new_pipeline_def ids_ok_def result_def

lemma strip_samples [simp]: "strip ''a'' = ''a''" "strip ''b'' = ''b''" by code_simp+

lemma serial_run:
  "serial v \<Longrightarrow> run_pipeline es v = Some v' \<Longrightarrow> (\<And>e samples raise. e \<in> set es \<Longrightarrow> e \<noteq> RunTurn samples raise) \<Longrightarrow> serial v'"
  by (rule vm.run_invariant [where I = serial]) (blast intro: happens)+

text \<open>C12: After a barge-in no turn that had started speaks: from the moment the interruption is noted,
  none of the turns begun before submits audio, and whatever result such a turn still returns says
  that it was interrupted or failed, whatever else happens, new turns and resets included.\<close>

theorem barge_in_silences:
  assumes "ids_ok v" and "run_pipeline es (barge_in_begin v) = Some v'" and "i < length (vp_turns v)"
  shows "(\<forall>tr raw fm. phase_at v' i = Playing tr raw fm \<longrightarrow> phase_at v i = Playing tr raw fm) \<and>
    (\<forall>r. phase_at v' i = Finished (Result r) \<longrightarrow> phase_at v i = Finished (Result r) \<or> vr_interrupted r \<or> vr_error r \<noteq> None)"
proof -
  have "outdated i (phase_at v i) (barge_in_begin v)"
    using assms(1,3) by (auto simp: outdated_def barge_in_begin_def ids_ok_def phase_at_def less_Suc_eq_le
        split: turn_phase.splits turn_outcome.splits)
  from outdated_run [OF this assms(2)] show ?thesis by (auto simp: outdated_def)
qed

lemma barge_in_silences_witness:
  "\<exists>v v'. run_pipeline [RunTurn (Some [1]) False, TurnResumes 0 (Spoken ''a''), TurnResumes 0 (Reply id ''b'')] new_pipeline = Some v \<and>
    run_pipeline [TurnResumes 0 Done] (barge_in_begin v) = Some v' \<and>
    (\<exists>r. phase_at v' 0 = Finished (Result r) \<and> (vr_interrupted r \<or> vr_error r \<noteq> None))"
proof -
  obtain v where v: "run_pipeline [RunTurn (Some [1]) False, TurnResumes 0 (Spoken ''a''), TurnResumes 0 (Reply id ''b'')] new_pipeline = Some v"
    "ids_ok v" "0 < length (vp_turns v)" "phase_at v 0 = Synthesizing ''a'' ''b'' ''b''" "tn_cancel (vp_turns v ! 0) = False"
    by (auto simp: pipeline_run Let_def)
  obtain v' r where v': "run_pipeline [TurnResumes 0 Done] (barge_in_begin v) = Some v'" "phase_at v' 0 = Finished (Result r)"
    using v(3-5) by (auto simp: pipeline_run Let_def)
  from barge_in_silences [OF v(2) v'(1) v(3)] v v' show ?thesis by auto
qed

text \<open>Every change of state is a step of the transition table: the transitions the callbacks are told
  form one path of the table from IDLE to the present state, in every interleaving of turns,
  cancellations, barge-ins and resets.\<close>

theorem pipeline_follows_table:
  assumes "run_pipeline es new_pipeline = Some v"
  shows "path_ok IDLE (vp_log v) (vp_state v)"
  using moves_run [OF assms] by (auto simp: moves_def new_pipeline_def)

lemma pipeline_follows_table_witness:
  "path_ok IDLE (vp_log (fail_turn 0 ''x'' (open_turn False new_pipeline))) LISTENING"
proof -
  have "run_pipeline [RunTurn None False, TurnResumes 0 (Raises ''x'')] new_pipeline = Some (fail_turn 0 ''x'' (open_turn False new_pipeline))"
    by (simp add: pipeline_run Let_def)
  from pipeline_follows_table [OF this] show ?thesis by (simp add: open_turn_state new_pipeline_def)
qed

text \<open>When turns are started one at a time, with no barge-in or reset under way, no turn ever fails by
  an invalid transition: an awaited answer other than an exception moves the turn on or ends it.\<close>

theorem serial_turns_never_raise:
  assumes "serial v" and "resume_turn i a v = Some v'" and "i < length (vp_turns v)" and "\<And>err. a \<noteq> Raises err"
  shows "\<forall>err. phase_at v' i \<noteq> FailCleanup err"
proof (cases "stale i v")
  case True
  with resume_stale [OF assms(2) True assms(3,4)] show ?thesis by (auto simp: finished_def)
next
  case False
  have "agrees (phase_at v i) (vp_state v)"
    using serial_serial_ok [OF assms(1)] assms(3) False by (auto simp: serial_ok_def turn_ok_def)
  from resume_live(2) [OF assms(2) False this assms(3,4)] show ?thesis by auto
qed

lemma serial_turns_never_raise_witness:
  "\<exists>v'. serial (open_turn False new_pipeline) \<and> resume_turn 0 (Samples [1]) (open_turn False new_pipeline) = Some v' \<and>
    (\<forall>err. phase_at v' 0 \<noteq> FailCleanup err)"
proof -
  have ev: "pipeline_event (RunTurn None False) new_pipeline = Some (open_turn False new_pipeline)"
    by (simp add: begin_turn_def new_pipeline_def)
  have s: "serial (open_turn False new_pipeline)"
    by (rule happens [OF created ev]) (simp add: pipeline_quiet_def new_pipeline_def)
  obtain v' where r: "resume_turn 0 (Samples [1]) (open_turn False new_pipeline) = Some v'"
    by (simp add: resume_turn_def phase_at_def new_pipeline_def)
  from serial_turns_never_raise [OF s r] s r show ?thesis by (simp add: new_pipeline_def)
qed

text \<open>An undisturbed turn completes: from IDLE or INTERRUPTED, with audio, a transcript, an answer and
  speakable text, it returns them, uninterrupted, and leaves the pipeline IDLE.\<close>

theorem turn_completes:
  assumes "vp_state v \<in> {IDLE, INTERRUPTED}" and "samples \<noteq> []" and "strip txt \<noteq> []" and "strip resp \<noteq> []"
    and "strip (format (strip resp)) \<noteq> []" and "i = length (vp_turns v)"
  shows "\<exists>v'. run_pipeline [RunTurn (Some samples) raise, TurnResumes i (Spoken txt), TurnResumes i (Reply format resp),
      TurnResumes i Done, TurnResumes i Done] v = Some v' \<and> vp_state v' = IDLE \<and>
    phase_at v' i = Finished (result (strip txt) (strip resp) (format (strip resp)) False IDLE)"
  using assms by (auto simp: pipeline_run Let_def nth_append)

lemma turn_completes_witness:
  "\<exists>v'. run_pipeline [RunTurn (Some [1]) False, TurnResumes 0 (Spoken ''a''), TurnResumes 0 (Reply id ''b''),
      TurnResumes 0 Done, TurnResumes 0 Done] new_pipeline = Some v' \<and> vp_state v' = IDLE \<and>
    phase_at v' 0 = Finished (result (strip ''a'') (strip ''b'') (id (strip ''b'')) False IDLE)"
  by (rule turn_completes) (simp_all add: new_pipeline_def)

text \<open>A cancelled turn can take the next turn down with it: when a barge-in has cancelled a waiting turn
  and a new turn starts before the cancelled task runs again, as it does when one caller awaits
  \<open>handle_barge_in\<close> and then \<open>run_turn\<close>, the old task's handler marks the pipeline interrupted and
  moves the epoch on, and the new turn, current until then, returns as interrupted with whatever it
  captured dropped.\<close>

theorem cancelled_turn_ends_the_next:
  assumes "i < length (vp_turns v)" and "tn_cancel (vp_turns v ! i)" and "phase_at v i \<in> {Capturing, Transcribing, Thinking tr}"
    and "begin_turn None raise v = Some v1" and "j = length (vp_turns v)"
  shows "\<not> stale j v1 \<and> (\<exists>v2. deliver_cancel i v1 = Some v2 \<and> stale j v2 \<and>
    resume_turn j (Samples xs) v2 = Some (finish_turn j (result [] [] [] True (vp_state v2)) v2))"
proof -
  from assms(4) have v1: "v1 = open_turn raise v" by (simp add: begin_turn_def split: if_splits)
  have old: "vp_turns v1 ! i = vp_turns v ! i" "phase_at v1 j = Capturing" "tn_id (vp_turns v1 ! j) = vp_turn v1" "i < length (vp_turns v1)" "j < length (vp_turns v1)"
    using assms(1,5) by (simp_all add: v1 phase_at_def nth_append)
  define v2 where "v2 = (set_turn i CancelCleanup (set_cancel i False v1))\<lparr>vp_interrupted := True, vp_turn := vp_turn v1 + 1\<rparr>"
  have d: "deliver_cancel i v1 = Some v2"
    using assms(2,3) old(1) unfolding v2_def deliver_cancel_def by (auto simp: phase_at_def Let_def)
  have "phase_at v2 j = Capturing" "stale j v2"
    using old assms(1,5) by (simp_all add: v2_def phase_at_def stale_def)
  then have "resume_turn j (Samples xs) v2 = Some (finish_turn j (result [] [] [] True (vp_state v2)) v2)"
    by (simp add: resume_turn_def captured_def)
  moreover have "\<not> stale j v1" using old by (simp add: stale_def v1)
  ultimately show ?thesis using d \<open>stale j v2\<close> by blast
qed

lemma cancelled_turn_ends_the_next_witness:
  "\<exists>v v1. run_pipeline [RunTurn (Some [1]) False, BargeIn, BargeInEnds] new_pipeline = Some v \<and>
    begin_turn None False v = Some v1 \<and> \<not> stale 1 v1 \<and> (\<exists>v2. deliver_cancel 0 v1 = Some v2 \<and> stale 1 v2 \<and>
    resume_turn 1 (Samples [1]) v2 = Some (finish_turn 1 (result [] [] [] True (vp_state v2)) v2))"
proof -
  obtain v where v: "run_pipeline [RunTurn (Some [1]) False, BargeIn, BargeInEnds] new_pipeline = Some v"
    "0 < length (vp_turns v)" "tn_cancel (vp_turns v ! 0)" "phase_at v 0 = Transcribing" "length (vp_turns v) = 1" "vp_state v = INTERRUPTED"
    by (auto simp: pipeline_run Let_def)
  from v(6) obtain v1 where v1: "begin_turn None False v = Some v1" by (simp add: begin_turn_def)
  from cancelled_turn_ends_the_next [OF v(2,3) _ v1 v(5) [symmetric]] v(1,4) v1 show ?thesis by blast
qed

end
