(* ===== verification/Civil_Time.thy ===== *)
theory Civil_Time
  imports Tom_Prelude
begin

text \<open>
  The parts of Python's \<open>datetime\<close> that the personal store uses: civil times in UTC with a time of day
  in microseconds, calendar arithmetic with its overflow at year 9999, \<open>isoformat\<close>, and SQLite's
  comparison of texts, byte by byte. \<open>advance_occurrence\<close> is the function of
  \<open>python/tom/personal/store.py\<close>. The lemmas relate calendar, instants and the order of the texts.
\<close>

subsection \<open>The calendar\<close>

record civil =
  cv_year :: nat
  cv_month :: nat
  cv_day :: nat
  cv_time :: nat

definition leap :: "nat \<Rightarrow> bool" where
  "leap y \<longleftrightarrow> 4 dvd y \<and> (100 dvd y \<longrightarrow> 400 dvd y)"

definition month_length :: "nat \<Rightarrow> nat \<Rightarrow> nat" where
  "month_length y m =
     (if m = 2 then (if leap y then 29 else 28) else if m \<in> {4, 6, 9, 11} then 30 else 31)"

definition valid_civil :: "civil \<Rightarrow> bool" where
  "valid_civil d \<longleftrightarrow> 1 \<le> cv_year d \<and> cv_year d \<le> 9999 \<and> 1 \<le> cv_month d \<and> cv_month d \<le> 12 \<and>
     1 \<le> cv_day d \<and> cv_day d \<le> month_length (cv_year d) (cv_month d) \<and> cv_time d < 86400000000"

text \<open>\<open>toordinal\<close> and the instant in microseconds.\<close>

definition days_before_year :: "nat \<Rightarrow> nat" where
  "days_before_year y = 365 * (y - 1) + (y - 1) div 4 + (y - 1) div 400 - (y - 1) div 100"

definition days_before_month :: "nat \<Rightarrow> nat \<Rightarrow> nat" where
  "days_before_month y m = sum_list (map (month_length y) [1..<m])"

definition ordinal :: "civil \<Rightarrow> nat" where
  "ordinal d = days_before_year (cv_year d) + days_before_month (cv_year d) (cv_month d) + cv_day d"

definition micros :: "civil \<Rightarrow> nat" where
  "micros d = ordinal d * 86400000000 + cv_time d"

text \<open>\<open>None\<close>: \<open>OverflowError\<close>.\<close>

definition next_day :: "civil \<Rightarrow> civil option" where
  "next_day d =
     (if cv_day d < month_length (cv_year d) (cv_month d) then Some (d\<lparr>cv_day := cv_day d + 1\<rparr>)
      else if cv_month d < 12 then Some (d\<lparr>cv_month := cv_month d + 1, cv_day := 1\<rparr>)
      else if cv_year d < 9999 then Some (d\<lparr>cv_year := cv_year d + 1, cv_month := 1, cv_day := 1\<rparr>)
      else None)"

primrec add_days :: "nat \<Rightarrow> civil \<Rightarrow> civil option" where
  "add_days 0 d = Some d"
| "add_days (Suc n) d = (case next_day d of None \<Rightarrow> None | Some e \<Rightarrow> add_days n e)"

subsection \<open>Recurrence\<close>

datatype recurrence = ONE_SHOT | DAILY | WEEKLY | MONTHLY

datatype time_error = DateOverflow

definition advance_occurrence :: "civil \<Rightarrow> recurrence \<Rightarrow> time_error + civil option" where
  "advance_occurrence d r =
     (case r of
        ONE_SHOT \<Rightarrow> Inr None
      | DAILY \<Rightarrow> (case add_days 1 d of None \<Rightarrow> Inl DateOverflow | Some e \<Rightarrow> Inr (Some e))
      | WEEKLY \<Rightarrow> (case add_days 7 d of None \<Rightarrow> Inl DateOverflow | Some e \<Rightarrow> Inr (Some e))
      | MONTHLY \<Rightarrow>
          (let month = (if cv_month d + 1 > 12 then cv_month d + 1 - 12 else cv_month d + 1);
               year = (if cv_month d + 1 > 12 then cv_year d + 1 else cv_year d)
           in if year > 9999 then Inl DateOverflow
              else Inr (Some (d\<lparr>cv_year := year, cv_month := month, cv_day := min (cv_day d) (month_length year month)\<rparr>))))"

subsection \<open>Texts\<close>

definition digit :: "nat \<Rightarrow> char" where
  "digit n = char_of (48 + n)"

primrec digits :: "nat \<Rightarrow> nat \<Rightarrow> string" where
  "digits 0 n = []"
| "digits (Suc k) n = digits k (n div 10) @ [digit (n mod 10)]"

text \<open>\<open>isoformat\<close> of a time in UTC: the microseconds appear only when there are some.\<close>

definition iso_text :: "civil \<Rightarrow> string" where
  "iso_text d =
     (let secs = cv_time d div 1000000; mins = secs div 60; us = cv_time d mod 1000000
      in digits 4 (cv_year d) @ ''-'' @ digits 2 (cv_month d) @ ''-'' @ digits 2 (cv_day d) @ ''T'' @
         digits 2 (mins div 60) @ '':'' @ digits 2 (mins mod 60) @ '':'' @ digits 2 (secs mod 60) @
         (if us = 0 then [] else ''.'' @ digits 6 us) @ ''+00:00'')"

fun text_le :: "string \<Rightarrow> string \<Rightarrow> bool" where
  "text_le [] t = True"
| "text_le (c # s) [] = False"
| "text_le (c # s) (d # t) = (if c = d then text_le s t else (of_char c :: nat) < of_char d)"

subsection \<open>Days and instants\<close>

lemma month_length_bounds: "28 \<le> month_length y m" "month_length y m \<le> 31"
  by (simp_all add: month_length_def)

lemma days_before_month_Suc: "1 \<le> m \<Longrightarrow> days_before_month y (Suc m) = days_before_month y m + month_length y m"
  by (simp add: days_before_month_def)

lemma days_before_month_less:
  assumes "1 \<le> m" and "m < m'" shows "days_before_month y m + month_length y m \<le> days_before_month y m'"
proof -
  have "[1..<m'] = [1..<m] @ m # [Suc m..<m']"
    using assms by (metis le_add_diff_inverse less_imp_le_nat upt_add_eq_append upt_conv_Cons)
  then show ?thesis by (simp add: days_before_month_def)
qed

definition year_length :: "nat \<Rightarrow> nat" where
  "year_length y = (if leap y then 366 else 365)"

lemma days_before_month_13: "days_before_month y 13 = year_length y"
proof -
  have "[1..<13::nat] = [1, 2, 3, 4, 5, 6, 7, 8, 9, 10, 11, 12]" by (simp add: upt_rec)
  then show ?thesis by (simp add: days_before_month_def year_length_def month_length_def)
qed

lemma day_of_year_bound:
  assumes "valid_civil d" shows "days_before_month (cv_year d) (cv_month d) + cv_day d \<le> year_length (cv_year d)"
  using days_before_month_less [of "cv_month d" 13 "cv_year d"] assms
  by (simp add: valid_civil_def days_before_month_13)

lemma div_100_le: "(n::nat) div 100 \<le> n div 4"
  by (rule div_le_mono2) simp_all

lemma days_before_year_Suc:
  assumes "1 \<le> y" shows "days_before_year (Suc y) = days_before_year y + year_length y"
proof -
  obtain n where n: "y = Suc n" using assms by (cases y) simp_all
  have q: "Suc n div k = n div k + (if k dvd Suc n then 1 else 0)" for k
    by (simp add: div_Suc mod_eq_0_iff_dvd)
  define a b c where "a = n div 4" and "b = n div 400" and "c = n div 100"
  have "400 dvd Suc n \<Longrightarrow> 100 dvd Suc n" using dvd_trans [of 100 400 "Suc n"] by simp
  moreover have "100 dvd Suc n \<Longrightarrow> 4 dvd Suc n" using dvd_trans [of 4 100 "Suc n"] by simp
  moreover have "days_before_year y = 365 * n + a + b - c"
    "days_before_year (Suc y) = 365 * Suc n + (a + (if 4 dvd Suc n then 1 else 0)) + (b + (if 400 dvd Suc n then 1 else 0)) -
       (c + (if 100 dvd Suc n then 1 else 0))"
    unfolding days_before_year_def n a_def b_def c_def q [symmetric] by simp_all
  moreover have "year_length y = 365 + (if leap (Suc n) then 1 else 0)" by (simp add: year_length_def n)
  moreover have "c \<le> a" unfolding a_def c_def by (rule div_100_le)
  ultimately show ?thesis
    unfolding leap_def by (cases "4 dvd Suc n"; cases "100 dvd Suc n"; cases "400 dvd Suc n") simp_all
qed

lemma days_before_year_less:
  assumes "1 \<le> y" and "y < y'" shows "days_before_year y + year_length y \<le> days_before_year y'"
proof -
  have "Suc y \<le> y' \<Longrightarrow> days_before_year (Suc y) \<le> days_before_year y'"
  proof (induction rule: dec_induct)
    case (step n)
    with days_before_year_Suc [of n] show ?case by simp
  qed simp
  with assms show ?thesis by (simp add: days_before_year_Suc)
qed

lemma next_day_ordinal:
  assumes "valid_civil d" and "next_day d = Some e"
  shows "valid_civil e" "ordinal e = ordinal d + 1" "cv_time e = cv_time d"
proof -
  consider (day) "cv_day d < month_length (cv_year d) (cv_month d)" "e = d\<lparr>cv_day := cv_day d + 1\<rparr>"
    | (month) "cv_day d = month_length (cv_year d) (cv_month d)" "cv_month d < 12" "e = d\<lparr>cv_month := cv_month d + 1, cv_day := 1\<rparr>"
    | (year) "cv_day d = month_length (cv_year d) (cv_month d)" "cv_month d = 12" "cv_year d < 9999"
        "e = d\<lparr>cv_year := cv_year d + 1, cv_month := 1, cv_day := 1\<rparr>"
    using assms by (auto simp: next_day_def valid_civil_def split: if_splits)
  then have "valid_civil e \<and> ordinal e = ordinal d + 1 \<and> cv_time e = cv_time d"
  proof cases
    case day with assms(1) show ?thesis by (simp add: valid_civil_def ordinal_def)
  next
    case month
    with assms(1) month_length_bounds(1) [of "cv_year d" "Suc (cv_month d)"] show ?thesis
      by (simp add: valid_civil_def ordinal_def days_before_month_Suc)
  next
    case year
    have "days_before_month (cv_year d) 12 + month_length (cv_year d) 12 = year_length (cv_year d)"
      using days_before_month_Suc [of 12 "cv_year d"] days_before_month_13 [of "cv_year d"] by simp
    with year assms(1) show ?thesis
      by (simp add: valid_civil_def ordinal_def days_before_year_Suc month_length_def days_before_month_def)
  qed
  then show "valid_civil e" "ordinal e = ordinal d + 1" "cv_time e = cv_time d" by auto
qed

lemma add_days_ordinal:
  "valid_civil d \<Longrightarrow> add_days n d = Some e \<Longrightarrow> valid_civil e \<and> ordinal e = ordinal d + n \<and> cv_time e = cv_time d"
proof (induction n arbitrary: d)
  case (Suc n)
  then obtain f where f: "next_day d = Some f" "add_days n f = Some e" by (auto split: option.splits)
  with Suc.IH [of f] next_day_ordinal [OF Suc.prems(1) f(1)] show ?case by simp
qed simp

text \<open>Instants are ordered as the calendar fields are.\<close>

definition civil_before :: "civil \<Rightarrow> civil \<Rightarrow> bool" where
  "civil_before d e \<longleftrightarrow> cv_year d < cv_year e \<or> cv_year d = cv_year e \<and> (cv_month d < cv_month e \<or>
     cv_month d = cv_month e \<and> (cv_day d < cv_day e \<or> cv_day d = cv_day e \<and> cv_time d < cv_time e))"

lemma civil_before_micros:
  assumes "valid_civil d" and "valid_civil e" and "civil_before d e" shows "micros d < micros e"
proof -
  have "ordinal d < ordinal e \<or> ordinal d = ordinal e \<and> cv_time d < cv_time e"
  proof -
    consider (year) "cv_year d < cv_year e" | (month) "cv_year d = cv_year e" "cv_month d < cv_month e"
      | (day) "cv_year d = cv_year e" "cv_month d = cv_month e" "cv_day d < cv_day e \<or> cv_day d = cv_day e \<and> cv_time d < cv_time e"
      using assms(3) by (auto simp: civil_before_def)
    then show ?thesis
    proof cases
      case year
      with days_before_year_less [of "cv_year d" "cv_year e"] day_of_year_bound [OF assms(1)] assms
      show ?thesis by (simp add: ordinal_def valid_civil_def)
    next
      case month
      with days_before_month_less [of "cv_month d" "cv_month e" "cv_year d"] assms
      show ?thesis by (simp add: ordinal_def valid_civil_def)
    next
      case day then show ?thesis by (auto simp: ordinal_def)
    qed
  qed
  with assms(1,2) show ?thesis by (auto simp: micros_def valid_civil_def)
qed

lemma civil_micros_le:
  assumes "valid_civil d" and "valid_civil e" shows "micros d \<le> micros e \<longleftrightarrow> \<not> civil_before e d"
proof -
  have "civil_before d e \<or> civil_before e d \<or> d = e"
    by (cases d; cases e) (auto simp: civil_before_def)
  then show ?thesis
    using civil_before_micros [OF assms] civil_before_micros [OF assms(2,1)] by auto
qed

subsection \<open>Texts are ordered as instants\<close>

lemma of_char_digit: "n < 10 \<Longrightarrow> (of_char (digit n) :: nat) = 48 + n"
  by (simp add: digit_def)

lemma digit_inject: "m < 10 \<Longrightarrow> n < 10 \<Longrightarrow> digit m = digit n \<longleftrightarrow> m = n"
  using of_char_digit [of m] of_char_digit [of n] by (metis add_left_cancel)

lemma text_le_refl [simp]: "text_le s s"
  by (induction s) simp_all

lemma text_le_same [simp]: "text_le (u @ s) (u @ t) = text_le s t"
  by (induction u) simp_all

lemma less_by_div:
  fixes m n k :: nat
  assumes "0 < k" shows "m < n \<longleftrightarrow> m div k < n div k \<or> m div k = n div k \<and> m mod k < n mod k"
proof -
  have "m div k < n div k \<Longrightarrow> m < n" using div_le_mono [of n m k] by (meson leD leI)
  moreover have "n div k < m div k \<Longrightarrow> n < m" using div_le_mono [of m n k] by (meson leD leI)
  moreover have "m div k = n div k \<Longrightarrow> (m < n \<longleftrightarrow> m mod k < n mod k)"
    using div_mult_mod_eq [of m k] div_mult_mod_eq [of n k] by (metis add_less_cancel_left)
  ultimately show ?thesis by (meson linorder_neqE_nat order.asym)
qed

lemma eq_by_div:
  fixes m n k :: nat shows "m = n \<longleftrightarrow> m div k = n div k \<and> m mod k = n mod k"
  using div_mult_mod_eq [of m k] div_mult_mod_eq [of n k] by metis

lemma text_le_digits:
  "m < 10 ^ k \<Longrightarrow> n < 10 ^ k \<Longrightarrow> text_le (digits k m @ s) (digits k n @ t) \<longleftrightarrow> m < n \<or> m = n \<and> text_le s t"
proof (induction k arbitrary: m n s t)
  case (Suc k)
  have "m div 10 < 10 ^ k" "n div 10 < 10 ^ k" using Suc.prems by (simp_all add: less_mult_imp_div_less mult.commute)
  from Suc.IH [OF this]
  have "text_le (digits (Suc k) m @ s) (digits (Suc k) n @ t) \<longleftrightarrow> m div 10 < n div 10 \<or>
    m div 10 = n div 10 \<and> text_le (digit (m mod 10) # s) (digit (n mod 10) # t)" by simp
  moreover have "text_le (digit (m mod 10) # s) (digit (n mod 10) # t) \<longleftrightarrow>
    m mod 10 < n mod 10 \<or> m mod 10 = n mod 10 \<and> text_le s t"
    by (simp add: digit_inject of_char_digit)
  ultimately show ?case
    using less_by_div [of 10 m n] eq_by_div [of m n 10] by auto
qed simp

lemma text_le_fraction:
  assumes "u < 1000000" and "v < 1000000"
  shows "text_le ((if u = 0 then [] else ''.'' @ digits 6 u) @ ''+00:00'') ((if v = 0 then [] else ''.'' @ digits 6 v) @ ''+00:00'')
    \<longleftrightarrow> u \<le> v"
proof -
  have "text_le (digits 6 u @ ''+00:00'') (digits 6 v @ ''+00:00'') \<longleftrightarrow> u < v \<or> u = v"
    using text_le_digits [of u 6 v "''+00:00''" "''+00:00''"] assms by simp
  then show ?thesis by auto
qed

lemma text_le_iso:
  assumes "valid_civil d" and "valid_civil e" shows "text_le (iso_text d) (iso_text e) \<longleftrightarrow> micros d \<le> micros e"
proof -
  have bounds: "cv_year x < 10 ^ 4" "cv_month x < 10 ^ 2" "cv_day x < 10 ^ 2"
    "cv_time x div 1000000 div 60 div 60 < 10 ^ 2" "cv_time x div 1000000 div 60 mod 60 < 10 ^ 2"
    "cv_time x div 1000000 mod 60 < 10 ^ 2" "cv_time x mod 1000000 < 1000000" if "valid_civil x" for x
  proof -
    have "cv_day x \<le> 31" using that month_length_bounds(2) [of "cv_year x" "cv_month x"] by (simp add: valid_civil_def)
    moreover have "cv_time x div 1000000 div 60 div 60 = cv_time x div 3600000000" by (simp add: div_mult2_eq [symmetric])
    moreover have "cv_time x div 3600000000 < 24" using that by (simp add: valid_civil_def less_mult_imp_div_less)
    ultimately show "cv_year x < 10 ^ 4" "cv_month x < 10 ^ 2" "cv_day x < 10 ^ 2"
      "cv_time x div 1000000 div 60 div 60 < 10 ^ 2" "cv_time x div 1000000 div 60 mod 60 < 10 ^ 2"
      "cv_time x div 1000000 mod 60 < 10 ^ 2" "cv_time x mod 1000000 < 1000000"
      using that mod_less_divisor [of 60 "cv_time x div 1000000 div 60"] mod_less_divisor [of 60 "cv_time x div 1000000"]
      by (auto simp: valid_civil_def)
  qed
  let ?t = "cv_time d" and ?u = "cv_time e"
  let ?s = "?t div 1000000" and ?s' = "?u div 1000000"
  let ?m = "?s div 60" and ?m' = "?s' div 60"
  have time: "?t \<le> ?u \<longleftrightarrow> ?m div 60 < ?m' div 60 \<or> ?m div 60 = ?m' div 60 \<and> (?m mod 60 < ?m' mod 60 \<or>
      ?m mod 60 = ?m' mod 60 \<and> (?s mod 60 < ?s' mod 60 \<or> ?s mod 60 = ?s' mod 60 \<and> ?t mod 1000000 \<le> ?u mod 1000000))"
  proof -
    have "?t \<le> ?u \<longleftrightarrow> ?s < ?s' \<or> ?s = ?s' \<and> ?t mod 1000000 \<le> ?u mod 1000000"
      using less_by_div [of 1000000 ?u ?t] by (auto simp: not_less [symmetric])
    moreover have "?s < ?s' \<longleftrightarrow> ?m < ?m' \<or> ?m = ?m' \<and> ?s mod 60 < ?s' mod 60" by (rule less_by_div) simp
    moreover have "?s = ?s' \<longleftrightarrow> ?m = ?m' \<and> ?s mod 60 = ?s' mod 60" by (rule eq_by_div)
    moreover have "?m < ?m' \<longleftrightarrow> ?m div 60 < ?m' div 60 \<or> ?m div 60 = ?m' div 60 \<and> ?m mod 60 < ?m' mod 60"
      by (rule less_by_div) simp
    moreover have "?m = ?m' \<longleftrightarrow> ?m div 60 = ?m' div 60 \<and> ?m mod 60 = ?m' mod 60" by (rule eq_by_div)
    ultimately show ?thesis by argo
  qed
  have "text_le (iso_text d) (iso_text e) \<longleftrightarrow> cv_year d < cv_year e \<or> cv_year d = cv_year e \<and> (cv_month d < cv_month e \<or>
     cv_month d = cv_month e \<and> (cv_day d < cv_day e \<or> cv_day d = cv_day e \<and> ?t \<le> ?u))"
    unfolding iso_text_def Let_def append_assoc time
    by (simp only: text_le_digits text_le_same text_le_fraction bounds [OF assms(1)] bounds [OF assms(2)])
  also have "\<dots> \<longleftrightarrow> \<not> civil_before e d" by (auto simp: civil_before_def)
  also have "\<dots> \<longleftrightarrow> micros d \<le> micros e" using civil_micros_le [OF assms] by simp
  finally show ?thesis .
qed

subsection \<open>Recurrence\<close>

text \<open>The next occurrence is valid and later; a day and a week have their exact lengths, and a month
  keeps the day of the month or falls on the last day of a shorter one.\<close>

lemma advance_next:
  assumes "valid_civil d" and "advance_occurrence d r = Inr (Some e)"
  shows "valid_civil e \<and> micros d < micros e \<and> cv_time e = cv_time d \<and>
    (r = DAILY \<longrightarrow> micros e = micros d + 86400000000) \<and> (r = WEEKLY \<longrightarrow> micros e = micros d + 7 * 86400000000) \<and>
    (r = MONTHLY \<longrightarrow> 12 * cv_year e + cv_month e = 12 * cv_year d + cv_month d + 1 \<and>
       cv_day e = min (cv_day d) (month_length (cv_year e) (cv_month e)))"
proof (cases r)
  case DAILY
  with assms(2) have "add_days 1 d = Some e" by (auto simp: advance_occurrence_def split: option.splits)
  from add_days_ordinal [OF assms(1) this] DAILY show ?thesis by (simp add: micros_def)
next
  case WEEKLY
  with assms(2) have "add_days 7 d = Some e" by (auto simp: advance_occurrence_def split: option.splits)
  from add_days_ordinal [OF assms(1) this] WEEKLY show ?thesis by (simp add: micros_def)
next
  case MONTHLY
  let ?e = "if cv_month d < 12 then d\<lparr>cv_month := cv_month d + 1, cv_day := min (cv_day d) (month_length (cv_year d) (cv_month d + 1))\<rparr>
      else d\<lparr>cv_year := cv_year d + 1, cv_month := 1, cv_day := min (cv_day d) (month_length (cv_year d + 1) 1)\<rparr>"
  have "cv_month d < 12 \<or> cv_month d = 12" using assms(1) by (auto simp: valid_civil_def)
  then have "e = ?e \<and> (\<not> cv_month d < 12 \<longrightarrow> cv_year d < 9999)"
    using assms MONTHLY by (elim disjE) (auto simp: advance_occurrence_def Let_def split: if_splits)
  then have e: "e = ?e" and y: "\<not> cv_month d < 12 \<longrightarrow> cv_year d < 9999" by blast+
  have "valid_civil e" "civil_before d e"
    using assms(1) y month_length_bounds(1) [of "cv_year e" "cv_month e"] unfolding e
    by (auto simp: valid_civil_def civil_before_def)
  with civil_before_micros [OF assms(1)] MONTHLY assms(1) show ?thesis
    by (auto simp: e valid_civil_def)
qed (use assms in \<open>simp add: advance_occurrence_def\<close>)

end
