(* ===== verification/Personal_Store.thy ===== *)
theory Personal_Store
  imports Civil_Time
begin

text \<open>
  Models \<open>PersonalStore\<close> of \<open>python/tom/personal/store.py\<close> with the records of
  \<open>python/tom/schemas/personal.py\<close>: the tables of notes, calendar events and reminders, keyed by id in
  the order of insertion. Times are aware and in UTC, as the schemas normalise them; a table stores their
  ISO texts, which SQL compares. A validator that a record goes through returns the normalised record or
  \<open>None\<close>, a \<open>ValidationError\<close>. New ids and the clock are arguments. SQL leaves the order of equal keys
  open; the model keeps the order of insertion. Connections, locking and the migration are left out.
\<close>

datatype personal_error = StoreInvalid | StoreNotFound | ValidationFailed | DuplicateKey | TimeOverflow

subsection \<open>Validated rows\<close>

definition insert_row :: "('r \<Rightarrow> 'r option) \<Rightarrow> string \<Rightarrow> 'r \<Rightarrow> (string, 'r) dict \<Rightarrow> (personal_error + 'r) \<times> (string, 'r) dict" where
  "insert_row check k r t =
     (case check r of
        None \<Rightarrow> (Inl ValidationFailed, t)
      | Some r' \<Rightarrow> if k \<in> set (dict_keys t) then (Inl DuplicateKey, t) else (Inr r', dict_set k r' t))"

definition replace_row :: "('r \<Rightarrow> 'r option) \<Rightarrow> string \<Rightarrow> 'r \<Rightarrow> (string, 'r) dict \<Rightarrow> (personal_error + 'r) \<times> (string, 'r) dict" where
  "replace_row check k r t =
     (case check r of None \<Rightarrow> (Inl ValidationFailed, t) | Some r' \<Rightarrow> (Inr r', dict_set k r' t))"

definition delete_row :: "string \<Rightarrow> (string, 'r) dict \<Rightarrow> bool \<times> (string, 'r) dict" where
  "delete_row k t = (k \<in> set (dict_keys t), dict_del k t)"

text \<open>\<open>ORDER BY\<close> a column of ISO texts.\<close>

fun insert_by_text :: "('r \<Rightarrow> civil) \<Rightarrow> 'r \<Rightarrow> 'r list \<Rightarrow> 'r list" where
  "insert_by_text f x [] = [x]"
| "insert_by_text f x (y # ys) =
     (if text_le (iso_text (f x)) (iso_text (f y)) then x # y # ys else y # insert_by_text f x ys)"

definition order_by_text :: "('r \<Rightarrow> civil) \<Rightarrow> 'r list \<Rightarrow> 'r list" where
  "order_by_text f rows = foldr (insert_by_text f) rows []"

lemma set_insert_by_text: "set (insert_by_text f x ys) = insert x (set ys)"
  by (induction ys) auto

lemma set_order_by_text [simp]: "set (order_by_text f rows) = set rows"
  unfolding order_by_text_def by (induction rows) (simp_all add: set_insert_by_text)

text \<open>On valid times it is the order of the instants.\<close>

lemma order_by_text_instants:
  assumes "\<And>r. r \<in> set rows \<Longrightarrow> valid_civil (f r)"
  shows "order_by_text f rows = sort_key (\<lambda>r. micros (f r)) rows"
proof -
  have ins: "insert_by_text f x ys = insort_key (\<lambda>r. micros (f r)) x ys"
    if "valid_civil (f x)" "\<And>y. y \<in> set ys \<Longrightarrow> valid_civil (f y)" for x ys
    using that by (induction ys) (simp_all add: text_le_iso)
  from assms show ?thesis
    unfolding order_by_text_def
  proof (induction rows)
    case (Cons r rows)
    then have "set (foldr (insert_by_text f) rows []) = set rows" using set_order_by_text [of f rows] by (simp add: order_by_text_def)
    with Cons ins [of r "foldr (insert_by_text f) rows []"] show ?case by simp
  qed simp
qed

text \<open>What the tables share: every row has passed its validator, which accepts its own results.\<close>

locale validated_rows =
  fixes check :: "'r \<Rightarrow> 'r option"
  assumes check_again: "check r = Some r' \<Longrightarrow> check r' = Some r'"
begin

definition rows_ok :: "(string, 'r) dict \<Rightarrow> bool" where
  "rows_ok t \<longleftrightarrow> distinct (dict_keys t) \<and> (\<forall>k r. dict_get t k = Some r \<longrightarrow> check r = Some r)"

lemma rows_ok_empty: "rows_ok []" by (simp add: rows_ok_def)

lemma rows_ok_set: "rows_ok t \<Longrightarrow> check r = Some r \<Longrightarrow> rows_ok (dict_set k r t)"
  unfolding rows_ok_def by (simp del: map_of_eq_Some_iff)

lemma rows_ok_insert: "rows_ok t \<Longrightarrow> rows_ok (snd (insert_row check k r t))"
  by (auto simp: insert_row_def intro: rows_ok_set check_again split: option.splits)

lemma rows_ok_replace: "rows_ok t \<Longrightarrow> rows_ok (snd (replace_row check k r t))"
  by (auto simp: replace_row_def intro: rows_ok_set check_again split: option.splits)

lemma rows_ok_delete: "rows_ok t \<Longrightarrow> rows_ok (snd (delete_row k t))"
  by (simp add: rows_ok_def delete_row_def)

text \<open>A row that was accepted is read back as it was returned, and the other rows are untouched.\<close>

lemma insert_then_get: "insert_row check k r t = (Inr r', t') \<Longrightarrow> dict_get t' k = Some r' \<and> (\<forall>k'. k' \<noteq> k \<longrightarrow> dict_get t' k' = dict_get t k')"
  by (auto simp: insert_row_def split: option.splits if_splits)

lemma replace_then_get: "replace_row check k r t = (Inr r', t') \<Longrightarrow> dict_get t' k = Some r' \<and> (\<forall>k'. k' \<noteq> k \<longrightarrow> dict_get t' k' = dict_get t k')"
  by (auto simp: replace_row_def split: option.splits if_splits)

lemma refused_unchanged: "insert_row check k r t = (Inl e, t') \<Longrightarrow> t' = t" "replace_row check k r t = (Inl e, t') \<Longrightarrow> t' = t"
  by (auto simp: insert_row_def replace_row_def split: option.splits if_splits)

end

subsection \<open>Notes\<close>

record personal_note =
  nt_id :: string
  nt_title :: string
  nt_content :: string
  nt_tags :: "string list"
  nt_created :: civil
  nt_updated :: civil

definition check_note :: "personal_note \<Rightarrow> personal_note option" where
  "check_note n =
     (if 1 \<le> length (nt_title n) \<and> length (nt_title n) \<le> 200 \<and> 1 \<le> length (nt_content n) \<and> length (nt_content n) \<le> 20000 \<and>
         length (nt_tags n) \<le> 10 \<and> (\<forall>s \<in> set (nt_tags n). strip s \<noteq> [] \<and> length (strip s) \<le> 50)
      then Some (n\<lparr>nt_tags := map strip (nt_tags n)\<rparr>) else None)"

definition create_note :: "civil \<Rightarrow> string \<Rightarrow> string \<Rightarrow> string \<Rightarrow> string list \<Rightarrow> (string, personal_note) dict \<Rightarrow>
    (personal_error + personal_note) \<times> (string, personal_note) dict" where
  "create_note now nid title content tags t =
     insert_row check_note nid \<lparr>nt_id = nid, nt_title = title, nt_content = content, nt_tags = tags, nt_created = now, nt_updated = now\<rparr> t"

definition list_notes :: "string option \<Rightarrow> nat \<Rightarrow> (string, personal_note) dict \<Rightarrow> personal_note list" where
  "list_notes query limit t =
     (let rows = rev (order_by_text nt_created (dict_values t))
      in take limit (case query of
           None \<Rightarrow> rows
         | Some q \<Rightarrow> if q = [] then rows
             else filter (\<lambda>n. contains_sub (lower q) (lower (nt_title n)) \<or> contains_sub (lower q) (lower (nt_content n))) rows))"

datatype note_update = Note_title string | Note_content string | Note_tags "string list" | Note_other string

fun apply_note :: "note_update \<Rightarrow> personal_note \<Rightarrow> personal_note" where
  "apply_note (Note_title x) n = n\<lparr>nt_title := x\<rparr>"
| "apply_note (Note_content x) n = n\<lparr>nt_content := x\<rparr>"
| "apply_note (Note_tags x) n = n\<lparr>nt_tags := x\<rparr>"
| "apply_note (Note_other _) n = n"

definition update_note :: "civil \<Rightarrow> string \<Rightarrow> note_update list \<Rightarrow> (string, personal_note) dict \<Rightarrow> (personal_error + personal_note) \<times> (string, personal_note) dict" where
  "update_note now nid us t =
     (if us = [] \<or> (\<exists>u \<in> set us. case u of Note_other _ \<Rightarrow> True | _ \<Rightarrow> False) then (Inl StoreInvalid, t)
      else case dict_get t nid of
             None \<Rightarrow> (Inl StoreNotFound, t)
           | Some n \<Rightarrow> replace_row check_note nid ((fold apply_note us n)\<lparr>nt_updated := now\<rparr>) t)"

definition delete_note :: "string \<Rightarrow> (string, personal_note) dict \<Rightarrow> bool \<times> (string, personal_note) dict" where
  "delete_note = delete_row"

subsection \<open>Calendar events\<close>

record personal_event =
  ev_id :: string
  ev_title :: string
  ev_description :: string
  ev_start :: civil
  ev_end :: civil
  ev_created :: civil
  ev_updated :: civil

definition check_event :: "personal_event \<Rightarrow> personal_event option" where
  "check_event e =
     (if 1 \<le> length (ev_title e) \<and> length (ev_title e) \<le> 200 \<and> length (ev_description e) \<le> 2000 \<and>
         \<not> micros (ev_end e) \<le> micros (ev_start e)
      then Some e else None)"

definition create_event :: "civil \<Rightarrow> string \<Rightarrow> string \<Rightarrow> civil \<Rightarrow> civil \<Rightarrow> string \<Rightarrow> (string, personal_event) dict \<Rightarrow>
    (personal_error + personal_event) \<times> (string, personal_event) dict" where
  "create_event now eid title start fin description t =
     insert_row check_event eid \<lparr>ev_id = eid, ev_title = title, ev_description = description, ev_start = start, ev_end = fin,
       ev_created = now, ev_updated = now\<rparr> t"

definition list_events :: "civil option \<Rightarrow> civil option \<Rightarrow> nat \<Rightarrow> (string, personal_event) dict \<Rightarrow> personal_event list" where
  "list_events lo hi limit t =
     (let rows = order_by_text ev_start (dict_values t);
          rows1 = (case lo of None \<Rightarrow> rows | Some w \<Rightarrow> filter (\<lambda>e. micros w \<le> micros (ev_end e)) rows);
          rows2 = (case hi of None \<Rightarrow> rows1 | Some w \<Rightarrow> filter (\<lambda>e. micros (ev_start e) \<le> micros w) rows1)
      in take limit rows2)"

datatype event_update = Event_title string | Event_description string | Event_start civil | Event_end civil | Event_other string

fun apply_event :: "event_update \<Rightarrow> personal_event \<Rightarrow> personal_event" where
  "apply_event (Event_title x) e = e\<lparr>ev_title := x\<rparr>"
| "apply_event (Event_description x) e = e\<lparr>ev_description := x\<rparr>"
| "apply_event (Event_start x) e = e\<lparr>ev_start := x\<rparr>"
| "apply_event (Event_end x) e = e\<lparr>ev_end := x\<rparr>"
| "apply_event (Event_other _) e = e"

definition update_event :: "civil \<Rightarrow> string \<Rightarrow> event_update list \<Rightarrow> (string, personal_event) dict \<Rightarrow>
    (personal_error + personal_event) \<times> (string, personal_event) dict" where
  "update_event now eid us t =
     (if us = [] \<or> (\<exists>u \<in> set us. case u of Event_other _ \<Rightarrow> True | _ \<Rightarrow> False) then (Inl StoreInvalid, t)
      else if (\<exists>u \<in> set us. case u of Event_start _ \<Rightarrow> True | _ \<Rightarrow> False) \<noteq> (\<exists>u \<in> set us. case u of Event_end _ \<Rightarrow> True | _ \<Rightarrow> False)
        then (Inl StoreInvalid, t)
      else case dict_get t eid of
             None \<Rightarrow> (Inl StoreNotFound, t)
           | Some e \<Rightarrow> replace_row check_event eid ((fold apply_event us e)\<lparr>ev_updated := now\<rparr>) t)"

definition delete_event :: "string \<Rightarrow> (string, personal_event) dict \<Rightarrow> bool \<times> (string, personal_event) dict" where
  "delete_event = delete_row"

subsection \<open>Reminders\<close>

datatype reminder_status = RActive | RCancelled | RCompleted

record reminder =
  rm_id :: string
  rm_message :: string
  rm_fire :: civil
  rm_recurrence :: recurrence
  rm_max :: nat
  rm_fires :: nat
  rm_status :: reminder_status
  rm_last :: "civil option"
  rm_created :: civil
  rm_updated :: civil

type_synonym reminders = "(string, reminder) dict"

definition check_reminder :: "reminder \<Rightarrow> reminder option" where
  "check_reminder r =
     (if 1 \<le> length (rm_message r) \<and> length (rm_message r) \<le> 1000 \<and> 1 \<le> rm_max r \<and> rm_max r \<le> 1000 then Some r else None)"

definition default_max_fires :: "recurrence \<Rightarrow> nat" where
  "default_max_fires r = (if r = ONE_SHOT then 1 else 100)"

definition create_reminder :: "civil \<Rightarrow> string \<Rightarrow> string \<Rightarrow> civil \<Rightarrow> recurrence \<Rightarrow> nat option \<Rightarrow> reminders \<Rightarrow>
    (personal_error + reminder) \<times> reminders" where
  "create_reminder now rid message fire recurrence max_fires t =
     (let n = (case max_fires of Some n \<Rightarrow> n | None \<Rightarrow> default_max_fires recurrence)
      in insert_row check_reminder rid
           \<lparr>rm_id = rid, rm_message = message, rm_fire = fire, rm_recurrence = recurrence,
            rm_max = (if recurrence = ONE_SHOT then 1 else n), rm_fires = 0, rm_status = RActive, rm_last = None,
            rm_created = now, rm_updated = now\<rparr> t)"

definition list_reminders :: "reminder_status option \<Rightarrow> nat \<Rightarrow> reminders \<Rightarrow> reminder list" where
  "list_reminders status limit t =
     take limit (order_by_text rm_fire (filter (\<lambda>r. case status of None \<Rightarrow> True | Some s \<Rightarrow> rm_status r = s) (dict_values t)))"

datatype reminder_update = Rem_message string | Rem_fire civil | Rem_recurrence recurrence | Rem_max nat | Rem_other string

fun apply_reminder :: "reminder_update \<Rightarrow> reminder \<Rightarrow> reminder" where
  "apply_reminder (Rem_message x) r = r\<lparr>rm_message := x\<rparr>"
| "apply_reminder (Rem_fire x) r = r\<lparr>rm_fire := x\<rparr>"
| "apply_reminder (Rem_recurrence x) r = r\<lparr>rm_recurrence := x\<rparr>"
| "apply_reminder (Rem_max x) r = r\<lparr>rm_max := x\<rparr>"
| "apply_reminder (Rem_other _) r = r"

definition update_reminder :: "civil \<Rightarrow> string \<Rightarrow> reminder_update list \<Rightarrow> reminders \<Rightarrow> (personal_error + reminder) \<times> reminders" where
  "update_reminder now rid us t =
     (if us = [] \<or> (\<exists>u \<in> set us. case u of Rem_other _ \<Rightarrow> True | _ \<Rightarrow> False) then (Inl StoreInvalid, t)
      else case dict_get t rid of
             None \<Rightarrow> (Inl StoreNotFound, t)
           | Some r \<Rightarrow>
               if rm_status r \<noteq> RActive then (Inl StoreInvalid, t)
               else let merged = fold apply_reminder us r;
                        m = (if rm_recurrence merged = ONE_SHOT then merged\<lparr>rm_max := 1\<rparr> else merged)
                    in if rm_max m \<le> rm_fires r then (Inl StoreInvalid, t)
                       else replace_row check_reminder rid (m\<lparr>rm_updated := now\<rparr>) t)"

definition cancel_reminder :: "civil \<Rightarrow> string \<Rightarrow> reminders \<Rightarrow> (personal_error + reminder) \<times> reminders" where
  "cancel_reminder now rid t =
     (case dict_get t rid of
        None \<Rightarrow> (Inl StoreNotFound, t)
      | Some r \<Rightarrow>
          if rm_status r = RCancelled then (Inr r, t)
          else if rm_status r = RCompleted then (Inl StoreInvalid, t)
          else let r' = r\<lparr>rm_status := RCancelled, rm_updated := now\<rparr> in (Inr r', dict_set rid r' t))"

definition delete_reminder :: "string \<Rightarrow> reminders \<Rightarrow> bool \<times> reminders" where
  "delete_reminder = delete_row"

definition due_reminders :: "civil \<Rightarrow> reminders \<Rightarrow> reminder list" where
  "due_reminders now t =
     order_by_text rm_fire (filter (\<lambda>r. rm_status r = RActive \<and> text_le (iso_text (rm_fire r)) (iso_text now)) (dict_values t))"

text \<open>\<open>Inr None\<close>: the occurrence was consumed by somebody else.\<close>

definition record_reminder_fire :: "civil \<Rightarrow> string \<Rightarrow> nat \<Rightarrow> civil \<Rightarrow> reminders \<Rightarrow> (personal_error + reminder option) \<times> reminders" where
  "record_reminder_fire now rid expected fired_at t =
     (case dict_get t rid of
        None \<Rightarrow> (Inl StoreNotFound, t)
      | Some r \<Rightarrow>
          if rm_status r \<noteq> RActive \<or> rm_fires r \<noteq> expected then (Inr None, t)
          else case advance_occurrence (rm_fire r) (rm_recurrence r) of
                 Inl DateOverflow \<Rightarrow> (Inl TimeOverflow, t)
               | Inr next \<Rightarrow>
                   let fires = rm_fires r + 1;
                       completed = (fires \<ge> rm_max r \<or> next = None);
                       r' = r\<lparr>rm_fires := fires, rm_fire := (case next of Some d \<Rightarrow> d | None \<Rightarrow> rm_fire r), rm_last := Some fired_at,
                              rm_status := (if completed then RCompleted else RActive), rm_updated := now\<rparr>
                   in (Inr (Some r'), dict_set rid r' t))"

subsection \<open>The tables keep valid rows\<close>

interpretation note_rows: validated_rows check_note
  by unfold_locales (auto simp: check_note_def strip_idem split: if_splits)

interpretation event_rows: validated_rows check_event
  by unfold_locales (auto simp: check_event_def split: if_splits)

interpretation reminder_rows: validated_rows check_reminder
  by unfold_locales (auto simp: check_reminder_def split: if_splits)

lemmas row_tables =
  note_rows.rows_ok_insert note_rows.rows_ok_replace note_rows.rows_ok_delete
  event_rows.rows_ok_insert event_rows.rows_ok_replace event_rows.rows_ok_delete

lemma notes_ok_operations:
  assumes "note_rows.rows_ok t"
  shows "note_rows.rows_ok (snd (create_note now nid title content tags t))"
    "note_rows.rows_ok (snd (update_note now nid us t))" "note_rows.rows_ok (snd (delete_note nid t))"
  using assms by (auto simp: create_note_def update_note_def delete_note_def row_tables split: option.splits)

lemma events_ok_operations:
  assumes "event_rows.rows_ok t"
  shows "event_rows.rows_ok (snd (create_event now eid title start fin description t))"
    "event_rows.rows_ok (snd (update_event now eid us t))" "event_rows.rows_ok (snd (delete_event eid t))"
  using assms by (auto simp: create_event_def update_event_def delete_event_def row_tables split: option.splits)

subsection \<open>The life of a reminder\<close>

text \<open>The firing budget: a reminder is complete exactly when its budget is used up, and a one-shot has a
  budget of one.\<close>

definition reminder_ok :: "reminder \<Rightarrow> bool" where
  "reminder_ok r \<longleftrightarrow> 1 \<le> rm_max r \<and> rm_max r \<le> 1000 \<and> rm_fires r \<le> rm_max r \<and>
     (rm_status r = RCompleted \<longleftrightarrow> rm_fires r = rm_max r) \<and> (rm_recurrence r = ONE_SHOT \<longrightarrow> rm_max r = 1)"

definition reminders_ok :: "reminders \<Rightarrow> bool" where
  "reminders_ok t \<longleftrightarrow> distinct (dict_keys t) \<and> (\<forall>k r. dict_get t k = Some r \<longrightarrow> reminder_ok r)"

lemma reminders_okD: "reminders_ok t \<Longrightarrow> dict_get t k = Some r \<Longrightarrow> reminder_ok r"
  unfolding reminders_ok_def by blast

lemma reminders_ok_set: "reminders_ok t \<Longrightarrow> reminder_ok r \<Longrightarrow> reminders_ok (dict_set k r t)"
  unfolding reminders_ok_def by (simp del: map_of_eq_Some_iff)

lemma reminders_ok_create [keeps_inv]:
  "reminders_ok t \<Longrightarrow> reminders_ok (snd (create_reminder now rid message fire recurrence max_fires t))"
  by (auto simp: create_reminder_def insert_row_def check_reminder_def reminder_ok_def Let_def
      intro!: reminders_ok_set split: option.splits)

lemma fold_apply_reminder:
  "rm_fires (fold apply_reminder us r) = rm_fires r \<and> rm_status (fold apply_reminder us r) = rm_status r"
proof (induction us arbitrary: r)
  case (Cons u us) then show ?case by (cases u) simp_all
qed simp

lemma reminders_ok_update [keeps_inv]: "reminders_ok t \<Longrightarrow> reminders_ok (snd (update_reminder now rid us t))"
  using fold_apply_reminder [of us]
  by (auto simp: update_reminder_def replace_row_def check_reminder_def reminder_ok_def Let_def
      intro!: reminders_ok_set split: option.splits)

lemma reminders_ok_cancel [keeps_inv]: "reminders_ok t \<Longrightarrow> reminders_ok (snd (cancel_reminder now rid t))"
  using reminders_okD [of t rid]
  by (cases "dict_get t rid") (auto simp: cancel_reminder_def reminder_ok_def Let_def intro!: reminders_ok_set)

lemma reminders_ok_delete [keeps_inv]: "reminders_ok t \<Longrightarrow> reminders_ok (snd (delete_reminder rid t))"
  by (simp add: delete_reminder_def delete_row_def reminders_ok_def)

text \<open>What a recorded firing does.\<close>

lemma record_fire_cases:
  assumes "record_reminder_fire now rid expected occ t = (res, t')"
  obtains (unchanged) "t' = t" and "\<And>r'. res \<noteq> Inr (Some r')"
  | (fired) r r' next_fire where "dict_get t rid = Some r" and "rm_status r = RActive" and "rm_fires r = expected"
      and "advance_occurrence (rm_fire r) (rm_recurrence r) = Inr next_fire" and "res = Inr (Some r')" and "t' = dict_set rid r' t"
      and "r' = r\<lparr>rm_fires := expected + 1, rm_fire := (case next_fire of Some d \<Rightarrow> d | None \<Rightarrow> rm_fire r), rm_last := Some occ,
             rm_status := (if expected + 1 \<ge> rm_max r \<or> next_fire = None then RCompleted else RActive), rm_updated := now\<rparr>"
proof (cases "dict_get t rid")
  case None
  with assms have "t' = t" "\<And>r'. res \<noteq> Inr (Some r')" by (auto simp: record_reminder_fire_def)
  with that(1) show ?thesis .
next
  case (Some r)
  show ?thesis
  proof (cases "rm_status r \<noteq> RActive \<or> rm_fires r \<noteq> expected")
    case True
    with assms Some have "t' = t" "\<And>r'. res \<noteq> Inr (Some r')" by (auto simp: record_reminder_fire_def)
    with that(1) show ?thesis .
  next
    case False
    show ?thesis
    proof (cases "advance_occurrence (rm_fire r) (rm_recurrence r)")
      case (Inl e)
      with assms Some False have "t' = t" "\<And>r'. res \<noteq> Inr (Some r')"
        by (cases e; auto simp: record_reminder_fire_def)+
      with that(1) show ?thesis .
    next
      case (Inr n)
      with assms Some False show ?thesis by (intro that(2) [of r n]) (auto simp: record_reminder_fire_def Let_def)
    qed
  qed
qed

lemma advance_None: "advance_occurrence d r = Inr None \<longleftrightarrow> r = ONE_SHOT"
  by (cases r) (auto simp: advance_occurrence_def Let_def split: option.splits)

lemma reminders_ok_fire [keeps_inv]:
  assumes "reminders_ok t" shows "reminders_ok (snd (record_reminder_fire now rid expected occ t))"
proof -
  obtain res t' where "record_reminder_fire now rid expected occ t = (res, t')" by force
  then show ?thesis
  proof (cases rule: record_fire_cases)
    case unchanged
    with assms show ?thesis using \<open>record_reminder_fire now rid expected occ t = (res, t')\<close> by simp
  next
    case (fired r r' n)
    have "n = None \<longleftrightarrow> rm_recurrence r = ONE_SHOT" using advance_None [of "rm_fire r" "rm_recurrence r"] fired(4) by simp
    moreover have "reminder_ok r" using reminders_okD [OF assms fired(1)] .
    ultimately have "reminder_ok r'"
      using fired by (auto simp: reminder_ok_def)
    with assms fired \<open>record_reminder_fire now rid expected occ t = (res, t')\<close> show ?thesis by (simp add: reminders_ok_set)
  qed
qed

text \<open>Histories of the reminder table: \<open>U\<close> holds the ids ever created, which \<open>uuid4\<close> does not repeat, and
  \<open>l\<close> the occurrences consumed, newest first, an occurrence being a reminder and its number of earlier
  firings.\<close>

inductive reminder_run :: "string set \<Rightarrow> (string \<times> nat) list \<Rightarrow> reminders \<Rightarrow> bool" where
  run_empty: "reminder_run {} [] []"
| run_create: "reminder_run U l t \<Longrightarrow> rid \<notin> U \<Longrightarrow>
    reminder_run (insert rid U) l (snd (create_reminder now rid message fire recurrence max_fires t))"
| run_update: "reminder_run U l t \<Longrightarrow> reminder_run U l (snd (update_reminder now rid us t))"
| run_cancel: "reminder_run U l t \<Longrightarrow> reminder_run U l (snd (cancel_reminder now rid t))"
| run_delete: "reminder_run U l t \<Longrightarrow> reminder_run U l (snd (delete_reminder rid t))"
| run_fire: "reminder_run U l t \<Longrightarrow> record_reminder_fire now rid expected occ t = (res, t') \<Longrightarrow>
    reminder_run U (case res of Inr (Some r) \<Rightarrow> (rid, expected) # l | _ \<Rightarrow> l) t'"

definition history_ok :: "string set \<Rightarrow> (string \<times> nat) list \<Rightarrow> reminders \<Rightarrow> bool" where
  "history_ok U l t \<longleftrightarrow> reminders_ok t \<and> set (dict_keys t) \<subseteq> U \<and> distinct l \<and>
     (\<forall>(rid, n) \<in> set l. rid \<in> U \<and> n < 1000 \<and> (\<forall>r. dict_get t rid = Some r \<longrightarrow> n < rm_fires r))"

lemma history_ok_change:
  assumes "history_ok U l t" and "reminders_ok t'"
    and "\<And>k r'. dict_get t' k = Some r' \<Longrightarrow> \<exists>r. dict_get t k = Some r \<and> rm_fires r \<le> rm_fires r'"
  shows "history_ok U l t'"
proof -
  have "set (dict_keys t') \<subseteq> set (dict_keys t)"
  proof
    fix k assume "k \<in> set (dict_keys t')"
    then obtain r' where "dict_get t' k = Some r'" by (metis domD dom_map_of_conv_image_fst list.set_map)
    with assms(3) obtain r where "dict_get t k = Some r" by blast
    then show "k \<in> set (dict_keys t)" by (metis domI dom_map_of_conv_image_fst list.set_map)
  qed
  moreover have "n < rm_fires r'" if "(rid, n) \<in> set l" "dict_get t' rid = Some r'" for rid n r'
  proof -
    from assms(3) [OF that(2)] obtain r where "dict_get t rid = Some r" "rm_fires r \<le> rm_fires r'" by blast
    moreover from this(1) have "n < rm_fires r" using assms(1) that(1) by (auto simp: history_ok_def simp del: map_of_eq_Some_iff)
    ultimately show ?thesis by simp
  qed
  moreover from calculation(1) have "set (dict_keys t') \<subseteq> U" using assms(1) unfolding history_ok_def by blast
  ultimately show ?thesis using assms(1,2) unfolding history_ok_def by blast
qed

lemma update_keeps_fires:
  "dict_get (snd (update_reminder now rid us t)) k = Some r' \<Longrightarrow> \<exists>r. dict_get t k = Some r \<and> rm_fires r \<le> rm_fires r'"
  using fold_apply_reminder [of us]
  by (auto simp: update_reminder_def replace_row_def check_reminder_def Let_def split: option.splits if_splits)

lemma cancel_keeps_fires:
  "dict_get (snd (cancel_reminder now rid t)) k = Some r' \<Longrightarrow> \<exists>r. dict_get t k = Some r \<and> rm_fires r \<le> rm_fires r'"
  by (auto simp: cancel_reminder_def Let_def split: option.splits if_splits)

lemma reminder_run_ok: "reminder_run U l t \<Longrightarrow> history_ok U l t"
proof (induction rule: reminder_run.induct)
  case run_empty show ?case by (simp add: history_ok_def reminders_ok_def)
next
  case (run_create U l t rid now message fire recurrence max_fires)
  let ?t' = "snd (create_reminder now rid message fire recurrence max_fires t)"
  have ok: "reminders_ok ?t'" using run_create.IH by (simp add: history_ok_def reminders_ok_create)
  have keys: "set (dict_keys ?t') \<subseteq> insert rid (set (dict_keys t))"
    and other: "\<And>k. k \<noteq> rid \<Longrightarrow> dict_get ?t' k = dict_get t k"
    by (auto simp: create_reminder_def insert_row_def Let_def split: option.splits)
  have "rid' \<in> insert rid U \<and> n < 1000 \<and> (\<forall>r. dict_get ?t' rid' = Some r \<longrightarrow> n < rm_fires r)" if "(rid', n) \<in> set l" for rid' n
  proof -
    have f: "rid' \<in> U" "n < 1000" "\<And>r. dict_get t rid' = Some r \<Longrightarrow> n < rm_fires r"
      using run_create.IH that unfolding history_ok_def by fastforce+
    with run_create.hyps(2) have "rid' \<noteq> rid" by blast
    with f other show ?thesis by simp
  qed
  moreover have "set (dict_keys ?t') \<subseteq> insert rid U" using keys run_create.IH unfolding history_ok_def by blast
  ultimately show ?case using ok run_create.IH unfolding history_ok_def by blast
next
  case (run_update U l t now rid us)
  then show ?case
    using reminders_ok_update history_ok_change [OF run_update.IH] update_keeps_fires by (simp add: history_ok_def)
next
  case (run_cancel U l t now rid)
  then show ?case
    using reminders_ok_cancel history_ok_change [OF run_cancel.IH] cancel_keeps_fires by (simp add: history_ok_def)
next
  case (run_delete U l t rid)
  then have "reminders_ok (snd (delete_reminder rid t))" by (simp add: history_ok_def reminders_ok_delete)
  then show ?case
    by (rule history_ok_change [OF run_delete.IH]) (auto simp: delete_reminder_def delete_row_def split: if_splits)
next
  case (run_fire U l t now rid expected occ res t')
  have ok: "reminders_ok t'" using reminders_ok_fire [of t now rid expected occ] run_fire by (simp add: history_ok_def)
  from run_fire.hyps(2) show ?case
  proof (cases rule: record_fire_cases)
    case unchanged
    with run_fire.IH show ?thesis by (auto split: sum.splits option.splits)
  next
    case (fired r r' n)
    have r: "reminder_ok r" using run_fire.IH fired(1) by (auto simp: history_ok_def intro: reminders_okD)
    have "history_ok U l t'"
      using fired by (intro history_ok_change [OF run_fire.IH ok]) (auto split: if_splits)
    moreover have "(rid, expected) \<notin> set l" using run_fire.IH fired(1,3) unfolding history_ok_def by fastforce
    moreover have "rid \<in> U" using run_fire.IH fired(1) unfolding history_ok_def by (metis domI dom_map_of_conv_image_fst list.set_map subsetD)
    moreover have "expected < 1000" using r fired(2,3) by (auto simp: reminder_ok_def)
    ultimately show ?thesis using fired(5-7) by (auto simp: history_ok_def)
  qed
qed

subsection \<open>Successive occurrences\<close>

text \<open>The \<open>n\<close>-th occurrence after \<open>d\<close>, when there is one.\<close>

primrec occurrence :: "nat \<Rightarrow> recurrence \<Rightarrow> civil \<Rightarrow> civil option" where
  "occurrence 0 r d = Some d"
| "occurrence (Suc n) r d = (case advance_occurrence d r of Inr (Some e) \<Rightarrow> occurrence n r e | _ \<Rightarrow> None)"

lemma occurrence_Suc:
  assumes "occurrence (Suc n) r d = Some f"
  obtains e where "advance_occurrence d r = Inr (Some e)" and "occurrence n r e = Some f"
  using assms by (auto split: sum.splits option.splits)

lemma monthly_days:
  "valid_civil d \<Longrightarrow> occurrence n MONTHLY d = Some e \<Longrightarrow>
   valid_civil e \<and> cv_day e \<le> cv_day d \<and>
   (\<forall>k. 1 \<le> k \<and> k \<le> n \<and> (12 * cv_year d + cv_month d + k) mod 12 = 2 \<longrightarrow> cv_day e \<le> 29)"
proof (induction n arbitrary: d)
  case (Suc n)
  obtain f where f: "advance_occurrence d MONTHLY = Inr (Some f)" "occurrence n MONTHLY f = Some e"
    using occurrence_Suc [OF Suc.prems(2)] by blast
  let ?M = "12 * cv_year d + cv_month d"
  have next_f: "valid_civil f" "12 * cv_year f + cv_month f = ?M + 1" "cv_day f = min (cv_day d) (month_length (cv_year f) (cv_month f))"
    using advance_next [OF Suc.prems(1) f(1)] by simp_all
  from Suc.IH [OF next_f(1) f(2)]
  have e: "valid_civil e" "cv_day e \<le> cv_day f"
    "\<And>k. 1 \<le> k \<Longrightarrow> k \<le> n \<Longrightarrow> (?M + 1 + k) mod 12 = 2 \<Longrightarrow> cv_day e \<le> 29"
    by (auto simp: next_f(2))
  have "cv_day e \<le> 29" if k: "1 \<le> k" "k \<le> Suc n" "(?M + k) mod 12 = 2" for k
  proof (cases "k = 1")
    case True
    with k(3) next_f(2) have "(12 * cv_year f + cv_month f) mod 12 = 2" by simp
    then have "cv_month f mod 12 = 2" by simp
    then have "cv_month f = 2" using next_f(1) by (cases "cv_month f = 12") (auto simp: valid_civil_def)
    then have "cv_day f \<le> 29" using next_f(3) by (simp add: month_length_def split: if_splits)
    with e(2) show ?thesis by simp
  next
    case False
    with e(3) [of "k - 1"] k show ?thesis by simp
  qed
  with e next_f(3) show ?case by auto
qed simp

subsection \<open>Properties\<close>

text \<open>An occurrence of a reminder is consumed at most once and a reminder at most 1000 times, whatever
  creations, updates, cancellations, deletions and firings with outdated expectations the table sees;
  and every stored reminder is complete exactly when its budget is used up.\<close>

theorem occurrence_consumed_once:
  assumes "reminder_run U l t"
  shows "distinct l \<and> (\<forall>(rid, n) \<in> set l. n < 1000 \<and> (\<forall>r. dict_get t rid = Some r \<longrightarrow> n < rm_fires r)) \<and>
    (\<forall>rid r. dict_get t rid = Some r \<longrightarrow> rm_fires r \<le> rm_max r \<and> (rm_status r = RCompleted \<longleftrightarrow> rm_fires r = rm_max r))"
proof -
  have h: "history_ok U l t" by (rule reminder_run_ok [OF assms])
  have "rm_fires r \<le> rm_max r \<and> (rm_status r = RCompleted \<longleftrightarrow> rm_fires r = rm_max r)" if "dict_get t rid = Some r" for rid r
    using reminders_okD [OF _ that] h unfolding history_ok_def reminder_ok_def by blast
  with h show ?thesis unfolding history_ok_def by blast
qed

definition demo_day :: civil where
  "demo_day = \<lparr>cv_year = 2026, cv_month = 1, cv_day = 31, cv_time = 0\<rparr>"

lemma demo_reminder_run:
  "\<exists>r. reminder_run {''rem_1''} [(''rem_1'', 0)] [(''rem_1'', r)]"
proof -
  obtain r where c: "create_reminder demo_day ''rem_1'' ''tea'' demo_day MONTHLY None [] = (Inr r, [(''rem_1'', r)])"
    "rm_status r = RActive" "rm_fires r = 0" "rm_fire r = demo_day" "rm_recurrence r = MONTHLY"
    by (simp add: create_reminder_def insert_row_def check_reminder_def default_max_fires_def)
  obtain r' where "record_reminder_fire demo_day ''rem_1'' 0 demo_day [(''rem_1'', r)] = (Inr (Some r'), [(''rem_1'', r')])"
    using c by (simp add: record_reminder_fire_def advance_occurrence_def demo_day_def Let_def)
  from run_fire [OF run_create [OF run_empty, of "''rem_1''" demo_day "''tea''" demo_day MONTHLY None, unfolded c, simplified] this] show ?thesis by auto
qed

lemma occurrence_consumed_once_witness:
  "\<exists>r. reminder_run {''rem_1''} [(''rem_1'', 0)] [(''rem_1'', r)] \<and> 0 < rm_fires r"
proof -
  obtain r where "reminder_run {''rem_1''} [(''rem_1'', 0)] [(''rem_1'', r)]" using demo_reminder_run by blast
  with occurrence_consumed_once [OF this] show ?thesis by auto
qed

text \<open>C29: The due query is exact although it compares texts: it returns the active reminders whose instant
  has come and no other, ordered by instant, with or without fractions of a second.\<close>

theorem due_reminders_exact:
  assumes "\<forall>r \<in> set (dict_values t). valid_civil (rm_fire r)" and "valid_civil now"
  shows "set (due_reminders now t) = {r \<in> set (dict_values t). rm_status r = RActive \<and> micros (rm_fire r) \<le> micros now} \<and>
    sorted (map (\<lambda>r. micros (rm_fire r)) (due_reminders now t))"
proof -
  let ?due = "filter (\<lambda>r. rm_status r = RActive \<and> text_le (iso_text (rm_fire r)) (iso_text now)) (dict_values t)"
  have "order_by_text rm_fire ?due = sort_key (\<lambda>r. micros (rm_fire r)) ?due"
    by (rule order_by_text_instants) (use assms(1) in auto)
  moreover have "text_le (iso_text (rm_fire r)) (iso_text now) \<longleftrightarrow> micros (rm_fire r) \<le> micros now" if "r \<in> set (dict_values t)" for r
    by (rule text_le_iso) (use assms that in blast)+
  ultimately show ?thesis unfolding due_reminders_def by auto
qed

lemma due_reminders_exact_witness:
  "\<exists>r. due_reminders demo_day [(''rem_1'', r)] = [r] \<and>
    set (due_reminders demo_day [(''rem_1'', r)]) = {x. x = r \<and> rm_status x = RActive \<and> micros (rm_fire x) \<le> micros demo_day}"
proof -
  obtain r where c: "create_reminder demo_day ''rem_1'' ''tea'' demo_day MONTHLY None [] = (Inr r, [(''rem_1'', r)])"
    "rm_status r = RActive" "rm_fire r = demo_day"
    by (simp add: create_reminder_def insert_row_def check_reminder_def default_max_fires_def)
  have "valid_civil demo_day" by (simp add: demo_day_def valid_civil_def month_length_def)
  with c due_reminders_exact [of "[(''rem_1'', r)]" demo_day] show ?thesis
    by (intro exI [of _ r]) (auto simp: due_reminders_def order_by_text_def)
qed

text \<open>A recorded firing advances the schedule: the counter grows by one, the reminder completes exactly
  when the budget is used up, otherwise its next occurrence is a valid time strictly later, a whole
  number of days later for a daily or weekly one, and no other reminder changes.\<close>

theorem firing_advances:
  assumes "reminders_ok t" and "dict_get t rid = Some r" and "valid_civil (rm_fire r)"
    and "record_reminder_fire now rid expected occ t = (Inr (Some r'), t')"
  shows "rm_status r = RActive \<and> rm_fires r = expected \<and> rm_fires r' = expected + 1 \<and> rm_last r' = Some occ \<and>
    (rm_status r' = RCompleted \<longleftrightarrow> expected + 1 = rm_max r) \<and>
    (rm_status r' = RActive \<longrightarrow> valid_civil (rm_fire r') \<and> micros (rm_fire r) < micros (rm_fire r') \<and>
       (rm_recurrence r = DAILY \<longrightarrow> micros (rm_fire r') = micros (rm_fire r) + 86400000000) \<and>
       (rm_recurrence r = WEEKLY \<longrightarrow> micros (rm_fire r') = micros (rm_fire r) + 7 * 86400000000)) \<and>
    dict_get t' rid = Some r' \<and> (\<forall>k. k \<noteq> rid \<longrightarrow> dict_get t' k = dict_get t k)"
  using assms(4)
proof (cases rule: record_fire_cases)
  case unchanged
  then show ?thesis using unchanged(2) [of r'] by blast
next
  case (fired q q' n)
  have ok: "reminder_ok r" by (rule reminders_okD [OF assms(1,2)])
  have q: "q = r" "q' = r'" using fired(1,5) assms(2) by simp_all
  have "n = None \<longleftrightarrow> rm_recurrence r = ONE_SHOT" using advance_None [of "rm_fire r" "rm_recurrence r"] fired(4) q by simp
  then have "(expected + 1 \<ge> rm_max r \<or> n = None) \<longleftrightarrow> expected + 1 = rm_max r"
    using ok fired(2,3) q by (auto simp: reminder_ok_def)
  moreover have "n = Some e \<Longrightarrow> valid_civil e \<and> micros (rm_fire r) < micros e \<and>
     (rm_recurrence r = DAILY \<longrightarrow> micros e = micros (rm_fire r) + 86400000000) \<and>
     (rm_recurrence r = WEEKLY \<longrightarrow> micros e = micros (rm_fire r) + 7 * 86400000000)" for e
    using advance_next [OF assms(3)] fired(4) q by simp
  ultimately show ?thesis using fired q by (cases n) auto
qed

text \<open>A monthly reminder drifts: the day of its occurrences never grows, and from the first February
  on it is at most 29, in every later month; one for the 31st of January 2026 falls on the 28th of March.\<close>

theorem monthly_reminder_drifts:
  assumes "valid_civil d" and "occurrence n MONTHLY d = Some e"
  shows "cv_day e \<le> cv_day d \<and> (12 \<le> n \<longrightarrow> cv_day e \<le> 29)"
proof -
  have "\<exists>k. 1 \<le> k \<and> k \<le> 12 \<and> (12 * cv_year d + cv_month d + k) mod 12 = 2"
  proof -
    have "\<exists>k \<in> {1..12}. (cv_month d + k) mod 12 = (2::nat)"
    proof (cases "cv_month d < 2")
      case True
      with assms(1) have "cv_month d = 1" by (simp add: valid_civil_def)
      then show ?thesis by (intro bexI [of _ 1]) simp_all
    next
      case False
      with assms(1) show ?thesis by (intro bexI [of _ "14 - cv_month d"]) (auto simp: valid_civil_def)
    qed
    then obtain k where "k \<in> {1..12}" "(cv_month d + k) mod 12 = 2" by blast
    moreover from this(2) have "(12 * cv_year d + cv_month d + k) mod 12 = 2" by (simp add: add.assoc)
    ultimately show ?thesis by auto
  qed
  with monthly_days [OF assms] show ?thesis by (meson le_trans)
qed

lemma monthly_reminder_drifts_witness:
  "occurrence 2 MONTHLY demo_day = Some (demo_day\<lparr>cv_month := 3, cv_day := 28\<rparr>) \<and> (28::nat) \<le> 31"
proof -
  have v: "valid_civil demo_day" by (simp add: demo_day_def valid_civil_def month_length_def)
  have o: "occurrence 2 MONTHLY demo_day = Some (demo_day\<lparr>cv_month := 3, cv_day := 28\<rparr>)"
    by (simp add: numeral_2_eq_2 advance_occurrence_def demo_day_def month_length_def leap_def)
  from monthly_reminder_drifts [OF v o] o show ?thesis by (simp add: demo_day_def)
qed

text \<open>A window query returns exactly the events that overlap the window, by start, up to the limit.\<close>

theorem list_events_exact:
  assumes "\<forall>e \<in> set (dict_values t). valid_civil (ev_start e)" and "length t \<le> limit"
  shows "set (list_events (Some lo) (Some hi) limit t) =
      {e \<in> set (dict_values t). micros lo \<le> micros (ev_end e) \<and> micros (ev_start e) \<le> micros hi} \<and>
    sorted (map (\<lambda>e. micros (ev_start e)) (list_events (Some lo) (Some hi) limit t))"
proof -
  let ?s = "sort_key (\<lambda>e. micros (ev_start e)) (dict_values t)"
  have "order_by_text ev_start (dict_values t) = ?s" by (rule order_by_text_instants) (use assms(1) in auto)
  moreover have "length (filter P (filter Q ?s)) \<le> limit" for P Q
    using length_filter_le [of P "filter Q ?s"] length_filter_le [of Q ?s] assms(2) by simp
  ultimately have "list_events (Some lo) (Some hi) limit t =
      filter (\<lambda>e. micros (ev_start e) \<le> micros hi) (filter (\<lambda>e. micros lo \<le> micros (ev_end e)) ?s)"
    by (simp add: list_events_def)
  then show ?thesis by (auto simp: sorted_filter)
qed

lemma list_events_exact_witness:
  "\<exists>e. set (list_events (Some demo_day) (Some demo_day) 20 [(''evt_1'', e)]) =
    {x. x = e \<and> micros demo_day \<le> micros (ev_end x) \<and> micros (ev_start x) \<le> micros demo_day} \<and> ev_start e = demo_day"
proof -
  obtain e where e: "create_event demo_day ''evt_1'' ''tea'' demo_day (demo_day\<lparr>cv_time := 1\<rparr>) [] [] = (Inr e, [(''evt_1'', e)])" "ev_start e = demo_day"
    by (simp add: create_event_def insert_row_def check_event_def micros_def ordinal_def demo_day_def)
  have "valid_civil demo_day" by (simp add: demo_day_def valid_civil_def month_length_def)
  with e list_events_exact [of "[(''evt_1'', e)]" 20 demo_day demo_day] show ?thesis by (intro exI [of _ e]) auto
qed

text \<open>The store as a whole: the writing calls of a client, in any order.\<close>

datatype store_call =
    Create_note civil string string string "string list"
  | Update_note civil string "note_update list"
  | Delete_note string
  | Create_event civil string string civil civil string
  | Update_event civil string "event_update list"
  | Delete_event string

fun store_step :: "store_call \<Rightarrow> (string, personal_note) dict \<times> (string, personal_event) dict \<Rightarrow>
    (string, personal_note) dict \<times> (string, personal_event) dict" where
  "store_step (Create_note now nid title content tags) (ns, es) = (snd (create_note now nid title content tags ns), es)"
| "store_step (Update_note now nid us) (ns, es) = (snd (update_note now nid us ns), es)"
| "store_step (Delete_note nid) (ns, es) = (snd (delete_note nid ns), es)"
| "store_step (Create_event now eid title start fin description) (ns, es) =
     (ns, snd (create_event now eid title start fin description es))"
| "store_step (Update_event now eid us) (ns, es) = (ns, snd (update_event now eid us es))"
| "store_step (Delete_event eid) (ns, es) = (ns, snd (delete_event eid es))"

lemma store_steps_ok:
  "note_rows.rows_ok ns \<Longrightarrow> event_rows.rows_ok es \<Longrightarrow> fold store_step cs (ns, es) = (ns', es') \<Longrightarrow>
   note_rows.rows_ok ns' \<and> event_rows.rows_ok es'"
proof (induction cs arbitrary: ns es)
  case (Cons c cs)
  obtain ns1 es1 where s: "store_step c (ns, es) = (ns1, es1)" by force
  then have "note_rows.rows_ok ns1 \<and> event_rows.rows_ok es1"
    using Cons.prems(1,2) by (cases c) (auto simp: notes_ok_operations events_ok_operations)
  with Cons.IH Cons.prems(3) s show ?case by auto
qed simp

text \<open>C30: Whatever creations, updates and deletions the tables see, every stored note has a title and a
  content within their bounds and at most ten trimmed, non-empty tags, and every stored event ends after
  it starts: a merged update is validated as a whole.\<close>

theorem stored_rows_valid:
  assumes "fold store_step cs ([], []) = (ns, es)"
  shows "(\<forall>k n. dict_get ns k = Some n \<longrightarrow>
      length (nt_title n) \<in> {1..200} \<and> length (nt_content n) \<in> {1..20000} \<and> length (nt_tags n) \<le> 10 \<and>
      (\<forall>s \<in> set (nt_tags n). strip s = s \<and> length s \<in> {1..50})) \<and>
    (\<forall>k e. dict_get es k = Some e \<longrightarrow>
      length (ev_title e) \<in> {1..200} \<and> length (ev_description e) \<le> 2000 \<and> micros (ev_start e) < micros (ev_end e)) \<and>
    distinct (dict_keys ns) \<and> distinct (dict_keys es)"
proof -
  have ok: "note_rows.rows_ok ns \<and> event_rows.rows_ok es"
    by (rule store_steps_ok [OF note_rows.rows_ok_empty event_rows.rows_ok_empty assms])
  have "length (nt_title n) \<in> {1..200} \<and> length (nt_content n) \<in> {1..20000} \<and> length (nt_tags n) \<le> 10 \<and>
      (\<forall>s \<in> set (nt_tags n). strip s = s \<and> length s \<in> {1..50})" if "dict_get ns k = Some n" for k n
  proof -
    have c: "check_note n = Some n" using ok that unfolding note_rows.rows_ok_def by blast
    have "nt_tags n = map strip (nt_tags n)" using c by (cases n) (auto simp: check_note_def split: if_splits)
    then have "\<forall>s \<in> set (nt_tags n). strip s = s" by (metis map_idI list.map_id map_eq_conv id_apply)
    with c show ?thesis by (auto simp: check_note_def Suc_le_eq split: if_splits)
  qed
  moreover have "length (ev_title e) \<in> {1..200} \<and> length (ev_description e) \<le> 2000 \<and> micros (ev_start e) < micros (ev_end e)"
    if "dict_get es k = Some e" for k e
  proof -
    have "check_event e = Some e" using ok that unfolding event_rows.rows_ok_def by blast
    then show ?thesis by (auto simp: check_event_def split: if_splits)
  qed
  ultimately show ?thesis using ok unfolding note_rows.rows_ok_def event_rows.rows_ok_def by blast
qed

lemma stored_rows_valid_witness:
  "\<exists>n. fold store_step [Create_note demo_day ''note_1'' ''tea'' ''buy green tea'' ['' shop '']] ([], []) = ([(''note_1'', n)], []) \<and>
    (\<forall>s \<in> set (nt_tags n). strip s = s)"
proof -
  obtain n where n: "fold store_step [Create_note demo_day ''note_1'' ''tea'' ''buy green tea'' ['' shop '']] ([], []) = ([(''note_1'', n)], [])"
    by (simp add: create_note_def insert_row_def check_note_def strip_def rstrip_def lstrip_def is_space_def)
  have g: "dict_get [(''note_1'', n)] ''note_1'' = Some n" by simp
  have "\<forall>s \<in> set (nt_tags n). strip s = s" using conjunct1 [OF stored_rows_valid [OF n]] g by blast
  with n show ?thesis by blast
qed

lemma firing_advances_witness:
  "\<exists>r r'. record_reminder_fire demo_day ''rem_1'' 0 demo_day [(''rem_1'', r)] = (Inr (Some r'), [(''rem_1'', r')]) \<and>
    rm_fire r = demo_day \<and> micros demo_day < micros (rm_fire r')"
proof -
  obtain r where c: "create_reminder demo_day ''rem_1'' ''tea'' demo_day DAILY None [] = (Inr r, [(''rem_1'', r)])"
    "rm_status r = RActive" "rm_fires r = 0" "rm_fire r = demo_day" "rm_recurrence r = DAILY" "rm_max r = 100"
    by (simp add: create_reminder_def insert_row_def check_reminder_def default_max_fires_def)
  have v: "valid_civil (rm_fire r)" using c by (simp add: demo_day_def valid_civil_def month_length_def)
  have "advance_occurrence demo_day DAILY = Inr (Some (demo_day\<lparr>cv_month := 2, cv_day := 1\<rparr>))"
    by (simp add: advance_occurrence_def demo_day_def next_day_def month_length_def)
  with c obtain r' where f: "record_reminder_fire demo_day ''rem_1'' 0 demo_day [(''rem_1'', r)] = (Inr (Some r'), [(''rem_1'', r')])"
    "rm_status r' = RActive"
    by (auto simp: record_reminder_fire_def Let_def)
  have ok: "reminders_ok [(''rem_1'', r)]" using c by (simp add: reminders_ok_def reminder_ok_def)
  have g: "dict_get [(''rem_1'', r)] ''rem_1'' = Some r" by simp
  from firing_advances [OF ok g v f(1)] f c(4) show ?thesis by (intro exI [of _ r] exI [of _ r']) simp
qed

end
