(* ===== verification/Reminder_Service.thy ===== *)
theory Reminder_Service
  imports Proactive Personal_Store
begin

text \<open>
  Models \<open>ReminderService\<close> of \<open>python/tom/personal/reminders.py\<close> on the models of the personal store and
  of the proactive scheduler. Definitions are the sections between suspension points: a call through
  \<open>asyncio.to_thread\<close> is one event when the thread works on the store and another when the coroutine
  resumes. \<open>tick\<close> holds a lock, so at most one runs; its sections interleave with the reminder tool's
  calls and with everything else that touches the scheduler. The task executor gets no plan from a
  reminder, so a dispatch ends where its task is created. The triggers are the service's own and not in
  the scheduler's registry.
\<close>

subsection \<open>Triggers\<close>

text \<open>A civil time as the scheduler sees it.\<close>

definition to_datetime :: "civil \<Rightarrow> datetime" where
  "to_datetime c = \<lparr>dt_instant = of_nat (micros c) / 1000000, dt_year = int (cv_year c), dt_month = int (cv_month c),
     dt_day = int (cv_day c), dt_hour = int (cv_time c div 3600000000), dt_minute = int (cv_time c div 60000000 mod 60),
     dt_weekday = int ((ordinal c + 6) mod 7), dt_time = int (cv_time c)\<rparr>"

definition seconds_between :: "civil \<Rightarrow> civil \<Rightarrow> rat" where
  "seconds_between a b = dt_instant (to_datetime b) - dt_instant (to_datetime a)"

definition build_reminder_trigger :: "reminder \<Rightarrow> trigger" where
  "build_reminder_trigger r =
     (let interval = (case rm_last r of
            None \<Rightarrow> 3600
          | Some f \<Rightarrow> if seconds_between f (rm_fire r) \<le> 0 then 3600 else seconds_between f (rm_fire r))
      in \<lparr>trigger_id = ''reminder_'' @ rm_id r, tg_name = ''reminder:'' @ rm_id r, tg_goal = ''REMINDER: '' @ rm_message r,
          tg_plan = None, urgent_health = False, tg_enabled = True, last_run = map_option to_datetime (rm_last r),
          tg_kind = Interval interval\<rparr>)"

subsection \<open>The service\<close>

datatype tick_phase =
    NoTick
  | DueReading civil
  | DueRead civil "reminder list"
  | FireRecording civil reminder string "reminder list"
  | FireRecorded civil reminder string "personal_error + reminder option" "reminder list"

datatype service_call = SyncReading string | SyncRead string "reminder option" | Dropping string

text \<open>\<open>sv_dispatched\<close>: the \<open>ReminderDispatch\<close> entries of all ticks, each with the count of earlier firings.
  \<open>sv_raised\<close>: a tick has ended with an exception.\<close>

record service =
  sv_store :: reminders
  sv_scheduler :: scheduler
  sv_triggers :: "(string, trigger) dict"
  sv_phase :: tick_phase
  sv_calls :: "service_call list"
  sv_dispatched :: "(string \<times> nat \<times> string) list"
  sv_raised :: bool

definition new_service :: "scheduler \<Rightarrow> service" where
  "new_service sch = \<lparr>sv_store = [], sv_scheduler = sch, sv_triggers = [], sv_phase = NoTick, sv_calls = [],
     sv_dispatched = [], sv_raised = False\<rparr>"

definition drop_trigger :: "string \<Rightarrow> service \<Rightarrow> service" where
  "drop_trigger rid s = s\<lparr>sv_triggers := dict_del rid (sv_triggers s)\<rparr>"

definition sync_trigger :: "reminder \<Rightarrow> service \<Rightarrow> trigger option \<times> service" where
  "sync_trigger r s =
     (if rm_status r \<noteq> RActive then (None, drop_trigger (rm_id r) s)
      else (Some (build_reminder_trigger r),
            s\<lparr>sv_triggers := dict_set (rm_id r) (build_reminder_trigger r) (sv_triggers s)\<rparr>))"

text \<open>\<open>dispatch_proactive_task\<close> on the service's own trigger.\<close>

definition dispatch_reminder ::
  "bool \<Rightarrow> string \<Rightarrow> rat \<Rightarrow> trigger \<Rightarrow> civil \<Rightarrow> scheduler \<Rightarrow> task option option \<times> scheduler" where
  "dispatch_reminder db tid created tg now sch =
     (let (res, sch1) = dispatch_begin db tid created tg (to_datetime now) sch
      in (res, (case res of Some (Some t) \<Rightarrow> release_active tid sch1 | _ \<Rightarrow> sch1)\<lparr>sch_triggers := sch_triggers sch\<rparr>))"

text \<open>The loop of \<open>tick\<close> up to its next suspension.\<close>

fun tick_reminders :: "bool \<Rightarrow> string \<Rightarrow> rat \<Rightarrow> civil \<Rightarrow> reminder list \<Rightarrow> service \<Rightarrow> service" where
  "tick_reminders db tid created now [] s = s\<lparr>sv_phase := NoTick\<rparr>"
| "tick_reminders db tid created now (r # rs) s =
     (case sync_trigger r s of
        (None, s1) \<Rightarrow> tick_reminders db tid created now rs s1
      | (Some tg, s1) \<Rightarrow>
          (case dispatch_reminder db tid created tg now (sv_scheduler s1) of
             (None, sch) \<Rightarrow> s1\<lparr>sv_scheduler := sch, sv_phase := NoTick, sv_raised := True\<rparr>
           | (Some None, sch) \<Rightarrow> tick_reminders db tid created now rs (s1\<lparr>sv_scheduler := sch\<rparr>)
           | (Some (Some t), sch) \<Rightarrow>
               s1\<lparr>sv_scheduler := sch, sv_triggers := dict_set (rm_id r) (tg\<lparr>last_run := Some (to_datetime now)\<rparr>) (sv_triggers s1),
                  sv_phase := FireRecording now r tid rs\<rparr>))"

text \<open>The section after the firing was recorded.\<close>

definition fire_resumes :: "bool \<Rightarrow> string \<Rightarrow> rat \<Rightarrow> service \<Rightarrow> service option" where
  "fire_resumes db tid created s =
     (case sv_phase s of
        FireRecorded now r t res rs \<Rightarrow>
          Some (case res of
             Inl _ \<Rightarrow> s\<lparr>sv_phase := NoTick, sv_raised := True\<rparr>
           | Inr None \<Rightarrow> tick_reminders db tid created now rs s
           | Inr (Some u) \<Rightarrow>
               tick_reminders db tid created now rs
                 ((snd (sync_trigger u s))\<lparr>sv_dispatched := sv_dispatched s @ [(rm_id r, rm_fires r, t)]\<rparr>))
      | _ \<Rightarrow> None)"

subsection \<open>Events\<close>

text \<open>The store operations return their result to the tool; \<open>tid\<close> is the id of the task that the next
  dispatch creates. \<open>SchedulerRuns\<close> stands for everything else that works on the scheduler.\<close>

datatype service_action =
    TickStarts civil | DueQuery | TickRuns bool string rat | FireQuery civil | FireResumes bool string rat
  | CreateCall civil string string civil recurrence "nat option" | UpdateCall civil string "reminder_update list"
  | CancelCall civil string | DeleteCall string | SyncQuery string | CallEnds service_call | SchedulerRuns scheduler

fun service_event :: "service_action \<Rightarrow> service \<Rightarrow> service option" where
  "service_event (TickStarts now) s = (if sv_phase s = NoTick then Some (s\<lparr>sv_phase := DueReading now\<rparr>) else None)"
| "service_event DueQuery s =
     (case sv_phase s of DueReading now \<Rightarrow> Some (s\<lparr>sv_phase := DueRead now (due_reminders now (sv_store s))\<rparr>) | _ \<Rightarrow> None)"
| "service_event (TickRuns db tid created) s =
     (case sv_phase s of DueRead now rs \<Rightarrow> Some (tick_reminders db tid created now rs s) | _ \<Rightarrow> None)"
| "service_event (FireQuery clock) s =
     (case sv_phase s of
        FireRecording now r tid rs \<Rightarrow>
          (case record_reminder_fire clock (rm_id r) (rm_fires r) (rm_fire r) (sv_store s) of
             (res, t) \<Rightarrow> Some (s\<lparr>sv_store := t, sv_phase := FireRecorded now r tid res rs\<rparr>))
      | _ \<Rightarrow> None)"
| "service_event (FireResumes db tid created) s = fire_resumes db tid created s"
| "service_event (CreateCall clock rid message fire rec max_fires) s =
     (case create_reminder clock rid message fire rec max_fires (sv_store s) of
        (Inl _, t) \<Rightarrow> Some (s\<lparr>sv_store := t\<rparr>)
      | (Inr _, t) \<Rightarrow> Some (s\<lparr>sv_store := t, sv_calls := SyncReading rid # sv_calls s\<rparr>))"
| "service_event (UpdateCall clock rid us) s =
     (case update_reminder clock rid us (sv_store s) of
        (Inl _, t) \<Rightarrow> Some (s\<lparr>sv_store := t\<rparr>)
      | (Inr _, t) \<Rightarrow> Some (s\<lparr>sv_store := t, sv_calls := SyncReading rid # sv_calls s\<rparr>))"
| "service_event (CancelCall clock rid) s =
     (case cancel_reminder clock rid (sv_store s) of
        (Inl _, t) \<Rightarrow> Some (s\<lparr>sv_store := t\<rparr>)
      | (Inr _, t) \<Rightarrow> Some (s\<lparr>sv_store := t, sv_calls := Dropping rid # sv_calls s\<rparr>))"
| "service_event (DeleteCall rid) s =
     Some (s\<lparr>sv_store := snd (delete_reminder rid (sv_store s)), sv_calls := Dropping rid # sv_calls s\<rparr>)"
| "service_event (SyncQuery rid) s =
     (if SyncReading rid \<in> set (sv_calls s)
      then Some (s\<lparr>sv_calls := SyncRead rid (dict_get (sv_store s) rid) # remove1 (SyncReading rid) (sv_calls s)\<rparr>) else None)"
| "service_event (CallEnds c) s =
     (if c \<notin> set (sv_calls s) then None
      else let s1 = s\<lparr>sv_calls := remove1 c (sv_calls s)\<rparr>
           in case c of
                SyncReading _ \<Rightarrow> None
              | SyncRead rid None \<Rightarrow> Some (drop_trigger rid s1)
              | SyncRead rid (Some r) \<Rightarrow> Some (snd (sync_trigger r s1))
              | Dropping rid \<Rightarrow> Some (drop_trigger rid s1))"
| "service_event (SchedulerRuns sch) s = Some (s\<lparr>sv_scheduler := sch\<rparr>)"

text \<open>Ids of new reminders do not repeat.\<close>

inductive service_run :: "scheduler \<Rightarrow> string set \<Rightarrow> service \<Rightarrow> bool" for sch where
  service_new: "service_run sch {} (new_service sch)"
| service_creates: "service_run sch U s \<Longrightarrow> rid \<notin> U \<Longrightarrow>
    service_event (CreateCall clock rid message fire rec max_fires) s = Some s' \<Longrightarrow> service_run sch (insert rid U) s'"
| service_happens: "service_run sch U s \<Longrightarrow> (\<And>clock rid message fire rec max_fires. e \<noteq> CreateCall clock rid message fire rec max_fires) \<Longrightarrow>
    service_event e s = Some s' \<Longrightarrow> service_run sch U s'"

subsection \<open>The loop\<close>

text \<open>What a run of the loop leaves alone, and where it stops.\<close>

lemma sync_trigger_fields [simp]:
  "sv_store (snd (sync_trigger r s)) = sv_store s" "sv_scheduler (snd (sync_trigger r s)) = sv_scheduler s"
  "sv_phase (snd (sync_trigger r s)) = sv_phase s" "sv_dispatched (snd (sync_trigger r s)) = sv_dispatched s"
  "sv_calls (snd (sync_trigger r s)) = sv_calls s" "sv_raised (snd (sync_trigger r s)) = sv_raised s"
  "sv_store (drop_trigger k s) = sv_store s" "sv_scheduler (drop_trigger k s) = sv_scheduler s"
  "sv_phase (drop_trigger k s) = sv_phase s" "sv_dispatched (drop_trigger k s) = sv_dispatched s"
  by (simp_all add: sync_trigger_def drop_trigger_def)

lemma dispatch_reminder_cases:
  obtains (refused) "evaluate_policy tg (to_datetime now) sch \<noteq> Some ALLOWED"
      and "dispatch_reminder db tid created tg now sch =
        (if evaluate_policy tg (to_datetime now) sch = None then None else Some None, sch)"
    | (failed) sch1 where "evaluate_policy tg (to_datetime now) sch = Some ALLOWED" and "tg_goal tg = []"
      and "dispatch_reminder db tid created tg now sch = (None, sch1)"
    | (created) m where "evaluate_policy tg (to_datetime now) sch = Some ALLOWED"
      and "m = persist_task db (proactive_task tid created tg) (put_task tid (proactive_task tid created tg) False (sch_manager sch))"
      and "dispatch_reminder db tid created tg now sch = (Some (Some (proactive_task tid created tg)),
        sch\<lparr>sch_last := Some (to_datetime now), sch_manager := m, sch_active := None\<rparr>)"
proof (cases rule: dispatch_begin_cases [of tg "to_datetime now" sch db tid created])
  case 1
  then show ?thesis using that(1) by (auto simp: dispatch_reminder_def)
next
  case 2
  then show ?thesis using that(2) by (simp add: dispatch_reminder_def)
next
  case (3 m)
  then show ?thesis by (intro that(3)) (simp_all add: dispatch_reminder_def release_active_def)
qed

lemma dispatch_reminder_creates:
  assumes "dispatch_reminder db tid created tg now sch = (Some (Some t), sch')"
  shows "t = proactive_task tid created tg" "dict_get (tasks (sch_manager sch')) tid = Some (t, False)"
proof -
  have "t = proactive_task tid created tg \<and> dict_get (tasks (sch_manager sch')) tid = Some (t, False)"
  proof (cases rule: dispatch_reminder_cases [of tg now sch db tid created])
    case (created m)
    then have "t = proactive_task tid created tg"
      "sch' = sch\<lparr>sch_last := Some (to_datetime now), sch_manager := m, sch_active := None\<rparr>" using assms by simp_all
    with created(2) show ?thesis by simp
  qed (use assms in \<open>simp_all split: if_splits\<close>)
  then show "t = proactive_task tid created tg" "dict_get (tasks (sch_manager sch')) tid = Some (t, False)" by auto
qed

lemma interval_policy: "tg_kind tg = Interval x \<Longrightarrow> evaluate_policy tg now sch \<noteq> None"
  by (auto simp: evaluate_policy_def is_due_def split: bool.splits)

lemma build_trigger_simps [simp]:
  "tg_goal (build_reminder_trigger r) \<noteq> []" "urgent_health (build_reminder_trigger r) = False"
  "tg_enabled (build_reminder_trigger r)" "\<exists>x. tg_kind (build_reminder_trigger r) = Interval x"
  by (simp_all add: build_reminder_trigger_def Let_def)

lemma reminder_policy_decides: "evaluate_policy (build_reminder_trigger r) now sch \<noteq> None"
  using build_trigger_simps(4) [of r] interval_policy by blast

lemma tick_reminders_stop:
  obtains (finished) "sv_phase (tick_reminders db tid created now rs s) = NoTick"
      and "sv_scheduler (tick_reminders db tid created now rs s) = sv_scheduler s"
    | (fires) r rest where "sv_phase (tick_reminders db tid created now rs s) = FireRecording now r tid rest"
      and "\<exists>pre. rs = pre @ r # rest" and "rm_status r = RActive"
      and "evaluate_policy (build_reminder_trigger r) (to_datetime now) (sv_scheduler s) = Some ALLOWED"
      and "dispatch_reminder db tid created (build_reminder_trigger r) now (sv_scheduler s) =
        (Some (Some (proactive_task tid created (build_reminder_trigger r))), sv_scheduler (tick_reminders db tid created now rs s))"
proof (induction rs arbitrary: s thesis)
  case Nil
  then show ?case by simp
next
  case (Cons r rs)
  show ?case
  proof (cases "rm_status r = RActive")
    case False
    then have st: "sync_trigger r s = (None, drop_trigger (rm_id r) s)" by (simp add: sync_trigger_def)
    show ?thesis
    proof (rule Cons.IH [of "drop_trigger (rm_id r) s"], goal_cases)
      case 1 with Cons.prems(1) st show ?case by simp
    next
      case (2 q rest)
      from 2(2) have "\<exists>pre. r # rs = pre @ q # rest" by (metis append_Cons)
      with 2 Cons.prems(2) [of q rest] st show ?case by simp
    qed
  next
    case True
    define s1 where "s1 = s\<lparr>sv_triggers := dict_set (rm_id r) (build_reminder_trigger r) (sv_triggers s)\<rparr>"
    have st: "sync_trigger r s = (Some (build_reminder_trigger r), s1)" by (simp add: sync_trigger_def s1_def True)
    have sch: "sv_scheduler s1 = sv_scheduler s" by (simp add: s1_def)
    show ?thesis
    proof (cases rule: dispatch_reminder_cases [of "build_reminder_trigger r" now "sv_scheduler s1" db tid created])
      case refused
      with reminder_policy_decides have d: "dispatch_reminder db tid created (build_reminder_trigger r) now (sv_scheduler s1) = (Some None, sv_scheduler s1)" by simp
      from st d have loop: "tick_reminders db tid created now (r # rs) s = tick_reminders db tid created now rs s1" by simp
      show ?thesis
      proof (rule Cons.IH [of s1], goal_cases)
        case 1 with Cons.prems(1) loop sch show ?case by metis
      next
        case (2 q rest)
        from 2(2) have "\<exists>pre. r # rs = pre @ q # rest" by (metis append_Cons)
        with 2 Cons.prems(2) [of q rest] loop sch show ?case by metis
      qed
    next
      case (failed sch1)
      then show ?thesis by simp
    next
      case (created m)
      let ?s' = "tick_reminders db tid created now (r # rs) s"
      from created(3) st have "sv_phase ?s' = FireRecording now r tid rs"
        "dispatch_reminder db tid created (build_reminder_trigger r) now (sv_scheduler s1) =
          (Some (Some (proactive_task tid created (build_reminder_trigger r))), sv_scheduler ?s')" by simp_all
      moreover have "\<exists>pre. r # rs = pre @ r # rs" by (rule exI [of _ "[]"]) simp
      ultimately show ?thesis using Cons.prems(2) [of r rs] True created(1) unfolding sch by blast
    qed
  qed
qed

lemma sync_trigger_result: "sync_trigger r s = (tg, s1) \<Longrightarrow> sv_store s1 = sv_store s \<and> sv_dispatched s1 = sv_dispatched s"
  using sync_trigger_fields(1,4) [of r s] by simp

lemma tick_reminders_fields [simp]:
  "sv_store (tick_reminders db tid created now rs s) = sv_store s"
  "sv_dispatched (tick_reminders db tid created now rs s) = sv_dispatched s"
  by (induction rs arbitrary: s) (auto split: prod.splits option.splits dest: sync_trigger_result)

subsection \<open>The service and the store\<close>

text \<open>The firing that is recorded but not yet reported.\<close>

definition pending_fire :: "service \<Rightarrow> (string \<times> nat) list" where
  "pending_fire s = (case sv_phase s of FireRecorded now r t (Inr (Some u)) rs \<Rightarrow> [(rm_id r, rm_fires r)] | _ \<Rightarrow> [])"

definition reported_fires :: "service \<Rightarrow> (string \<times> nat) list" where
  "reported_fires s = map (\<lambda>(rid, n, t). (rid, n)) (sv_dispatched s)"

text \<open>The store's history is that of a reminder table, and what the ticks report is what it consumed.\<close>

definition follows_store :: "string set \<Rightarrow> service \<Rightarrow> bool" where
  "follows_store U s \<longleftrightarrow> (\<exists>l. reminder_run U l (sv_store s) \<and> reported_fires s @ pending_fire s = rev l)"

lemma follows_store_cong:
  "follows_store U s \<Longrightarrow> sv_store s' = sv_store s \<Longrightarrow> reported_fires s' @ pending_fire s' = reported_fires s @ pending_fire s \<Longrightarrow> follows_store U s'"
  by (simp add: follows_store_def)

lemma pending_tick [simp]: "pending_fire (tick_reminders db tid created now rs s) = []"
  by (cases rule: tick_reminders_stop [of db tid created now rs s]) (simp_all add: pending_fire_def)

lemma reported_tick [simp]: "reported_fires (tick_reminders db tid created now rs s) = reported_fires s"
  by (simp add: reported_fires_def)

lemma pending_same [simp]:
  "pending_fire (s\<lparr>sv_store := t\<rparr>) = pending_fire s" "pending_fire (s\<lparr>sv_calls := c\<rparr>) = pending_fire s"
  "pending_fire (s\<lparr>sv_scheduler := sch\<rparr>) = pending_fire s" "pending_fire (drop_trigger k s) = pending_fire s"
  "pending_fire (snd (sync_trigger r s)) = pending_fire s"
  "reported_fires (s\<lparr>sv_store := t\<rparr>) = reported_fires s" "reported_fires (s\<lparr>sv_calls := c\<rparr>) = reported_fires s" "reported_fires (s\<lparr>sv_scheduler := sch\<rparr>) = reported_fires s"
  "reported_fires (s\<lparr>sv_phase := ph\<rparr>) = reported_fires s" "reported_fires (s\<lparr>sv_raised := b\<rparr>) = reported_fires s"
  "reported_fires (drop_trigger k s) = reported_fires s" "reported_fires (snd (sync_trigger r s)) = reported_fires s"
  by (simp_all add: pending_fire_def reported_fires_def)

lemma follows_store_fire:
  assumes "follows_store U s" and "sv_phase s = FireRecording now r tid rs"
    and "record_reminder_fire clock (rm_id r) (rm_fires r) (rm_fire r) (sv_store s) = (res, t)"
  shows "follows_store U (s\<lparr>sv_store := t, sv_phase := FireRecorded now r tid res rs\<rparr>)"
proof -
  obtain l where l: "reminder_run U l (sv_store s)" "reported_fires s @ pending_fire s = rev l"
    using assms(1) by (auto simp: follows_store_def)
  let ?l = "case res of Inr (Some u) \<Rightarrow> (rm_id r, rm_fires r) # l | _ \<Rightarrow> l"
  have "reminder_run U ?l t" by (rule run_fire [OF l(1) assms(3)])
  moreover have "pending_fire s = []" using assms(2) by (simp add: pending_fire_def)
  ultimately show ?thesis
    using l(2) unfolding follows_store_def
    by (intro exI [of _ ?l]) (auto simp: pending_fire_def reported_fires_def split: sum.splits option.splits)
qed

lemma follows_store_resumes:
  assumes "follows_store U s" and "fire_resumes db tid created s = Some s'" shows "follows_store U s'"
proof -
  obtain now r t res rs where ph: "sv_phase s = FireRecorded now r t res rs"
    using assms(2) by (auto simp: fire_resumes_def split: tick_phase.splits)
  show ?thesis
  proof (cases res)
    case (Inl e)
    with assms(2) ph have "s' = s\<lparr>sv_phase := NoTick, sv_raised := True\<rparr>" by (simp add: fire_resumes_def)
    with ph Inl show ?thesis by (intro follows_store_cong [OF assms(1)]) (simp_all add: pending_fire_def)
  next
    case (Inr o')
    show ?thesis
    proof (cases o')
      case None
      with assms(2) ph Inr have "s' = tick_reminders db tid created now rs s" by (simp add: fire_resumes_def)
      with ph Inr None show ?thesis by (intro follows_store_cong [OF assms(1)]) (simp_all add: pending_fire_def [of s])
    next
      case (Some u)
      let ?s = "(snd (sync_trigger u s))\<lparr>sv_dispatched := sv_dispatched s @ [(rm_id r, rm_fires r, t)]\<rparr>"
      have s': "s' = tick_reminders db tid created now rs ?s" using assms(2) ph Inr Some by (simp add: fire_resumes_def)
      have "reported_fires ?s = reported_fires s @ pending_fire s" using ph Inr Some by (simp add: reported_fires_def pending_fire_def)
      then show ?thesis unfolding s' by (intro follows_store_cong [OF assms(1)]) simp_all
    qed
  qed
qed

lemma follows_store_event:
  assumes "follows_store U s" and "service_event e s = Some s'"
    and "\<And>clock rid message fire rec max_fires. e \<noteq> CreateCall clock rid message fire rec max_fires"
  shows "follows_store U s'"
proof (cases e)
  case (TickStarts now)
  with assms show ?thesis
    by (intro follows_store_cong [OF assms(1)]) (auto simp: pending_fire_def split: if_splits)
next
  case DueQuery
  with assms show ?thesis
    by (intro follows_store_cong [OF assms(1)]) (auto simp: pending_fire_def split: tick_phase.splits)
next
  case (TickRuns db tid created)
  then obtain now rs where "sv_phase s = DueRead now rs" "s' = tick_reminders db tid created now rs s"
    using assms(2) by (auto split: tick_phase.splits)
  then show ?thesis by (intro follows_store_cong [OF assms(1)]) (simp_all add: pending_fire_def [of s])
next
  case (FireQuery clock)
  then show ?thesis
    using assms(2) follows_store_fire [OF assms(1)] by (auto split: tick_phase.splits prod.splits)
next
  case (FireResumes db tid created)
  with assms(2) show ?thesis using follows_store_resumes [OF assms(1)] by simp
next
  case (UpdateCall clock rid us)
  then have "sv_store s' = snd (update_reminder clock rid us (sv_store s))" "reported_fires s' @ pending_fire s' = reported_fires s @ pending_fire s"
    using assms(2) by (auto split: prod.splits sum.splits)
  with assms(1) show ?thesis unfolding follows_store_def by (metis run_update)
next
  case (CancelCall clock rid)
  then have "sv_store s' = snd (cancel_reminder clock rid (sv_store s))" "reported_fires s' @ pending_fire s' = reported_fires s @ pending_fire s"
    using assms(2) by (auto split: prod.splits sum.splits)
  with assms(1) show ?thesis unfolding follows_store_def by (metis run_cancel)
next
  case (DeleteCall rid)
  then have "sv_store s' = snd (delete_reminder rid (sv_store s))" "reported_fires s' @ pending_fire s' = reported_fires s @ pending_fire s"
    using assms(2) by auto
  with assms(1) show ?thesis unfolding follows_store_def by (metis run_delete)
next
  case (CallEnds c)
  then show ?thesis
    using assms(2) by (intro follows_store_cong [OF assms(1)]) (auto simp: Let_def split: if_splits service_call.splits option.splits)
qed (use assms in \<open>auto intro!: follows_store_cong [OF assms(1)] split: if_splits\<close>)

lemma service_run_follows: "service_run sch U s \<Longrightarrow> follows_store U s"
proof (induction rule: service_run.induct)
  case service_new
  have "reminder_run {} [] []" by (rule run_empty)
  then show ?case by (force simp: follows_store_def new_service_def reported_fires_def pending_fire_def)
next
  case (service_creates U s rid clock message fire rec max_fires s')
  then have "sv_store s' = snd (create_reminder clock rid message fire rec max_fires (sv_store s))"
    "reported_fires s' @ pending_fire s' = reported_fires s @ pending_fire s" by (auto split: prod.splits sum.splits)
  with service_creates show ?case unfolding follows_store_def by (metis run_create)
next
  case (service_happens U s e s')
  then show ?case using follows_store_event by blast
qed

subsection \<open>Properties of the service\<close>

fun run_service :: "service_action list \<Rightarrow> service \<Rightarrow> service option" where
  "run_service [] s = Some s"
| "run_service (e # es) s = (case service_event e s of None \<Rightarrow> None | Some s' \<Rightarrow> run_service es s')"

lemma reported_runs: "service_run sch U s \<Longrightarrow> \<exists>l t. reminder_run U l t \<and> t = sv_store s \<and> set (reported_fires s) \<subseteq> set l \<and> distinct (reported_fires s)"
proof -
  assume "service_run sch U s"
  then have "follows_store U s" by (rule service_run_follows)
  then obtain l where l: "reminder_run U l (sv_store s)" "reported_fires s @ pending_fire s = rev l"
    by (auto simp: follows_store_def)
  have "distinct l" using reminder_run_ok [OF l(1)] by (simp add: history_ok_def)
  then have "distinct (reported_fires s @ pending_fire s)" by (simp add: l(2))
  moreover have "set (reported_fires s) \<subseteq> set l" using arg_cong [OF l(2), of set] by auto
  ultimately show ?thesis using l(1) by auto
qed

text \<open>C28: However ticks, reminder calls and other scheduler work interleave, the ticks report no occurrence
  of a reminder twice, and for a reminder still stored only occurrences it has counted.\<close>

theorem reported_once:
  assumes "service_run sch U s"
  shows "distinct (map (\<lambda>(rid, n, t). (rid, n)) (sv_dispatched s)) \<and>
    (\<forall>(rid, n, t) \<in> set (sv_dispatched s). n < 1000 \<and> (\<forall>r. dict_get (sv_store s) rid = Some r \<longrightarrow> n < rm_fires r))"
proof -
  obtain l where l: "reminder_run U l (sv_store s)" "set (reported_fires s) \<subseteq> set l" "distinct (reported_fires s)"
    using reported_runs [OF assms] by blast
  have "n < 1000 \<and> (\<forall>r. dict_get (sv_store s) rid = Some r \<longrightarrow> n < rm_fires r)" if "(rid, n, t) \<in> set (sv_dispatched s)" for rid n t
  proof -
    have "(rid, n) \<in> set l" using l(2) that by (force simp: reported_fires_def)
    then show ?thesis using reminder_run_ok [OF l(1)] unfolding history_ok_def by blast
  qed
  with l(3) show ?thesis by (auto simp: reported_fires_def)
qed

text \<open>A reminder is dispatched only through the scheduler's policy: the tick that creates its task works
  for an active reminder of its due list, the scheduler is enabled, no user works, it is not quiet hours,
  whatever the reminder says, and the cooldown since the last proactive task is over.\<close>

theorem reminder_respects_policy:
  assumes "sv_phase (tick_reminders db tid created now rs s) = FireRecording at_time r tid' rest"
  shows "at_time = now \<and> tid' = tid \<and> r \<in> set rs \<and> rm_status r = RActive \<and>
    sch_enabled (sv_scheduler s) \<and> \<not> is_user_active (sv_scheduler s) \<and>
    \<not> is_quiet_hours (sch_quiet (sv_scheduler s)) (int (cv_time now)) \<and>
    (\<forall>e. sch_last (sv_scheduler s) = Some e \<longrightarrow> sch_cooldown (sv_scheduler s) \<le> dt_instant (to_datetime now) - dt_instant e) \<and>
    dict_get (tasks (sch_manager (sv_scheduler (tick_reminders db tid created now rs s)))) tid =
      Some (proactive_task tid created (build_reminder_trigger r), False)"
proof (cases rule: tick_reminders_stop [of db tid created now rs s])
  case finished
  with assms show ?thesis by simp
next
  case (fires q rest')
  have q: "at_time = now" "tid' = tid" "q = r" "rest' = rest" using assms fires(1) by simp_all
  have p: "sch_enabled (sv_scheduler s) \<and> \<not> is_user_active (sv_scheduler s) \<and>
    \<not> is_quiet_hours (sch_quiet (sv_scheduler s)) (int (cv_time now)) \<and>
    elapsed_since (sch_last (sv_scheduler s)) (to_datetime now) (sch_cooldown (sv_scheduler s))"
    using fires(4) by (auto simp: evaluate_policy_ALLOWED to_datetime_def)
  have "dict_get (tasks (sch_manager (sv_scheduler (tick_reminders db tid created now rs s)))) tid =
      Some (proactive_task tid created (build_reminder_trigger r), False)"
    using dispatch_reminder_creates(2) [OF fires(5)] unfolding q .
  with p fires(2,3) q show ?thesis by (auto simp: elapsed_since_def)
qed

text \<open>A due reminder is delivered: when no tick runs, the reminder is the earliest that is due and the
  policy permits it, an undisturbed tick creates its task, counts the firing and reports it.\<close>

theorem due_reminder_fires:
  assumes "sv_phase s = NoTick" and "due_reminders now (sv_store s) = r # rs" and "dict_get (sv_store s) (rm_id r) = Some r"
    and "evaluate_policy (build_reminder_trigger r) (to_datetime now) (sv_scheduler s) = Some ALLOWED"
    and "advance_occurrence (rm_fire r) (rm_recurrence r) = Inr nx"
  shows "\<exists>s' r'. run_service [TickStarts now, DueQuery, TickRuns db tid created, FireQuery clock, FireResumes db tid2 created2] s = Some s' \<and>
    (rm_id r, rm_fires r, tid) \<in> set (sv_dispatched s') \<and>
    dict_get (sv_store s') (rm_id r) = Some r' \<and> rm_fires r' = rm_fires r + 1 \<and> rm_last r' = Some (rm_fire r)"
proof -
  have active: "rm_status r = RActive"
  proof -
    have "r \<in> set (due_reminders now (sv_store s))" by (simp add: assms(2))
    then show ?thesis by (auto simp: due_reminders_def)
  qed
  let ?s2 = "s\<lparr>sv_phase := DueRead now (r # rs)\<rparr>"
  let ?s3 = "tick_reminders db tid created now (r # rs) ?s2"
  obtain m where d: "dispatch_reminder db tid created (build_reminder_trigger r) now (sv_scheduler s) =
      (Some (Some (proactive_task tid created (build_reminder_trigger r))), m)"
    using assms(4) build_trigger_simps(1)
    by (cases rule: dispatch_reminder_cases [of "build_reminder_trigger r" now "sv_scheduler s" db tid created]) auto
  have s3: "sv_phase ?s3 = FireRecording now r tid rs" "sv_store ?s3 = sv_store s" "sv_dispatched ?s3 = sv_dispatched s"
    using d active by (simp_all add: sync_trigger_def)
  obtain r' t where f: "record_reminder_fire clock (rm_id r) (rm_fires r) (rm_fire r) (sv_store s) = (Inr (Some r'), t)"
    and r': "rm_fires r' = rm_fires r + 1" "rm_last r' = Some (rm_fire r)" "dict_get t (rm_id r) = Some r'"
    using assms(3,5) active by (simp add: record_reminder_fire_def Let_def)
  let ?s4 = "?s3\<lparr>sv_store := t, sv_phase := FireRecorded now r tid (Inr (Some r')) rs\<rparr>"
  obtain s' where s': "fire_resumes db tid2 created2 ?s4 = Some s'" "sv_store s' = t"
    "sv_dispatched s' = sv_dispatched s @ [(rm_id r, rm_fires r, tid)]"
    using s3(3) by (simp add: fire_resumes_def)
  have "run_service [TickStarts now, DueQuery, TickRuns db tid created, FireQuery clock, FireResumes db tid2 created2] s = Some s'"
    using assms(1,2) s3 f s'(1) by simp
  with s' r' show ?thesis by auto
qed

text \<open>A cancelled reminder can still be dispatched: when it is cancelled after a tick has read its due
  list, the tick creates its task all the same; only then the store refuses the firing and nothing is
  reported.\<close>

theorem cancelled_reminder_dispatched:
  assumes "sv_phase s = DueRead now (r # rs)" and "rm_status r = RActive"
    and "dict_get (sv_store s) (rm_id r) = Some q" and "rm_status q = RCancelled"
    and "evaluate_policy (build_reminder_trigger r) (to_datetime now) (sv_scheduler s) = Some ALLOWED"
  shows "\<exists>s1 s2. service_event (TickRuns db tid created) s = Some s1 \<and>
    dict_get (tasks (sch_manager (sv_scheduler s1))) tid = Some (proactive_task tid created (build_reminder_trigger r), False) \<and>
    service_event (FireQuery clock) s1 = Some s2 \<and> sv_phase s2 = FireRecorded now r tid (Inr None) rs \<and>
    sv_store s2 = sv_store s \<and> sv_dispatched s2 = sv_dispatched s"
proof -
  let ?s1 = "tick_reminders db tid created now (r # rs) s"
  obtain m where d: "dispatch_reminder db tid created (build_reminder_trigger r) now (sv_scheduler s) =
      (Some (Some (proactive_task tid created (build_reminder_trigger r))), m)"
    using assms(5) build_trigger_simps(1)
    by (cases rule: dispatch_reminder_cases [of "build_reminder_trigger r" now "sv_scheduler s" db tid created]) auto
  note m = dispatch_reminder_creates(2) [OF d]
  have s1: "sv_phase ?s1 = FireRecording now r tid rs" "sv_scheduler ?s1 = m"
    using d assms(2) by (simp_all add: sync_trigger_def)
  have "record_reminder_fire clock (rm_id r) (rm_fires r) (rm_fire r) (sv_store s) = (Inr None, sv_store s)"
    using assms(3,4) by (simp add: record_reminder_fire_def)
  with s1 m assms(1) show ?thesis
    by (intro exI [of _ ?s1] exI [of _ "?s1\<lparr>sv_phase := FireRecorded now r tid (Inr None) rs\<rparr>"]) (simp del: tick_reminders.simps)
qed

text \<open>A tick fails when a reminder is deleted between its dispatch and the recording; the reminders after
  it are not tried.\<close>

lemma deleted_reminder_ends_tick:
  assumes "sv_phase s = FireRecording now r tid rs" and "dict_get (sv_store s) (rm_id r) = None"
  shows "run_service [FireQuery clock, FireResumes db tid2 created] s = Some (s\<lparr>sv_phase := NoTick, sv_raised := True\<rparr>)"
  using assms by (simp add: record_reminder_fire_def fire_resumes_def)

text \<open>A reminder moved to a time not after its last firing waits for an hour after that firing.\<close>

lemma rescheduled_reminder_waits:
  assumes "rm_last r = Some f" and "micros (rm_fire r) \<le> micros f"
  shows "is_due (build_reminder_trigger r) (to_datetime now) = Some (3600 \<le> seconds_between f now)"
  using assms by (simp add: is_due_def build_reminder_trigger_def elapsed_since_def seconds_between_def to_datetime_def divide_right_mono Let_def)

text \<open>Otherwise the trigger is due when the reminder is.\<close>

lemma reminder_trigger_due:
  assumes "\<And>f. rm_last r = Some f \<Longrightarrow> micros f < micros (rm_fire r)" and "micros (rm_fire r) \<le> micros now"
  shows "is_due (build_reminder_trigger r) (to_datetime now) = Some True"
proof (cases "rm_last r")
  case None
  then show ?thesis by (simp add: is_due_def build_reminder_trigger_def elapsed_since_def)
next
  case (Some f)
  have "(of_nat (micros f) :: rat) < of_nat (micros (rm_fire r))" "(of_nat (micros (rm_fire r)) :: rat) \<le> of_nat (micros now)"
    using assms Some by simp_all
  with Some show ?thesis
    by (simp add: is_due_def build_reminder_trigger_def elapsed_since_def seconds_between_def to_datetime_def Let_def)
qed

subsection \<open>Witnesses\<close>

definition demo_noon :: civil where
  "demo_noon = demo_day\<lparr>cv_time := 12 * 3600000000\<rparr>"

definition demo_tea :: reminder where
  "demo_tea = \<lparr>rm_id = ''rem_1'', rm_message = ''tea'', rm_fire = demo_day, rm_recurrence = DAILY, rm_max = 100, rm_fires = 0,
     rm_status = RActive, rm_last = None, rm_created = demo_day, rm_updated = demo_day\<rparr>"

lemma demo_tea_created:
  "create_reminder demo_day ''rem_1'' ''tea'' demo_day DAILY None [] = (Inr demo_tea, [(''rem_1'', demo_tea)])"
  by (simp add: create_reminder_def insert_row_def check_reminder_def default_max_fires_def demo_tea_def)

definition demo_service :: service where
  "demo_service = (new_service demo_scheduler)\<lparr>sv_store := [(''rem_1'', demo_tea)], sv_calls := [SyncReading ''rem_1'']\<rparr>"

lemma demo_service_run: "service_run demo_scheduler {''rem_1''} demo_service"
proof -
  have "service_event (CreateCall demo_day ''rem_1'' ''tea'' demo_day DAILY None) (new_service demo_scheduler) = Some demo_service"
    by (simp add: new_service_def demo_tea_created demo_service_def)
  from service_creates [OF service_new _ this] show ?thesis by simp
qed

lemma demo_policy: "evaluate_policy (build_reminder_trigger demo_tea) (to_datetime demo_noon) (sv_scheduler demo_service) = Some ALLOWED"
  by (simp add: evaluate_policy_ALLOWED demo_service_def new_service_def demo_scheduler_def is_user_active_def list_active_def empty_manager_def
      is_quiet_hours_def default_quiet_hours_def to_datetime_def demo_noon_def elapsed_since_def is_due_def build_reminder_trigger_def demo_tea_def)

lemma demo_due: "due_reminders demo_noon (sv_store demo_service) = [demo_tea]"
proof -
  have "valid_civil demo_day" "valid_civil demo_noon" "micros demo_day \<le> micros demo_noon"
    by (simp_all add: demo_noon_def demo_day_def valid_civil_def month_length_def micros_def ordinal_def)
  then show ?thesis by (simp add: due_reminders_def demo_service_def order_by_text_def demo_tea_def text_le_iso)
qed

lemma demo_advance: "\<exists>d. advance_occurrence (rm_fire demo_tea) (rm_recurrence demo_tea) = Inr (Some d)"
  by (simp add: demo_tea_def advance_occurrence_def demo_day_def next_day_def month_length_def)

lemma due_reminder_fires_witness:
  "\<exists>s' r'. run_service [TickStarts demo_noon, DueQuery, TickRuns True ''t1'' 0, FireQuery demo_noon, FireResumes True ''t2'' 0] demo_service = Some s' \<and>
    (rm_id demo_tea, rm_fires demo_tea, ''t1'') \<in> set (sv_dispatched s') \<and>
    dict_get (sv_store s') (rm_id demo_tea) = Some r' \<and> rm_fires r' = rm_fires demo_tea + 1 \<and> rm_last r' = Some (rm_fire demo_tea)"
proof -
  obtain d where d: "advance_occurrence (rm_fire demo_tea) (rm_recurrence demo_tea) = Inr (Some d)" using demo_advance by blast
  show ?thesis
    by (rule due_reminder_fires [OF _ demo_due _ demo_policy d]) (simp_all add: demo_service_def new_service_def demo_tea_def)
qed

lemma demo_ticks:
  "sv_phase (tick_reminders True ''t1'' 0 demo_noon [demo_tea] demo_service) = FireRecording demo_noon demo_tea ''t1'' []"
proof -
  have "rm_status demo_tea = RActive" by (simp add: demo_tea_def)
  moreover obtain sch where "dispatch_reminder True ''t1'' 0 (build_reminder_trigger demo_tea) demo_noon (sv_scheduler demo_service) =
      (Some (Some (proactive_task ''t1'' 0 (build_reminder_trigger demo_tea))), sch)"
    using demo_policy build_trigger_simps(1)
    by (cases rule: dispatch_reminder_cases [of "build_reminder_trigger demo_tea" demo_noon "sv_scheduler demo_service" True "''t1''" 0]) auto
  ultimately show ?thesis by (simp add: sync_trigger_def)
qed

lemma reminder_respects_policy_witness:
  "\<not> is_user_active (sv_scheduler demo_service) \<and> \<not> is_quiet_hours (sch_quiet (sv_scheduler demo_service)) (int (cv_time demo_noon))"
  using reminder_respects_policy [OF demo_ticks] by blast

lemma service_run_events:
  "service_run sch U s \<Longrightarrow> run_service es s = Some s' \<Longrightarrow>
   list_all (\<lambda>e. case e of CreateCall _ _ _ _ _ _ \<Rightarrow> False | _ \<Rightarrow> True) es \<Longrightarrow> service_run sch U s'"
proof (induction es arbitrary: s)
  case (Cons e es)
  then obtain s1 where s1: "service_event e s = Some s1" "run_service es s1 = Some s'" by (auto split: option.splits)
  have "\<And>clock rid message fire rec max_fires. e \<noteq> CreateCall clock rid message fire rec max_fires"
    using Cons.prems(3) by auto
  from service_happens [OF Cons.prems(1) this s1(1)] Cons.IH s1(2) Cons.prems(3) show ?case by simp
qed simp

lemma reported_once_witness:
  "\<exists>s U. service_run demo_scheduler U s \<and> sv_dispatched s = [(''rem_1'', 0, ''t1'')] \<and>
    distinct (map (\<lambda>(rid, n, t). (rid, n)) (sv_dispatched s))"
proof -
  let ?es = "[TickStarts demo_noon, DueQuery, TickRuns True ''t1'' 0, FireQuery demo_noon, FireResumes True ''t2'' 0]"
  obtain d where d: "advance_occurrence (rm_fire demo_tea) (rm_recurrence demo_tea) = Inr (Some d)" using demo_advance by blast
  have "\<exists>s. run_service ?es demo_service = Some s \<and> sv_dispatched s = [(''rem_1'', 0, ''t1'')]"
  proof -
    have "rm_status demo_tea = RActive" "rm_id demo_tea = ''rem_1''" "rm_fires demo_tea = 0" "sv_phase demo_service = NoTick"
      "sv_dispatched demo_service = []" "dict_get (sv_store demo_service) ''rem_1'' = Some demo_tea"
      by (simp_all add: demo_tea_def demo_service_def new_service_def)
    moreover have "sv_phase (tick_reminders True ''t1'' 0 demo_noon [demo_tea] (demo_service\<lparr>sv_phase := DueRead demo_noon [demo_tea]\<rparr>)) =
        FireRecording demo_noon demo_tea ''t1'' []"
    proof -
      obtain sch where "dispatch_reminder True ''t1'' 0 (build_reminder_trigger demo_tea) demo_noon (sv_scheduler demo_service) =
          (Some (Some (proactive_task ''t1'' 0 (build_reminder_trigger demo_tea))), sch)"
        using demo_policy build_trigger_simps(1)
        by (cases rule: dispatch_reminder_cases [of "build_reminder_trigger demo_tea" demo_noon "sv_scheduler demo_service" True "''t1''" 0]) auto
      then show ?thesis using \<open>rm_status demo_tea = RActive\<close> by (simp add: sync_trigger_def)
    qed
    ultimately show ?thesis using demo_due d by (simp add: record_reminder_fire_def fire_resumes_def Let_def del: tick_reminders.simps)
  qed
  then obtain s where s: "run_service ?es demo_service = Some s" "sv_dispatched s = [(''rem_1'', 0, ''t1'')]" by blast
  have r: "service_run demo_scheduler {''rem_1''} s" by (rule service_run_events [OF demo_service_run s(1)]) simp
  from reported_once [OF r] r s(2) show ?thesis by blast
qed

lemma cancelled_reminder_dispatched_witness:
  "\<exists>s q s1. service_event (TickRuns True ''t1'' 0) s = Some s1 \<and> dict_get (sv_store s) ''rem_1'' = Some q \<and> rm_status q = RCancelled \<and>
    dict_get (tasks (sch_manager (sv_scheduler s1))) ''t1'' \<noteq> None"
proof -
  let ?q = "demo_tea\<lparr>rm_status := RCancelled\<rparr>"
  let ?s = "demo_service\<lparr>sv_store := [(''rem_1'', ?q)], sv_phase := DueRead demo_noon [demo_tea]\<rparr>"
  have p: "sv_phase ?s = DueRead demo_noon [demo_tea]" "rm_status demo_tea = RActive"
    "dict_get (sv_store ?s) (rm_id demo_tea) = Some ?q" "rm_status ?q = RCancelled"
    "evaluate_policy (build_reminder_trigger demo_tea) (to_datetime demo_noon) (sv_scheduler ?s) = Some ALLOWED"
    using demo_policy by (simp_all add: demo_tea_def)
  obtain s1 where "service_event (TickRuns True ''t1'' 0) ?s = Some s1"
    "dict_get (tasks (sch_manager (sv_scheduler s1))) ''t1'' = Some (proactive_task ''t1'' 0 (build_reminder_trigger demo_tea), False)"
    using cancelled_reminder_dispatched [OF p, where db = True and tid = "''t1''" and created = 0] by blast
  then show ?thesis by (intro exI [of _ ?s] exI [of _ ?q] exI [of _ s1]) (simp del: service_event.simps)
qed

end
