(* ===== verification/Sentence_Streamer.thy ===== *)
theory Sentence_Streamer
  imports Tom_Prelude
begin

text \<open>
  Models \<open>SentenceStreamer\<close> of \<open>python/tom/voice/sentence_streamer.py\<close>, which cuts the model's token
  stream into speakable pieces. Texts are ASCII, so the em dash among the clause marks does not occur.
  The loops over an index are recursions with the same index; \<open>buf.find(w, pos)\<close> is \<open>find_from\<close>.
\<close>

record streamer =
  ss_min :: nat
  ss_first_policy :: bool
  ss_first_words :: nat
  ss_clause_chars :: nat
  ss_clause_words :: nat
  ss_buf :: string
  ss_first_emitted :: bool

definition new_streamer :: streamer where
  "new_streamer = \<lparr>ss_min = 20, ss_first_policy = True, ss_first_words = 7, ss_clause_chars = 15, ss_clause_words = 3,
     ss_buf = [], ss_first_emitted = False\<rparr>"

definition newline :: char where "newline = char_of (10::nat)"

definition blank :: "char \<Rightarrow> bool" where
  "blank c \<longleftrightarrow> c = CHR '' '' \<or> c = char_of (9::nat) \<or> c = char_of (13::nat)"

definition is_alpha :: "char \<Rightarrow> bool" where
  "is_alpha c \<longleftrightarrow> (of_char c :: nat) \<in> {65..90} \<union> {97..122}"

definition spoken_abbrevs :: "string list" where
  "spoken_abbrevs = [''mr'', ''mrs'', ''ms'', ''dr'', ''sr'', ''jr'', ''vs'', ''etc'', ''inc'', ''ltd'', ''e.g'', ''i.e'', ''u.s'', ''u.k'',
     ''prof'', ''st'', ''approx'', ''fig'', ''al'']"

definition abbrev_before :: "string \<Rightarrow> nat \<Rightarrow> bool" where
  "abbrev_before buf i =
     (lower (rev (takeWhile (\<lambda>c. is_alpha c \<or> c = CHR ''.'') (rev (take i buf)))) \<in> set spoken_abbrevs)"

definition is_boundary :: "string \<Rightarrow> nat \<Rightarrow> bool \<Rightarrow> bool" where
  "is_boundary buf i flush =
     (if buf ! i \<in> {CHR ''!'', CHR ''?''} then True
      else if buf ! i \<noteq> CHR ''.'' then False
      else if i + 1 < length buf \<and> \<not> blank (buf ! (i + 1)) \<and> buf ! (i + 1) \<noteq> newline then False
      else if abbrev_before buf i then False
      else if i + 1 < length buf then True
      else \<not> (i > 0 \<and> is_digit (buf ! (i - 1)) \<and> \<not> flush))"

definition skip_blanks :: "string \<Rightarrow> nat \<Rightarrow> nat" where
  "skip_blanks buf p = p + length (takeWhile blank (drop p buf))"

definition is_stop :: "char \<Rightarrow> bool" where
  "is_stop c \<longleftrightarrow> c \<in> {CHR ''.'', CHR ''!'', CHR ''?''}"

definition find_first_sentence_boundary :: "string \<Rightarrow> bool \<Rightarrow> nat option" where
  "find_first_sentence_boundary buf flush =
     map_option (\<lambda>i. if buf ! i = newline then i + 1 else skip_blanks buf (i + 1))
       (find (\<lambda>i. buf ! i = newline \<or> is_stop (buf ! i) \<and> is_boundary buf i flush) [0..<length buf])"

text \<open>The length of the clause mark at \<open>i\<close>, or zero.\<close>

definition clause_mark :: "string \<Rightarrow> nat \<Rightarrow> nat" where
  "clause_mark buf i =
     (if buf ! i \<in> {CHR '','', CHR '';'', CHR '':''} then 1
      else if buf ! i = CHR ''-'' \<and> i + 1 < length buf \<and> buf ! (i + 1) = CHR ''-'' then 2 else 0)"

function find_clause_from :: "streamer \<Rightarrow> string \<Rightarrow> nat \<Rightarrow> nat option" where
  "find_clause_from cfg buf i =
     (if length buf \<le> i then None
      else let m = clause_mark buf i; fin = i + m; candidate = strip (take fin buf)
           in if m = 0 then find_clause_from cfg buf (i + 1)
              else if fin < length buf \<and> \<not> blank (buf ! fin) \<and> buf ! fin \<noteq> newline then find_clause_from cfg buf fin
              else if ss_clause_chars cfg \<le> length candidate \<and> ss_clause_words cfg \<le> length (split_ws candidate) then Some fin
              else find_clause_from cfg buf fin)"
  by pat_completeness auto
termination
  by (relation "measure (\<lambda>(cfg, buf, i). length buf - i)") auto

definition find_first_clause_boundary :: "streamer \<Rightarrow> string \<Rightarrow> nat option" where
  "find_first_clause_boundary cfg buf = find_clause_from cfg buf 0"

definition find_from :: "string \<Rightarrow> string \<Rightarrow> nat \<Rightarrow> nat option" where
  "find_from w buf p = find (\<lambda>j. prefix w (drop j buf)) [p..<length buf + 1]"

fun locate_words :: "string list \<Rightarrow> string \<Rightarrow> nat \<Rightarrow> nat option" where
  "locate_words [] buf p = Some p"
| "locate_words (w # ws) buf p =
     (case find_from w buf p of None \<Rightarrow> None | Some j \<Rightarrow> locate_words ws buf (j + length w))"

definition find_delayed_word_boundary :: "streamer \<Rightarrow> string \<Rightarrow> nat option" where
  "find_delayed_word_boundary cfg buf =
     (let ws = split_ws buf;
          completed = (if buf \<noteq> [] \<and> is_space (last buf) then ws else butlast ws)
      in if ss_first_words cfg \<le> length completed
         then map_option (skip_blanks buf) (locate_words (take (ss_first_words cfg) completed) buf 0)
         else None)"

text \<open>The standard loop: the pieces, where the rest starts, and whether a piece was emitted.\<close>

function sentence_loop :: "string \<Rightarrow> bool \<Rightarrow> nat \<Rightarrow> nat \<Rightarrow> nat \<Rightarrow> string list \<times> nat" where
  "sentence_loop buf flush threshold start i =
     (if length buf \<le> i then ([], start)
      else if \<not> (buf ! i = newline \<or> is_stop (buf ! i)) then sentence_loop buf flush threshold start (i + 1)
      else if buf ! i \<noteq> newline \<and> \<not> is_boundary buf i flush then sentence_loop buf flush threshold start (i + 1)
      else let fin = skip_blanks buf (i + 1); piece = strip (drop start (take fin buf))
           in if piece = [] then sentence_loop buf flush threshold fin fin
              else if flush \<or> threshold \<le> length piece
                then (case sentence_loop buf flush threshold fin fin of (out, rest) \<Rightarrow> (piece # out, rest))
              else sentence_loop buf flush threshold start fin)"
  by pat_completeness auto
termination
  by (relation "measure (\<lambda>(buf, flush, threshold, start, i). length buf - i)") (auto simp: skip_blanks_def)

text \<open>The early exit of the first chunk at a boundary \<open>fin\<close>.\<close>

definition first_chunk :: "nat option \<Rightarrow> nat option \<Rightarrow> streamer \<Rightarrow> (string list \<times> streamer) option" where
  "first_chunk fin sentence st =
     (case fin of
        None \<Rightarrow> None
      | Some p \<Rightarrow>
          if (case sentence of None \<Rightarrow> True | Some q \<Rightarrow> p < q) \<and> strip (take p (ss_buf st)) \<noteq> []
          then Some ([strip (take p (ss_buf st))], st\<lparr>ss_buf := lstrip (drop p (ss_buf st)), ss_first_emitted := True\<rparr>)
          else None)"

definition drain_standard :: "bool \<Rightarrow> streamer \<Rightarrow> string list \<times> streamer" where
  "drain_standard flush st =
     (let threshold = (if ss_first_policy st \<and> \<not> ss_first_emitted st then ss_clause_chars st else ss_min st);
          (out, start) = sentence_loop (ss_buf st) flush threshold 0 0;
          st1 = st\<lparr>ss_buf := drop start (ss_buf st), ss_first_emitted := ss_first_emitted st \<or> out \<noteq> []\<rparr>
      in if flush then (out @ (if strip (ss_buf st1) \<noteq> [] then [strip (ss_buf st1)] else []), st1\<lparr>ss_buf := []\<rparr>)
         else (out, st1))"

definition drain :: "bool \<Rightarrow> streamer \<Rightarrow> string list \<times> streamer" where
  "drain flush st =
     (if ss_first_policy st \<and> \<not> ss_first_emitted st \<and> \<not> flush
      then let sentence = find_first_sentence_boundary (ss_buf st) flush;
               words = (case sentence of None \<Rightarrow> 0 | Some p \<Rightarrow> length (split_ws (take p (ss_buf st))))
           in if sentence \<noteq> None \<and> words \<le> 12 then drain_standard flush st
              else case first_chunk (find_first_clause_boundary st (ss_buf st)) sentence st of
                     Some r \<Rightarrow> r
                   | None \<Rightarrow>
                       (case first_chunk (find_delayed_word_boundary st (ss_buf st)) sentence st of
                          Some r \<Rightarrow> r
                        | None \<Rightarrow> drain_standard flush st)
      else drain_standard flush st)"

definition push_chunk :: "string \<Rightarrow> streamer \<Rightarrow> string list \<times> streamer" where
  "push_chunk token st = (if token = [] then ([], st) else drain False (st\<lparr>ss_buf := ss_buf st @ token\<rparr>))"

definition flush_streamer :: "streamer \<Rightarrow> string list \<times> streamer" where
  "flush_streamer st = (case drain True st of (out, st') \<Rightarrow> (out, st'\<lparr>ss_first_emitted := False\<rparr>))"

definition reset_streamer :: "streamer \<Rightarrow> streamer" where
  "reset_streamer st = st\<lparr>ss_buf := [], ss_first_emitted := False\<rparr>"

text \<open>A turn: the tokens one after the other.\<close>

fun push_all :: "string list \<Rightarrow> streamer \<Rightarrow> string list \<times> streamer" where
  "push_all [] st = ([], st)"
| "push_all (t # ts) st =
     (case push_chunk t st of (out, st1) \<Rightarrow> case push_all ts st1 of (out', st2) \<Rightarrow> (out @ out', st2))"

subsection \<open>What is spoken\<close>

text \<open>The text without its white space.\<close>

definition squash :: "string \<Rightarrow> string" where
  "squash s = filter (\<lambda>c. \<not> is_space c) s"

lemma squash_append [simp]: "squash (s @ t) = squash s @ squash t"
  by (simp add: squash_def)

lemma squash_Nil [simp]: "squash [] = []"
  by (simp add: squash_def)

lemma squash_dropWhile: "squash (dropWhile is_space s) = squash s"
  by (induction s) (simp_all add: squash_def)

lemma squash_lstrip [simp]: "squash (lstrip s) = squash s"
  by (simp add: lstrip_def squash_dropWhile)

lemma squash_rstrip [simp]: "squash (rstrip s) = squash s"
proof -
  have "squash (rev t) = rev (squash t)" for t by (simp add: squash_def rev_filter)
  then show ?thesis by (simp add: rstrip_def squash_dropWhile)
qed

lemma squash_strip [simp]: "squash (strip s) = squash s"
  by (simp add: strip_def)

lemma squash_take_drop: "squash (take n s) @ squash (drop n s) = squash s"
  by (metis append_take_drop_id squash_append)

lemma squash_window: "a \<le> b \<Longrightarrow> squash (drop a (take b s)) @ squash (drop b s) = squash (drop a s)"
  by (metis append_take_drop_id drop_take le_add_diff_inverse2 drop_drop squash_append)

lemma skip_blanks_bounds: "p \<le> skip_blanks buf p" "p \<le> length buf \<Longrightarrow> skip_blanks buf p \<le> length buf"
  using length_takeWhile_le [of blank "drop p buf"] by (auto simp: skip_blanks_def)

text \<open>The loop, case by case.\<close>

declare sentence_loop.simps [simp del] find_clause_from.simps [simp del]

definition cut_at :: "string \<Rightarrow> bool \<Rightarrow> nat \<Rightarrow> bool" where
  "cut_at buf flush i \<longleftrightarrow> buf ! i = newline \<or> is_stop (buf ! i) \<and> is_boundary buf i flush"

lemma sentence_loop_end: "length buf \<le> i \<Longrightarrow> sentence_loop buf flush threshold start i = ([], start)"
  by (subst sentence_loop.simps) simp

lemma sentence_loop_on:
  assumes "i < length buf" and "\<not> cut_at buf flush i"
  shows "sentence_loop buf flush threshold start i = sentence_loop buf flush threshold start (i + 1)"
  using assms unfolding cut_at_def
  by (subst sentence_loop.simps) (cases "buf ! i = newline"; cases "is_stop (buf ! i)"; simp)

lemma sentence_loop_cut:
  assumes "i < length buf" and "cut_at buf flush i" and "fin = skip_blanks buf (i + 1)" and "piece = strip (drop start (take fin buf))"
  shows "sentence_loop buf flush threshold start i =
    (if piece = [] then sentence_loop buf flush threshold fin fin
     else if flush \<or> threshold \<le> length piece
       then (piece # fst (sentence_loop buf flush threshold fin fin), snd (sentence_loop buf flush threshold fin fin))
     else sentence_loop buf flush threshold start fin)"
proof -
  have "\<not> length buf \<le> i" "\<not> \<not> (buf ! i = newline \<or> is_stop (buf ! i))" "\<not> (buf ! i \<noteq> newline \<and> \<not> is_boundary buf i flush)"
    using assms(1,2) by (auto simp: cut_at_def)
  then show ?thesis
    by (subst sentence_loop.simps) (simp only: if_False if_True Let_def assms(3,4) [symmetric] split_def)
qed

text \<open>The loop keeps the text: what it emits and what it leaves is what was there; the pieces are
  stripped, and long enough unless the stream is flushed.\<close>

definition piece_ok :: "bool \<Rightarrow> nat \<Rightarrow> string \<Rightarrow> bool" where
  "piece_ok flush threshold p \<longleftrightarrow> p \<noteq> [] \<and> strip p = p \<and> (flush \<or> threshold \<le> length p)"

lemma sentence_loop_keeps:
  assumes "start \<le> i" and "i \<le> length buf" and "sentence_loop buf flush threshold start i = (out, rest)"
  shows "squash (concat out) @ squash (drop rest buf) = squash (drop start buf) \<and> rest \<le> length buf \<and> (\<forall>p \<in> set out. piece_ok flush threshold p)"
  using assms
proof (induction "length buf - i" arbitrary: start i out rest rule: less_induct)
  case less
  show ?case
  proof (cases "length buf \<le> i")
    case True
    with less.prems show ?thesis by (auto simp: sentence_loop_end)
  next
    case False
    then have i: "i < length buf" by simp
    show ?thesis
    proof (cases "cut_at buf flush i")
      case False
      from less.hyps [of "i + 1" start out rest] less.prems i sentence_loop_on [OF i False] show ?thesis by simp
    next
      case True
      define fin where "fin = skip_blanks buf (i + 1)"
      define piece where "piece = strip (drop start (take fin buf))"
      have fin: "i < fin" "fin \<le> length buf"
        using skip_blanks_bounds [of "i + 1" buf] i by (simp_all add: fin_def)
      note step = sentence_loop_cut [OF i True fin_def piece_def]
      have window: "squash piece @ squash (drop fin buf) = squash (drop start buf)"
        using squash_window [of start fin buf] less.prems(1) fin by (simp add: piece_def)
      obtain out' rest' where r: "sentence_loop buf flush threshold fin fin = (out', rest')" by force
      have later: "squash (concat out') @ squash (drop rest' buf) = squash (drop fin buf)" "rest' \<le> length buf"
        "\<forall>p \<in> set out'. piece_ok flush threshold p"
        using less.hyps [of fin fin out' rest'] i fin r by auto
      consider "piece = []" | "piece \<noteq> []" "flush \<or> threshold \<le> length piece" | "piece \<noteq> []" "\<not> (flush \<or> threshold \<le> length piece)" by blast
      then show ?thesis
      proof cases
        case 1
        with less.prems(3) step [of threshold] r later window show ?thesis by simp
      next
        case 2
        with less.prems(3) step [of threshold] r have o: "out = piece # out'" "rest = rest'" by simp_all
        have "strip piece = piece" by (simp add: piece_def strip_idem)
        with o 2 later window show ?thesis by (simp add: piece_ok_def)
      next
        case 3
        with less.prems(3) step [of threshold] have "sentence_loop buf flush threshold start fin = (out, rest)" by simp
        with less.hyps [of fin start out rest] less.prems(1) i fin show ?thesis by simp
      qed
    qed
  qed
qed

definition spoken_ok :: "string \<Rightarrow> bool" where
  "spoken_ok p \<longleftrightarrow> p \<noteq> [] \<and> strip p = p"

lemma drain_standard_keeps:
  assumes "drain_standard flush st = (out, st')"
  shows "squash (concat out) @ squash (ss_buf st') = squash (ss_buf st) \<and> (\<forall>p \<in> set out. spoken_ok p) \<and> (flush \<longrightarrow> ss_buf st' = [])"
proof -
  define threshold where "threshold = (if ss_first_policy st \<and> \<not> ss_first_emitted st then ss_clause_chars st else ss_min st)"
  obtain pieces rest where r: "sentence_loop (ss_buf st) flush threshold 0 0 = (pieces, rest)" by force
  have keep: "squash (concat pieces) @ squash (drop rest (ss_buf st)) = squash (ss_buf st)" "\<forall>p \<in> set pieces. spoken_ok p"
    using sentence_loop_keeps [OF _ _ r] by (auto simp: piece_ok_def spoken_ok_def)
  let ?b = "drop rest (ss_buf st)"
  show ?thesis
  proof (cases flush)
    case True
    with assms r have "out = pieces @ (if strip ?b \<noteq> [] then [strip ?b] else [])" "ss_buf st' = []"
      by (auto simp: drain_standard_def threshold_def [symmetric] Let_def)
    moreover have "squash ?b = squash (strip ?b)" by simp
    ultimately show ?thesis using keep by (auto simp: spoken_ok_def strip_idem simp del: squash_strip split: if_splits)
  next
    case False
    with assms r have "out = pieces" "ss_buf st' = ?b" by (auto simp: drain_standard_def threshold_def [symmetric] Let_def)
    with keep False show ?thesis by simp
  qed
qed

lemma first_chunk_keeps:
  assumes "first_chunk fin sentence st = Some (out, st')"
  shows "squash (concat out) @ squash (ss_buf st') = squash (ss_buf st) \<and> (\<forall>p \<in> set out. spoken_ok p)" "out \<noteq> []"
proof -
  obtain p where p: "out = [strip (take p (ss_buf st))]" "strip (take p (ss_buf st)) \<noteq> []" "ss_buf st' = lstrip (drop p (ss_buf st))"
    using assms by (auto simp: first_chunk_def split: option.splits if_splits)
  then show "squash (concat out) @ squash (ss_buf st') = squash (ss_buf st) \<and> (\<forall>p \<in> set out. spoken_ok p)" "out \<noteq> []"
    by (simp_all add: squash_take_drop spoken_ok_def strip_idem)
qed

lemma drain_keeps:
  assumes "drain flush st = (out, st')"
  shows "squash (concat out) @ squash (ss_buf st') = squash (ss_buf st) \<and> (\<forall>p \<in> set out. spoken_ok p) \<and> (flush \<longrightarrow> ss_buf st' = [])"
proof (cases "drain_standard flush st = (out, st')")
  case True
  then show ?thesis by (rule drain_standard_keeps)
next
  case False
  then have "\<not> flush" and "\<exists>fin sentence. first_chunk fin sentence st = Some (out, st')"
    using assms by (auto simp: drain_def Let_def split: if_splits option.splits)
  then show ?thesis using first_chunk_keeps(1) by blast
qed

lemma push_chunk_keeps:
  "push_chunk token st = (out, st') \<Longrightarrow>
   squash (concat out) @ squash (ss_buf st') = squash (ss_buf st) @ squash token \<and> (\<forall>p \<in> set out. spoken_ok p)"
  using drain_keeps [of False "st\<lparr>ss_buf := ss_buf st @ token\<rparr>" out st'] by (auto simp: push_chunk_def split: if_splits)

lemma push_all_keeps:
  "push_all tokens st = (out, st') \<Longrightarrow>
   squash (concat out) @ squash (ss_buf st') = squash (ss_buf st) @ squash (concat tokens) \<and> (\<forall>p \<in> set out. spoken_ok p)"
proof (induction tokens arbitrary: st out)
  case (Cons t ts)
  obtain o1 st1 where p: "push_chunk t st = (o1, st1)" by force
  obtain o2 where q: "push_all ts st1 = (o2, st')" "out = o1 @ o2" using Cons.prems p by (auto split: prod.splits)
  from push_chunk_keeps [OF p] Cons.IH [OF q(1)] q(2) show ?case
    by (metis (no_types, lifting) Un_iff append.assoc concat.simps(2) concat_append set_append squash_append)
qed simp

subsection \<open>The words of a text are found\<close>

fun occurs :: "string list \<Rightarrow> string \<Rightarrow> nat \<Rightarrow> bool" where
  "occurs [] buf p = True"
| "occurs (w # ws) buf p = (\<exists>j \<ge> p. prefix w (drop j buf) \<and> j \<le> length buf \<and> occurs ws buf (j + length w))"

lemma occurs_earlier: "occurs ws buf p \<Longrightarrow> q \<le> p \<Longrightarrow> occurs ws buf q"
  by (cases ws) (auto dest: le_trans)

lemma occurs_prefix: "occurs (us @ vs) buf p \<Longrightarrow> occurs us buf p"
  by (induction us arbitrary: p) auto

lemma occurs_words_from: "occurs (words_from w xs) (pre @ w @ xs) (length pre)"
proof (induction xs arbitrary: w pre)
  case Nil
  show ?case by (auto intro!: exI [of _ "length pre"])
next
  case (Cons x xs)
  show ?case
  proof (cases "is_space x")
    case space: True
    have "occurs (words_from [] xs) ((pre @ w @ [x]) @ [] @ xs) (length (pre @ w @ [x]))" by (rule Cons.IH)
    then have later: "occurs (words_from [] xs) (pre @ w @ x # xs) (length pre + length w)"
      using occurs_earlier [of "words_from [] xs" "pre @ w @ x # xs" "length (pre @ w @ [x])" "length pre + length w"] by simp
    show ?thesis
    proof (cases "w = []")
      case True with space later show ?thesis by simp
    next
      case False
      with space later show ?thesis by (auto intro!: exI [of _ "length pre"])
    qed
  next
    case False
    with Cons.IH [of "w @ [x]" pre] show ?thesis by simp
  qed
qed

lemma occurs_split_ws: "occurs (split_ws buf) buf 0"
  using occurs_words_from [of "[]" buf "[]"] by (simp add: split_ws_def)

lemma words_from_ok: "v \<in> set (words_from w xs) \<Longrightarrow> \<forall>c \<in> set w. \<not> is_space c \<Longrightarrow> v \<noteq> [] \<and> (\<forall>c \<in> set v. \<not> is_space c)"
proof (induction xs arbitrary: w)
  case Nil
  then show ?case by (cases "w = []") simp_all
next
  case (Cons x xs)
  show ?case
  proof (cases "is_space x")
    case True
    with Cons.prems have "v \<in> set (words_from [] xs) \<or> w \<noteq> [] \<and> v = w" by (auto split: if_splits)
    with Cons.IH [of "[]"] Cons.prems(2) show ?thesis by auto
  next
    case False
    with Cons.prems Cons.IH [of "w @ [x]"] show ?thesis by simp
  qed
qed

lemma find_upt:
  assumes "find P [p..<n] = Some k" shows "p \<le> k" "P k" "\<And>j. p \<le> j \<Longrightarrow> j < k \<Longrightarrow> \<not> P j"
proof -
  obtain i where i: "i < n - p" "P (p + i)" "k = p + i" "\<And>i'. i' < i \<Longrightarrow> \<not> P (p + i')"
    using assms by (auto simp: find_Some_iff)
  then show "p \<le> k" "P k" by simp_all
  show "\<not> P j" if "p \<le> j" "j < k" for j
    using i(4) [of "j - p"] that i(3) by simp
qed

lemma find_from_earliest:
  assumes "j \<ge> p" and "prefix w (drop j buf)" and "j \<le> length buf"
  obtains k where "find_from w buf p = Some k" and "p \<le> k" and "k \<le> j" and "prefix w (drop k buf)"
proof -
  have j: "j \<in> set [p..<length buf + 1]" using assms by auto
  then obtain k where k: "find_from w buf p = Some k"
    unfolding find_from_def using assms(2) by (metis (mono_tags, lifting) find_None_iff not_Some_eq)
  note f = find_upt [OF k [unfolded find_from_def]]
  have "k \<le> j" using f(3) [of j] assms(1,2) by (meson leI)
  from that [OF k f(1) this f(2)] show ?thesis .
qed

lemma locate_words_found: "occurs ws buf p \<Longrightarrow> \<exists>q \<ge> p. locate_words ws buf p = Some q"
proof (induction ws arbitrary: p)
  case (Cons w ws)
  then obtain j where j: "j \<ge> p" "prefix w (drop j buf)" "j \<le> length buf" "occurs ws buf (j + length w)" by auto
  obtain k where k: "find_from w buf p = Some k" "p \<le> k" "k \<le> j" by (rule find_from_earliest [OF j(1-3)]) 
  have "occurs ws buf (k + length w)" using j(4) k(3) by (auto intro: occurs_earlier)
  from Cons.IH [OF this] k show ?case by (auto intro: le_trans)
qed simp

lemma squash_eq_Nil: "squash s = [] \<longleftrightarrow> (\<forall>c \<in> set s. is_space c)"
  by (auto simp: squash_def filter_empty_conv)

lemma located_text:
  assumes "occurs (w # ws) buf 0" and "w \<noteq> []" and "\<forall>c \<in> set w. \<not> is_space c"
  shows "\<exists>q. locate_words (w # ws) buf 0 = Some q \<and> (\<forall>n \<ge> q. strip (take n buf) \<noteq> [])"
proof -
  obtain j where j: "j \<ge> 0" "prefix w (drop j buf)" "j \<le> length buf" "occurs ws buf (j + length w)" using assms(1) by auto
  obtain k where k: "find_from w buf 0 = Some k" "k \<le> j" "prefix w (drop k buf)" by (rule find_from_earliest [OF j(1-3)])
  have "occurs ws buf (k + length w)" using j(4) k(2) by (auto intro: occurs_earlier)
  then obtain q where q: "q \<ge> k + length w" "locate_words ws buf (k + length w) = Some q" using locate_words_found by blast
  have "strip (take n buf) \<noteq> []" if "n \<ge> q" for n
  proof -
    obtain c w' where c: "w = c # w'" using assms(2) by (cases w) auto
    from k(3) obtain zs where "drop k buf = c # zs" by (auto simp: c prefix_def)
    then have kl: "k < length buf" by (metis drop_all list.distinct(1) not_le)
    with \<open>drop k buf = c # zs\<close> have "buf ! k = c" by (metis Cons_nth_drop_Suc list.inject)
    note kl this
    moreover have "k < n" using q(1) that assms(2) by (cases w) auto
    ultimately have "c \<in> set (take n buf)" by (auto simp: in_set_conv_nth intro!: exI [of _ k])
    then have "squash (take n buf) \<noteq> []" using assms(3) by (auto simp: squash_eq_Nil c)
    then show ?thesis by (metis squash_Nil squash_strip)
  qed
  with k q show ?thesis by auto
qed

subsection \<open>Properties of the streamer\<close>

text \<open>C31: Nothing the model says is lost, repeated or reordered: white space apart, the pieces of a turn,
  the last flush included, are the tokens in their order, wherever the tokens are cut; every piece is
  speakable (not empty, without outer white space) and the buffer is empty afterwards.\<close>

theorem spoken_is_said:
  assumes "push_all tokens (reset_streamer st) = (out, st1)" and "flush_streamer st1 = (rest, st2)"
  shows "squash (concat (out @ rest)) = squash (concat tokens) \<and> (\<forall>p \<in> set (out @ rest). p \<noteq> [] \<and> strip p = p) \<and> ss_buf st2 = []"
proof -
  obtain st' where d: "drain True st1 = (rest, st')" "st2 = st'\<lparr>ss_first_emitted := False\<rparr>"
    using assms(2) by (auto simp: flush_streamer_def split: prod.splits)
  have "ss_buf (reset_streamer st) = []" by (simp add: reset_streamer_def)
  then have "squash (concat out) @ squash (ss_buf st1) = squash (concat tokens)" "\<forall>p \<in> set out. spoken_ok p"
    using push_all_keeps [OF assms(1)] by simp_all
  moreover have "squash (concat rest) = squash (ss_buf st1)" "\<forall>p \<in> set rest. spoken_ok p" "ss_buf st' = []"
    using drain_keeps [OF d(1)] by auto
  ultimately show ?thesis using d(2) by (auto simp: spoken_ok_def)
qed

lemma spoken_is_said_witness:
  "\<exists>out st1 rest st2. push_all [''Hi'', ''. I''] (reset_streamer new_streamer) = (out, st1) \<and> flush_streamer st1 = (rest, st2) \<and>
    squash (concat (out @ rest)) = squash (concat [''Hi'', ''. I''])"
proof -
  obtain out st1 where o: "push_all [''Hi'', ''. I''] (reset_streamer new_streamer) = (out, st1)" by force
  obtain rest st2 where r: "flush_streamer st1 = (rest, st2)" by force
  from spoken_is_said [OF o r] o r show ?thesis by blast
qed

text \<open>The first chunk does not wait for punctuation: once the text holds the configured number of
  complete words and no sentence end, the next token brings a piece.\<close>

theorem first_chunk_prompt:
  assumes "ss_first_policy st" and "\<not> ss_first_emitted st" and "0 < ss_first_words st" and "token \<noteq> []"
    and "buf = ss_buf st @ token" and "find_first_sentence_boundary buf False = None"
    and "ss_first_words st \<le> length (if is_space (last buf) then split_ws buf else butlast (split_ws buf))"
  shows "fst (push_chunk token st) \<noteq> []"
proof -
  define st' where "st' = st\<lparr>ss_buf := buf\<rparr>"
  define ws where "ws = (if is_space (last buf) then split_ws buf else butlast (split_ws buf))"
  have buf: "buf \<noteq> []" using assms(4,5) by simp
  obtain w v where wv: "take (ss_first_words st) ws = w # v"
    using assms(3,7) by (cases "take (ss_first_words st) ws") (auto simp: ws_def [symmetric])
  have sub: "\<exists>vs. split_ws buf = (w # v) @ vs"
  proof -
    have "\<exists>us. split_ws buf = ws @ us" by (cases "split_ws buf" rule: rev_cases) (auto simp: ws_def)
    moreover have "ws = (w # v) @ drop (ss_first_words st) ws" using wv by (metis append_take_drop_id)
    ultimately show ?thesis by (metis append.assoc)
  qed
  then have occ: "occurs (w # v) buf 0" using occurs_split_ws [of buf] occurs_prefix by metis
  have "w \<in> set (split_ws buf)" using sub by auto
  then have "w \<noteq> []" "\<forall>c \<in> set w. \<not> is_space c" using words_from_ok [of w "[]" buf] by (simp_all add: split_ws_def)
  from located_text [OF occ this] obtain q where q: "locate_words (w # v) buf 0 = Some q" "\<And>n. n \<ge> q \<Longrightarrow> strip (take n buf) \<noteq> []" by blast
  have "find_delayed_word_boundary st' buf = Some (skip_blanks buf q)"
    using assms(7) wv q(1) buf unfolding find_delayed_word_boundary_def Let_def ws_def [symmetric] st'_def
    by (simp add: ws_def [symmetric])
  then have "first_chunk (find_delayed_word_boundary st' buf) None st' \<noteq> None"
    using q(2) [OF skip_blanks_bounds(1)] by (simp add: first_chunk_def st'_def)
  then obtain out2 st2 where w2: "first_chunk (find_delayed_word_boundary st' buf) None st' = Some (out2, st2)" by auto
  have "push_chunk token st = (case first_chunk (find_first_clause_boundary st' buf) None st' of
      Some r \<Rightarrow> r | None \<Rightarrow> (out2, st2))"
    using assms(1,2,4,5,6) w2 by (simp add: push_chunk_def drain_def st'_def split: option.splits)
  then show ?thesis using first_chunk_keeps(2) w2 by (auto split: option.splits)
qed

lemma first_chunk_prompt_witness:
  "fst (push_chunk '' '' (new_streamer\<lparr>ss_first_words := 1, ss_buf := ''a''\<rparr>)) \<noteq> []"
proof -
  have "find_first_sentence_boundary ''a '' False = None" by code_simp
  moreover have "is_space (last ''a '')" "length (split_ws ''a '') = 1" by code_simp+
  ultimately show ?thesis
    by (intro first_chunk_prompt [where buf = "''a ''"]) (simp_all add: new_streamer_def)
qed

end
