(* ===== verification/Py_Substitute.thy ===== *)
theory Py_Substitute
  imports Py_Regex
begin

text \<open>
  \<open>pattern.sub\<close>, \<open>match\<close>, \<open>search\<close> and \<open>fullmatch\<close>, where it matters which match is found: \<open>rx_order\<close>
  lists the ends of a match in the order in which the backtracking matcher of \<open>re\<close> tries them, so its
  head is the match. It has the same elements as \<open>rx_ends\<close>. A pattern with groups is the list of its parts
  in sequence; a match is the list of their texts. \<open>scan\<close> is the left-to-right pass of \<open>sub\<close>.
\<close>

subsection \<open>The preferred match\<close>

fun greedy_ends :: "(pos \<Rightarrow> pos list) \<Rightarrow> nat \<Rightarrow> pos \<Rightarrow> pos list" where
  "greedy_ends f 0 x = [x]"
| "greedy_ends f (Suc n) x = concat (map (greedy_ends f n) (filter (\<lambda>y. length (snd y) < length (snd x)) (f x))) @ [x]"

fun lazy_ends :: "(pos \<Rightarrow> pos list) \<Rightarrow> nat \<Rightarrow> pos \<Rightarrow> pos list" where
  "lazy_ends f 0 x = [x]"
| "lazy_ends f (Suc n) x = x # concat (map (lazy_ends f n) (filter (\<lambda>y. length (snd y) < length (snd x)) (f x)))"

primrec rx_order :: "rx \<Rightarrow> pos \<Rightarrow> pos list" where
  "rx_order (Chars P) x = (case snd x of [] \<Rightarrow> [] | c # cs \<Rightarrow> if P c then [(Some c, cs)] else [])"
| "rx_order Nil_rx x = [x]"
| "rx_order Boundary x = (if at_boundary x then [x] else [])"
| "rx_order (Seq a b) x = concat (map (rx_order b) (rx_order a x))"
| "rx_order (Alt a b) x = rx_order a x @ rx_order b x"
| "rx_order (Star r) x = greedy_ends (rx_order r) (length (snd x)) x"
| "rx_order (Not_ahead r) x = (if rx_order r x = [] then [x] else [])"
| "rx_order (Lazy r) x = lazy_ends (rx_order r) (length (snd x)) x"
| "rx_order (Test T) x = (if T x then [x] else [])"

lemma star_ends_cong: "(\<And>x. set (f x) = set (g x)) \<Longrightarrow> set (greedy_ends f n x) = set (star_ends g n x)"
  by (induction n arbitrary: x) auto

lemma lazy_star_ends: "(\<And>x. set (f x) = set (g x)) \<Longrightarrow> set (lazy_ends f n x) = set (star_ends g n x)"
  by (induction n arbitrary: x) auto

lemma set_rx_order: "set (rx_order r x) = set (rx_ends r x)"
proof (induction r arbitrary: x)
  case (Star r) then show ?case by (simp add: star_ends_cong)
next
  case (Lazy r) then show ?case by (simp add: lazy_star_ends)
next
  case (Not_ahead r)
  have "rx_order r x = [] \<longleftrightarrow> rx_ends r x = []" using Not_ahead [of x] by (metis set_empty)
  then show ?case by simp
qed (auto split: list.splits)

lemma rx_order_iff: "y \<in> set (rx_order r x) \<longleftrightarrow> rx_run r x y"
  by (simp add: set_rx_order rx_ends_iff)

lemma rx_order_Nil: "rx_order r x = [] \<longleftrightarrow> (\<forall>y. \<not> rx_run r x y)"
  using rx_order_iff [of _ r x] by (metis list.set_intros(1) neq_Nil_conv set_empty2 empty_iff)

lemma rx_run_Seq: "rx_run (Seq a b) x z \<longleftrightarrow> (\<exists>y. rx_run a x y \<and> rx_run b y z)"
  unfolding rx_run_simps by (simp only: split_paired_Ex)

lemma rx_seq_simps [simp]: "rx_seq [] = Nil_rx" "rx_seq (r # rs) = Seq r (rx_seq rs)"
  by (simp_all add: rx_seq_def)

text \<open>The parts of a pattern in sequence, with the position after each.\<close>

fun parts_order :: "rx list \<Rightarrow> pos \<Rightarrow> pos list list" where
  "parts_order [] x = [[]]"
| "parts_order (r # rs) x = concat (map (\<lambda>y. map ((#) y) (parts_order rs y)) (rx_order r x))"

fun texts_between :: "pos \<Rightarrow> pos list \<Rightarrow> string list" where
  "texts_between x [] = []"
| "texts_between x (y # ys) = take (length (snd x) - length (snd y)) (snd x) # texts_between y ys"

definition match_at :: "rx list \<Rightarrow> pos \<Rightarrow> (string list \<times> pos) option" where
  "match_at rs x = (case parts_order rs x of [] \<Rightarrow> None | ys # _ \<Rightarrow> Some (texts_between x ys, last (x # ys)))"

definition rx_fullmatch :: "rx \<Rightarrow> string \<Rightarrow> bool" where
  "rx_fullmatch r s = list_ex (\<lambda>y. snd y = []) (rx_ends r (None, s))"

text \<open>\<open>pattern.search\<close> with its groups.\<close>

fun find_match :: "rx list \<Rightarrow> pos list \<Rightarrow> string list option" where
  "find_match rs [] = None"
| "find_match rs (x # xs) = (case match_at rs x of None \<Rightarrow> find_match rs xs | Some (ts, _) \<Rightarrow> Some ts)"

lemma parts_run: "ys \<in> set (parts_order rs x) \<Longrightarrow> rx_run (rx_seq rs) x (last (x # ys))"
proof (induction rs arbitrary: x ys)
  case Nil
  then show ?case by (simp add: rx_run_simps)
next
  case (Cons r rs)
  then obtain y zs where y: "rx_run r x y" "zs \<in> set (parts_order rs y)" "ys = y # zs" by (auto simp: rx_order_iff)
  from Cons.IH [OF y(2)] y(1) have "rx_run (rx_seq (r # rs)) x (last (y # zs))" unfolding rx_seq_simps rx_run_Seq by blast
  with y(3) show ?case by simp
qed

lemma parts_order_Nil: "parts_order rs x = [] \<longleftrightarrow> (\<forall>y. \<not> rx_run (rx_seq rs) x y)"
proof (induction rs arbitrary: x)
  case Nil
  then show ?case by (simp add: rx_run_simps)
next
  case (Cons r rs)
  have "parts_order (r # rs) x = [] \<longleftrightarrow> (\<forall>y \<in> set (rx_order r x). parts_order rs y = [])" by simp
  also have "\<dots> \<longleftrightarrow> (\<forall>y. rx_run r x y \<longrightarrow> (\<forall>z. \<not> rx_run (rx_seq rs) y z))" by (simp add: rx_order_iff Cons.IH Ball_def)
  finally show ?case unfolding rx_seq_simps rx_run_Seq by blast
qed

lemma match_at_None: "match_at rs x = None \<longleftrightarrow> (\<forall>y. \<not> rx_run (rx_seq rs) x y)"
  unfolding parts_order_Nil [symmetric] by (simp add: match_at_def split: list.splits)

lemma match_at_run: "match_at rs x = Some (ts, y) \<Longrightarrow> rx_run (rx_seq rs) x y"
proof -
  assume "match_at rs x = Some (ts, y)"
  then obtain ys zss where "parts_order rs x = ys # zss" "y = last (x # ys)" by (auto simp: match_at_def split: list.splits)
  with parts_run [of ys rs x] show ?thesis by simp
qed

lemma rx_fullmatch_iff: "rx_fullmatch r s \<longleftrightarrow> (\<exists>q. rx_run r (None, s) (q, []))"
  by (force simp: rx_fullmatch_def list_ex_iff rx_ends_iff [symmetric])

subsection \<open>Substitution\<close>

datatype piece = Kept char | Hit "string list"

function scan :: "rx list \<Rightarrow> char option \<Rightarrow> string \<Rightarrow> piece list" where
  "scan rs p s =
     (case match_at rs (p, s) of
        Some (ts, q, t) \<Rightarrow>
          if length t < length s then Hit ts # scan rs q t
          else Hit ts # (case s of [] \<Rightarrow> [] | c # cs \<Rightarrow> Kept c # scan rs (Some c) cs)
      | None \<Rightarrow> (case s of [] \<Rightarrow> [] | c # cs \<Rightarrow> Kept c # scan rs (Some c) cs))"
  by pat_completeness auto
termination by (relation "measure (\<lambda>(rs, p, s). length s)") auto

declare scan.simps [simp del]

fun render :: "(string list \<Rightarrow> string) \<Rightarrow> piece \<Rightarrow> string" where
  "render f (Kept c) = [c]"
| "render f (Hit ts) = f ts"

definition rx_sub :: "rx list \<Rightarrow> (string list \<Rightarrow> string) \<Rightarrow> string \<Rightarrow> string" where
  "rx_sub rs f s = concat (map (render f) (scan rs None s))"

lemma scan_None: "match_at rs (p, c # s) = None \<Longrightarrow> scan rs p (c # s) = Kept c # scan rs (Some c) s"
  "match_at rs (p, []) = None \<Longrightarrow> scan rs p [] = []"
  by (simp_all add: scan.simps)

lemma scan_Some: "match_at rs (p, s) = Some (ts, q, t) \<Longrightarrow> length t < length s \<Longrightarrow> scan rs p s = Hit ts # scan rs q t"
  by (subst scan.simps) simp

text \<open>A text without a match is returned as it is.\<close>

lemma scan_no_match: "(\<And>x. x \<in> set (positions p s) \<Longrightarrow> match_at rs x = None) \<Longrightarrow> scan rs p s = map Kept s"
  by (induction p s rule: positions.induct) (simp_all add: scan_None)

lemma rx_sub_no_match:
  assumes "\<not> rx_search (rx_seq rs) s" shows "rx_sub rs f s = s"
proof -
  have "match_at rs x = None" if "x \<in> set (positions None s)" for x
    using assms that by (auto simp: match_at_None rx_search_def list_ex_iff rx_ends_iff [symmetric] in_set_conv_nth)
  then have "scan rs None s = map Kept s" by (rule scan_no_match)
  then show ?thesis by (simp add: rx_sub_def comp_def)
qed

subsection \<open>Consumed texts\<close>

lemma rx_run_consumes:
  assumes "rx_run r x y" obtains u where "snd x = u @ snd y" and "fst y = after_text (fst x) u"
proof -
  have "\<exists>u. snd x = u @ snd y \<and> fst y = after_text (fst x) u"
    using assms
  proof (induction rule: rx_run.induct)
    case (char P c p cs) show ?case by (intro exI [of _ "[c]"]) (simp add: after_text_def)
  next
    case (seq a x y b z)
    then obtain u v where "snd x = u @ snd y" "fst y = after_text (fst x) u" "snd y = v @ snd z" "fst z = after_text (fst y) v" by blast
    then show ?case by (intro exI [of _ "u @ v"]) (simp add: after_text_append)
  next
    case (round r x y z)
    then obtain u v where "snd x = u @ snd y" "fst y = after_text (fst x) u" "snd y = v @ snd z" "fst z = after_text (fst y) v" by blast
    then show ?case by (intro exI [of _ "u @ v"]) (simp add: after_text_append)
  qed (auto simp: after_text_def)
  then show ?thesis using that by blast
qed

text \<open>A pattern that looks only at what it consumes matches a text wherever it stands.\<close>

primrec plain :: "rx \<Rightarrow> bool" where
  "plain (Chars P) = True"
| "plain Nil_rx = True"
| "plain Boundary = False"
| "plain (Seq a b) = (plain a \<and> plain b)"
| "plain (Alt a b) = (plain a \<and> plain b)"
| "plain (Star r) = plain r"
| "plain (Not_ahead r) = False"
| "plain (Lazy r) = plain r"
| "plain (Test T) = False"

lemma takes_Lazy: "takes (Star r) u \<Longrightarrow> takes (Lazy r) u"
  by (simp add: takes_def rx_run.lazy)

lemma takes_round: "takes r u \<Longrightarrow> takes (Star r) v \<Longrightarrow> takes (Star r) (u @ v)"
  unfolding takes_def by (metis after_text_append append.assoc rx_run.round)

lemma plain_takes: "rx_run r x y \<Longrightarrow> plain r \<Longrightarrow> \<exists>u. snd x = u @ snd y \<and> takes r u"
proof (induction rule: rx_run.induct)
  case (char P c p cs) then show ?case by (intro exI [of _ "[c]"]) (simp add: takes_Chars)
next
  case (nil x) show ?case by (simp add: takes_Nil_rx)
next
  case (seq a x y b z)
  then obtain u v where "snd x = u @ snd y" "takes a u" "snd y = v @ snd z" "takes b v" by auto
  then show ?case by (intro exI [of _ "u @ v"]) (simp add: takes_Seq)
next
  case (stop r x)
  have "takes (Star r) []" by (simp add: takes_def after_text_def rx_run.stop)
  then show ?case by simp
next
  case (round r x y z)
  then obtain u v where "snd x = u @ snd y" "takes r u" "snd y = v @ snd z" "takes (Star r) v" by auto
  then show ?case by (intro exI [of _ "u @ v"]) (simp add: takes_round)
qed (auto intro: takes_Alt takes_Lazy)

text \<open>Every character consumed satisfies a predicate.\<close>

primrec only_chars :: "(char \<Rightarrow> bool) \<Rightarrow> rx \<Rightarrow> bool" where
  "only_chars Q (Chars P) = (\<forall>c. P c \<longrightarrow> Q c)"
| "only_chars Q Nil_rx = True"
| "only_chars Q Boundary = True"
| "only_chars Q (Seq a b) = (only_chars Q a \<and> only_chars Q b)"
| "only_chars Q (Alt a b) = (only_chars Q a \<and> only_chars Q b)"
| "only_chars Q (Star r) = only_chars Q r"
| "only_chars Q (Not_ahead r) = True"
| "only_chars Q (Lazy r) = only_chars Q r"
| "only_chars Q (Test T) = True"

lemma only_chars_run: "rx_run r x y \<Longrightarrow> only_chars Q r \<Longrightarrow> snd x = u @ snd y \<Longrightarrow> list_all Q u"
proof (induction arbitrary: u rule: rx_run.induct)
  case (seq a x y b z)
  obtain v where v: "snd x = v @ snd y" using seq.hyps(1) by (rule rx_run_consumes)
  obtain w where w: "snd y = w @ snd z" using seq.hyps(2) by (rule rx_run_consumes)
  have "u = v @ w" using v w seq.prems(2) by simp
  with seq.IH(1) [OF _ v] seq.IH(2) [OF _ w] seq.prems(1) show ?case by simp
next
  case (round r x y z)
  obtain v where v: "snd x = v @ snd y" using round.hyps(1) by (rule rx_run_consumes)
  obtain w where w: "snd y = w @ snd z" using round.hyps(2) by (rule rx_run_consumes)
  have "u = v @ w" using v w round.prems(2) by simp
  with round.IH(1) [OF _ v] round.IH(2) [OF _ w] round.prems(1) show ?case by simp
qed auto

text \<open>Every match starts with a character that satisfies a predicate.\<close>

primrec opens_with :: "(char \<Rightarrow> bool) \<Rightarrow> rx \<Rightarrow> bool" where
  "opens_with Q (Chars P) = (\<forall>c. P c \<longrightarrow> Q c)"
| "opens_with Q Nil_rx = False"
| "opens_with Q Boundary = False"
| "opens_with Q (Seq a b) = opens_with Q a"
| "opens_with Q (Alt a b) = (opens_with Q a \<and> opens_with Q b)"
| "opens_with Q (Star r) = False"
| "opens_with Q (Not_ahead r) = False"
| "opens_with Q (Lazy r) = False"
| "opens_with Q (Test T) = False"

lemma opens_with_run: "rx_run r x y \<Longrightarrow> opens_with Q r \<Longrightarrow> snd x = u @ snd y \<Longrightarrow> u \<noteq> [] \<and> Q (hd u)"
proof (induction arbitrary: u rule: rx_run.induct)
  case (seq a x y b z)
  obtain v where v: "snd x = v @ snd y" using seq.hyps(1) by (rule rx_run_consumes)
  obtain w where w: "snd y = w @ snd z" using seq.hyps(2) by (rule rx_run_consumes)
  have "u = v @ w" using v w seq.prems(2) by simp
  with seq.IH(1) [OF _ v] seq.prems(1) show ?case by simp
qed auto

lemma pattern_facts_seq:
  "plain (rx_seq rs) \<longleftrightarrow> list_all plain rs" "only_chars Q (rx_seq rs) \<longleftrightarrow> list_all (only_chars Q) rs"
  "opens_with Q (rx_seq (r # rs)) \<longleftrightarrow> opens_with Q r"
proof -
  show "plain (rx_seq rs) \<longleftrightarrow> list_all plain rs" by (induction rs) simp_all
  show "only_chars Q (rx_seq rs) \<longleftrightarrow> list_all (only_chars Q) rs" by (induction rs) simp_all
qed simp

lemma pattern_facts_derived:
  "plain (lit s)" "plain (lit_ci s)" "plain r \<Longrightarrow> plain (rx_repeat n r)" "plain r \<Longrightarrow> plain (rx_at_least n r)"
  "only_chars Q (lit s) \<longleftrightarrow> list_all Q s" "only_chars Q (lit_ci s) \<longleftrightarrow> list_all (\<lambda>c. \<forall>d. lower_char d = lower_char c \<longrightarrow> Q d) s"
  "only_chars Q r \<Longrightarrow> only_chars Q (rx_repeat n r)" "only_chars Q r \<Longrightarrow> only_chars Q (rx_at_least n r)"
  "opens_with Q (lit (c # s)) \<longleftrightarrow> Q c" "opens_with Q (lit_ci (c # s)) \<longleftrightarrow> (\<forall>d. lower_char d = lower_char c \<longrightarrow> Q d)"
proof -
  show rep: "plain r \<Longrightarrow> plain (rx_repeat n r)" "only_chars Q r \<Longrightarrow> only_chars Q (rx_repeat n r)" for n by (induction n) simp_all
  show "plain r \<Longrightarrow> plain (rx_at_least n r)" "only_chars Q r \<Longrightarrow> only_chars Q (rx_at_least n r)"
    using rep by (simp_all add: rx_at_least_def)
qed (simp_all add: lit_def lit_ci_def pattern_facts_seq list_all_iff)

subsection \<open>Runs of a character class\<close>

lemma order_Chars: "rx_order (Chars P) (p, c # s) = (if P c then [(Some c, s)] else [])" "rx_order (Chars P) (p, []) = []"
  by simp_all

lemma greedy_run:
  "length s \<le> m \<Longrightarrow>
   \<exists>ys. greedy_ends (rx_order (Chars P)) m (p, s) = (after_text p (takeWhile P s), dropWhile P s) # ys"
proof (induction s arbitrary: p m)
  case Nil
  then show ?case by (cases m) (simp_all add: after_text_def)
next
  case (Cons c s)
  then obtain k where m: "m = Suc k" "length s \<le> k" by (cases m) auto
  show ?case
  proof (cases "P c")
    case True
    obtain ys where "greedy_ends (rx_order (Chars P)) k (Some c, s) = (after_text (Some c) (takeWhile P s), dropWhile P s) # ys"
      using Cons.IH [OF m(2)] by blast
    moreover have "after_text (Some c) (takeWhile P s) = after_text p (c # takeWhile P s)" by (simp add: after_text_def)
    ultimately show ?thesis using True m(1) by (simp add: order_Chars del: rx_order.simps(1))
  qed (simp add: m(1) after_text_def)
qed

lemma repeat_run:
  "rx_order (rx_repeat n (Chars P)) (p, s) =
     (if n \<le> length (takeWhile P s) then [(after_text p (take n s), drop n s)] else [])"
proof (induction n arbitrary: p s)
  case 0 show ?case by (simp add: after_text_def)
next
  case (Suc n)
  show ?case
  proof (cases s)
    case (Cons c cs)
    have "after_text (Some c) (take n cs) = after_text p (c # take n cs)" by (simp add: after_text_def)
    with Cons Suc.IH [of "Some c" cs] show ?thesis by simp
  qed simp
qed

text \<open>A class with a minimal length matches a whole run, when it is long enough.\<close>

lemma class_match:
  "match_at [rx_at_least n (Chars P)] (p, s) =
     (if n \<le> length (takeWhile P s) then Some ([takeWhile P s], after_text p (takeWhile P s), dropWhile P s) else None)"
proof (cases "n \<le> length (takeWhile P s)")
  case True
  then have n: "n \<le> length s" "take n (takeWhile P s) = take n s" "dropWhile P (drop n s) = dropWhile P s" "takeWhile P s = take n s @ takeWhile P (drop n s)"
  proof -
    show "n \<le> length s" using True length_takeWhile_le le_trans by blast
    have "list_all P (take n s)" using True by (auto simp: list_all_length) (metis length_takeWhile_le less_le_trans nth_mem set_takeWhileD takeWhile_nth)
    then have t: "takeWhile P (take n s @ drop n s) = take n s @ takeWhile P (drop n s)"
      "dropWhile P (take n s @ drop n s) = dropWhile P (drop n s)"
      by (simp_all add: list_all_iff del: append_take_drop_id)
    from t(1) show "takeWhile P s = take n s @ takeWhile P (drop n s)" by simp
    then show "take n (takeWhile P s) = take n s" using \<open>n \<le> length s\<close> by simp
    from t(2) show "dropWhile P (drop n s) = dropWhile P s" by simp
  qed
  obtain ys where "greedy_ends (rx_order (Chars P)) (length (drop n s)) (after_text p (take n s), drop n s) =
      (after_text (after_text p (take n s)) (takeWhile P (drop n s)), dropWhile P (drop n s)) # ys"
    using greedy_run by blast
  then have "parts_order [rx_at_least n (Chars P)] (p, s) = [(after_text p (takeWhile P s), dropWhile P s)] # map (\<lambda>y. [y]) ys"
    using True by (simp add: rx_at_least_def repeat_run after_text_append n(3) n(4) [symmetric] del: rx_order.simps(1))
  moreover have "length s - length (dropWhile P s) = length (takeWhile P s)"
    by (metis add_diff_cancel_right' length_append takeWhile_dropWhile_id)
  moreover have "take (length (takeWhile P s)) s = takeWhile P s" by (metis append_eq_conv_conj takeWhile_dropWhile_id)
  ultimately show ?thesis using True by (simp add: match_at_def)
next
  case False
  then have "parts_order [rx_at_least n (Chars P)] (p, s) = []" by (simp add: rx_at_least_def repeat_run)
  with False show ?thesis by (simp add: match_at_def)
qed

subsection \<open>Splitting and joining on a text\<close>

function split_text :: "string \<Rightarrow> string \<Rightarrow> string \<Rightarrow> string list" where
  "split_text sep w s =
     (if s = [] then [w]
      else if sep \<noteq> [] \<and> prefix sep s then w # split_text sep [] (drop (length sep) s)
      else split_text sep (w @ [hd s]) (tl s))"
  by pat_completeness auto
termination by (relation "measure (\<lambda>(sep, w, s). length s)") auto

declare split_text.simps [simp del]

fun join_with :: "string \<Rightarrow> string list \<Rightarrow> string" where
  "join_with sep [] = []"
| "join_with sep [w] = w"
| "join_with sep (w # ws) = w @ sep @ join_with sep ws"

lemma split_text_nonempty: "split_text sep w s \<noteq> []"
  by (induction sep w s rule: split_text.induct) (subst split_text.simps, simp)

lemma join_split: "join_with sep (split_text sep w s) = w @ s"
proof (induction sep w s rule: split_text.induct)
  case (1 sep w s)
  show ?case
  proof (cases "s = []")
    case True then show ?thesis by (simp add: split_text.simps)
  next
    case False
    show ?thesis
    proof (cases "sep \<noteq> [] \<and> prefix sep s")
      case True
      obtain v vs where v: "split_text sep [] (drop (length sep) s) = v # vs" using split_text_nonempty neq_Nil_conv by metis
      have "split_text sep w s = w # v # vs" using True False v by (subst split_text.simps) simp
      moreover have "join_with sep (v # vs) = drop (length sep) s" using 1(1) [OF False True] v by simp
      moreover have "s = sep @ drop (length sep) s" using True by (metis append_eq_conv_conj prefixE)
      ultimately show ?thesis by (simp del: join_with.simps(2))
    next
      case no: False
      have "split_text sep w s = split_text sep (w @ [hd s]) (tl s)" using no False by (subst split_text.simps) (simp only: if_False)
      with 1(2) [OF False no] False show ?thesis by simp
    qed
  qed
qed

end
