(* ===== verification/Web_Address.thy ===== *)
theory Web_Address
  imports Py_Regex "HOL-Library.Word"
begin

text \<open>
  Internet addresses and URLs as \<open>python/tom/tools/web.py\<close> uses them: \<open>ipaddress.ip_address\<close> and the
  predicates of its classes, \<open>urllib.parse.urlparse\<close> with \<open>hostname\<close> and \<open>port\<close>, and \<open>_is_public_ip\<close> over
  them. The address blocks are those of CPython since 3.11.10 and 3.12.4. Addresses are machine words.
\<close>

subsection \<open>Addresses\<close>

datatype ip = V4 "32 word" | V6 "128 word" "string option"

definition in_net :: "'a::len word \<Rightarrow> nat \<Rightarrow> 'a word \<Rightarrow> bool" where
  "in_net base n a \<longleftrightarrow> drop_bit (LENGTH('a) - n) a = drop_bit (LENGTH('a) - n) base"

definition v4 :: "int \<Rightarrow> int \<Rightarrow> int \<Rightarrow> int \<Rightarrow> 32 word" where
  "v4 a b c d = word_of_int (((a * 256 + b) * 256 + c) * 256 + d)"

fun v6 :: "int list \<Rightarrow> 128 word" where
  "v6 hs = word_of_int (foldl (\<lambda>n h. n * 65536 + h) 0 (take 8 (hs @ replicate 8 0)))"

definition v4_private :: "32 word \<Rightarrow> bool" where
  "v4_private a \<longleftrightarrow>
     list_ex (\<lambda>(b, n). in_net b n a)
       [(v4 0 0 0 0, 8), (v4 10 0 0 0, 8), (v4 127 0 0 0, 8), (v4 169 254 0 0, 16), (v4 172 16 0 0, 12), (v4 192 0 0 0, 24),
        (v4 192 0 0 170, 31), (v4 192 0 2 0, 24), (v4 192 168 0 0, 16), (v4 198 18 0 0, 15), (v4 198 51 100 0, 24),
        (v4 203 0 113 0, 24), (v4 240 0 0 0, 4), (v4 255 255 255 255, 32)] \<and>
     \<not> list_ex (\<lambda>(b, n). in_net b n a) [(v4 192 0 0 9, 32), (v4 192 0 0 10, 32)]"

definition v4_public :: "32 word \<Rightarrow> bool" where
  "v4_public a \<longleftrightarrow>
     \<not> in_net (v4 127 0 0 0) 8 a \<and> \<not> v4_private a \<and> \<not> in_net (v4 169 254 0 0) 16 a \<and> \<not> in_net (v4 224 0 0 0) 4 a \<and>
     \<not> in_net (v4 240 0 0 0) 4 a \<and> a \<noteq> 0"

definition v6_private :: "128 word \<Rightarrow> bool" where
  "v6_private a \<longleftrightarrow>
     list_ex (\<lambda>(b, n). in_net (v6 b) n a)
       [([0,0,0,0,0,0,0,1], 128), ([0], 128), ([0,0,0,0,0,0xFFFF], 96), ([0x64,0xFF9B,1], 48), ([0x100], 64), ([0x2001], 23),
        ([0x2001,0xDB8], 32), ([0x2002], 16), ([0xFC00], 7), ([0xFE80], 10)] \<and>
     \<not> list_ex (\<lambda>(b, n). in_net (v6 b) n a)
       [([0x2001,1,0,0,0,0,0,1], 128), ([0x2001,1,0,0,0,0,0,2], 128), ([0x2001,3], 32), ([0x2001,4,0x112], 48),
        ([0x2001,0x20], 28), ([0x2001,0x30], 28)]"

definition v6_reserved :: "128 word \<Rightarrow> bool" where
  "v6_reserved a \<longleftrightarrow>
     list_ex (\<lambda>(b, n). in_net (v6 [b]) n a)
       [(0, 8), (0x100, 8), (0x200, 7), (0x400, 6), (0x800, 5), (0x1000, 4), (0x4000, 3), (0x6000, 3), (0x8000, 3), (0xA000, 3),
        (0xC000, 3), (0xE000, 4), (0xF000, 5), (0xF800, 6), (0xFE00, 9)]"

definition ipv4_mapped :: "128 word \<Rightarrow> 32 word option" where
  "ipv4_mapped a = (if drop_bit 32 a = 0xFFFF then Some (ucast a) else None)"

fun is_public_ip :: "ip \<Rightarrow> bool" where
  "is_public_ip (V4 a) = v4_public a"
| "is_public_ip (V6 a _) =
     (case ipv4_mapped a of
        Some b \<Rightarrow> v4_public b
      | None \<Rightarrow> a \<noteq> 1 \<and> \<not> v6_private a \<and> \<not> in_net (v6 [0xFE80]) 10 a \<and> \<not> in_net (v6 [0xFF00]) 8 a \<and> \<not> v6_reserved a \<and> a \<noteq> 0)"

subsection \<open>Reading an address\<close>

definition digit_value :: "char \<Rightarrow> int" where
  "digit_value c = (let n = (of_char c :: int) in if n \<le> 57 then n - 48 else if n \<le> 70 then n - 55 else n - 87)"

definition number :: "int \<Rightarrow> string \<Rightarrow> int" where
  "number b w = foldl (\<lambda>n c. n * b + digit_value c) 0 w"

definition read_octet :: "string \<Rightarrow> int option" where
  "read_octet w =
     (if w \<noteq> [] \<and> list_all is_digit w \<and> length w \<le> 3 \<and> (w = ''0'' \<or> hd w \<noteq> CHR ''0'') \<and> number 10 w \<le> 255 then Some (number 10 w) else None)"

definition read_v4 :: "string \<Rightarrow> 32 word option" where
  "read_v4 s =
     (case map read_octet (split_on CHR ''.'' s) of
        [Some a, Some b, Some c, Some d] \<Rightarrow> Some (v4 a b c d)
      | _ \<Rightarrow> None)"

definition is_hex_char :: "char \<Rightarrow> bool" where
  "is_hex_char c \<longleftrightarrow> is_digit c \<or> (of_char c :: nat) \<in> {65..70} \<or> (of_char c :: nat) \<in> {97..102}"

definition read_hextet :: "string \<Rightarrow> int option" where
  "read_hextet w = (if w \<noteq> [] \<and> list_all is_hex_char w \<and> length w \<le> 4 then Some (number 16 w) else None)"

definition read_hextets :: "string list \<Rightarrow> int list option" where
  "read_hextets ws = (let hs = map read_hextet ws in if list_ex (\<lambda>h. h = None) hs then None else Some (map the hs))"

text \<open>The groups of an address: a dotted tail counts as two of them, and one inner empty group stands for
  the missing ones.\<close>

definition read_groups :: "string list \<Rightarrow> int list option" where
  "read_groups parts =
     (let tail = last parts;
          dotted = CHR ''.'' \<in> set tail;
          pair = (if dotted then map_option (\<lambda>a. [uint a div 65536, uint a mod 65536]) (read_v4 tail) else Some []);
          heads = (if dotted then butlast parts else parts);
          n = length heads + (if dotted then 2 else 0);
          empties = filter (\<lambda>i. heads ! i = []) (filter (\<lambda>i. i < length heads) [1..<n - 1])
      in if length parts < 3 \<or> pair = None \<or> n > 9 \<or> length empties > 1 then None
         else case empties of
                [] \<Rightarrow> if n = 8 \<and> hd heads \<noteq> [] \<and> (dotted \<or> last heads \<noteq> [])
                      then map_option (\<lambda>hs. hs @ the pair) (read_hextets heads) else None
              | i # _ \<Rightarrow>
                  let before = (if hd heads = [] then butlast (take i heads) else take i heads);
                      behind = drop (i + 1) heads;
                      after = (if \<not> dotted \<and> last heads = [] then butlast behind else behind);
                      lo = length after + (if dotted then 2 else 0)
                  in if hd heads = [] \<and> i \<noteq> 1 \<or> \<not> dotted \<and> last heads = [] \<and> length behind \<noteq> 1 \<or> length before + lo > 7 then None
                     else case (read_hextets before, read_hextets after) of
                            (Some hs, Some ls) \<Rightarrow> Some (hs @ replicate (8 - (length before + lo)) 0 @ ls @ the pair)
                          | _ \<Rightarrow> None)"

definition read_v6 :: "string \<Rightarrow> ip option" where
  "read_v6 s =
     (let addr = takeWhile (\<lambda>c. c \<noteq> CHR ''%'') s; rest = drop (length addr) s
      in if rest \<noteq> [] \<and> (tl rest = [] \<or> CHR ''%'' \<in> set (tl rest)) \<or> addr = [] \<or> CHR ''/'' \<in> set addr then None
         else map_option (\<lambda>hs. V6 (v6 hs) (if rest = [] then None else Some (tl rest))) (read_groups (split_on CHR '':'' addr)))"

definition ip_address :: "string \<Rightarrow> ip option" where
  "ip_address s = (case read_v4 s of Some a \<Rightarrow> Some (V4 a) | None \<Rightarrow> read_v6 s)"

lemma addresses_read:
  "ip_address ''127.0.0.1'' = Some (V4 0x7F000001)" "ip_address ''010.0.0.1'' = None" "ip_address ''1.2.3'' = None"
  "ip_address ''::1'' = Some (V6 1 None)" "ip_address ''::'' = Some (V6 0 None)"
  "ip_address ''::ffff:10.0.0.1'' = Some (V6 0xFFFF0A000001 None)"
  "ip_address ''fe80::1%eth0'' = Some (V6 0xFE800000000000000000000000000001 (Some ''eth0''))"
  "ip_address ''2001:db8::'' = Some (V6 0x20010DB8000000000000000000000000 None)" "ip_address ''1::2::3'' = None"
  "ip_address ''1:2:3:4:5:6:7:8'' = Some (V6 0x00010002000300040005000600070008 None)" "ip_address '':1::2'' = None"
  "ip_address ''1::2:'' = None" "ip_address ''example.org'' = None"
    by code_simp+

subsection \<open>What a public address is not\<close>

lemma in_net_div:
  fixes a :: "'a::len word"
  shows "in_net b n a \<longleftrightarrow> uint a div 2 ^ (LENGTH('a) - n) = uint b div 2 ^ (LENGTH('a) - n)"
proof -
  have "uint (drop_bit k w) = uint w div 2 ^ k" for k and w :: "'a word"
    by (subst unsigned_drop_bit_eq) (simp add: drop_bit_eq_div bintr_uint)
  then show ?thesis by (simp only: in_net_def word_uint_eq_iff)
qed

text \<open>The two hosts that the table of private networks excepts lie in none of the networks below.\<close>

lemma v4_private_nets:
  assumes "\<not> v4_private a"
  shows "\<not> in_net (v4 0 0 0 0) 8 a" and "\<not> in_net (v4 10 0 0 0) 8 a"
    and "\<not> in_net (v4 172 16 0 0) 12 a" and "\<not> in_net (v4 192 168 0 0) 16 a"
proof -
  have host: "in_net c 32 a \<longleftrightarrow> a = c" for c :: "32 word"
    by (simp add: in_net_def)
  have excepted: "a = v4 192 0 0 9 \<or> a = v4 192 0 0 10"
    if "in_net (v4 0 0 0 0) 8 a \<or> in_net (v4 10 0 0 0) 8 a \<or> in_net (v4 172 16 0 0) 12 a \<or> in_net (v4 192 168 0 0) 16 a"
    using that assms unfolding v4_private_def list_ex_Cons_iff prod.case host by (elim disjE) simp_all
  have apart: "\<not> in_net b n (v4 192 0 0 9) \<and> \<not> in_net b n (v4 192 0 0 10)"
    if "b = v4 0 0 0 0 \<and> n = 8 \<or> b = v4 10 0 0 0 \<and> n = 8 \<or> b = v4 172 16 0 0 \<and> n = 12 \<or> b = v4 192 168 0 0 \<and> n = 16" for b n
  proof -
    have "\<not> in_net (v4 0 0 0 0) 8 (v4 192 0 0 9)" "\<not> in_net (v4 0 0 0 0) 8 (v4 192 0 0 10)"
      "\<not> in_net (v4 10 0 0 0) 8 (v4 192 0 0 9)" "\<not> in_net (v4 10 0 0 0) 8 (v4 192 0 0 10)"
      "\<not> in_net (v4 172 16 0 0) 12 (v4 192 0 0 9)" "\<not> in_net (v4 172 16 0 0) 12 (v4 192 0 0 10)"
      "\<not> in_net (v4 192 168 0 0) 16 (v4 192 0 0 9)" "\<not> in_net (v4 192 168 0 0) 16 (v4 192 0 0 10)"
      by code_simp+
    then show ?thesis using that by blast
  qed
  show "\<not> in_net (v4 0 0 0 0) 8 a" "\<not> in_net (v4 10 0 0 0) 8 a" "\<not> in_net (v4 172 16 0 0) 12 a" "\<not> in_net (v4 192 168 0 0) 16 a"
    using excepted apart by blast+
qed

lemma v4_net_values:
  fixes a :: "32 word"
  shows "in_net (v4 127 0 0 0) 8 a \<longleftrightarrow> uint a div 2 ^ 24 = 127" "in_net (v4 169 254 0 0) 16 a \<longleftrightarrow> uint a div 2 ^ 16 = 169 * 256 + 254"
    "in_net (v4 224 0 0 0) 4 a \<longleftrightarrow> uint a div 2 ^ 28 = 14" "in_net (v4 240 0 0 0) 4 a \<longleftrightarrow> uint a div 2 ^ 28 = 15"
    "in_net (v4 0 0 0 0) 8 a \<longleftrightarrow> uint a div 2 ^ 24 = 0" "in_net (v4 10 0 0 0) 8 a \<longleftrightarrow> uint a div 2 ^ 24 = 10"
    "in_net (v4 172 16 0 0) 12 a \<longleftrightarrow> uint a div 2 ^ 20 = 172 * 16 + 1" "in_net (v4 192 168 0 0) 16 a \<longleftrightarrow> uint a div 2 ^ 16 = 192 * 256 + 168"
  by (simp_all add: in_net_div v4_def)

text \<open>As numbers: no public IPv4 address is unspecified, private, loopback, link-local, multicast or reserved.\<close>

lemma v4_public_ranges:
  assumes "v4_public a"
  shows "uint a div 2 ^ 24 \<notin> {0, 10, 127}" and "uint a div 2 ^ 16 \<notin> {169 * 256 + 254, 192 * 256 + 168}"
    and "uint a div 2 ^ 20 \<noteq> 172 * 16 + 1" and "uint a < 224 * 2 ^ 24"
proof -
  have "\<not> in_net (v4 127 0 0 0) 8 a" "\<not> in_net (v4 169 254 0 0) 16 a" "\<not> in_net (v4 224 0 0 0) 4 a" "\<not> in_net (v4 240 0 0 0) 4 a"
    "\<not> v4_private a"
    using assms unfolding v4_public_def by blast+
  note n = this(1-4) [unfolded v4_net_values] v4_private_nets [OF this(5), unfolded v4_net_values]
  show "uint a div 2 ^ 24 \<notin> {0, 10, 127}" using n(1,5,6) by blast
  show "uint a div 2 ^ 16 \<notin> {169 * 256 + 254, 192 * 256 + 168}" using n(2,8) by blast
  show "uint a div 2 ^ 20 \<noteq> 172 * 16 + 1" by (rule n(7))
  have "uint a < 2 ^ 32" using uint_lt2p [of a] by simp
  with n(3,4) show "uint a < 224 * 2 ^ 24" by simp
qed

text \<open>The shared address space 100.64.0.0/10 of RFC 6598, which the predicates of \<open>ipaddress\<close> do not name, passes: every
  network they name lies outside.\<close>

definition apart_from :: "int \<Rightarrow> int \<Rightarrow> 32 word \<times> nat \<Rightarrow> bool" where
  "apart_from lo hi bn = (case bn of (b, n) \<Rightarrow>
     (let k = 2 ^ (32 - n); first = uint b div k * k in first + k \<le> lo \<or> hi \<le> first))"

lemma apart_from_net:
  assumes "apart_from lo hi (b, n)" and "lo \<le> uint a" and "uint a < hi"
  shows "\<not> in_net b n a"
proof
  assume "in_net b n a"
  then have eq: "uint b div 2 ^ (32 - n) = uint a div 2 ^ (32 - n)" by (simp add: in_net_div)
  have k: "0 < (2::int) ^ (32 - n)" by simp
  have "uint a div 2 ^ (32 - n) * 2 ^ (32 - n) \<le> uint a" "uint a < uint a div 2 ^ (32 - n) * 2 ^ (32 - n) + 2 ^ (32 - n)"
    using div_mult_mod_eq [of "uint a" "2 ^ (32 - n)"] pos_mod_bound [OF k, of "uint a"] pos_mod_sign [OF k, of "uint a"]
    by linarith+
  with assms eq show False by (auto simp: apart_from_def Let_def)
qed

lemma apart_from_nets:
  assumes "list_all (apart_from lo hi) nets" and "lo \<le> uint a" and "uint a < hi"
  shows "\<not> list_ex (\<lambda>(b, n). in_net b n a) nets"
  using assms apart_from_net by (fastforce simp: list_all_iff list_ex_iff)

lemma shared_space_public:
  assumes "in_net (v4 100 64 0 0) 10 a"
  shows "v4_public a"
proof -
  have "uint (v4 100 64 0 0) div 2 ^ 22 = 401" by code_simp
  then have "uint a div 2 ^ 22 = 401" using assms by (simp add: in_net_div)
  then have a: "401 * 2 ^ 22 \<le> uint a" "uint a < 402 * 2 ^ 22" by simp_all
  note net = apart_from_net [OF _ a]
  have "apart_from (401 * 2 ^ 22) (402 * 2 ^ 22) (v4 127 0 0 0, 8)" "apart_from (401 * 2 ^ 22) (402 * 2 ^ 22) (v4 169 254 0 0, 16)"
    "apart_from (401 * 2 ^ 22) (402 * 2 ^ 22) (v4 224 0 0 0, 4)" "apart_from (401 * 2 ^ 22) (402 * 2 ^ 22) (v4 240 0 0 0, 4)"
    by code_simp+
  moreover have "\<not> v4_private a"
  proof -
    have "list_all (apart_from (401 * 2 ^ 22) (402 * 2 ^ 22))
       [(v4 0 0 0 0, 8), (v4 10 0 0 0, 8), (v4 127 0 0 0, 8), (v4 169 254 0 0, 16), (v4 172 16 0 0, 12), (v4 192 0 0 0, 24),
        (v4 192 0 0 170, 31), (v4 192 0 2 0, 24), (v4 192 168 0 0, 16), (v4 198 18 0 0, 15), (v4 198 51 100 0, 24),
        (v4 203 0 113 0, 24), (v4 240 0 0 0, 4), (v4 255 255 255 255, 32)]" by code_simp
    then show ?thesis unfolding v4_private_def using apart_from_nets [OF _ a] by blast
  qed
  moreover have "a \<noteq> 0" using a(1) by auto
  ultimately show ?thesis unfolding v4_public_def using net by blast
qed

subsection \<open>URLs\<close>

datatype url_error = BadBrackets | BadPort

record url =
  u_scheme :: string
  u_netloc :: string
  u_path :: string
  u_params :: string
  u_query :: string
  u_fragment :: string

text \<open>\<open>s.partition(c)\<close>: the text before, whether \<open>c\<close> occurs, and the text behind.\<close>

definition partition_on :: "char \<Rightarrow> string \<Rightarrow> string \<times> bool \<times> string" where
  "partition_on c s = (let w = takeWhile (\<lambda>d. d \<noteq> c) s in (w, w \<noteq> s, drop (length w + 1) s))"

text \<open>\<open>s[:n]\<close>.\<close>

definition clip :: "int \<Rightarrow> string \<Rightarrow> string" where
  "clip n s = (if int (length s) \<le> n then s else take (nat n) s)"

definition after_last :: "char \<Rightarrow> string \<Rightarrow> string" where
  "after_last c s = rev (takeWhile (\<lambda>d. d \<noteq> c) (rev s))"

definition control_or_space :: "char \<Rightarrow> bool" where
  "control_or_space c \<longleftrightarrow> (of_char c :: nat) \<le> 32"

definition scheme_char :: "char \<Rightarrow> bool" where
  "scheme_char c \<longleftrightarrow> is_alnum c \<or> c \<in> set ''+-.''"

definition clean_url :: "string \<Rightarrow> string" where
  "clean_url s = filter (\<lambda>c. (of_char c :: nat) \<notin> {9, 10, 13}) (dropWhile control_or_space s)"

definition split_scheme :: "string \<Rightarrow> string \<times> string" where
  "split_scheme s =
     (case partition_on CHR '':'' s of (w, found, rest) \<Rightarrow>
        if found \<and> w \<noteq> [] \<and> is_alnum (hd w) \<and> \<not> is_digit (hd w) \<and> list_all scheme_char w then (lower w, rest) else ([], s))"

text \<open>The bracketed part of a network location must be an IPv6 address or a future version.\<close>

definition future_ip :: rx where
  "future_ip = rx_seq [lit ''v'', rx_at_least 1 (Chars is_hex_char), lit ''.'', rx_at_least 1 (Chars (\<lambda>c. (of_char c :: nat) \<noteq> 10))]"

definition brackets_ok :: "string \<Rightarrow> bool" where
  "brackets_ok loc =
     (case (partition_on CHR ''['' loc, CHR '']'' \<in> set loc) of
        ((_, False, _), shut) \<Rightarrow> \<not> shut
      | ((_, True, rest), shut) \<Rightarrow>
          shut \<and> (let host = fst (partition_on CHR '']'' rest)
                    in if prefix ''v'' host then list_ex (\<lambda>y. snd y = []) (rx_ends future_ip (None, host))
                       else case ip_address host of Some (V6 _ _) \<Rightarrow> True | _ \<Rightarrow> False))"

definition split_netloc :: "string \<Rightarrow> string \<times> string" where
  "split_netloc s =
     (if prefix ''//'' s then let loc = takeWhile (\<lambda>c. c \<notin> set ''/?#'') (drop 2 s) in (loc, drop (2 + length loc) s) else ([], s))"

definition split_params :: "string \<Rightarrow> string \<times> string" where
  "split_params path =
     (let last = after_last CHR ''/'' path
      in case partition_on CHR '';'' last of (w, found, ps) \<Rightarrow>
           if found then (take (length path - length last) path @ w, ps) else (path, []))"

definition urlparse :: "string \<Rightarrow> url_error + url" where
  "urlparse s =
     (let (scheme, r1) = split_scheme (clean_url s);
          (loc, r2) = split_netloc r1;
          (r3, _, frag) = partition_on CHR ''#'' r2;
          (r4, _, query) = partition_on CHR ''?'' r3;
          (path, params) = (if scheme \<in> {''http'', ''https'', ''ftp'', ''hdl'', ''prospero'', ''sftp'', ''sip'', ''sips'', ''mms'', ''imap'', ''shttp'', ''rtsp'', ''rtspu'', ''tel'', []}
                            then split_params r4 else (r4, []))
      in if prefix ''//'' r1 \<and> \<not> brackets_ok loc then Inl BadBrackets
         else Inr \<lparr>u_scheme = scheme, u_netloc = loc, u_path = path, u_params = params, u_query = query, u_fragment = frag\<rparr>)"

definition host_info :: "string \<Rightarrow> string \<times> string" where
  "host_info loc =
     (let info = after_last CHR ''@'' loc
      in case partition_on CHR ''['' info of
           (_, True, rest) \<Rightarrow> (fst (partition_on CHR '']'' rest), snd (snd (partition_on CHR '':'' (snd (snd (partition_on CHR '']'' rest))))))
         | _ \<Rightarrow> (case partition_on CHR '':'' info of (h, _, port) \<Rightarrow> (h, port)))"

text \<open>\<open>parsed.hostname or ""\<close>.\<close>

definition hostname :: "url \<Rightarrow> string" where
  "hostname u =
     (case partition_on CHR ''%'' (fst (host_info (u_netloc u))) of
        (h, found, zone) \<Rightarrow> lower h @ (if found then ''%'' @ zone else []))"

definition url_port :: "url \<Rightarrow> url_error + int option" where
  "url_port u =
     (let port = snd (host_info (u_netloc u))
      in if port = [] then Inr None
         else if list_all is_digit port \<and> number 10 port \<le> 65535 then Inr (Some (number 10 port))
         else Inl BadPort)"

lemma urls_parsed:
  "map_sum id (\<lambda>u. (u_scheme u, hostname u, u_path u, u_params u, u_query u, url_port u)) (urlparse ''HTTPS://u:p@Example.org:8443/a;b?q=1#f'') =
     Inr (''https'', ''example.org'', ''/a'', ''b'', ''q=1'', Inr (Some 8443))"
  "map_sum id (\<lambda>u. (hostname u, url_port u)) (urlparse ''http://[::1]:80/'') = Inr (''::1'', Inr (Some 80))"
  "map_sum id (\<lambda>u. ()) (urlparse ''http://[127.0.0.1]/'') = Inl BadBrackets"
  "map_sum id hostname (urlparse ''http:127.0.0.1'') = Inr []"
  by code_simp+

end
