(* ===== verification/Web_Fetch.thy ===== *)
theory Web_Fetch
  imports Web_Address Py_Substitute
begin

text \<open>
  Models \<open>web.fetch\<close> of \<open>python/tom/tools/web.py\<close>: the validation of a request, the resolution of hosts, the
  loop over redirects with its connection attempts, and the response. What the network does is an argument:
  the answers of the resolver and of the HTTP client at each hop, and whether the deadline has passed; a
  cut by the surrounding time-out is a time-out of the client. Decoding, \<open>urljoin\<close>, the text form of an address and
  the HTML parser are arguments too: nothing below depends on what they do. With every hop comes the list of
  the requests that were sent.
\<close>

subsection \<open>Requests\<close>

datatype fetch_error = Blocked | FetchFailed | BadUrl | InvalidResponse

text \<open>\<open>FetchRequest\<close> without its time limit, which the network argument decides.\<close>

record fetch_request =
  fr_url :: string
  fr_max_bytes :: nat
  fr_max_redirects :: nat
  fr_types :: "string list"

definition default_types :: "string list" where
  "default_types = [''text/html'', ''text/plain'', ''text/markdown'', ''application/xhtml+xml'', ''application/xml'']"

text \<open>Every address that the resolver returns must be public.\<close>

fun public_addresses :: "string list \<Rightarrow> fetch_error + ip list" where
  "public_addresses [] = Inr []"
| "public_addresses (s # ss) =
     (case ip_address s of
        None \<Rightarrow> Inl Blocked
      | Some a \<Rightarrow> if \<not> is_public_ip a then Inl Blocked
                 else case public_addresses ss of Inl e \<Rightarrow> Inl e | Inr as \<Rightarrow> Inr (a # as))"

definition resolve_public :: "(string \<Rightarrow> string list option) \<Rightarrow> string \<Rightarrow> fetch_error + ip list" where
  "resolve_public dns host =
     (let h = strip host;
          clean = (if prefix ''['' h \<and> suffix '']'' h then butlast (tl h) else h)
      in if h = [] then Inl Blocked
         else case ip_address clean of
                Some a \<Rightarrow> if is_public_ip a then Inr [a] else Inl Blocked
              | None \<Rightarrow> (case dns clean of
                          None \<Rightarrow> Inl Blocked
                        | Some infos \<Rightarrow> if infos = [] then Inl Blocked else public_addresses infos))"

definition is_public_host :: "(string \<Rightarrow> string list option) \<Rightarrow> string \<Rightarrow> bool" where
  "is_public_host dns host = (case resolve_public dns host of Inl _ \<Rightarrow> False | Inr _ \<Rightarrow> True)"

definition web_schemes :: "string list" where "web_schemes = [''http'', ''https'']"

definition validate_url :: "(string \<Rightarrow> string list option) \<Rightarrow> string \<Rightarrow> string option" where
  "validate_url dns value =
     (let s = strip value
      in if value = [] \<or> 2048 < int (length value) \<or> s = [] \<or> 2048 < int (length s) then None
         else case urlparse s of
                Inl _ \<Rightarrow> None
              | Inr u \<Rightarrow> if u_scheme u \<notin> set web_schemes \<or> u_netloc u = [] \<or> \<not> is_public_host dns (hostname u) then None else Some s)"

definition check_request :: "(string \<Rightarrow> string list option) \<Rightarrow> fetch_request \<Rightarrow> fetch_request option" where
  "check_request dns r =
     (if fr_max_bytes r < 1 \<or> 10485760 < int (fr_max_bytes r) \<or> 20 < fr_max_redirects r then None
      else map_option (\<lambda>s. r\<lparr>fr_url := s\<rparr>) (validate_url dns (fr_url r)))"

subsection \<open>One hop\<close>

record http_request =
  hq_ip :: ip
  hq_port :: "int option"
  hq_scheme :: string
  hq_target :: string
  hq_host :: string
  hq_sni :: "string option"

record http_response =
  hp_status :: int
  hp_length :: "string option"
  hp_type :: "string option"
  hp_location :: "string option"
  hp_chunks :: "string list"

datatype http_outcome = Response http_response | ConnectFails | TlsFails | TimesOut | HttpFails

record network =
  net_dns :: "nat \<Rightarrow> string \<Rightarrow> string list option"
  net_http :: "nat \<Rightarrow> http_request \<Rightarrow> http_outcome"
  net_late :: "nat \<Rightarrow> nat \<Rightarrow> bool"
  net_join :: "string \<Rightarrow> string \<Rightarrow> string"
  net_show :: "ip \<Rightarrow> string"
  net_number :: "int \<Rightarrow> string"
  net_decode :: "string \<Rightarrow> string"
  net_soup :: "string \<Rightarrow> (string \<times> string \<times> string) option"

definition max_addresses :: nat where "max_addresses = 3"

fun is_v6 :: "ip \<Rightarrow> bool" where
  "is_v6 (V4 _) = False"
| "is_v6 (V6 _ _) = True"

definition bracketed :: "string \<Rightarrow> string" where "bracketed s = ''['' @ s @ '']''"

definition host_name :: "network \<Rightarrow> string \<Rightarrow> ip \<Rightarrow> string" where
  "host_name net host first =
     (let shown = net_show net first
      in if is_v6 first \<and> (host = shown \<or> host = bracketed shown) then bracketed shown else host)"

definition host_header :: "network \<Rightarrow> url \<Rightarrow> int option \<Rightarrow> string \<Rightarrow> string" where
  "host_header net u port name =
     (case port of
        Some n \<Rightarrow> if n \<noteq> (if u_scheme u = ''https'' then 443 else 80) then name @ '':'' @ net_number net n else name
      | None \<Rightarrow> name)"

definition target_of :: "url \<Rightarrow> string" where
  "target_of u =
     (if u_path u = [] then ''/'' else u_path u) @ (if u_params u = [] then [] else '';'' @ u_params u) @
     (if u_query u = [] then [] else ''?'' @ u_query u) @ (if u_fragment u = [] then [] else ''#'' @ u_fragment u)"

definition request_to :: "network \<Rightarrow> url \<Rightarrow> int option \<Rightarrow> string \<Rightarrow> ip \<Rightarrow> http_request" where
  "request_to net u port name a =
     \<lparr>hq_ip = a, hq_port = (if port = Some 0 then None else port), hq_scheme = u_scheme u, hq_target = target_of u,
      hq_host = host_header net u port name, hq_sni = (if u_scheme u = ''https'' then Some name else None)\<rparr>"

text \<open>The validated addresses in order; only a failure to connect tries the next one.\<close>

fun try_addresses :: "network \<Rightarrow> nat \<Rightarrow> nat \<Rightarrow> (ip \<Rightarrow> http_request) \<Rightarrow> ip list \<Rightarrow> (fetch_error + http_response) \<times> http_request list" where
  "try_addresses net hop k build [] = (Inl FetchFailed, [])"
| "try_addresses net hop k build (a # as) =
     (if net_late net hop (k + 1) then (Inl FetchFailed, [])
      else case net_http net hop (build a) of
             Response r \<Rightarrow> (Inr r, [build a])
           | ConnectFails \<Rightarrow> (case try_addresses net hop (k + 1) build as of (res, sent) \<Rightarrow> (res, build a # sent))
           | _ \<Rightarrow> (Inl FetchFailed, [build a]))"

definition connect_hop :: "network \<Rightarrow> nat \<Rightarrow> string \<Rightarrow> (fetch_error + http_response) \<times> http_request list" where
  "connect_hop net hop link =
     (if net_late net hop 0 then (Inl FetchFailed, [])
      else case urlparse link of
             Inl _ \<Rightarrow> (Inl BadUrl, [])
           | Inr u \<Rightarrow>
               if u_scheme u \<notin> set web_schemes \<or> hostname u = [] then (Inl Blocked, [])
               else case resolve_public (net_dns net hop) (hostname u) of
                      Inl e \<Rightarrow> (Inl e, [])
                    | Inr ips \<Rightarrow>
                        (case url_port u of
                           Inl _ \<Rightarrow> (Inl BadUrl, [])
                         | Inr port \<Rightarrow>
                             let targets = take max_addresses ips
                             in try_addresses net hop 0 (request_to net u port (host_name net (hostname u) (hd targets))) targets))"

subsection \<open>The response\<close>

definition py_int :: "string \<Rightarrow> int option" where
  "py_int s =
     (let t = strip s;
          neg = prefix ''-'' t;
          ds = (if neg \<or> prefix ''+'' t then tl t else t);
          parts = split_on CHR ''_'' ds
      in if list_all (\<lambda>w. w \<noteq> [] \<and> list_all is_digit w) parts then Some ((if neg then - 1 else 1) * number 10 (concat parts)) else None)"

fun read_body :: "nat \<Rightarrow> string \<Rightarrow> string list \<Rightarrow> string option" where
  "read_body limit body [] = Some body"
| "read_body limit body (c # cs) = (if limit < length (body @ c) then None else read_body limit (body @ c) cs)"

definition content_type_of :: "http_response \<Rightarrow> string" where
  "content_type_of r = (case hp_type r of None \<Rightarrow> [] | Some t \<Rightarrow> lower (strip (takeWhile (\<lambda>c. c \<noteq> CHR '';'') t)))"

definition text_limit :: int where "text_limit = 1000000"

definition blank_lines :: rx where "blank_lines = rx_at_least 3 (Chars (\<lambda>c. (of_char c :: nat) = 10))"

definition two_newlines :: string where "two_newlines = [char_of (10::nat), char_of (10::nat)]"

definition extract_html :: "network \<Rightarrow> string \<Rightarrow> string \<times> string" where
  "extract_html net html =
     (case net_soup net html of
        None \<Rightarrow> (clip text_limit html, [])
      | Some (raw, title, meta) \<Rightarrow>
          let collapsed = strip (rx_sub [blank_lines] (\<lambda>_. two_newlines) raw);
              full = (if meta \<noteq> [] \<and> (length collapsed < 200 \<or> \<not> sublist (take 50 meta) collapsed)
                      then strip (''Summary: '' @ meta @ two_newlines @ collapsed) else collapsed)
          in (clip text_limit full, clip 500 title))"

definition extract_content :: "network \<Rightarrow> string \<Rightarrow> string \<Rightarrow> string \<times> string" where
  "extract_content net body ctype =
     (let s = net_decode net body
      in if strip s = [] then ([], [])
         else if ctype \<in> {''text/html'', ''application/xhtml+xml''} then extract_html net s
         else (clip text_limit s, []))"

record fetch_response =
  fp_url :: string
  fp_final :: string
  fp_status :: int
  fp_type :: string
  fp_length :: nat
  fp_text :: string
  fp_title :: string
  fp_redirects :: nat

definition check_response :: "fetch_response \<Rightarrow> fetch_error + fetch_response" where
  "check_response r =
     (if fp_url r \<noteq> [] \<and> int (length (fp_url r)) \<le> 2048 \<and> fp_final r \<noteq> [] \<and> int (length (fp_final r)) \<le> 2048 \<and>
         100 \<le> fp_status r \<and> fp_status r \<le> 599 \<and> int (length (fp_type r)) \<le> 255 \<and> int (length (fp_text r)) \<le> 1000000 \<and> int (length (fp_title r)) \<le> 500
      then Inr r else Inl InvalidResponse)"

datatype hop_result = Redirected string | Finished fetch_response

definition judge_response :: "network \<Rightarrow> fetch_request \<Rightarrow> nat \<Rightarrow> string \<Rightarrow> http_response \<Rightarrow> fetch_error + hop_result" where
  "judge_response net req count link r =
     (case (case hp_length r of None \<Rightarrow> Some 0 | Some [] \<Rightarrow> Some 0 | Some s \<Rightarrow> py_int s) of
        None \<Rightarrow> Inl BadUrl
      | Some n \<Rightarrow>
          if int (fr_max_bytes req) < n then Inl FetchFailed
          else case read_body (fr_max_bytes req) [] (hp_chunks r) of
                 None \<Rightarrow> Inl FetchFailed
               | Some body \<Rightarrow>
                   let ctype = content_type_of r
                   in if ctype \<noteq> [] \<and> ctype \<notin> set (fr_types req) then Inl FetchFailed
                      else if 300 \<le> hp_status r \<and> hp_status r < 400 \<and> hp_location r \<noteq> None
                        then if fr_max_redirects req < count + 1 then Inl FetchFailed
                             else Inr (Redirected (net_join net link (the (hp_location r))))
                      else case extract_content net body ctype of (txt, title) \<Rightarrow>
                             map_sum id Finished (check_response
                               \<lparr>fp_url = fr_url req, fp_final = link, fp_status = hp_status r, fp_type = ctype, fp_length = length body,
                                fp_text = txt, fp_title = title, fp_redirects = count\<rparr>))"

text \<open>The loop, with the hops that are left.\<close>

fun fetch_hops :: "network \<Rightarrow> fetch_request \<Rightarrow> nat \<Rightarrow> nat \<Rightarrow> string \<Rightarrow> (fetch_error + fetch_response) \<times> http_request list" where
  "fetch_hops net req 0 count link = (Inl FetchFailed, [])"
| "fetch_hops net req (Suc left) count link =
     (case connect_hop net count link of
        (Inl e, sent) \<Rightarrow> (Inl e, sent)
      | (Inr r, sent) \<Rightarrow>
          (case judge_response net req count link r of
             Inl e \<Rightarrow> (Inl e, sent)
           | Inr (Finished resp) \<Rightarrow> (Inr resp, sent)
           | Inr (Redirected next) \<Rightarrow>
               (case fetch_hops net req left (count + 1) next of (res, later) \<Rightarrow> (res, sent @ later))))"

definition web_fetch :: "network \<Rightarrow> fetch_request \<Rightarrow> (fetch_error + fetch_response) \<times> http_request list" where
  "web_fetch net req = fetch_hops net req (fr_max_redirects req + 1) 0 (fr_url req)"

subsection \<open>What is resolved\<close>

lemma public_addresses_Inr: "public_addresses ss = Inr as \<Longrightarrow> map ip_address ss = map Some as \<and> list_all is_public_ip as"
  by (induction ss arbitrary: as) (auto split: option.splits sum.splits if_splits)

lemma resolve_public_Inr:
  assumes "resolve_public dns host = Inr ips"
  shows "ips \<noteq> []" and "list_all is_public_ip ips"
proof -
  have "public_addresses infos = Inr [] \<Longrightarrow> infos = []" for infos by (cases infos) (auto split: option.splits sum.splits if_splits)
  then show "ips \<noteq> []" "list_all is_public_ip ips"
    using assms public_addresses_Inr by (auto simp: resolve_public_def Let_def split: option.splits if_splits)
qed

text \<open>One bad answer of the resolver blocks the host.\<close>

lemma bad_answer_blocks:
  assumes "ip_address (strip host) = None" and "\<not> prefix ''['' (strip host)" and "dns (strip host) = Some infos"
    and "s \<in> set infos" and "\<forall>a. ip_address s = Some a \<longrightarrow> \<not> is_public_ip a"
  shows "resolve_public dns host = Inl Blocked"
proof -
  have "public_addresses infos = Inl Blocked"
    using assms(4,5) by (induction infos) (auto split: option.splits sum.splits)
  then show ?thesis using assms(1-4) by (auto simp: resolve_public_def Let_def)
qed

subsection \<open>What is sent\<close>

lemma try_addresses_sent:
  assumes "try_addresses net hop k build as = (res, sent)"
  shows "set sent \<subseteq> build ` set as" and "length sent \<le> length as"
  using assms by (induction net hop k build as arbitrary: res sent rule: try_addresses.induct)
    (fastforce split: if_splits http_outcome.splits prod.splits)+

text \<open>A request goes to one of the addresses that its host was resolved to in the same hop.\<close>

definition pinned :: "network \<Rightarrow> nat \<Rightarrow> http_request \<Rightarrow> bool" where
  "pinned net hop rq \<longleftrightarrow>
     hq_scheme rq \<in> set web_schemes \<and>
     (\<exists>host ips. resolve_public (net_dns net hop) host = Inr ips \<and> host \<noteq> [] \<and> hq_ip rq \<in> set (take max_addresses ips) \<and>
        (\<forall>name. hq_sni rq = Some name \<longrightarrow> name = host \<or> name = bracketed (net_show net (hd ips))))"

lemma connect_hop_sent:
  assumes "connect_hop net hop link = (res, sent)"
  shows "\<forall>rq \<in> set sent. pinned net hop rq" and "length sent \<le> max_addresses"
proof -
  have "(\<forall>rq \<in> set sent. pinned net hop rq) \<and> length sent \<le> max_addresses"
  proof (cases "sent = []")
    case False
    then obtain u ips port where u: "urlparse link = Inr u" "u_scheme u \<in> set web_schemes" "hostname u \<noteq> []"
      "resolve_public (net_dns net hop) (hostname u) = Inr ips" "url_port u = Inr port"
      and attempt: "try_addresses net hop 0 (request_to net u port (host_name net (hostname u) (hd (take max_addresses ips)))) (take max_addresses ips) = (res, sent)"
      using assms by (auto simp: connect_hop_def Let_def split: if_splits sum.splits)
    have hd: "hd (take max_addresses ips) = hd ips" using resolve_public_Inr(1) [OF u(4)] by (simp add: max_addresses_def)
    have "pinned net hop rq" if "rq \<in> set sent" for rq
    proof -
      obtain a where "a \<in> set (take max_addresses ips)" "rq = request_to net u port (host_name net (hostname u) (hd ips)) a"
        using try_addresses_sent(1) [OF attempt] \<open>rq \<in> set sent\<close> unfolding hd by blast
      with u show ?thesis unfolding pinned_def
        by (intro conjI exI [of _ "hostname u"] exI [of _ ips]) (auto simp: request_to_def host_name_def Let_def split: if_splits)
    qed
    moreover have "length sent \<le> max_addresses" using try_addresses_sent(2) [OF attempt] by simp
    ultimately show ?thesis by blast
  qed simp
  then show "\<forall>rq \<in> set sent. pinned net hop rq" "length sent \<le> max_addresses" by blast+
qed

lemma fetch_hops_sent:
  "fetch_hops net req left count link = (res, sent) \<Longrightarrow>
   (\<forall>rq \<in> set sent. \<exists>hop. count \<le> hop \<and> hop < count + left \<and> pinned net hop rq) \<and> length sent \<le> max_addresses * left"
proof (induction left arbitrary: count link res sent)
  case (Suc left)
  obtain first s1 where c: "connect_hop net count link = (first, s1)" by force
  note s1 = connect_hop_sent [OF c]
  show ?case
  proof (cases "sent = s1")
    case True
    with s1 show ?thesis by (auto simp: max_addresses_def intro!: exI [of _ count])
  next
    case False
    then obtain r next_link s2 where r: "first = Inr r" "judge_response net req count link r = Inr (Redirected next_link)"
      "fetch_hops net req left (count + 1) next_link = (res, s2)" "sent = s1 @ s2"
      using Suc.prems c by (auto split: sum.splits hop_result.splits prod.splits)
    from Suc.IH [OF r(3)] have s2: "\<And>rq. rq \<in> set s2 \<Longrightarrow> \<exists>hop. count \<le> hop \<and> hop < count + Suc left \<and> pinned net hop rq"
      "length s2 \<le> max_addresses * left"
    proof -
      show "\<exists>hop. count \<le> hop \<and> hop < count + Suc left \<and> pinned net hop rq" if "rq \<in> set s2" for rq
      proof -
        obtain hop where "count + 1 \<le> hop" "hop < count + 1 + left" "pinned net hop rq" using Suc.IH [OF r(3)] \<open>rq \<in> set s2\<close> by blast
        then show ?thesis by (intro exI [of _ hop]) simp
      qed
    qed blast
    have "\<exists>hop. count \<le> hop \<and> hop < count + Suc left \<and> pinned net hop rq" if "rq \<in> set sent" for rq
      using that r(4) s1(1) s2(1) by (auto intro: exI [of _ count])
    with s1(2) s2(2) r(4) show ?thesis by simp
  qed
qed simp

lemma judge_finished:
  assumes "judge_response net req count link r = Inr (Finished resp)"
  shows "fp_length resp \<le> fr_max_bytes req" and "fp_redirects resp = count" and "fp_type resp = [] \<or> fp_type resp \<in> set (fr_types req)"
    and "check_response resp = Inr resp"
proof -
  have body: "read_body limit acc cs = Some b \<Longrightarrow> length acc \<le> limit \<Longrightarrow> length b \<le> limit" for limit acc cs b
    by (induction limit acc cs rule: read_body.induct) (auto split: if_splits)
  obtain b words title where b: "read_body (fr_max_bytes req) [] (hp_chunks r) = Some b" "content_type_of r = [] \<or> content_type_of r \<in> set (fr_types req)"
    "check_response \<lparr>fp_url = fr_url req, fp_final = link, fp_status = hp_status r, fp_type = content_type_of r, fp_length = length b,
       fp_text = words, fp_title = title, fp_redirects = count\<rparr> = Inr resp"
    using assms by (auto simp: judge_response_def Let_def map_sum_def split: option.splits if_splits prod.splits sum.splits)
  have resp: "resp = \<lparr>fp_url = fr_url req, fp_final = link, fp_status = hp_status r, fp_type = content_type_of r, fp_length = length b,
       fp_text = words, fp_title = title, fp_redirects = count\<rparr>" "check_response resp = Inr resp"
    using b(3) by (auto simp: check_response_def split: if_splits)
  show "fp_length resp \<le> fr_max_bytes req" using body [OF b(1)] resp(1) by simp
  show "fp_redirects resp = count" "fp_type resp = [] \<or> fp_type resp \<in> set (fr_types req)" using resp(1) b(2) by simp_all
  show "check_response resp = Inr resp" by (rule resp(2))
qed

lemma fetch_hops_finished:
  "fetch_hops net req left count link = (Inr resp, sent) \<Longrightarrow>
   fp_length resp \<le> fr_max_bytes req \<and> fp_redirects resp < count + left \<and> check_response resp = Inr resp \<and>
   (fp_type resp = [] \<or> fp_type resp \<in> set (fr_types req))"
proof (induction left arbitrary: count link sent)
  case (Suc left)
  obtain r s1 where c: "connect_hop net count link = (Inr r, s1)"
    using Suc.prems by (auto split: sum.splits prod.splits)
  show ?case
  proof (cases "judge_response net req count link r")
    case (Inr h)
    then show ?thesis
    proof (cases h)
      case (Finished x)
      with Inr Suc.prems c judge_finished [of net req count link r resp] show ?thesis by simp
    next
      case (Redirected next_link)
      then obtain s2 where "fetch_hops net req left (count + 1) next_link = (Inr resp, s2)"
        using Inr Suc.prems c by (auto split: prod.splits)
      from Suc.IH [OF this] show ?thesis by simp
    qed
  qed (use Suc.prems c in simp)
qed simp

subsection \<open>Properties\<close>

text \<open>C27: A fetch never leaves the public internet: every request that is sent, also after redirects and when
  the resolver changes its answers between two calls, goes over HTTP or HTTPS to one of at most three
  addresses the host was resolved to in that same hop, all of which are public, and at most three
  requests are sent per permitted hop. A public IPv4 address is in none of the private, loopback,
  link-local, multicast and reserved ranges, also when it is written as a mapped IPv6 address.\<close>

theorem fetch_stays_public:
  assumes "web_fetch net req = (res, sent)"
  shows "(\<forall>rq \<in> set sent. is_public_ip (hq_ip rq) \<and> (\<exists>hop \<le> fr_max_redirects req. pinned net hop rq)) \<and>
    length sent \<le> 3 * (fr_max_redirects req + 1) \<and>
    (\<forall>rq \<in> set sent. \<forall>a. hq_ip rq = V4 a \<or> (\<exists>b z. hq_ip rq = V6 b z \<and> ipv4_mapped b = Some a) \<longrightarrow>
       uint a div 2 ^ 24 \<notin> {0, 10, 127} \<and> uint a div 2 ^ 16 \<notin> {169 * 256 + 254, 192 * 256 + 168} \<and>
       uint a div 2 ^ 20 \<noteq> 172 * 16 + 1 \<and> uint a < 224 * 2 ^ 24)"
proof -
  have sent: "(\<forall>rq \<in> set sent. \<exists>hop. 0 \<le> hop \<and> hop < 0 + (fr_max_redirects req + 1) \<and> pinned net hop rq)"
    "length sent \<le> max_addresses * (fr_max_redirects req + 1)"
    using fetch_hops_sent [OF assms [unfolded web_fetch_def]] by blast+
  have pub: "is_public_ip (hq_ip rq)" if "rq \<in> set sent" for rq
    using sent(1) that resolve_public_Inr(2) unfolding pinned_def list_all_iff by (meson in_set_takeD)
  have "v4_public a" if "rq \<in> set sent" "hq_ip rq = V4 a \<or> (\<exists>b z. hq_ip rq = V6 b z \<and> ipv4_mapped b = Some a)" for rq a
    using pub [OF that(1)] that(2) by auto
  then show ?thesis using sent pub v4_public_ranges by (fastforce simp: max_addresses_def less_Suc_eq_le)
qed

text \<open>A fetch that succeeds is bounded: the body has at most the requested number of bytes, at most the
  requested number of redirects was followed, the content type is an allowed one or none, and the text,
  the title and the URLs have at most 1,000,000, 500 and 2048 characters.\<close>

theorem fetch_bounded:
  assumes "web_fetch net req = (Inr resp, sent)"
  shows "fp_length resp \<le> fr_max_bytes req \<and> fp_redirects resp \<le> fr_max_redirects req \<and>
    (fp_type resp = [] \<or> fp_type resp \<in> set (fr_types req)) \<and>
    length (fp_text resp) \<le> 1000000 \<and> length (fp_title resp) \<le> 500 \<and> length (fp_final resp) \<le> 2048 \<and>
    100 \<le> fp_status resp \<and> fp_status resp \<le> 599"
  using fetch_hops_finished [OF assms [unfolded web_fetch_def]] by (auto simp: check_response_def split: if_splits)

text \<open>A network in which the first host redirects to itself and the resolver then answers with a private
  address, and one in which a host lies in the shared address space.\<close>

definition demo_page :: http_response where
  "demo_page = \<lparr>hp_status = 200, hp_length = Some ''5'', hp_type = Some ''text/plain; charset=utf-8'', hp_location = None, hp_chunks = [''hel'', ''lo'']\<rparr>"

definition demo_network :: "(nat \<Rightarrow> string \<Rightarrow> string list option) \<Rightarrow> (nat \<Rightarrow> http_request \<Rightarrow> http_outcome) \<Rightarrow> network" where
  "demo_network dns http = \<lparr>net_dns = dns, net_http = http, net_late = (\<lambda>_ _. False), net_join = (\<lambda>_ l. l), net_show = (\<lambda>_. []),
     net_number = (\<lambda>_. []), net_decode = id, net_soup = (\<lambda>_. None)\<rparr>"

definition demo_request :: fetch_request where
  "demo_request = \<lparr>fr_url = ''http://a.org/x'', fr_max_bytes = 100, fr_max_redirects = 3, fr_types = default_types\<rparr>"

definition rebinding :: network where
  "rebinding = demo_network (\<lambda>hop _. Some (if hop = 0 then [''8.8.8.8''] else [''8.8.8.8'', ''10.0.0.1'']))
     (\<lambda>_ _. Response (demo_page\<lparr>hp_status := 302, hp_location := Some ''http://a.org/y''\<rparr>))"

definition plain_network :: "string \<Rightarrow> network" where
  "plain_network addr = demo_network (\<lambda>_ _. Some [addr]) (\<lambda>_ _. Response demo_page)"

lemma rebinding_blocked:
  "map_prod (map_sum id (\<lambda>_. ())) (map hq_ip) (web_fetch rebinding demo_request) = (Inl Blocked, [V4 (v4 8 8 8 8)])"
  unfolding rebinding_def demo_network_def demo_page_def demo_request_def by code_simp

lemma plain_fetch:
  "map_prod (map_sum id fp_text) (map hq_ip) (web_fetch (plain_network ''8.8.8.8'') demo_request) = (Inr ''hello'', [V4 (v4 8 8 8 8)])"
  unfolding plain_network_def demo_network_def demo_page_def demo_request_def by code_simp

lemma fetch_stays_public_witness:
  "\<exists>res sent. web_fetch rebinding demo_request = (res, sent) \<and> length sent = 1 \<and> (\<forall>rq \<in> set sent. is_public_ip (hq_ip rq))"
proof -
  obtain res sent where f: "web_fetch rebinding demo_request = (res, sent)" by force
  then have "length sent = 1" using arg_cong [OF rebinding_blocked, of "length \<circ> snd"] by simp
  with f fetch_stays_public [OF f] show ?thesis by blast
qed

lemma fetch_bounded_witness:
  "\<exists>resp sent. web_fetch (plain_network ''8.8.8.8'') demo_request = (Inr resp, sent) \<and> fp_length resp \<le> 100"
proof -
  obtain res sent where f: "web_fetch (plain_network ''8.8.8.8'') demo_request = (res, sent)" by force
  then obtain resp where r: "res = Inr resp" using plain_fetch by (cases res) auto
  from fetch_bounded [OF f [unfolded r]] f r show ?thesis by (auto simp: demo_request_def)
qed

lemma first_address_tried:
  assumes "\<not> net_late net hop (k + 1)"
  shows "\<exists>later. snd (try_addresses net hop k build (a # as)) = build a # later"
  using assms by (auto split: http_outcome.split prod.split)

lemma first_hop_kept: "\<exists>later. snd (fetch_hops net req (Suc left) count link) = snd (connect_hop net count link) @ later"
  by (auto split: prod.split sum.split hop_result.split)

lemma public_addresses_shared:
  assumes "map ip_address infos = map (\<lambda>a. Some (V4 a)) as" and "\<forall>a\<in>set as. v4_public a"
  shows "public_addresses infos = Inr (map V4 as)"
  using assms by (induction infos arbitrary: as) auto

text \<open>C36: The shared address space 100.64.0.0/10 counts as public, the whole of it: let the host of a well-formed HTTP or
  HTTPS URL be a literal address in that space, or be resolved, while the request is validated and again at the first hop, to addresses
  that all lie in it. Then the validation of the host accepts it, and unless the deadline has passed the fetch sends its first request to the
  first of these addresses, although none of them is globally reachable.\<close>

theorem shared_address_reached:
  assumes "urlparse (fr_url req) = Inr u" and "u_scheme u \<in> set web_schemes" and "url_port u = Inr port"
    and "h = strip (hostname u)" and "h \<noteq> []" and "\<not> prefix ''['' h"
    and "ip_address h = Some (V4 (hd as)) \<and> as = [hd as] \<or>
         ip_address h = None \<and> as \<noteq> [] \<and> (\<exists>infos. net_dns net 0 h = Some infos \<and> map ip_address infos = map (\<lambda>a. Some (V4 a)) as)"
    and "\<forall>a\<in>set as. in_net (v4 100 64 0 0) 10 a" and "\<not> net_late net 0 0" and "\<not> net_late net 0 1"
  shows "is_public_host (net_dns net 0) (hostname u) \<and>
    (\<exists>rq later. snd (web_fetch net req) = rq # later \<and> hq_ip rq = V4 (hd as))"
proof -
  have public: "\<forall>a\<in>set as. v4_public a" using assms(8) shared_space_public by blast
  have some: "as \<noteq> []" using assms(7) by auto
  from assms(7) have res: "resolve_public (net_dns net 0) (hostname u) = Inr (map V4 as)"
  proof (elim disjE conjE exE)
    assume "ip_address h = Some (V4 (hd as))" "as = [hd as]"
    moreover have "v4_public (hd as)" using public some by simp
    moreover have "map V4 as = [V4 (hd as)]" using \<open>as = [hd as]\<close> by (metis list.map(1,2))
    ultimately show ?thesis using assms(4-6) by (simp add: resolve_public_def Let_def)
  next
    fix infos assume infos: "ip_address h = None" "net_dns net 0 h = Some infos" "map ip_address infos = map (\<lambda>a. Some (V4 a)) as"
    then have "infos \<noteq> []" using some by auto
    with infos public_addresses_shared [OF infos(3) public] assms(4-6) show ?thesis by (simp add: resolve_public_def Let_def)
  qed
  let ?targets = "take max_addresses (map V4 as)"
  let ?build = "request_to net u port (host_name net (hostname u) (hd ?targets))"
  obtain rest where targets: "?targets = V4 (hd as) # rest" using some by (cases as) (auto simp: max_addresses_def)
  have "hostname u \<noteq> []" using assms(4,5) by (auto simp: strip_def lstrip_def rstrip_def)
  then have "connect_hop net 0 (fr_url req) = try_addresses net 0 0 ?build ?targets"
    using assms(1-3,9) res by (simp add: connect_hop_def Let_def)
  then obtain later where "snd (connect_hop net 0 (fr_url req)) = ?build (V4 (hd as)) # later"
    using first_address_tried [of net 0 0 ?build "V4 (hd as)" rest] assms(10) targets by auto
  then obtain more where "snd (web_fetch net req) = ?build (V4 (hd as)) # more"
    using first_hop_kept [of net req "fr_max_redirects req" 0 "fr_url req"] by (auto simp: web_fetch_def)
  moreover have "hq_ip (?build (V4 (hd as))) = V4 (hd as)" by (simp add: request_to_def)
  moreover have "is_public_host (net_dns net 0) (hostname u)" using res by (simp add: is_public_host_def)
  ultimately show ?thesis by blast
qed

text \<open>A host that is resolved into the space: the page is returned.\<close>

lemma shared_demo:
  "map_sum (\<lambda>_. ()) (\<lambda>u. (u_scheme u \<in> set web_schemes, map_sum (\<lambda>_. ()) id (url_port u), strip (hostname u), prefix ''['' (strip (hostname u)),
      ip_address (strip (hostname u)) = None)) (urlparse (fr_url demo_request)) = Inr (True, Inr None, ''a.org'', False, True)"
  "ip_address ''100.99.3.7'' = Some (V4 (v4 100 99 3 7))" "in_net (v4 100 64 0 0) 10 (v4 100 99 3 7)"
  "map_sum id fp_text (fst (web_fetch (plain_network ''100.99.3.7'') demo_request)) = Inr ''hello''"
  unfolding plain_network_def demo_network_def demo_page_def demo_request_def by code_simp+

lemma shared_address_reached_witness:
  "(\<exists>rq later. snd (web_fetch (plain_network ''100.99.3.7'') demo_request) = rq # later \<and> hq_ip rq = V4 (v4 100 99 3 7)) \<and>
   map_sum id fp_text (fst (web_fetch (plain_network ''100.99.3.7'') demo_request)) = Inr ''hello''"
proof -
  obtain u where u: "urlparse (fr_url demo_request) = Inr u" "u_scheme u \<in> set web_schemes" "url_port u = Inr None"
      "''a.org'' = strip (hostname u)"
    using shared_demo(1) by (cases "urlparse (fr_url demo_request)"; cases "url_port (projr (urlparse (fr_url demo_request)))") auto
  have "ip_address ''a.org'' = None" using shared_demo(1) u by simp
  moreover have "net_dns (plain_network ''100.99.3.7'') 0 ''a.org'' = Some [''100.99.3.7'']"
    "\<not> net_late (plain_network ''100.99.3.7'') 0 0" "\<not> net_late (plain_network ''100.99.3.7'') 0 1"
    by (simp_all add: plain_network_def demo_network_def)
  ultimately show ?thesis
    using shared_address_reached [OF u, of "[v4 100 99 3 7]" "plain_network ''100.99.3.7''"] shared_demo(2-4) by auto
qed

end
