(* ===== verification/Web_Search.thy ===== *)
theory Web_Search
  imports Web_Address Py_Substitute
begin

text \<open>
  Models \<open>web.search\<close> of \<open>python/tom/tools/web.py\<close>: the distilling of a query, the validation of results, the
  providers from the point where an answer has been parsed, and their combination. What a server or the HTML
  parser returned is an argument, and so is \<open>httpx.URL\<close>, which normalises a URL, makes the validator refuse
  it, or raises \<open>InvalidURL\<close>, an exception that is not a \<open>ValueError\<close>. The texts of weather reports are arguments.
\<close>

subsection \<open>Distilling a query\<close>

definition spaces1 :: rx where "spaces1 = rx_at_least 1 space_rx"

definition text_start :: rx where "text_start = Test (\<lambda>x. fst x = None)"

definition text_end :: rx where
  "text_end = Test (\<lambda>x. snd x = [] \<or> length (snd x) = 1 \<and> (of_char (hd (snd x)) :: nat) = 10)"

text \<open>Words separated by \<open>\s+\<close>, in any case.\<close>

fun phrase_words :: "string list \<Rightarrow> rx list" where
  "phrase_words [] = []"
| "phrase_words [w] = [lit_ci w]"
| "phrase_words (w # ws) = lit_ci w # spaces1 # phrase_words ws"

definition phrase :: "string \<Rightarrow> rx" where "phrase s = rx_seq (phrase_words (split_ws s))"

definition spaced :: "string \<Rightarrow> rx" where "spaced s = Seq spaces1 (phrase s)"

definition conversational_prefixes :: "rx list" where
  "conversational_prefixes =
    [rx_seq [text_start, rx_opt (Seq (lit_ci ''hey'') spaces1), lit_ci ''tom'', rx_at_least 1 (Chars (\<lambda>c. is_space c \<or> c \<in> set '',.:''))],
     rx_seq [text_start, rx_opt (rx_alt (map (\<lambda>s. Seq (phrase s) spaces1) [''can you'', ''could you'', ''would you''])),
       rx_opt (Seq (lit_ci ''please'') spaces1),
       rx_alt [Seq (lit_ci ''search'') (rx_opt (rx_alt (map spaced [''for'', ''online'', ''the web for'']))), phrase ''look up'',
         Seq (phrase ''find out'') (rx_opt (spaced ''about'')), Seq (phrase ''tell me'') (rx_opt (spaced ''about'')), lit_ci ''google'', lit_ci ''browse''],
       rx_opt (rx_alt (map spaced [''for'', ''about''])), spaces1],
     rx_seq [text_start,
       rx_alt (map phrase [''what is'', ''who is'', ''where is'', ''how much is'', ''when is'', ''who was'', ''what are'', ''who are''] @
         [Seq (phrase ''who won'') (rx_opt (spaced ''the''))]),
       spaces1, rx_opt (Seq (lit_ci ''the'') spaces1)]]"

definition conversational_suffixes :: "rx list" where
  "conversational_suffixes =
    [rx_seq [rx_at_least 1 (Chars (\<lambda>c. is_space c \<or> c \<in> set '',.?!'')), rx_alt (map phrase [''please'', ''thanks'', ''thank you'', ''asap'', ''right now'']),
       Star space_rx, Star (one_of ''.?!''), text_end],
     rx_seq [rx_at_least 1 (one_of ''.?!''), text_end]]"

definition remove_pattern :: "rx \<Rightarrow> string \<Rightarrow> string" where
  "remove_pattern r s = strip (rx_sub [r] (\<lambda>_. []) s)"

definition refine_pass :: "string \<Rightarrow> string" where
  "refine_pass s = fold remove_pattern (conversational_suffixes @ conversational_prefixes) s"

text \<open>A pass only deletes, so the loop ends.\<close>

lemma dropWhile_subseq: "subseq (dropWhile P s) s"
  by (induction s) auto

lemma strip_subseq: "subseq (strip s) s"
proof -
  have "subseq (rstrip s) s" for s
    using suffix_dropWhile [of is_space "rev s"] unfolding rstrip_def suffix_to_prefix by (simp add: prefix_imp_subseq)
  then show ?thesis unfolding strip_def lstrip_def by (meson dropWhile_subseq subseq_order.order_trans)
qed

lemma match_at_shorter: "match_at rs (p, s) = Some (ts, q, t) \<Longrightarrow> suffix t s"
  using rx_run_suffix [OF match_at_run] by fastforce

lemma scan_deletes: "subseq (concat (map (render (\<lambda>_. [])) (scan rs p s))) s"
proof (induction s arbitrary: p rule: measure_induct_rule [of length])
  case (less s)
  show ?case
  proof (cases "match_at rs (p, s)")
    case None
    with less.IH show ?thesis by (cases s) (auto simp: scan_None)
  next
    case (Some m)
    obtain ts q t where m: "m = (ts, q, t)" by (cases m) auto
    show ?thesis
    proof (cases "length t < length s")
      case True
      have "subseq t s" using match_at_shorter [of rs p s] Some m by (auto simp: suffix_imp_subseq)
      with less.IH [OF True, of q] have "subseq (concat (map (render (\<lambda>_. [])) (scan rs q t))) s" by (rule subseq_order.order_trans)
      with Some m True show ?thesis by (simp add: scan_Some)
    next
      case False
      with Some m less.IH show ?thesis by (subst scan.simps) (auto split: list.splits)
    qed
  qed
qed

lemma remove_pattern_subseq: "subseq (remove_pattern r s) s"
  using subseq_order.order_trans [OF strip_subseq scan_deletes] unfolding remove_pattern_def rx_sub_def by blast

lemma refine_pass_subseq: "subseq (refine_pass s) s"
proof -
  have "subseq (fold remove_pattern rs s) s" for rs
    by (induction rs arbitrary: s) (auto intro: subseq_order.order_trans remove_pattern_subseq)
  then show ?thesis unfolding refine_pass_def .
qed

function refine_loop :: "string \<Rightarrow> string" where
  "refine_loop s = (if refine_pass s = s then s else refine_loop (refine_pass s))"
  by pat_completeness auto
termination
proof (relation "measure length", simp, simp)
  fix s assume "refine_pass s \<noteq> s"
  then show "length (refine_pass s) < length s"
    using refine_pass_subseq [of s] by (metis le_neq_implies_less list_emb_length subseq_same_length)
qed

declare refine_loop.simps [simp del]

definition refine_search_query :: "string \<Rightarrow> string" where
  "refine_search_query query = (let cleaned = refine_loop (strip query) in if cleaned \<noteq> [] then cleaned else strip query)"

lemma refine_loop_fixed: "refine_pass (refine_loop s) = refine_loop s"
proof (induction s rule: refine_loop.induct)
  case (1 s)
  show ?case
  proof (cases "refine_pass s = s")
    case True
    then have "refine_loop s = s" by (subst refine_loop.simps) simp
    with True show ?thesis by simp
  next
    case False
    then have "refine_loop s = refine_loop (refine_pass s)" by (subst refine_loop.simps) simp
    with 1 False show ?thesis by simp
  qed
qed

lemma refine_loop_subseq: "subseq (refine_loop s) s"
proof (induction s rule: refine_loop.induct)
  case (1 s)
  show ?case
  proof (cases "refine_pass s = s")
    case True
    then show ?thesis by (subst refine_loop.simps) simp
  next
    case False
    then have "refine_loop s = refine_loop (refine_pass s)" by (subst refine_loop.simps) simp
    with 1 False refine_pass_subseq [of s] show ?thesis by (auto intro: subseq_order.order_trans)
  qed
qed

lemma refine_pass_stripped: "strip (refine_pass s) = refine_pass s"
  by (simp add: refine_pass_def conversational_suffixes_def conversational_prefixes_def remove_pattern_def strip_idem)

subsection \<open>Results\<close>

datatype url_check = GoodUrl string | RefusedUrl | UrlRaises

record search_result =
  sr_title :: string
  sr_url :: string
  sr_summary :: string
  sr_source :: string
  sr_provider :: string

text \<open>\<open>Refused\<close> is a \<open>ValidationError\<close>, which the providers catch, \<open>Crashed\<close> another exception.\<close>

datatype result_error = Refused | Crashed

definition search_result_of :: "(string \<Rightarrow> url_check) \<Rightarrow> string \<Rightarrow> string \<Rightarrow> string \<Rightarrow> string \<Rightarrow> string \<Rightarrow> result_error + search_result" where
  "search_result_of urls title link summary source provider =
     (let fits = (\<lambda>lo hi s. lo \<le> int (length s) \<and> int (length s) \<le> (hi :: int))
      in if \<not> fits 1 2048 link then Inl Refused
         else case urls link of
                UrlRaises \<Rightarrow> Inl Crashed
              | RefusedUrl \<Rightarrow> Inl Refused
              | GoodUrl u \<Rightarrow>
                  if fits 1 500 title \<and> fits 0 2000 summary \<and> fits 0 255 source \<and> fits 0 255 provider
                  then Inr \<lparr>sr_title = title, sr_url = u, sr_summary = summary, sr_source = source, sr_provider = provider\<rparr>
                  else Inl Refused)"

datatype search_error = ProviderFails | ProviderCrashes

subsection \<open>The local server\<close>

record raw_result =
  rw_title :: string
  rw_url :: string
  rw_content :: string
  rw_engine :: string

text \<open>A failed request or an unreadable answer; or the length of the body and its list of results, if it has
  one, where \<open>None\<close> is an element that is not a dictionary.\<close>

datatype searx_reply = NoReply | Reply nat "raw_result option list option"

fun searx_results :: "(string \<Rightarrow> url_check) \<Rightarrow> raw_result option list \<Rightarrow> search_error + search_result list" where
  "searx_results urls [] = Inr []"
| "searx_results urls (None # rs) = searx_results urls rs"
| "searx_results urls (Some r # rs) =
     (case search_result_of urls (rw_title r) (rw_url r) (rw_content r) (rw_engine r) ''searxng'' of
        Inl Crashed \<Rightarrow> Inl ProviderCrashes
      | Inl Refused \<Rightarrow> searx_results urls rs
      | Inr x \<Rightarrow> map_sum id ((#) x) (searx_results urls rs))"

definition searx_search :: "(string \<Rightarrow> url_check) \<Rightarrow> nat \<Rightarrow> string \<Rightarrow> nat \<Rightarrow> searx_reply \<Rightarrow> search_error + search_result list" where
  "searx_search urls max_bytes query n reply =
     (if strip query = [] \<or> n < 1 then Inl ProviderFails
      else case reply of
             NoReply \<Rightarrow> Inl ProviderFails
           | Reply bytes results \<Rightarrow>
               if max_bytes < bytes then Inl ProviderFails
               else case results of None \<Rightarrow> Inl ProviderFails | Some rs \<Rightarrow>
                      (case searx_results urls (take n rs) of
                         Inl e \<Rightarrow> Inl e
                       | Inr out \<Rightarrow> if 256 < int (length (strip query)) \<or> 100 < length out then Inl ProviderCrashes else Inr out))"

subsection \<open>DuckDuckGo\<close>

text \<open>\<open>unquote_plus\<close> of \<open>urllib.parse\<close>, for ASCII.\<close>

fun unquote_plus :: "string \<Rightarrow> string" where
  "unquote_plus [] = []"
| "unquote_plus (c # s) =
     (if c = CHR ''+'' then CHR '' '' # unquote_plus s
      else case s of
             a # b # t \<Rightarrow> if c = CHR ''%'' \<and> is_hex_char a \<and> is_hex_char b
                          then char_of (16 * digit_value a + digit_value b) # unquote_plus t
                          else c # unquote_plus s
           | _ \<Rightarrow> c # unquote_plus s)"

text \<open>The values of a name in \<open>parse_qs\<close>, which leaves blank values out.\<close>

definition query_values :: "string \<Rightarrow> string \<Rightarrow> string list" where
  "query_values name query =
     map (\<lambda>w. unquote_plus (snd (snd (partition_on CHR ''='' w))))
       (filter (\<lambda>w. case partition_on CHR ''='' w of (k, found, v) \<Rightarrow> found \<and> v \<noteq> [] \<and> unquote_plus k = name)
         (split_on CHR ''&'' query))"

definition clean_ddg_url :: "string \<Rightarrow> string" where
  "clean_ddg_url href =
     (let plain = (if prefix ''//'' href then ''https:'' @ href else href)
      in if href = [] then []
         else if sublist ''uddg='' href
           then case urlparse href of
                  Inl _ \<Rightarrow> plain
                | Inr u \<Rightarrow> (case query_values ''uddg'' (u_query u) of v # _ \<Rightarrow> v | [] \<Rightarrow> plain)
         else plain)"

text \<open>A row is the link with its text, if there is one, and the snippet. The loop stops as soon as it has
  enough; an exception that is no \<open>ValueError\<close> loses everything.\<close>

type_synonym ddg_row = "(string \<times> string) option \<times> string"

fun ddg_rows :: "(string \<Rightarrow> url_check) \<Rightarrow> nat \<Rightarrow> ddg_row list \<Rightarrow> string list \<Rightarrow> search_result list \<Rightarrow> search_result list option" where
  "ddg_rows urls n [] seen out = Some out"
| "ddg_rows urls n ((link, snippet) # rows) seen out =
     (case link of
        None \<Rightarrow> ddg_rows urls n rows seen out
      | Some (href, title) \<Rightarrow>
          let u = clean_ddg_url href
          in if u = [] \<or> u \<in> set seen \<or> title = [] then ddg_rows urls n rows seen out
             else case urlparse u of
                    Inl _ \<Rightarrow> ddg_rows urls n rows seen out
                  | Inr p \<Rightarrow>
                      (case search_result_of urls (clip 500 title) (clip 2048 u) (clip 2000 snippet)
                              (if u_netloc p = [] then ''duckduckgo'' else u_netloc p) ''duckduckgo'' of
                         Inl Crashed \<Rightarrow> None
                       | Inl Refused \<Rightarrow> ddg_rows urls n rows seen out
                       | Inr x \<Rightarrow> if n \<le> length (out @ [x]) then Some (out @ [x]) else ddg_rows urls n rows (u # seen) (out @ [x])))"

definition ddg_page :: "(string \<Rightarrow> url_check) \<Rightarrow> nat \<Rightarrow> ddg_row list option \<Rightarrow> search_result list" where
  "ddg_page urls n page =
     (case page of None \<Rightarrow> [] | Some rows \<Rightarrow> (case ddg_rows urls n rows [] [] of None \<Rightarrow> [] | Some out \<Rightarrow> out))"

definition ddg_search :: "(string \<Rightarrow> url_check) \<Rightarrow> string \<Rightarrow> nat \<Rightarrow> ddg_row list option \<Rightarrow> ddg_row list option \<Rightarrow> search_error + search_result list" where
  "ddg_search urls query n html lite =
     (let refined = refine_search_query query
      in if refined = [] \<or> n < 1 then Inl ProviderFails
         else let results = (let rs = ddg_page urls n html in if rs = [] then ddg_page urls n lite else rs)
              in if results = [] \<or> 256 < int (length refined) \<or> 100 < length results then Inl ProviderFails else Inr results)"

subsection \<open>Wikipedia\<close>

fun wiki_results :: "(string \<Rightarrow> url_check) \<Rightarrow> (string \<times> string \<times> string) list \<Rightarrow> search_result list option" where
  "wiki_results urls [] = Some []"
| "wiki_results urls ((title, desc, link) # rows) =
     (if link = [] \<or> title = [] then wiki_results urls rows
      else case search_result_of urls (clip 500 title) (clip 2048 link)
                  (if desc = [] then ''Wikipedia entry for '' @ title else clip 2000 desc) ''wikipedia.org'' ''wikipedia'' of
             Inl _ \<Rightarrow> None
           | Inr x \<Rightarrow> map_option ((#) x) (wiki_results urls rows))"

definition wiki_search :: "(string \<Rightarrow> url_check) \<Rightarrow> string \<Rightarrow> (string \<times> string \<times> string) list option \<Rightarrow> search_error + search_result list" where
  "wiki_search urls query reply =
     (let refined = refine_search_query query
      in if refined = [] then Inl ProviderFails
         else case reply of
                None \<Rightarrow> Inl ProviderFails
              | Some rows \<Rightarrow> (case wiki_results urls rows of
                                None \<Rightarrow> Inl ProviderFails
                              | Some out \<Rightarrow> if 256 < int (length refined) \<or> 100 < length out then Inl ProviderFails else Inr out))"
subsection \<open>Weather\<close>

definition weather_rx :: rx where
  "weather_rx = Seq Boundary (Seq (rx_alt (map lit_ci [''weather'', ''temperature'', ''forecast'', ''temp'', ''rain'', ''raining'', ''snow'', ''snowing'',
     ''humidity'', ''wind'', ''hot'', ''cold'', ''freezing''])) Boundary)"

definition is_ascii_letter :: "char \<Rightarrow> bool" where
  "is_ascii_letter c \<longleftrightarrow> is_alnum c \<and> \<not> is_digit c"

definition location_parts :: "rx list" where
  "location_parts =
    [Seq Boundary (Seq (rx_alt (map lit_ci [''in'', ''for'', ''at'', ''of''])) spaces1),
     Seq (Chars (\<lambda>c. is_ascii_letter c \<or> is_space c \<or> c = CHR '','')) (Lazy (Chars (\<lambda>c. is_ascii_letter c \<or> is_space c \<or> c = CHR '',''))),
     Seq (rx_opt (Seq spaces1 (rx_alt [lit_ci ''today'', lit_ci ''tomorrow'', lit_ci ''now'', lit_ci ''tonight'', lit_ci ''right now'']))) text_end]"

definition weather_lead :: rx where
  "weather_lead = rx_seq [text_start, rx_alt [phrase ''what is'', lit_ci ([CHR ''w'', CHR ''h'', CHR ''a'', CHR ''t'', CHR 0x27, CHR ''s'']),
     phrase ''how is'', lit_ci ''current'', lit_ci ''the'', phrase ''show me''], spaces1]"

definition rstrip_chars :: "string \<Rightarrow> string \<Rightarrow> string" where
  "rstrip_chars cs s = rev (dropWhile (\<lambda>c. c \<in> set cs) (rev s))"

definition extract_weather_location :: "string \<Rightarrow> string option" where
  "extract_weather_location query =
     (let q = rstrip_chars ''?.!, '' (strip query);
          rest = strip (rx_sub [weather_lead] (\<lambda>_. []) (strip (rx_sub [weather_rx] (\<lambda>_. []) q)));
          fallback = (if rest = [] then None else Some rest)
      in if \<not> rx_search weather_rx q then None
         else case find_match location_parts (positions None q) of
                Some (_ # w # _) \<Rightarrow> if strip w \<noteq> [] then Some (strip w) else fallback
              | _ \<Rightarrow> fallback)"

text \<open>The two services in order; \<open>None\<close> is a service that failed.\<close>

definition weather_search :: "string \<Rightarrow> search_result option \<Rightarrow> search_result option \<Rightarrow> search_result list" where
  "weather_search query wttr meteo =
     (if extract_weather_location query = None then []
      else case (if wttr = None then meteo else wttr) of None \<Rightarrow> [] | Some r \<Rightarrow> [r])"

subsection \<open>The combination\<close>

text \<open>The validated input of the tool.\<close>

definition check_search_request :: "string \<Rightarrow> nat \<Rightarrow> (string \<times> nat) option" where
  "check_search_request query n =
     (if query \<noteq> [] \<and> int (length query) \<le> 256 \<and> 1 \<le> n \<and> n \<le> 100 \<and> strip query \<noteq> [] then Some (strip query, n) else None)"

text \<open>What the services answer: the local server is optional.\<close>

record search_world =
  sw_urls :: "string \<Rightarrow> url_check"
  sw_searx :: "(nat \<times> searx_reply) option"
  sw_html :: "ddg_row list option"
  sw_lite :: "ddg_row list option"
  sw_wiki :: "(string \<times> string \<times> string) list option"
  sw_wttr :: "search_result option"
  sw_meteo :: "search_result option"

fun merge_results :: "search_result list \<Rightarrow> string list \<Rightarrow> search_result list" where
  "merge_results [] seen = []"
| "merge_results (r # rs) seen =
     (if sr_url r \<in> set seen then merge_results rs seen else r # merge_results rs (sr_url r # seen))"

definition found_or_none :: "search_error + search_result list \<Rightarrow> search_result list" where
  "found_or_none res = (case res of Inl _ \<Rightarrow> [] | Inr rs \<Rightarrow> rs)"

definition local_results :: "search_world \<Rightarrow> string \<Rightarrow> nat \<Rightarrow> search_result list" where
  "local_results w query n =
     (case sw_searx w of
        None \<Rightarrow> []
      | Some (max_bytes, reply) \<Rightarrow> found_or_none (searx_search (sw_urls w) max_bytes (refine_search_query query) n reply))"

text \<open>A weather report, then Wikipedia when DuckDuckGo is sparse and there is no report, then DuckDuckGo.\<close>

definition free_results :: "search_world \<Rightarrow> string \<Rightarrow> nat \<Rightarrow> search_result list" where
  "free_results w query n =
     (let refined = refine_search_query query;
          weather = (if extract_weather_location query \<noteq> None then weather_search query (sw_wttr w) (sw_meteo w) else []);
          ddg = found_or_none (ddg_search (sw_urls w) refined n (sw_html w) (sw_lite w));
          wiki = (if length ddg < n \<and> weather = [] then found_or_none (wiki_search (sw_urls w) refined (sw_wiki w)) else [])
      in weather @ wiki @ ddg)"

definition composite_search :: "search_world \<Rightarrow> string \<Rightarrow> nat \<Rightarrow> search_error + search_result list" where
  "composite_search w query n =
     (let refined = refine_search_query query
      in if local_results w query n \<noteq> [] then Inr (local_results w query n)
         else let combined = merge_results (free_results w query n) []
              in if combined = [] then Inl ProviderFails
                 else if refined = [] \<or> 256 < int (length refined) \<or> 100 < length (take n combined) then Inl ProviderCrashes
                 else Inr (take n combined))"

subsection \<open>Properties\<close>

lemma refined_facts:
  "subseq (refine_search_query q) q" "strip q \<noteq> [] \<Longrightarrow> refine_search_query q \<noteq> []" "strip (refine_search_query q) = refine_search_query q"
proof -
  show "subseq (refine_search_query q) q"
    using refine_loop_subseq [of "strip q"] strip_subseq [of q]
    by (auto simp: refine_search_query_def Let_def intro: subseq_order.order_trans)
  show "strip q \<noteq> [] \<Longrightarrow> refine_search_query q \<noteq> []" by (simp add: refine_search_query_def Let_def)
  have "strip (refine_loop s) = refine_loop s" for s using refine_loop_fixed refine_pass_stripped by metis
  then show "strip (refine_search_query q) = refine_search_query q" by (simp add: refine_search_query_def strip_idem Let_def)
qed

text \<open>C32: Distilling a query ends, only deletes characters, keeps a query that is not blank from becoming
  blank, and is idempotent: a distilled query is distilled to itself.\<close>

theorem refine_stable:
  "subseq (refine_search_query q) q \<and> (strip q \<noteq> [] \<longrightarrow> refine_search_query q \<noteq> []) \<and>
   refine_search_query (refine_search_query q) = refine_search_query q"
proof -
  let ?c = "refine_loop (strip q)"
  have "refine_search_query (refine_search_query q) = refine_search_query q"
  proof (cases "?c = []")
    case True
    then show ?thesis by (simp add: refine_search_query_def strip_idem)
  next
    case False
    have "refine_loop ?c = ?c" using refine_loop_fixed [of "strip q"] by (subst refine_loop.simps) simp
    moreover have "refine_search_query q = ?c" using False by (simp add: refine_search_query_def)
    ultimately show ?thesis using False refined_facts(3) [of q] by (simp add: refine_search_query_def)
  qed
  with refined_facts [of q] show ?thesis by blast
qed

lemma refine_stable_witness:
  "subseq (refine_search_query ''tea'') ''tea'' \<and> refine_search_query ''tea'' \<noteq> []"
proof -
  have "strip ''tea'' \<noteq> []" by (simp add: strip_def rstrip_def lstrip_def is_space_def)
  with refine_stable [of "''tea''"] show ?thesis by blast
qed

lemma searx_results_length: "searx_results urls rs = Inr out \<Longrightarrow> length out \<le> length rs"
proof (induction rs arbitrary: out)
  case (Cons r rs)
  then show ?case by (cases r) (fastforce split: sum.splits result_error.splits simp: map_sum_def)+
qed simp

lemma merge_results_props:
  "distinct (map sr_url (merge_results rs seen)) \<and> set (map sr_url (merge_results rs seen)) \<inter> set seen = {} \<and>
   subseq (merge_results rs seen) rs \<and> sr_url ` set rs \<subseteq> sr_url ` set (merge_results rs seen) \<union> set seen"
proof (induction rs arbitrary: seen)
  case (Cons r rs)
  from Cons.IH [of seen] Cons.IH [of "sr_url r # seen"] show ?case by auto
qed simp

text \<open>A search that succeeds answers with between one and the requested number of results. Without an
  answer of the local server they have pairwise different URLs, a weather report comes first, then
  Wikipedia, then DuckDuckGo, each in its own order, and a URL that any of them found is left out only
  for the limit; and the search fails for want of results only when none of them found anything.\<close>

theorem composite_results:
  assumes "composite_search w query n = res" and "1 \<le> n"
  shows "(\<forall>rs. res = Inr rs \<longrightarrow> rs \<noteq> [] \<and> length rs \<le> n \<and> (local_results w query n \<noteq> [] \<longrightarrow> rs = local_results w query n) \<and>
      (local_results w query n = [] \<longrightarrow> distinct (map sr_url rs) \<and> subseq rs (free_results w query n) \<and>
         (length rs < n \<longrightarrow> sr_url ` set (free_results w query n) = sr_url ` set rs))) \<and>
    (res = Inl ProviderFails \<longleftrightarrow> local_results w query n = [] \<and> free_results w query n = [])"
proof -
  let ?c = "merge_results (free_results w query n) []"
  note m = merge_results_props [of "free_results w query n" "[]"]
  have c: "?c = [] \<longleftrightarrow> free_results w query n = []" using m by (cases "free_results w query n") auto
  have len: "length (local_results w query n) \<le> n"
    using searx_results_length by (fastforce simp: local_results_def found_or_none_def searx_search_def
        split: option.splits sum.splits if_splits searx_reply.splits)
  have "subseq (take n ?c) ?c" by (simp add: prefix_imp_subseq take_is_prefix)
  then have sub: "distinct (map sr_url (take n ?c))" "subseq (take n ?c) (free_results w query n)"
    using m distinct_take [of "map sr_url ?c" n] by (auto simp: take_map intro: subseq_order.order_trans)
  have full: "sr_url ` set (free_results w query n) = sr_url ` set (take n ?c)" if "length (take n ?c) < n"
  proof -
    have "take n ?c = ?c" using that by simp
    moreover have "x \<in> set (free_results w query n)" if "x \<in> set ?c" for x
      using list_emb_set [of "(=)" ?c "free_results w query n" x] m that by blast
    ultimately show ?thesis using m by (simp add: image_subset_iff set_eq_iff) blast
  qed
  define t where "t = take n ?c"
  have t: "t = [] \<longleftrightarrow> free_results w query n = []" "length t \<le> n" using assms(2) c by (simp_all add: t_def)
  note facts = sub [folded t_def] full [folded t_def]
  have "res = (if local_results w query n \<noteq> [] then Inr (local_results w query n) else if free_results w query n = [] then Inl ProviderFails
      else if refine_search_query query = [] \<or> 256 < int (length (refine_search_query query)) \<or> 100 < length t then Inl ProviderCrashes else Inr t)"
    unfolding assms(1) [symmetric] composite_search_def Let_def t_def c ..
  with t facts len show ?thesis by auto
qed
definition demo_world :: search_world where
  "demo_world = \<lparr>sw_urls = GoodUrl, sw_searx = Some (100, Reply 10 (Some [None, Some \<lparr>rw_title = ''A'', rw_url = ''u'', rw_content = [], rw_engine = ''e''\<rparr>])),
     sw_html = None, sw_lite = None, sw_wiki = None, sw_wttr = None, sw_meteo = None\<rparr>"

lemma demo_search: "\<exists>r. composite_search demo_world ''tea'' 5 = Inr [r]"
proof -
  let ?q = "refine_search_query ''tea''"
  have "strip ''tea'' \<noteq> []" by (simp add: strip_def rstrip_def lstrip_def is_space_def)
  then have "strip ?q \<noteq> []" using refined_facts [of "''tea''"] by simp
  moreover have "length ?q \<le> 256" using list_emb_length [OF refined_facts(1), of "''tea''"] by simp
  ultimately show ?thesis
    using refined_facts(3) [of "''tea''"]
    by (simp add: composite_search_def local_results_def demo_world_def searx_search_def search_result_of_def found_or_none_def)
qed

lemma composite_results_witness:
  "\<exists>rs. composite_search demo_world ''tea'' 5 = Inr rs \<and> rs \<noteq> [] \<and> length rs \<le> 5"
proof -
  obtain r where c: "composite_search demo_world ''tea'' 5 = Inr [r]" using demo_search by blast
  from composite_results [OF c] c show ?thesis by auto
qed

text \<open>One link that makes the URL class raise its own exception loses every result of a page.\<close>

lemma raising_link_loses_page:
  assumes "urls u = UrlRaises" and "u \<noteq> []" and "int (length u) \<le> 2048" and "title \<noteq> []" and "clean_ddg_url href = u" and "urlparse u = Inr p"
  shows "ddg_page urls n (Some ((Some (href, title), snippet) # rows)) = []"
  using assms by (cases u; cases title) (simp_all add: ddg_page_def search_result_of_def clip_def)

end
