(* ===== verification/Microphone.thy ===== *)
theory Microphone
  imports Tom_Prelude "HOL-Library.Word"
begin

text \<open>
  Models \<open>MicrophoneLoop\<close> of \<open>python/tom/voice/microphone.py\<close> with the PCM conversion of
  \<open>voice/audio_utils.py\<close>, the events of \<open>voice/events.py\<close> and the energy detector of \<open>voice/vad.py\<close>. Samples
  and levels are rationals. A detector is a record of its functions over a state of its own; the square
  root in \<open>calculate_rms\<close> is an argument of the energy detector. \<open>mic_event\<close> interleaves the operations: a
  push suspends after every eight frames (\<open>mi_pushing\<close>), and stopping suspends in the call of the engine.
  The poll task is the only one that pushes. Every event is broadcast to the subscribers that exist.
\<close>

subsection \<open>Audio\<close>

type_synonym samples = "rat list"

type_synonym bytes = "8 word list"

text \<open>\<open>int()\<close> truncates towards zero.\<close>

definition truncate :: "rat \<Rightarrow> int" where
  "truncate q = (if 0 \<le> q then \<lfloor>q\<rfloor> else \<lceil>q\<rceil>)"

definition pcm_word :: "rat \<Rightarrow> 16 word" where
  "pcm_word s = word_of_int (max (- 32768) (min 32767 (truncate (s * 32767))))"

definition pcm16 :: "samples \<Rightarrow> bytes" where
  "pcm16 xs = concat (map (\<lambda>s. let w = pcm_word s in [ucast w, ucast (drop_bit 8 w)]) xs)"

fun pcm16_samples :: "bytes \<Rightarrow> samples" where
  "pcm16_samples (a # b # bs) = of_int (sint (ucast a + push_bit 8 (ucast b) :: 16 word)) / 32767 # pcm16_samples bs"
| "pcm16_samples _ = []"

lemma pcm16_append [simp]: "pcm16 (xs @ ys) = pcm16 xs @ pcm16 ys"
  by (simp add: pcm16_def)

lemma pcm16_Nil [simp]: "pcm16 [] = []"
  by (simp add: pcm16_def)

lemma length_pcm16: "length (pcm16 xs) = 2 * length xs"
  by (induction xs) (simp_all add: pcm16_def Let_def)

subsection \<open>Voice activity\<close>

record 'v detector =
  d_rms :: "samples \<Rightarrow> rat"
  d_speech :: "'v \<Rightarrow> samples \<Rightarrow> bool \<times> 'v"
  d_threshold :: "rat \<Rightarrow> 'v \<Rightarrow> 'v"
  d_reset :: "'v \<Rightarrow> 'v"

record energy_vad =
  ev_threshold :: rat
  ev_adaptive :: bool
  ev_floor :: rat

definition new_energy_vad :: "rat \<Rightarrow> bool \<Rightarrow> energy_vad" where
  "new_energy_vad thr adaptive = \<lparr>ev_threshold = thr, ev_adaptive = adaptive, ev_floor = min (1 / 1000) (thr / 2)\<rparr>"

definition energy_limit :: "energy_vad \<Rightarrow> rat" where
  "energy_limit v = (if ev_adaptive v then max (ev_threshold v) (ev_floor v * 2) else ev_threshold v)"

definition energy_speech :: "(samples \<Rightarrow> rat) \<Rightarrow> energy_vad \<Rightarrow> samples \<Rightarrow> bool \<times> energy_vad" where
  "energy_speech rms v xs =
     (let active = energy_limit v < rms xs;
          cap = max (5 / 10000) (ev_threshold v / 2)
      in (active, if \<not> active \<and> ev_adaptive v
                  then v\<lparr>ev_floor := max (1 / 10000) (min cap (95 / 100 * ev_floor v + 5 / 100 * rms xs))\<rparr> else v))"

definition energy_detector :: "(samples \<Rightarrow> rat) \<Rightarrow> energy_vad detector" where
  "energy_detector rms =
     \<lparr>d_rms = rms, d_speech = energy_speech rms, d_threshold = (\<lambda>thr v. v\<lparr>ev_threshold := thr\<rparr>),
      d_reset = (\<lambda>v. v\<lparr>ev_floor := min (1 / 1000) (ev_threshold v / 2)\<rparr>)\<rparr>"

subsection \<open>State\<close>

record mic_config =
  mc_rate :: nat
  mc_frame_ms :: nat
  mc_silence_ms :: nat
  mc_pre_roll :: nat
  mc_min_frames :: nat
  mc_max_seconds :: rat
  mc_barge_factor :: rat
  mc_barge_ms :: nat
  mc_min_ms :: nat

text \<open>The bounds of \<open>MicrophoneConfig\<close>, and a frame that is not empty: the constructor divides by its length.\<close>

definition frame_size :: "mic_config \<Rightarrow> nat" where
  "frame_size cfg = mc_rate cfg * mc_frame_ms cfg div 1000"

definition calibration_frames :: "mic_config \<Rightarrow> nat" where
  "calibration_frames cfg = mc_rate cfg div frame_size cfg"

definition valid_mic_config :: "mic_config \<Rightarrow> bool" where
  "valid_mic_config cfg \<longleftrightarrow>
     10 \<le> mc_frame_ms cfg \<and> mc_frame_ms cfg \<le> 50 \<and> 50 \<le> mc_silence_ms cfg \<and> mc_silence_ms cfg \<le> 5000 \<and> mc_pre_roll cfg \<le> 30 \<and>
     1 \<le> mc_min_frames cfg \<and> mc_min_frames cfg \<le> 10 \<and> 5 / 100 \<le> mc_max_seconds cfg \<and> mc_max_seconds cfg \<le> 120 \<and>
     1 \<le> mc_barge_factor cfg \<and> mc_barge_factor cfg \<le> 20 \<and> 50 \<le> mc_barge_ms cfg \<and> mc_barge_ms cfg \<le> 2000 \<and>
     50 \<le> mc_min_ms cfg \<and> mc_min_ms cfg \<le> 5000 \<and> 0 < frame_size cfg"

definition default_mic_config :: mic_config where
  "default_mic_config =
     \<lparr>mc_rate = 16000, mc_frame_ms = 20, mc_silence_ms = 600, mc_pre_roll = 5, mc_min_frames = 2, mc_max_seconds = 30,
      mc_barge_factor = 4, mc_barge_ms = 300, mc_min_ms = 400\<rparr>"

type_synonym audio_frame = "samples \<times> bytes"

datatype voice_event =
    SpeechStart rat
  | AudioFrame samples bytes nat bool
  | SpeechEnd samples bytes nat

record 'v mic =
  mi_running :: bool
  mi_stopped :: bool
  mi_stopping :: bool
  mi_muted :: bool
  mi_paused :: bool
  mi_in_speech :: bool
  mi_gated :: bool
  mi_barge_level :: "rat option"
  mi_sustained :: nat
  mi_candidates :: "audio_frame list"
  mi_calibrated :: bool
  mi_noise :: "rat list"
  mi_buffer :: samples
  mi_onset :: nat
  mi_silence :: nat
  mi_samples :: samples
  mi_pcm :: bytes
  mi_index :: nat
  mi_pre_roll :: "audio_frame list"
  mi_onsets :: "audio_frame list"
  mi_vad :: 'v
  mi_last :: "rat option"
  mi_pushing :: bool

definition new_mic :: "'v \<Rightarrow> 'v mic" where
  "new_mic v =
     \<lparr>mi_running = False, mi_stopped = False, mi_stopping = False, mi_muted = False, mi_paused = False, mi_in_speech = False, mi_gated = False,
      mi_barge_level = None, mi_sustained = 0, mi_candidates = [], mi_calibrated = False, mi_noise = [], mi_buffer = [],
      mi_onset = 0, mi_silence = 0, mi_samples = [], mi_pcm = [], mi_index = 0, mi_pre_roll = [], mi_onsets = [],
      mi_vad = v, mi_last = None, mi_pushing = False\<rparr>"

subsection \<open>One frame\<close>

definition reset_turn :: "'v detector \<Rightarrow> bool \<Rightarrow> 'v mic \<Rightarrow> 'v mic" where
  "reset_turn det clear m =
     m\<lparr>mi_in_speech := False, mi_onset := 0, mi_silence := 0, mi_samples := [], mi_pcm := [], mi_index := 0, mi_pre_roll := [],
       mi_onsets := [], mi_sustained := 0, mi_candidates := [], mi_buffer := if clear then [] else mi_buffer m,
       mi_vad := d_reset det (mi_vad m)\<rparr>"

definition end_event :: "'v mic \<Rightarrow> voice_event" where
  "end_event m = SpeechEnd (mi_samples m) (mi_pcm m) (mi_index m)"

definition calibrate :: "mic_config \<Rightarrow> 'v detector \<Rightarrow> rat \<Rightarrow> 'v mic \<Rightarrow> 'v mic" where
  "calibrate cfg det rms m =
     (let noise = mi_noise m @ [rms];
          thr = max (3 / 1000) (3 * (sum_list noise / of_nat (length noise)))
      in if mi_calibrated m then m
         else if length noise < calibration_frames cfg then m\<lparr>mi_noise := noise\<rparr>
         else m\<lparr>mi_noise := noise, mi_vad := d_threshold det thr (mi_vad m), mi_calibrated := True,
                mi_barge_level := Some (thr * mc_barge_factor cfg)\<rparr>)"

definition absorb :: "audio_frame \<Rightarrow> 'v mic \<Rightarrow> 'v mic" where
  "absorb f m = m\<lparr>mi_samples := mi_samples m @ fst f, mi_pcm := mi_pcm m @ snd f, mi_index := mi_index m + 1\<rparr>"

fun emit_frames :: "bool \<Rightarrow> audio_frame list \<Rightarrow> 'v mic \<Rightarrow> 'v mic \<times> voice_event list" where
  "emit_frames speech [] m = (m, [])"
| "emit_frames speech (f # fs) m =
     (case emit_frames speech fs (absorb f m) of (m', es) \<Rightarrow> (m', AudioFrame (fst f) (snd f) (mi_index m) speech # es))"

definition start_speech :: "rat \<Rightarrow> 'v mic \<Rightarrow> 'v mic \<times> voice_event list" where
  "start_speech rms m =
     (case emit_frames False (mi_pre_roll m)
             (m\<lparr>mi_in_speech := True, mi_samples := [], mi_pcm := [], mi_index := 0, mi_silence := 0, mi_pre_roll := []\<rparr>) of
        (m1, before) \<Rightarrow> (case emit_frames True (mi_onsets m) m1 of
          (m2, onset) \<Rightarrow> (m2\<lparr>mi_onsets := []\<rparr>, SpeechStart rms # before @ onset)))"

definition idle_frame :: "mic_config \<Rightarrow> rat \<Rightarrow> audio_frame \<Rightarrow> bool \<Rightarrow> 'v mic \<Rightarrow> 'v mic \<times> voice_event list" where
  "idle_frame cfg rms f speech m =
     (if speech
      then let m1 = m\<lparr>mi_onset := mi_onset m + 1, mi_onsets := mi_onsets m @ [f]\<rparr>
           in if mc_min_frames cfg \<le> mi_onset m1 then start_speech rms m1 else (m1, [])
      else (m\<lparr>mi_onset := 0, mi_onsets := [], mi_pre_roll := push_bounded (mc_pre_roll cfg) f (mi_pre_roll m)\<rparr>, []))"

definition duration :: "mic_config \<Rightarrow> 'v mic \<Rightarrow> rat" where
  "duration cfg m = of_nat (length (mi_samples m)) / of_nat (mc_rate cfg)"

definition turn_frame :: "mic_config \<Rightarrow> 'v detector \<Rightarrow> audio_frame \<Rightarrow> bool \<Rightarrow> 'v mic \<Rightarrow> 'v mic \<times> voice_event list" where
  "turn_frame cfg det f speech m =
     (let m1 = absorb f (m\<lparr>mi_silence := if speech then 0 else mi_silence m + mc_frame_ms cfg\<rparr>);
          e = AudioFrame (fst f) (snd f) (mi_index m) speech
      in if mc_silence_ms cfg \<le> mi_silence m1 \<or> mc_max_seconds cfg \<le> duration cfg m1
         then if duration cfg m1 * 1000 < of_nat (mc_min_ms cfg) then (reset_turn det False m1, [e])
              else (reset_turn det False m1, [e, end_event m1])
         else (m1, [e]))"

definition classify :: "'v detector \<Rightarrow> samples \<Rightarrow> 'v mic \<Rightarrow> bool \<times> 'v mic" where
  "classify det xs m = (case d_speech det (mi_vad m) xs of (b, v) \<Rightarrow> (b, m\<lparr>mi_vad := v\<rparr>))"

definition hear_frame :: "mic_config \<Rightarrow> 'v detector \<Rightarrow> samples \<Rightarrow> bool \<Rightarrow> 'v mic \<Rightarrow> 'v mic \<times> voice_event list" where
  "hear_frame cfg det xs speech m =
     (if mi_in_speech m then turn_frame cfg det (xs, pcm16 xs) speech m
      else idle_frame cfg (d_rms det xs) (xs, pcm16 xs) speech m)"

text \<open>A gated frame only counts towards a barge-in; the frame that completes one is processed again.\<close>

definition gated_frame :: "mic_config \<Rightarrow> 'v detector \<Rightarrow> samples \<Rightarrow> 'v mic \<Rightarrow> 'v mic \<times> voice_event list" where
  "gated_frame cfg det xs m =
     (case mi_barge_level m of
        None \<Rightarrow> (m\<lparr>mi_sustained := 0, mi_candidates := []\<rparr>, [])
      | Some level \<Rightarrow>
          if d_rms det xs < level then (m\<lparr>mi_sustained := 0, mi_candidates := []\<rparr>, [])
          else let m1 = m\<lparr>mi_sustained := mi_sustained m + mc_frame_ms cfg, mi_candidates := mi_candidates m @ [(xs, pcm16 xs)]\<rparr>
               in if mc_barge_ms cfg \<le> mi_sustained m1
                  then (case classify det xs (m1\<lparr>mi_gated := False, mi_sustained := 0, mi_candidates := []\<rparr>) of
                          (speech, m2) \<Rightarrow> hear_frame cfg det xs speech m2)
                  else (m1, []))"

definition process_frame :: "mic_config \<Rightarrow> 'v detector \<Rightarrow> rat \<Rightarrow> samples \<Rightarrow> 'v mic \<Rightarrow> 'v mic \<times> voice_event list" where
  "process_frame cfg det now xs m =
     (case classify det xs (calibrate cfg det (d_rms det xs) (m\<lparr>mi_last := Some now\<rparr>)) of
        (speech, m1) \<Rightarrow> if mi_gated m1 then gated_frame cfg det xs m1 else hear_frame cfg det xs speech m1)"

subsection \<open>Operations\<close>

definition burst_size :: nat where "burst_size = 8"

text \<open>Up to eight frames of the buffer; the flag tells whether the push suspends.\<close>

fun drain_frames :: "nat \<Rightarrow> mic_config \<Rightarrow> 'v detector \<Rightarrow> rat \<Rightarrow> 'v mic \<Rightarrow> 'v mic \<times> voice_event list" where
  "drain_frames 0 cfg det now m = (m\<lparr>mi_pushing := True\<rparr>, [])"
| "drain_frames (Suc k) cfg det now m =
     (if length (mi_buffer m) < frame_size cfg then (m\<lparr>mi_pushing := False\<rparr>, [])
      else case process_frame cfg det now (take (frame_size cfg) (mi_buffer m)) (m\<lparr>mi_buffer := drop (frame_size cfg) (mi_buffer m)\<rparr>) of
             (m1, es) \<Rightarrow> (case drain_frames k cfg det now m1 of (m2, es') \<Rightarrow> (m2, es @ es')))"

definition push_samples :: "mic_config \<Rightarrow> 'v detector \<Rightarrow> rat \<Rightarrow> samples \<Rightarrow> 'v mic \<Rightarrow> 'v mic \<times> voice_event list" where
  "push_samples cfg det now xs m =
     (if mi_stopped m \<or> mi_muted m \<or> mi_gated m \<or> xs = [] then (m, [])
      else drain_frames burst_size cfg det now (m\<lparr>mi_buffer := mi_buffer m @ xs\<rparr>))"

definition poll :: "mic_config \<Rightarrow> 'v detector \<Rightarrow> rat \<Rightarrow> samples \<Rightarrow> 'v mic \<Rightarrow> 'v mic \<times> voice_event list" where
  "poll cfg det now xs m = (if xs \<noteq> [] \<and> \<not> mi_paused m \<and> \<not> mi_muted m then push_samples cfg det now xs m else (m, []))"

text \<open>Muting and stopping commit an utterance in progress, whatever its length.\<close>

definition finish_speech :: "'v detector \<Rightarrow> 'v mic \<Rightarrow> 'v mic \<times> voice_event list" where
  "finish_speech det m = (reset_turn det True m, if mi_in_speech m \<and> mi_samples m \<noteq> [] then [end_event m] else [])"

datatype mic_op = StartMic | Polled rat samples | PushResumes rat | Gate | Ungate | Pause | Resume | Mute | Unmute | StopMic | StopResumes

definition mic_event :: "mic_config \<Rightarrow> 'v detector \<Rightarrow> mic_op \<Rightarrow> 'v mic \<Rightarrow> ('v mic \<times> voice_event list) option" where
  "mic_event cfg det ev m =
     (case ev of
        StartMic \<Rightarrow> Some (if mi_running m then m else m\<lparr>mi_running := True, mi_stopped := False\<rparr>, [])
      | Polled now xs \<Rightarrow> if mi_running m \<and> \<not> mi_stopped m \<and> \<not> mi_pushing m then Some (poll cfg det now xs m) else None
      | PushResumes now \<Rightarrow> if mi_pushing m then Some (drain_frames burst_size cfg det now m) else None
      | Gate \<Rightarrow> Some (m\<lparr>mi_gated := True\<rparr>, [])
      | Ungate \<Rightarrow> Some (m\<lparr>mi_gated := False\<rparr>, [])
      | Pause \<Rightarrow> Some (m\<lparr>mi_paused := True, mi_gated := True\<rparr>, [])
      | Resume \<Rightarrow> Some (m\<lparr>mi_paused := False, mi_gated := False\<rparr>, [])
      | Mute \<Rightarrow> Some (finish_speech det (m\<lparr>mi_muted := True\<rparr>))
      | Unmute \<Rightarrow> Some (reset_turn det True (m\<lparr>mi_muted := False\<rparr>), [])
      | StopMic \<Rightarrow> Some (if mi_stopped m then m else m\<lparr>mi_stopped := True, mi_running := False, mi_stopping := True, mi_pushing := False\<rparr>, [])
      | StopResumes \<Rightarrow> if mi_stopping m then Some (finish_speech det (m\<lparr>mi_stopping := False\<rparr>)) else None)"

fun mic_run :: "mic_config \<Rightarrow> 'v detector \<Rightarrow> mic_op list \<Rightarrow> 'v mic \<Rightarrow> ('v mic \<times> voice_event list) option" where
  "mic_run cfg det [] m = Some (m, [])"
| "mic_run cfg det (op # ops) m =
     (case mic_event cfg det op m of
        None \<Rightarrow> None
      | Some (m1, es) \<Rightarrow> map_option (\<lambda>(m2, es'). (m2, es @ es')) (mic_run cfg det ops m1))"

subsection \<open>What a listener hears\<close>

text \<open>A listener collects the frames since the last start. Frames are numbered from 0 and an end carries what
  was collected. A start may follow a start: a segment that is too short has no end.\<close>

type_synonym heard = "(samples \<times> bytes \<times> nat) option"

fun follow :: "heard \<Rightarrow> voice_event list \<Rightarrow> heard option" where
  "follow l [] = Some l"
| "follow l (SpeechStart _ # es) = follow (Some ([], [], 0)) es"
| "follow (Some (xs, bs, k)) (AudioFrame ys cs i _ # es) = (if i = k then follow (Some (xs @ ys, bs @ cs, k + 1)) es else None)"
| "follow None (AudioFrame ys cs i _ # es) = None"
| "follow (Some (xs, bs, k)) (SpeechEnd ys cs n # es) = (if ys = xs \<and> cs = bs \<and> n = k then follow None es else None)"
| "follow None (SpeechEnd ys cs n # es) = None"

lemma follow_append: "follow l (es @ es') = (case follow l es of None \<Rightarrow> None | Some l' \<Rightarrow> follow l' es')"
  by (induction l es rule: follow.induct) auto

text \<open>How many frames an utterance can have.\<close>

definition frame_bound :: "mic_config \<Rightarrow> nat \<Rightarrow> bool" where
  "frame_bound cfg k \<longleftrightarrow>
     k \<le> mc_pre_roll cfg + mc_min_frames cfg \<or> of_nat (k * frame_size cfg) / of_nat (mc_rate cfg) < mc_max_seconds cfg"

fun event_ok :: "mic_config \<Rightarrow> voice_event \<Rightarrow> bool" where
  "event_ok cfg (SpeechStart _) = True"
| "event_ok cfg (AudioFrame xs bs _ _) = (length xs = frame_size cfg \<and> bs = pcm16 xs)"
| "event_ok cfg (SpeechEnd xs bs k) =
     (bs = pcm16 xs \<and> length xs = k * frame_size cfg \<and> mc_min_frames cfg \<le> k \<and> (frame_bound cfg k \<or> frame_bound cfg (k - 1)))"

definition frame_ok :: "mic_config \<Rightarrow> audio_frame \<Rightarrow> bool" where
  "frame_ok cfg f \<longleftrightarrow> length (fst f) = frame_size cfg \<and> snd f = pcm16 (fst f)"

definition mic_ok :: "mic_config \<Rightarrow> 'v mic \<Rightarrow> bool" where
  "mic_ok cfg m \<longleftrightarrow>
     list_all (frame_ok cfg) (mi_pre_roll m) \<and> length (mi_pre_roll m) \<le> mc_pre_roll cfg \<and> list_all (frame_ok cfg) (mi_onsets m) \<and>
     mi_pcm m = pcm16 (mi_samples m) \<and> length (mi_samples m) = mi_index m * frame_size cfg \<and>
     (if mi_in_speech m then mc_min_frames cfg \<le> mi_index m \<and> frame_bound cfg (mi_index m) \<and> mi_silence m < mc_silence_ms cfg
      else mi_onset m = length (mi_onsets m) \<and> mi_onset m < mc_min_frames cfg)"

definition in_step :: "mic_config \<Rightarrow> heard \<Rightarrow> 'v mic \<Rightarrow> bool" where
  "in_step cfg l m \<longleftrightarrow> mic_ok cfg m \<and> (mi_in_speech m \<longrightarrow> l = Some (mi_samples m, mi_pcm m, mi_index m))"

definition keeps_step :: "mic_config \<Rightarrow> heard \<Rightarrow> 'v mic \<times> voice_event list \<Rightarrow> bool" where
  "keeps_step cfg l res \<longleftrightarrow> list_all (event_ok cfg) (snd res) \<and> (\<exists>l'. follow l (snd res) = Some l' \<and> in_step cfg l' (fst res))"

lemma keeps_stepI:
  "follow l es = Some l' \<Longrightarrow> in_step cfg l' m \<Longrightarrow> list_all (event_ok cfg) es \<Longrightarrow> keeps_step cfg l (m, es)"
  by (auto simp: keeps_step_def)

lemma keeps_step_silent: "in_step cfg l m \<Longrightarrow> keeps_step cfg l (m, [])"
  by (rule keeps_stepI) simp_all

lemma keeps_step_seq:
  assumes "keeps_step cfg l (m1, es1)" and "\<And>l'. in_step cfg l' m1 \<Longrightarrow> keeps_step cfg l' (m2, es2)"
  shows "keeps_step cfg l (m2, es1 @ es2)"
  using assms by (fastforce simp: keeps_step_def follow_append)

lemma emit_frames_follow:
  assumes "emit_frames speech fs m = (m', es)" and "list_all (frame_ok cfg) fs"
  shows "follow (Some (mi_samples m, mi_pcm m, mi_index m)) es = Some (Some (mi_samples m', mi_pcm m', mi_index m')) \<and>
    list_all (event_ok cfg) es \<and>
    m' = m\<lparr>mi_samples := mi_samples m @ concat (map fst fs), mi_pcm := mi_pcm m @ concat (map snd fs), mi_index := mi_index m + length fs\<rparr>"
  using assms
proof (induction fs arbitrary: m es)
  case (Cons f fs)
  obtain es' where es': "emit_frames speech fs (absorb f m) = (m', es')" "es = AudioFrame (fst f) (snd f) (mi_index m) speech # es'"
    using Cons.prems(1) by (auto split: prod.splits)
  from Cons.IH [OF es'(1)] Cons.prems(2) es'(2) show ?case by (auto simp: absorb_def frame_ok_def)
qed simp

lemma frames_flat:
  "list_all (frame_ok cfg) fs \<Longrightarrow> length (concat (map fst fs)) = length fs * frame_size cfg \<and> concat (map snd fs) = pcm16 (concat (map fst fs))"
  by (induction fs) (auto simp: frame_ok_def)

lemma start_speech_keeps:
  assumes "list_all (frame_ok cfg) (mi_pre_roll m)" and "length (mi_pre_roll m) \<le> mc_pre_roll cfg" and "list_all (frame_ok cfg) (mi_onsets m)"
    and "length (mi_onsets m) = mc_min_frames cfg" and "0 < mc_silence_ms cfg"
  shows "keeps_step cfg l (start_speech rms m)"
proof -
  let ?m0 = "m\<lparr>mi_in_speech := True, mi_samples := [], mi_pcm := [], mi_index := 0, mi_silence := 0, mi_pre_roll := []\<rparr>"
  obtain m1 es1 where e1: "emit_frames False (mi_pre_roll m) ?m0 = (m1, es1)" by force
  obtain m2 es2 where e2: "emit_frames True (mi_onsets m) m1 = (m2, es2)" by force
  note f1 = emit_frames_follow [OF e1 assms(1)] and f2 = emit_frames_follow [OF e2 assms(3)]
  have run: "start_speech rms m = (m2\<lparr>mi_onsets := []\<rparr>, SpeechStart rms # es1 @ es2)"
    by (simp add: start_speech_def e1 e2)
  have "follow l (SpeechStart rms # es1 @ es2) = Some (Some (mi_samples m2, mi_pcm m2, mi_index m2))"
    using f1 f2 by (simp add: follow_append)
  moreover have "in_step cfg (Some (mi_samples m2, mi_pcm m2, mi_index m2)) (m2\<lparr>mi_onsets := []\<rparr>)"
    using f1 f2 assms frames_flat [OF assms(1)] frames_flat [OF assms(3)]
    by (simp add: in_step_def mic_ok_def frame_bound_def add_mult_distrib)
  ultimately show ?thesis unfolding run using f1 f2 by (intro keeps_stepI) auto
qed

lemma reset_turn_in_step: "valid_mic_config cfg \<Longrightarrow> in_step cfg l (reset_turn det clear m)"
  by (auto simp: in_step_def mic_ok_def reset_turn_def valid_mic_config_def)

lemma idle_frame_keeps:
  assumes "valid_mic_config cfg" and "in_step cfg l m" and "\<not> mi_in_speech m" and "frame_ok cfg f"
  shows "keeps_step cfg l (idle_frame cfg rms f speech m)"
proof (cases speech)
  case True
  let ?m1 = "m\<lparr>mi_onset := mi_onset m + 1, mi_onsets := mi_onsets m @ [f]\<rparr>"
  have ok: "list_all (frame_ok cfg) (mi_pre_roll m)" "length (mi_pre_roll m) \<le> mc_pre_roll cfg" "list_all (frame_ok cfg) (mi_onsets m)"
    "mi_onset m = length (mi_onsets m)" "mi_onset m < mc_min_frames cfg"
    using assms(2,3) by (auto simp: in_step_def mic_ok_def)
  show ?thesis
  proof (cases "mc_min_frames cfg \<le> mi_onset ?m1")
    case start: True
    have "keeps_step cfg l (start_speech rms ?m1)"
      using ok start assms(1,4) by (intro start_speech_keeps) (auto simp: valid_mic_config_def)
    with True start show ?thesis by (simp add: idle_frame_def)
  next
    case False
    with ok assms have "in_step cfg l ?m1" by (auto simp: in_step_def mic_ok_def)
    with True False show ?thesis by (simp add: idle_frame_def keeps_step_silent)
  qed
next
  case False
  then show ?thesis using assms
    by (auto simp: idle_frame_def in_step_def mic_ok_def valid_mic_config_def list_all_push_bounded length_push_bounded intro!: keeps_step_silent)
qed

lemma turn_frame_keeps:
  assumes "valid_mic_config cfg" and "in_step cfg l m" and "mi_in_speech m" and "frame_ok cfg f"
  shows "keeps_step cfg l (turn_frame cfg det f speech m)"
proof -
  let ?m1 = "absorb f (m\<lparr>mi_silence := if speech then 0 else mi_silence m + mc_frame_ms cfg\<rparr>)"
  let ?e = "AudioFrame (fst f) (snd f) (mi_index m) speech"
  have l: "l = Some (mi_samples m, mi_pcm m, mi_index m)" using assms(2,3) by (simp add: in_step_def)
  have ok: "mi_pcm m = pcm16 (mi_samples m)" "length (mi_samples m) = mi_index m * frame_size cfg" "mc_min_frames cfg \<le> mi_index m"
    "frame_bound cfg (mi_index m)" "list_all (frame_ok cfg) (mi_pre_roll m)" "length (mi_pre_roll m) \<le> mc_pre_roll cfg"
    "list_all (frame_ok cfg) (mi_onsets m)"
    using assms(2,3) by (auto simp: in_step_def mic_ok_def)
  have e: "event_ok cfg ?e" and f: "length (fst f) = frame_size cfg" "snd f = pcm16 (fst f)" using assms(4) by (auto simp: frame_ok_def)
  have heard: "follow l [?e] = Some (Some (mi_samples ?m1, mi_pcm ?m1, mi_index ?m1))" by (simp add: l absorb_def)
  have last: "event_ok cfg (end_event ?m1)" using ok f by (simp add: end_event_def absorb_def)
  show ?thesis
  proof (cases "mc_silence_ms cfg \<le> mi_silence ?m1 \<or> mc_max_seconds cfg \<le> duration cfg ?m1")
    case True
    have "keeps_step cfg l (reset_turn det False ?m1, [?e])" "keeps_step cfg l (reset_turn det False ?m1, [?e, end_event ?m1])"
      using e last heard reset_turn_in_step [OF assms(1)] by (auto intro!: keeps_stepI simp: follow_append end_event_def l absorb_def)
    with True show ?thesis by (simp add: turn_frame_def Let_def)
  next
    case False
    then have "frame_bound cfg (mi_index ?m1)" using ok f by (simp add: frame_bound_def duration_def absorb_def not_le add.commute)
    then have "in_step cfg (Some (mi_samples ?m1, mi_pcm ?m1, mi_index ?m1)) ?m1"
      using ok f False assms(3) by (simp add: in_step_def mic_ok_def absorb_def)
    with False e heard show ?thesis by (auto simp: turn_frame_def Let_def intro!: keeps_stepI)
  qed
qed

lemma hear_frame_keeps:
  "valid_mic_config cfg \<Longrightarrow> in_step cfg l m \<Longrightarrow> length xs = frame_size cfg \<Longrightarrow> keeps_step cfg l (hear_frame cfg det xs speech m)"
  by (auto simp: hear_frame_def frame_ok_def intro: turn_frame_keeps idle_frame_keeps)

text \<open>Fields that the bookkeeping of utterances does not look at.\<close>

lemma in_step_cong:
  assumes "in_step cfg l m" and "mi_pre_roll m' = mi_pre_roll m" and "mi_onsets m' = mi_onsets m" and "mi_pcm m' = mi_pcm m"
    and "mi_samples m' = mi_samples m" and "mi_index m' = mi_index m" and "mi_in_speech m' = mi_in_speech m"
    and "mi_silence m' = mi_silence m" and "mi_onset m' = mi_onset m"
  shows "in_step cfg l m'"
  using assms(1) unfolding in_step_def mic_ok_def assms(2-) .

lemma classify_in_step: "in_step cfg l m \<Longrightarrow> classify det xs m = (b, m') \<Longrightarrow> in_step cfg l m'"
  by (erule in_step_cong) (auto simp: classify_def split: prod.splits)

lemma calibrate_in_step: "in_step cfg l m \<Longrightarrow> in_step cfg l (calibrate cfg det rms (m\<lparr>mi_last := t\<rparr>))"
  by (erule in_step_cong) (auto simp: calibrate_def Let_def)

lemma calibrate_fields [simp]:
  "mi_in_speech (calibrate cfg det rms m) = mi_in_speech m" "mi_gated (calibrate cfg det rms m) = mi_gated m"
  "mi_samples (calibrate cfg det rms m) = mi_samples m" "mi_silence (calibrate cfg det rms m) = mi_silence m"
  by (simp_all add: calibrate_def Let_def)

lemma classify_fields:
  assumes "classify det xs m = (b, m')"
  shows "mi_in_speech m' = mi_in_speech m" "mi_gated m' = mi_gated m" "mi_samples m' = mi_samples m" "mi_silence m' = mi_silence m"
  using assms by (auto simp: classify_def split: prod.splits)

lemma gated_frame_keeps:
  assumes "valid_mic_config cfg" and "in_step cfg l m" and "length xs = frame_size cfg"
  shows "keeps_step cfg l (gated_frame cfg det xs m)"
proof -
  have idle: "keeps_step cfg l (m\<lparr>mi_sustained := a, mi_candidates := b\<rparr>, [])" for a b
    by (rule keeps_step_silent, rule in_step_cong [OF assms(2)]) simp_all
  have woken: "in_step cfg l (m\<lparr>mi_sustained := a, mi_candidates := b, mi_gated := c, mi_sustained := d, mi_candidates := e\<rparr>)" for a b c d e
    by (rule in_step_cong [OF assms(2)]) simp_all
  have "keeps_step cfg l (hear_frame cfg det xs speech m2)"
    if "classify det xs (m\<lparr>mi_sustained := a, mi_candidates := b, mi_gated := c, mi_sustained := d, mi_candidates := e\<rparr>) = (speech, m2)" for a b c d e speech m2
    using hear_frame_keeps [OF assms(1) classify_in_step [OF woken that] assms(3)] .
  with idle show ?thesis by (auto simp: gated_frame_def Let_def split: option.splits prod.splits)
qed

lemma process_frame_keeps:
  assumes "valid_mic_config cfg" and "in_step cfg l m" and "length xs = frame_size cfg"
  shows "keeps_step cfg l (process_frame cfg det now xs m)"
proof -
  obtain speech m1 where c: "classify det xs (calibrate cfg det (d_rms det xs) (m\<lparr>mi_last := Some now\<rparr>)) = (speech, m1)" by force
  have "in_step cfg l m1" using classify_in_step [OF calibrate_in_step [OF assms(2)] c] .
  with c assms show ?thesis by (simp add: process_frame_def gated_frame_keeps hear_frame_keeps)
qed

lemma drain_frames_keeps:
  "valid_mic_config cfg \<Longrightarrow> in_step cfg l m \<Longrightarrow> keeps_step cfg l (drain_frames k cfg det now m)"
proof (induction k arbitrary: l m)
  case 0
  then show ?case by (auto intro!: keeps_step_silent elim: in_step_cong)
next
  case (Suc k)
  show ?case
  proof (cases "length (mi_buffer m) < frame_size cfg")
    case True
    then show ?thesis using Suc.prems by (auto intro!: keeps_step_silent elim: in_step_cong)
  next
    case False
    let ?m0 = "m\<lparr>mi_buffer := drop (frame_size cfg) (mi_buffer m)\<rparr>"
    obtain m1 es where p: "process_frame cfg det now (take (frame_size cfg) (mi_buffer m)) ?m0 = (m1, es)" by force
    obtain m2 es' where d: "drain_frames k cfg det now m1 = (m2, es')" by force
    have "in_step cfg l ?m0" by (rule in_step_cong [OF Suc.prems(2)]) simp_all
    then have "keeps_step cfg l (m1, es)" using process_frame_keeps [OF Suc.prems(1), of l ?m0] p False by (metis length_take min.absorb2 not_less)
    then have "keeps_step cfg l (m2, es @ es')"
      by (rule keeps_step_seq) (use Suc.IH [OF Suc.prems(1), of _ m1] d in simp)
    with False p d show ?thesis by simp
  qed
qed

lemma finish_speech_keeps:
  assumes "valid_mic_config cfg" and "in_step cfg l m"
  shows "keeps_step cfg l (finish_speech det m)"
proof (cases "mi_in_speech m \<and> mi_samples m \<noteq> []")
  case True
  with assms(2) have "follow l [end_event m] = Some None" "event_ok cfg (end_event m)"
    by (auto simp: in_step_def mic_ok_def end_event_def)
  with True reset_turn_in_step [OF assms(1)] show ?thesis by (auto simp: finish_speech_def intro!: keeps_stepI)
next
  case False
  with reset_turn_in_step [OF assms(1)] show ?thesis by (auto simp: finish_speech_def intro!: keeps_step_silent)
qed

lemma mic_event_keeps:
  assumes "valid_mic_config cfg" and "in_step cfg l m" and "mic_event cfg det op m = Some res"
  shows "keeps_step cfg l res"
proof -
  have same: "in_step cfg l m'" if "mi_pre_roll m' = mi_pre_roll m" "mi_onsets m' = mi_onsets m" "mi_pcm m' = mi_pcm m"
    "mi_samples m' = mi_samples m" "mi_index m' = mi_index m" "mi_in_speech m' = mi_in_speech m"
    "mi_silence m' = mi_silence m" "mi_onset m' = mi_onset m" for m'
    using in_step_cong [OF assms(2)] that by blast
  have push: "keeps_step cfg l (push_samples cfg det now xs m)" for now xs
    by (auto simp: push_samples_def intro!: keeps_step_silent drain_frames_keeps assms same)
  show ?thesis
    using assms(3) push same
    by (cases op) (auto simp: mic_event_def poll_def assms drain_frames_keeps reset_turn_in_step split: if_splits
      intro!: keeps_step_silent finish_speech_keeps drain_frames_keeps reset_turn_in_step [OF assms(1)])
qed

lemma mic_run_keeps:
  "valid_mic_config cfg \<Longrightarrow> in_step cfg l m \<Longrightarrow> mic_run cfg det ops m = Some res \<Longrightarrow> keeps_step cfg l res"
proof (induction ops arbitrary: l m res)
  case (Cons op ops)
  obtain m1 es m2 es' where s: "mic_event cfg det op m = Some (m1, es)" "mic_run cfg det ops m1 = Some (m2, es')" "res = (m2, es @ es')"
    using Cons.prems(3) by (auto split: option.splits)
  have "keeps_step cfg l (m1, es)" using mic_event_keeps [OF Cons.prems(1,2) s(1)] .
  then show ?case unfolding s(3) using Cons.IH [OF Cons.prems(1) _ s(2)] by (rule keeps_step_seq)
qed (auto intro: keeps_step_silent)

subsection \<open>Properties\<close>

lemma new_mic_in_step: "valid_mic_config cfg \<Longrightarrow> in_step cfg l (new_mic v)"
  by (auto simp: in_step_def mic_ok_def new_mic_def valid_mic_config_def)

text \<open>C11: Whatever the detector says and however gating, pausing, muting and stopping interleave with the audio,
  the events form utterances: a start, frames numbered from 0, and an end that carries exactly the
  samples, the bytes and the number of these frames. An utterance has at least the required onset frames, and
  before its last frame it was shorter than the maximum duration or had just begun.\<close>

theorem utterances_exact:
  assumes "valid_mic_config cfg" and "mic_run cfg det ops (new_mic v) = Some (m, es)"
  shows "follow None es \<noteq> None \<and>
    (\<forall>xs bs k. SpeechEnd xs bs k \<in> set es \<longrightarrow>
       bs = pcm16 xs \<and> length xs = k * frame_size cfg \<and> mc_min_frames cfg \<le> k \<and>
       (k \<le> mc_pre_roll cfg + mc_min_frames cfg + 1 \<or>
        of_nat ((k - 1) * frame_size cfg) / of_nat (mc_rate cfg) < mc_max_seconds cfg))"
proof -
  have keeps: "keeps_step cfg None (m, es)" using mic_run_keeps [OF assms(1) new_mic_in_step [OF assms(1)] assms(2)] .
  then have good: "list_all (event_ok cfg) es" and heard: "follow None es \<noteq> None" by (auto simp: keeps_step_def)
  have less: "of_nat ((k - 1) * frame_size cfg) / of_nat (mc_rate cfg) \<le> (of_nat (k * frame_size cfg) / of_nat (mc_rate cfg) :: rat)" for k
    by (rule divide_right_mono) (simp_all add: mult_right_mono flip: of_nat_mult)
  have "bs = pcm16 xs \<and> length xs = k * frame_size cfg \<and> mc_min_frames cfg \<le> k \<and>
       (k \<le> mc_pre_roll cfg + mc_min_frames cfg + 1 \<or>
        of_nat ((k - 1) * frame_size cfg) / of_nat (mc_rate cfg) < mc_max_seconds cfg)" if "SpeechEnd xs bs k \<in> set es" for xs bs k
  proof -
    have "event_ok cfg (SpeechEnd xs bs k)" using good that unfolding list_all_iff by blast
    then show ?thesis using less [of k] by (auto simp: frame_bound_def simp del: of_nat_mult)
  qed
  with heard show ?thesis by blast
qed

text \<open>A detector that hears every positive level.\<close>

definition loud :: "unit detector" where
  "loud = \<lparr>d_rms = hd, d_speech = (\<lambda>v xs. (0 < hd xs, v)), d_threshold = (\<lambda>_ v. v), d_reset = id\<rparr>"

definition tiny_config :: mic_config where
  "tiny_config =
     \<lparr>mc_rate = 100, mc_frame_ms = 10, mc_silence_ms = 50, mc_pre_roll = 1, mc_min_frames = 1, mc_max_seconds = 1,
      mc_barge_factor = 4, mc_barge_ms = 50, mc_min_ms = 70\<rparr>"

lemma tiny_config_valid: "valid_mic_config tiny_config" "frame_size tiny_config = 1"
  by code_simp+

lemma tiny_utterance:
  "map_option snd (mic_run tiny_config loud [StartMic, Polled 0 [0, 0, 1, 1, 0], Polled 1 [0, 0, 0, 0, 0]] (new_mic ())) =
   Some [SpeechStart 1, AudioFrame [0] [0, 0] 0 False, AudioFrame [1] [255, 127] 1 True, AudioFrame [1] [255, 127] 2 True,
     AudioFrame [0] [0, 0] 3 False, AudioFrame [0] [0, 0] 4 False, AudioFrame [0] [0, 0] 5 False, AudioFrame [0] [0, 0] 6 False,
     AudioFrame [0] [0, 0] 7 False, SpeechEnd [0, 1, 1, 0, 0, 0, 0, 0] [0, 0, 255, 127, 255, 127, 0, 0, 0, 0, 0, 0, 0, 0, 0, 0] 8]"
  by code_simp

lemma utterances_exact_witness:
  "\<exists>m es. mic_run tiny_config loud [StartMic, Polled 0 [0, 0, 1, 1, 0], Polled 1 [0, 0, 0, 0, 0]] (new_mic ()) = Some (m, es) \<and> follow None es \<noteq> None"
proof -
  obtain m es where run: "mic_run tiny_config loud [StartMic, Polled 0 [0, 0, 1, 1, 0], Polled 1 [0, 0, 0, 0, 0]] (new_mic ()) = Some (m, es)"
    using tiny_utterance by (cases "mic_run tiny_config loud [StartMic, Polled 0 [0, 0, 1, 1, 0], Polled 1 [0, 0, 0, 0, 0]] (new_mic ())") auto
  show ?thesis using run utterances_exact [OF tiny_config_valid(1) run] by blast
qed

text \<open>C39: While the microphone is gated, as it is during playback, audio that arrives is discarded before the
  barge-in detector sees it: no sequence of polls, however loud, changes the state or gives an event. Only a
  push that was suspended when the gate closed still reaches the detector.\<close>

theorem gated_microphone_deaf:
  assumes "mi_running m" and "\<not> mi_stopped m" and "mi_gated m" and "\<not> mi_pushing m"
  shows "mic_run cfg det (map (\<lambda>(now, xs). Polled now xs) ps) m = Some (m, [])"
  using assms by (induction ps) (auto simp: mic_event_def poll_def push_samples_def)

lemma gated_microphone_deaf_witness:
  "mic_run default_mic_config loud (map (\<lambda>(now, xs). Polled now xs) [(0, replicate 1000 1)])
     ((new_mic ())\<lparr>mi_running := True, mi_gated := True, mi_calibrated := True, mi_barge_level := Some (1 / 80)\<rparr>) =
   Some ((new_mic ())\<lparr>mi_running := True, mi_gated := True, mi_calibrated := True, mi_barge_level := Some (1 / 80)\<rparr>, [])"
  by (rule gated_microphone_deaf) (simp_all add: new_mic_def)

text \<open>The frames of an undisturbed push.\<close>

fun process_frames :: "mic_config \<Rightarrow> 'v detector \<Rightarrow> rat \<Rightarrow> samples list \<Rightarrow> 'v mic \<Rightarrow> 'v mic \<times> voice_event list" where
  "process_frames cfg det now [] m = (m, [])"
| "process_frames cfg det now (f # fs) m =
     (case process_frame cfg det now f m of (m1, es) \<Rightarrow>
        (case process_frames cfg det now fs m1 of (m2, es') \<Rightarrow> (m2, es @ es')))"

text \<open>Speech ends: once an utterance that is long enough is followed by silent frames that last the silence
  duration, its end is reported within these frames and carries everything that was heard before.\<close>

theorem silence_ends_speech:
  assumes "mi_in_speech m" and "\<not> mi_gated m" and "\<forall>f \<in> set fs. \<forall>v. \<not> fst (d_speech det v f)"
    and "of_nat (mc_min_ms cfg) \<le> duration cfg m * 1000" and "0 < mc_rate cfg"
    and "mc_silence_ms cfg \<le> mi_silence m + length fs * mc_frame_ms cfg" and "mi_silence m < mc_silence_ms cfg"
  shows "\<exists>xs bs k. SpeechEnd (mi_samples m @ xs) bs k \<in> set (snd (process_frames cfg det now fs m))"
  using assms
proof (induction fs arbitrary: m)
  case (Cons f fs)
  let ?m0 = "calibrate cfg det (d_rms det f) (m\<lparr>mi_last := Some now\<rparr>)"
  obtain m1 where c: "classify det f ?m0 = (False, m1)"
  proof -
    have "\<not> fst (d_speech det (mi_vad ?m0) f)" using Cons.prems(3) by simp
    with that show ?thesis by (cases "d_speech det (mi_vad ?m0) f") (simp add: classify_def)
  qed
  have m1: "mi_in_speech m1" "\<not> mi_gated m1" "mi_samples m1 = mi_samples m" "mi_silence m1 = mi_silence m"
    using classify_fields [OF c] Cons.prems(1,2) by simp_all
  let ?m2 = "absorb (f, pcm16 f) (m1\<lparr>mi_silence := mi_silence m1 + mc_frame_ms cfg\<rparr>)"
  have p: "process_frame cfg det now f m = turn_frame cfg det (f, pcm16 f) False m1"
    using c m1 by (simp add: process_frame_def hear_frame_def)
  have longer: "duration cfg m * 1000 \<le> duration cfg ?m2 * 1000"
    using Cons.prems(5) m1(3) by (simp add: duration_def absorb_def divide_right_mono)
  show ?case
  proof (cases "mc_silence_ms cfg \<le> mi_silence ?m2 \<or> mc_max_seconds cfg \<le> duration cfg ?m2")
    case True
    then have "turn_frame cfg det (f, pcm16 f) False m1 = (reset_turn det False ?m2, [AudioFrame f (pcm16 f) (mi_index m1) False, end_event ?m2])"
      using longer Cons.prems(4) by (simp add: turn_frame_def Let_def)
    moreover have "end_event ?m2 = SpeechEnd (mi_samples m @ f) (mi_pcm ?m2) (mi_index ?m2)" by (simp add: end_event_def absorb_def m1(3))
    ultimately show ?thesis by (auto simp: p split: prod.splits)
  next
    case False
    then have t: "turn_frame cfg det (f, pcm16 f) False m1 = (?m2, [AudioFrame f (pcm16 f) (mi_index m1) False])"
      by (simp add: turn_frame_def Let_def)
    have "\<exists>xs bs k. SpeechEnd (mi_samples ?m2 @ xs) bs k \<in> set (snd (process_frames cfg det now fs ?m2))"
      by (rule Cons.IH) (use Cons.prems False m1 longer in \<open>simp_all add: absorb_def algebra_simps\<close>)
    then obtain xs bs k where "SpeechEnd (mi_samples m @ f @ xs) bs k \<in> set (snd (process_frames cfg det now fs ?m2))"
      by (auto simp: absorb_def m1(3))
    with t p show ?thesis by (intro exI [of _ "f @ xs"] exI [of _ bs] exI [of _ k]) (cases "process_frames cfg det now fs ?m2", simp)
  qed
qed simp

definition talking :: "unit mic" where
  "talking = (new_mic ())\<lparr>mi_in_speech := True, mi_samples := [1, 1], mi_pcm := pcm16 [1, 1], mi_index := 2\<rparr>"

lemma silence_ends_speech_witness:
  "\<exists>xs bs k. SpeechEnd (mi_samples talking @ xs) bs k
     \<in> set (snd (process_frames (tiny_config\<lparr>mc_min_ms := 20\<rparr>) loud 0 [[0], [0], [0], [0], [0]] talking))"
  by (rule silence_ends_speech)
    (simp_all add: talking_def new_mic_def tiny_config_def loud_def duration_def)

fun verdicts :: "'v detector \<Rightarrow> 'v \<Rightarrow> samples list \<Rightarrow> bool list" where
  "verdicts det v [] = []"
| "verdicts det v (f # fs) = (case d_speech det v f of (b, v') \<Rightarrow> b # verdicts det v' fs)"

lemma energy_verdicts:
  "1 / 1000 \<le> ev_threshold v \<Longrightarrow> ev_floor v \<le> ev_threshold v / 2 \<Longrightarrow>
   verdicts (energy_detector rms) v fs = map (\<lambda>f. ev_threshold v < rms f) fs"
proof (induction fs arbitrary: v)
  case (Cons f fs)
  obtain b v' where s: "energy_speech rms v f = (b, v')" by force
  have "energy_limit v = ev_threshold v" using Cons.prems by (auto simp: energy_limit_def max_def)
  then have b: "b = (ev_threshold v < rms f)" using s by (auto simp: energy_speech_def Let_def)
  have v': "ev_threshold v' = ev_threshold v" "ev_floor v' \<le> ev_threshold v' / 2"
    using s Cons.prems by (auto simp: energy_speech_def Let_def max_def min_def split: if_splits)
  with Cons.IH [of v'] Cons.prems(1) s b show ?case by (simp add: energy_detector_def)
qed simp

text \<open>The adaptive noise floor is inert: with a threshold of at least 0.001 the adaptive detector gives the
  verdicts of the fixed threshold on every sequence of frames.\<close>

theorem adaptive_floor_inert:
  assumes "1 / 1000 \<le> thr"
  shows "verdicts (energy_detector rms) (new_energy_vad thr True) fs = verdicts (energy_detector rms) (new_energy_vad thr False) fs"
  using assms by (simp add: energy_verdicts new_energy_vad_def min_def)

lemma adaptive_floor_inert_witness:
  "verdicts (energy_detector hd) (new_energy_vad (3 / 1000) True) [[1], [0], [2 / 1000]] =
   verdicts (energy_detector hd) (new_energy_vad (3 / 1000) False) [[1], [0], [2 / 1000]]"
  by (rule adaptive_floor_inert) simp

text \<open>A click that reaches the onset length and is too short: the listener hears a start and no end.\<close>

lemma short_segment_has_no_end:
  "map_option (\<lambda>(m, es). (mi_in_speech m, es = SpeechStart 1 # filter (\<lambda>e. case e of AudioFrame _ _ _ _ \<Rightarrow> True | _ \<Rightarrow> False) es))
     (mic_run tiny_config loud [StartMic, Polled 0 [1, 0, 0, 0, 0, 0]] (new_mic ())) = Some (False, True)"
  by code_simp

text \<open>A gate that closes while a push is suspended: the rest of the burst reaches the barge-in detector.\<close>

lemma suspended_push_barges_in:
  "map_option (\<lambda>(m, es). (mi_gated m, SpeechStart 1 \<in> set es))
     (mic_run tiny_config loud [Polled 0 (replicate 20 1), Gate, PushResumes 1]
       ((new_mic ())\<lparr>mi_running := True, mi_calibrated := True, mi_barge_level := Some (1 / 2), mi_in_speech := False, mi_onset := 0\<rparr>)) =
   Some (False, True)"
  by code_simp

end
