(* ===== verification/Turn_Manager.thy ===== *)
theory Turn_Manager
  imports Task_Lifecycle Py_Substitute
begin

text \<open>
  Models \<open>ConversationTurnManager\<close> of \<open>python/tom/voice/turn_manager.py\<close> over the schemas of
  \<open>schemas/turn.py\<close>: the turn that is open, the bounded history of closed turns, the referents and the view of
  the background tasks. A refused schema is \<open>TurnInvalid\<close>; the state keeps what was assigned before. Identifiers
  and times are arguments. A context is shared with the caller: an operation that changes it returns it,
  and changes the open turn too when it is the same one.
\<close>

subsection \<open>Schemas\<close>

datatype response_action = SPEAK_DIRECT | FAST_ACK_THEN_WORK | SILENT_ACT | CLARIFY | REPORT_PROGRESS

datatype turn_status = TurnActive | TurnCompleted | TurnInterrupted

datatype entity_kind = FileKind | DirectoryKind | MemoryKind | ScreenKind | TaskKind | ToolKind | QueryKind | AppKind | GenericKind

fun kind_text :: "entity_kind \<Rightarrow> string" where
  "kind_text FileKind = ''file''"
| "kind_text DirectoryKind = ''directory''"
| "kind_text MemoryKind = ''memory''"
| "kind_text ScreenKind = ''screen''"
| "kind_text TaskKind = ''task''"
| "kind_text ToolKind = ''tool''"
| "kind_text QueryKind = ''query''"
| "kind_text AppKind = ''app''"
| "kind_text GenericKind = ''generic''"

record referent =
  er_name :: string
  er_kind :: entity_kind
  er_label :: string
  er_value :: string
  er_turn :: string
  er_updated :: rat

definition upto_chars :: "int \<Rightarrow> string \<Rightarrow> bool" where
  "upto_chars n s \<longleftrightarrow> int (length s) \<le> n"

definition valid_referent :: "referent \<Rightarrow> bool" where
  "valid_referent r \<longleftrightarrow>
     er_name r \<noteq> [] \<and> upto_chars 64 (er_name r) \<and> upto_chars 200 (er_label r) \<and> upto_chars 2000 (er_value r) \<and> upto_chars 64 (er_turn r)"

definition describe :: "referent \<Rightarrow> string" where
  "describe r =
     (let label = strip (er_label r);
          shown = (if label \<noteq> [] then label else map (\<lambda>c. if c = CHR ''_'' then CHR '' '' else c) (er_name r))
      in if er_value r = [] then shown else shown @ '': '' @ er_value r)"

record background_task =
  bg_id :: string
  bg_goal :: string
  bg_state :: task_state
  bg_step :: nat
  bg_steps :: int

definition valid_background :: "background_task \<Rightarrow> bool" where
  "valid_background b \<longleftrightarrow>
     bg_id b \<noteq> [] \<and> upto_chars 64 (bg_id b) \<and> bg_goal b \<noteq> [] \<and> upto_chars 2000 (bg_goal b) \<and> int (bg_step b) \<le> 1000 \<and>
     1 \<le> bg_steps b \<and> bg_steps b \<le> 1000"

record turn_record =
  tr_id :: string
  tr_index :: nat
  tr_user :: string
  tr_assistant :: string
  tr_action :: "response_action option"
  tr_status :: turn_status
  tr_tools :: "string list"
  tr_referents :: "(string, referent) dict"
  tr_started :: rat
  tr_ended :: rat

definition valid_turn_record :: "turn_record \<Rightarrow> bool" where
  "valid_turn_record r \<longleftrightarrow>
     tr_id r \<noteq> [] \<and> upto_chars 64 (tr_id r) \<and> int (tr_index r) \<le> 1000000 \<and> upto_chars 8000 (tr_user r) \<and>
     upto_chars 8000 (tr_assistant r) \<and> length (tr_tools r) \<le> 64"

record turn_context =
  tc_id :: string
  tc_index :: nat
  tc_user :: string
  tc_anaphoric :: bool
  tc_tools :: "string list"
  tc_referents :: "(string, referent) dict"
  tc_history :: "turn_record list"
  tc_background :: "background_task list"
  tc_latency :: rat
  tc_started :: rat

definition valid_turn_context :: "turn_context \<Rightarrow> bool" where
  "valid_turn_context c \<longleftrightarrow>
     upto_chars 64 (tc_id c) \<and> int (tc_index c) \<le> 1000000 \<and> upto_chars 8000 (tc_user c) \<and> length (tc_tools c) \<le> 64 \<and>
     length (tc_history c) \<le> 64 \<and> length (tc_background c) \<le> 64"

definition has_running_task :: "turn_context \<Rightarrow> bool" where
  "has_running_task c \<longleftrightarrow> list_ex (\<lambda>b. \<not> task_terminal (bg_state b)) (tc_background c)"

definition is_follow_up :: "turn_context \<Rightarrow> bool" where
  "is_follow_up c \<longleftrightarrow> tc_anaphoric c \<and> (tc_referents c \<noteq> [] \<or> tc_history c \<noteq> [])"

subsection \<open>Back-references\<close>

definition quote_char :: char where "quote_char = CHR 0x27"

definition anaphora_rx :: rx where
  "anaphora_rx =
     Alt (rx_seq [Boundary, rx_alt (map lit_ci [''that'', ''this'', ''these'', ''those'', ''there'']), Boundary,
            Not_ahead (rx_alt (map (\<lambda>s. lit_ci (quote_char # s)) [''s'', ''re'', ''ll'', ''ve'', ''d'']))])
         (rx_seq [Boundary, lit_ci ''the'', rx_at_least 1 space_rx, rx_alt (map lit_ci [''previous'', ''last'', ''same'', ''above'']), Boundary])"

definition contains_anaphoric_reference :: "string \<Rightarrow> bool" where
  "contains_anaphoric_reference s \<longleftrightarrow> rx_search anaphora_rx s"

lemma anaphora_found:
  "contains_anaphoric_reference ''open That file''" "contains_anaphoric_reference ''repeat the  last one''"
  "\<not> contains_anaphoric_reference (''that'' @ [quote_char] @ ''s fine'')" "\<not> contains_anaphoric_reference ''thatch the roof''"
  by code_simp+

subsection \<open>The manager\<close>

record turn_manager =
  tm_limit :: nat
  tm_background_limit :: nat
  tm_history :: "turn_record list"
  tm_referents :: "(string, referent) dict"
  tm_background :: "background_task list"
  tm_current :: "turn_context option"
  tm_counter :: nat

datatype turn_error = TurnInvalid | BadLimit

definition new_turn_manager :: "nat \<Rightarrow> nat \<Rightarrow> turn_error + turn_manager" where
  "new_turn_manager limit view =
     (if limit < 1 then Inl BadLimit
      else Inr \<lparr>tm_limit = limit, tm_background_limit = view, tm_history = [], tm_referents = [], tm_background = [],
                tm_current = None, tm_counter = 0\<rparr>)"

definition task_snapshot :: "task \<Rightarrow> background_task" where
  "task_snapshot t =
     \<lparr>bg_id = task_id t, bg_goal = (if upto_chars 2000 (goal t) then goal t else take 2000 (goal t)), bg_state = t_state t,
      bg_step = min (current_step_index t) 1000, bg_steps = max (max_steps t) 1\<rparr>"

text \<open>\<open>None\<close>: there is no task manager, or asking it raised.\<close>

definition sync_background :: "task list option \<Rightarrow> turn_manager \<Rightarrow> (turn_error + background_task list) \<times> turn_manager" where
  "sync_background active tm =
     (case active of
        None \<Rightarrow> (Inr [], tm\<lparr>tm_background := []\<rparr>)
      | Some ts \<Rightarrow>
          let bs = map task_snapshot (take (tm_background_limit tm) (sort_key created_at ts))
          in if list_all valid_background bs then (Inr bs, tm\<lparr>tm_background := bs\<rparr>) else (Inl TurnInvalid, tm))"

definition open_context ::
  "string \<Rightarrow> rat \<Rightarrow> string \<Rightarrow> string list \<Rightarrow> background_task list \<Rightarrow> rat \<Rightarrow> turn_manager \<Rightarrow> (turn_error + turn_context) \<times> turn_manager" where
  "open_context uid now said tools bs latency tm =
     (let c = \<lparr>tc_id = ''turn_'' @ uid, tc_index = tm_counter tm, tc_user = said, tc_anaphoric = contains_anaphoric_reference said,
               tc_tools = tools, tc_referents = tm_referents tm, tc_history = tm_history tm, tc_background = bs,
               tc_latency = latency, tc_started = now\<rparr>
      in if valid_turn_context c then (Inr c, tm\<lparr>tm_current := Some c\<rparr>) else (Inl TurnInvalid, tm))"

definition start_turn ::
  "string \<Rightarrow> rat \<Rightarrow> string \<Rightarrow> string list \<Rightarrow> (string, referent) dict \<Rightarrow> background_task list option \<Rightarrow> task list option \<Rightarrow> rat \<Rightarrow> turn_manager \<Rightarrow>
   (turn_error + turn_context) \<times> turn_manager" where
  "start_turn uid now said tools refs given active latency tm =
     (let tm1 = tm\<lparr>tm_counter := tm_counter tm + 1\<rparr>
      in case (case given of Some bs \<Rightarrow> (Inr bs, tm1) | None \<Rightarrow> sync_background active tm1) of
           (Inl e, tm2) \<Rightarrow> (Inl e, tm2)
         | (Inr bs, tm2) \<Rightarrow>
             open_context uid now said tools bs latency
               (tm2\<lparr>tm_referents := foldl (\<lambda>d (k, r). dict_set k r d) (tm_referents tm2) refs\<rparr>))"

text \<open>The table of tools: slot, kind and argument.\<close>

definition tool_rules :: "(string \<times> string \<times> entity_kind \<times> string) list" where
  "tool_rules =
    [(''files.read_file'', ''last_file'', FileKind, ''path''), (''files.get_metadata'', ''last_file'', FileKind, ''path''),
     (''files.write_file'', ''last_file'', FileKind, ''path''), (''files.copy_file'', ''last_file'', FileKind, ''destination''),
     (''files.delete_file'', ''last_file'', FileKind, ''path''), (''files.list_directory'', ''last_directory'', DirectoryKind, ''path''),
     (''memory.search'', ''last_query'', QueryKind, ''query''), (''memory.recall'', ''last_query'', QueryKind, ''query''),
     (''memory.remember'', ''last_memory'', MemoryKind, ''content''), (''vision.capture'', ''last_screen'', ScreenKind, ''monitor''),
     (''vision.ocr'', ''last_screen'', ScreenKind, ''monitor''), (''vision.find_element'', ''last_screen'', ScreenKind, ''monitor''),
     (''vision.ask'', ''last_screen'', ScreenKind, ''monitor''), (''os.input.click'', ''last_input_target'', AppKind, ''x''),
     (''os.input.type_text'', ''last_input_target'', AppKind, ''text''), (''os.input.hotkey'', ''last_input_target'', AppKind, ''keys'')]"

definition last_tool_slot :: string where "last_tool_slot = ''last_tool''"

text \<open>A parameter: \<open>None\<close>, a list, dictionary or tuple, or a value with its text.\<close>

datatype tool_param = NullParam | CompoundParam | TextParam string

definition turn_id_of :: "turn_context option \<Rightarrow> string" where
  "turn_id_of ctx = (case ctx of None \<Rightarrow> [] | Some c \<Rightarrow> tc_id c)"

text \<open>The context and the open turn are one object when they have one identifier.\<close>

definition share :: "turn_context \<Rightarrow> turn_manager \<Rightarrow> turn_manager" where
  "share c tm = (case tm_current tm of Some d \<Rightarrow> if tc_id d = tc_id c then tm\<lparr>tm_current := Some c\<rparr> else tm | None \<Rightarrow> tm)"

definition put_referent :: "referent \<Rightarrow> turn_manager \<Rightarrow> turn_manager" where
  "put_referent r tm = tm\<lparr>tm_referents := dict_set (er_name r) r (tm_referents tm)\<rparr>"

definition rule_referent :: "rat \<Rightarrow> turn_context option \<Rightarrow> string \<Rightarrow> (string, tool_param) dict \<Rightarrow> referent option" where
  "rule_referent now ctx tool params =
     (case dict_get tool_rules tool of
        None \<Rightarrow> None
      | Some (slot, kind, key) \<Rightarrow>
          (case dict_get params key of
             Some (TextParam v) \<Rightarrow>
               if strip v = [] then None
               else Some \<lparr>er_name = slot, er_kind = kind, er_label = ''last '' @ kind_text kind,
                          er_value = (if upto_chars 2000 (strip v) then strip v else take 2000 (strip v)), er_turn = turn_id_of ctx, er_updated = now\<rparr>
           | _ \<Rightarrow> None))"

definition record_tool_call ::
  "rat \<Rightarrow> turn_context option \<Rightarrow> string \<Rightarrow> (string, tool_param) dict \<Rightarrow> turn_manager \<Rightarrow>
   (turn_error + referent option) \<times> turn_context option \<times> turn_manager" where
  "record_tool_call now ctx tool params tm =
     (let used = \<lparr>er_name = last_tool_slot, er_kind = ToolKind, er_label = ''last tool used'', er_value = tool, er_turn = turn_id_of ctx,
                  er_updated = now\<rparr>
      in if \<not> valid_referent used then (Inl TurnInvalid, ctx, tm)
         else let tm1 = put_referent used tm
              in case rule_referent now ctx tool params of
                   None \<Rightarrow> (Inr None, ctx, tm1)
                 | Some r \<Rightarrow>
                     if \<not> valid_referent r then (Inl TurnInvalid, ctx, tm1)
                     else (case ctx of
                             None \<Rightarrow> (Inr (Some r), None, put_referent r tm1)
                           | Some c \<Rightarrow>
                               let c' = c\<lparr>tc_referents := dict_set last_tool_slot used (dict_set (er_name r) r (tc_referents c))\<rparr>
                               in (Inr (Some r), Some c', share c' (put_referent r tm1))))"

definition register_referent ::
  "rat \<Rightarrow> turn_context option \<Rightarrow> string \<Rightarrow> entity_kind \<Rightarrow> string \<Rightarrow> string \<Rightarrow> turn_manager \<Rightarrow>
   (turn_error + referent) \<times> turn_context option \<times> turn_manager" where
  "register_referent now ctx name kind value label tm =
     (let r = \<lparr>er_name = name, er_kind = kind, er_label = (if label = [] then ''last '' @ kind_text kind else label), er_value = value,
               er_turn = turn_id_of ctx, er_updated = now\<rparr>
      in if \<not> valid_referent r then (Inl TurnInvalid, ctx, tm)
         else case ctx of
                None \<Rightarrow> (Inr r, None, put_referent r tm)
              | Some c \<Rightarrow> let c' = c\<lparr>tc_referents := dict_set name r (tc_referents c)\<rparr> in (Inr r, Some c', share c' (put_referent r tm)))"

text \<open>\<open>_close\<close>: nothing changes when the record is refused.\<close>

definition close_turn ::
  "rat \<Rightarrow> turn_context option \<Rightarrow> string \<Rightarrow> response_action option \<Rightarrow> string list \<Rightarrow> turn_status \<Rightarrow> turn_manager \<Rightarrow>
   (turn_error + turn_record) \<times> turn_manager" where
  "close_turn now ctx said action tools status tm =
     (let c = (case ctx of Some c \<Rightarrow> Some c | None \<Rightarrow> tm_current tm);
          r = \<lparr>tr_id = (case c of Some c \<Rightarrow> tc_id c | None \<Rightarrow> ''turn_unknown''), tr_index = (case c of Some c \<Rightarrow> tc_index c | None \<Rightarrow> 0),
               tr_user = (case c of Some c \<Rightarrow> tc_user c | None \<Rightarrow> []), tr_assistant = said, tr_action = action, tr_status = status,
               tr_tools = tools, tr_referents = tm_referents tm, tr_started = (case c of Some c \<Rightarrow> tc_started c | None \<Rightarrow> now), tr_ended = now\<rparr>
      in if \<not> valid_turn_record r then (Inl TurnInvalid, tm)
         else (Inr r, tm\<lparr>tm_history := push_bounded (tm_limit tm) r (tm_history tm), tm_current := None\<rparr>))"

definition record_assistant_reply ::
  "rat \<Rightarrow> turn_context option \<Rightarrow> string \<Rightarrow> response_action option \<Rightarrow> string list \<Rightarrow> turn_manager \<Rightarrow> (turn_error + turn_record) \<times> turn_manager" where
  "record_assistant_reply now ctx said action tools tm = close_turn now ctx said action tools TurnCompleted tm"

definition interrupt_turn ::
  "rat \<Rightarrow> turn_context option \<Rightarrow> string \<Rightarrow> turn_manager \<Rightarrow> (turn_error + turn_record) \<times> turn_manager" where
  "interrupt_turn now ctx said tm = close_turn now ctx said None [] TurnInterrupted tm"

definition reset_turns :: "turn_manager \<Rightarrow> turn_manager" where
  "reset_turns tm = tm\<lparr>tm_history := [], tm_referents := [], tm_background := [], tm_current := None, tm_counter := 0\<rparr>"

subsection \<open>The prompt block\<close>

fun decimal :: "nat \<Rightarrow> string" where
  "decimal n = (if n < 10 then [char_of (48 + n)] else decimal (n div 10) @ [char_of (48 + n mod 10)])"

declare decimal.simps [simp del]

fun state_text :: "task_state \<Rightarrow> string" where
  "state_text CREATED = ''CREATED''"
| "state_text ROUTING = ''ROUTING''"
| "state_text PLANNING = ''PLANNING''"
| "state_text EXECUTING = ''EXECUTING''"
| "state_text WAITING_CONFIRMATION = ''WAITING_CONFIRMATION''"
| "state_text COMPLETING = ''COMPLETING''"
| "state_text COMPLETED = ''COMPLETED''"
| "state_text FAILED = ''FAILED''"
| "state_text CANCELLED = ''CANCELLED''"

definition record_lines :: "turn_record \<Rightarrow> string list" where
  "record_lines r =
     (''  - user: '' @ tr_user r @ (if tr_status r = TurnInterrupted then '' [interrupted]'' else [])) #
     (if tr_assistant r = [] then [] else [''  - assistant: '' @ tr_assistant r])"

definition task_line :: "background_task \<Rightarrow> string" where
  "task_line b =
     ''  - '' @ bg_goal b @ '' ['' @ state_text (bg_state b) @ ''] (step '' @ decimal (bg_step b) @ ''/'' @ decimal (nat (bg_steps b)) @ '')''"

definition line_break :: string where "line_break = [char_of (10::nat)]"

definition render_model_context :: "bool \<Rightarrow> turn_manager \<Rightarrow> string" where
  "render_model_context turns tm =
     join_with line_break
       ((if turns \<and> tm_history tm \<noteq> [] then ''Recent conversation:'' # concat (map record_lines (tm_history tm)) else []) @
        (if tm_referents tm \<noteq> [] then ''Known referents:'' # map (\<lambda>r. ''  - '' @ describe r) (dict_values (tm_referents tm)) else []) @
        (if tm_background tm \<noteq> [] then ''Active background tasks:'' # map task_line (tm_background tm) else []))"

subsection \<open>Every operation\<close>

datatype turn_op =
    StartTurn string rat string "string list" "(string, referent) dict" "background_task list option" "task list option" rat
  | ToolCalled rat "turn_context option" string "(string, tool_param) dict"
  | Registered rat "turn_context option" string entity_kind string string
  | Closed rat "turn_context option" string "response_action option" "string list" turn_status
  | Synced "task list option"
  | ResetTurns

text \<open>The record is the turn that was closed.\<close>

definition turn_event :: "turn_op \<Rightarrow> turn_manager \<Rightarrow> turn_manager \<times> turn_record option" where
  "turn_event op tm =
     (case op of
        StartTurn uid now said tools refs given active latency \<Rightarrow> (snd (start_turn uid now said tools refs given active latency tm), None)
      | ToolCalled now ctx tool params \<Rightarrow> (snd (snd (record_tool_call now ctx tool params tm)), None)
      | Registered now ctx name kind value label \<Rightarrow> (snd (snd (register_referent now ctx name kind value label tm)), None)
      | Closed now ctx said action tools status \<Rightarrow>
          (case close_turn now ctx said action tools status tm of (Inl _, tm') \<Rightarrow> (tm', None) | (Inr r, tm') \<Rightarrow> (tm', Some r))
      | Synced active \<Rightarrow> (snd (sync_background active tm), None)
      | ResetTurns \<Rightarrow> (reset_turns tm, None))"

fun turn_run :: "turn_op list \<Rightarrow> turn_manager \<Rightarrow> turn_manager \<times> turn_record list" where
  "turn_run [] tm = (tm, [])"
| "turn_run (op # ops) tm =
     (case turn_event op tm of (tm1, r) \<Rightarrow>
        (case turn_run ops tm1 of (tm2, rs) \<Rightarrow> (tm2, (case r of None \<Rightarrow> rs | Some x \<Rightarrow> x # rs))))"

subsection \<open>Bounded history\<close>

definition turns_ok :: "turn_manager \<Rightarrow> bool" where
  "turns_ok tm \<longleftrightarrow>
     length (tm_history tm) \<le> tm_limit tm \<and> list_all valid_turn_record (tm_history tm) \<and>
     (\<forall>r \<in> set (dict_values (tm_referents tm)). valid_referent r) \<and>
     list_all valid_background (tm_background tm) \<and> length (tm_background tm) \<le> tm_background_limit tm \<and>
     (case tm_current tm of None \<Rightarrow> True | Some c \<Rightarrow> valid_turn_context c)"

text \<open>What callers hand in has passed its schema.\<close>

fun valid_turn_op :: "turn_op \<Rightarrow> bool" where
  "valid_turn_op (StartTurn _ _ _ _ refs _ _ _) = (\<forall>r \<in> set (dict_values refs). valid_referent r)"
| "valid_turn_op (ToolCalled _ ctx _ _) = (case ctx of None \<Rightarrow> True | Some c \<Rightarrow> valid_turn_context c)"
| "valid_turn_op (Registered _ ctx _ _ _ _) = (case ctx of None \<Rightarrow> True | Some c \<Rightarrow> valid_turn_context c)"
| "valid_turn_op _ = True"

lemma values_set: "set (dict_values (dict_set k v d)) \<subseteq> insert v (set (dict_values d))"
proof
  fix x assume "x \<in> set (dict_values (dict_set k v d))"
  then show "x \<in> insert v (set (dict_values d))"
    by (induction d) (auto split: if_splits)
qed

lemma values_fold_set:
  "set (dict_values (foldl (\<lambda>d (k, r). dict_set k r d) d refs)) \<subseteq> set (dict_values d) \<union> set (dict_values refs)"
proof (induction refs arbitrary: d)
  case (Cons p refs)
  from Cons.IH [of "dict_set (fst p) (snd p) d"] show ?case using values_set [of "fst p" "snd p" d] by (cases p) auto
qed simp

lemma put_referent_ok: "turns_ok tm \<Longrightarrow> valid_referent r \<Longrightarrow> turns_ok (put_referent r tm)"
  using values_set [of "er_name r" r "tm_referents tm"] by (fastforce simp: turns_ok_def put_referent_def)

lemma share_ok: "turns_ok tm \<Longrightarrow> valid_turn_context c \<Longrightarrow> turns_ok (share c tm)"
  by (auto simp: turns_ok_def share_def split: option.splits)

lemma sync_background_ok: "turns_ok tm \<Longrightarrow> turns_ok (snd (sync_background active tm))"
  by (auto simp: turns_ok_def sync_background_def Let_def split: option.splits)

lemma close_turn_ok: "turns_ok tm \<Longrightarrow> close_turn now ctx said action tools status tm = (res, tm') \<Longrightarrow> turns_ok tm'"
  by (auto simp: turns_ok_def close_turn_def Let_def length_push_bounded list_all_push_bounded split: if_splits)

lemma start_turn_ok:
  assumes "turns_ok tm" and "\<forall>r \<in> set (dict_values refs). valid_referent r"
  shows "turns_ok (snd (start_turn uid now said tools refs given active latency tm))"
proof -
  have opened: "turns_ok (snd (open_context uid now said tools bs latency (tm2\<lparr>tm_referents := foldl (\<lambda>d (k, r). dict_set k r d) (tm_referents tm2) refs\<rparr>)))"
    if "turns_ok tm2" for bs tm2
  proof -
    have "\<forall>r \<in> set (dict_values (foldl (\<lambda>d (k, r). dict_set k r d) (tm_referents tm2) refs)). valid_referent r"
      using that assms(2) values_fold_set [of "tm_referents tm2" refs] unfolding turns_ok_def by blast
    with that show ?thesis by (auto simp: turns_ok_def open_context_def Let_def simp del: set_map split: option.splits)
  qed
  let ?tm1 = "tm\<lparr>tm_counter := tm_counter tm + 1\<rparr>"
  have "turns_ok ?tm1" using assms(1) by (simp add: turns_ok_def)
  with opened [of ?tm1] opened sync_background_ok [of ?tm1 active] show ?thesis
    by (cases given; cases "sync_background active ?tm1"; cases "fst (sync_background active ?tm1)") (simp_all add: start_turn_def Let_def)
qed

lemma turn_event_ok:
  assumes "turns_ok tm" and "valid_turn_op op"
  shows "turns_ok (fst (turn_event op tm))"
proof (cases op)
  case (ToolCalled now ctx tool params)
  then show ?thesis using assms
    by (auto simp: turn_event_def record_tool_call_def Let_def valid_turn_context_def intro!: put_referent_ok share_ok split: option.splits)
next
  case (Registered now ctx name kind v label)
  then show ?thesis using assms
    by (auto simp: turn_event_def register_referent_def Let_def valid_turn_context_def intro!: put_referent_ok share_ok split: option.splits)
next
  case (Closed now ctx said action tools status)
  then show ?thesis using assms(1) close_turn_ok by (auto simp: turn_event_def split: prod.splits sum.splits)
next
  case (StartTurn uid now said tools refs given active latency)
  with assms show ?thesis by (simp add: turn_event_def start_turn_ok)
next
  case (Synced active)
  with assms(1) show ?thesis by (simp add: turn_event_def sync_background_ok)
next
  case ResetTurns
  with assms(1) show ?thesis by (simp add: turn_event_def turns_ok_def reset_turns_def)
qed

text \<open>Whatever sequence of operations runs, the history never exceeds its limit, the background view never
  exceeds its own, and every record, referent, snapshot and open context satisfies its schema.\<close>

theorem turn_state_bounded:
  assumes "new_turn_manager limit view = Inr tm" and "list_all valid_turn_op ops"
  shows "turns_ok (fst (turn_run ops tm))"
proof -
  have "turns_ok tm" using assms(1) by (auto simp: new_turn_manager_def turns_ok_def split: if_splits)
  then show ?thesis using assms(2)
  proof (induction ops arbitrary: tm)
    case (Cons op ops)
    then have "turns_ok (fst (turn_event op tm))" by (intro turn_event_ok) auto
    with Cons.IH [of "fst (turn_event op tm)"] Cons.prems(2) show ?case by (auto split: prod.splits option.splits)
  qed simp
qed

definition demo_turns :: "turn_op list" where
  "demo_turns =
    [StartTurn ''a'' 0 ''read it'' [] [] None None 0, ToolCalled 1 None ''files.read_file'' [(''path'', TextParam ''notes.txt'')],
     Closed 2 None ''done'' (Some SPEAK_DIRECT) [] TurnCompleted, StartTurn ''b'' 3 ''that file'' [] [] None None 0,
     Closed 4 None ''half'' None [] TurnInterrupted]"

lemma turn_state_bounded_witness:
  "\<exists>tm. new_turn_manager 1 8 = Inr tm \<and> turns_ok (fst (turn_run demo_turns tm))"
proof -
  obtain tm where tm: "new_turn_manager 1 8 = Inr tm" by (simp add: new_turn_manager_def)
  show ?thesis using tm turn_state_bounded [OF tm, of demo_turns] by (simp add: demo_turns_def)
qed

text \<open>Without a reset in between, the history is exactly the most recent closed turns, oldest first, as
  many as the limit admits: no turn that was closed is dropped, duplicated or reordered.\<close>

lemma push_bounded_drop: "push_bounded n x (drop (length xs - n) xs) = drop (length (xs @ [x]) - n) (xs @ [x])"
  by (cases "length xs \<le> n") (auto simp: push_bounded_def Suc_diff_le)

lemma turn_event_history:
  assumes "turn_event op tm = (tm', r)" and "op \<noteq> ResetTurns"
  shows "tm_limit tm' = tm_limit tm"
    and "tm_history tm' = (case r of None \<Rightarrow> tm_history tm | Some x \<Rightarrow> push_bounded (tm_limit tm) x (tm_history tm))"
proof -
  have "tm_limit tm' = tm_limit tm \<and>
    tm_history tm' = (case r of None \<Rightarrow> tm_history tm | Some x \<Rightarrow> push_bounded (tm_limit tm) x (tm_history tm))"
  proof (cases op)
    case (StartTurn uid now said tools refs given active latency)
    then show ?thesis using assms(1)
      by (auto simp: turn_event_def start_turn_def sync_background_def open_context_def Let_def split: prod.splits sum.splits option.splits if_splits)
  next
    case (Closed now ctx said action tools status)
    then show ?thesis using assms(1)
      by (auto simp: turn_event_def close_turn_def Let_def split: prod.splits sum.splits option.splits if_splits)
  next
    case (ToolCalled now ctx tool params)
    then show ?thesis using assms(1)
      by (auto simp: turn_event_def record_tool_call_def put_referent_def share_def Let_def split: option.splits)
  next
    case (Registered now ctx name kind v label)
    then show ?thesis using assms(1)
      by (auto simp: turn_event_def register_referent_def put_referent_def share_def Let_def split: option.splits)
  next
    case (Synced active)
    then show ?thesis using assms(1) by (auto simp: turn_event_def sync_background_def Let_def split: option.splits)
  qed (use assms in simp)
  then show "tm_limit tm' = tm_limit tm"
    and "tm_history tm' = (case r of None \<Rightarrow> tm_history tm | Some x \<Rightarrow> push_bounded (tm_limit tm) x (tm_history tm))" by blast+
qed

theorem history_is_recent:
  assumes "new_turn_manager limit view = Inr tm" and "ResetTurns \<notin> set ops" and "turn_run ops tm = (tm', past)"
  shows "tm_history tm' = drop (length past - limit) past"
proof -
  have "tm_history tm' = drop (length (old @ past) - tm_limit tm) (old @ past)"
    if "tm_history tm = drop (length old - tm_limit tm) old" for old
    using assms(2,3) that
  proof (induction ops arbitrary: tm old past)
    case (Cons op ops)
    obtain tm1 r where e: "turn_event op tm = (tm1, r)" by force
    obtain rs where rest: "turn_run ops tm1 = (tm', rs)" "past = (case r of None \<Rightarrow> rs | Some x \<Rightarrow> x # rs)"
      using Cons.prems(2) e by (auto split: prod.splits)
    have "op \<noteq> ResetTurns" using Cons.prems(1) by auto
    note h = turn_event_history [OF e this]
    let ?old = "case r of None \<Rightarrow> old | Some x \<Rightarrow> old @ [x]"
    have "tm_history tm1 = drop (length ?old - tm_limit tm1) ?old"
      using h Cons.prems(1,3) push_bounded_drop [of "tm_limit tm" _ old] by (auto split: option.splits)
    from Cons.IH [OF _ rest(1) this] h(1) rest(2) Cons.prems(1) show ?case
      by (cases r) (simp_all del: drop_append length_append add: append_assoc [symmetric])
  qed simp
  from this [of "[]"] show ?thesis using assms(1) by (auto simp: new_turn_manager_def split: if_splits)
qed

lemma demo_turns_closed: "map_sum id (\<lambda>tm. length (snd (turn_run demo_turns tm))) (new_turn_manager 1 8) = Inr 2"
  by code_simp

lemma history_is_recent_witness:
  "\<exists>tm tm' past. new_turn_manager 1 8 = Inr tm \<and> turn_run demo_turns tm = (tm', past) \<and> length past = 2 \<and>
     tm_history tm' = drop (length past - 1) past"
proof -
  obtain tm where tm: "new_turn_manager 1 8 = Inr tm" by (simp add: new_turn_manager_def)
  obtain tm' past where run: "turn_run demo_turns tm = (tm', past)" by force
  have "ResetTurns \<notin> set demo_turns" by (simp add: demo_turns_def)
  from history_is_recent [OF tm this run] tm run demo_turns_closed show ?thesis by auto
qed

text \<open>A reply of more than 8000 characters is refused and closes nothing: the turn stays open, the history
  does not get it, and interrupting the turn with the same text is refused as well.\<close>

theorem long_reply_refused:
  assumes "8000 < length said"
  shows "fst (record_assistant_reply now ctx said action tools tm) = Inl TurnInvalid \<and>
    snd (record_assistant_reply now ctx said action tools tm) = tm \<and>
    interrupt_turn now ctx said tm = (Inl TurnInvalid, tm)"
  using assms by (simp add: record_assistant_reply_def interrupt_turn_def close_turn_def valid_turn_record_def upto_chars_def Let_def)

lemma long_reply_refused_witness:
  "interrupt_turn 0 None (replicate 9000 CHR ''a'') tm = (Inl TurnInvalid, tm) \<and> 8000 < length (replicate 9000 CHR ''a'')"
  using long_reply_refused [of "replicate 9000 CHR ''a''" 0 None None "[]" tm] by simp

end
