(* ===== verification/Response_Policy.thy ===== *)
theory Response_Policy
  imports Turn_Manager
begin

text \<open>
  Models \<open>ResponsePolicy\<close> of \<open>python/tom/voice/response_policy.py\<close>: the word tables, the observed timings of the
  tools and the rules in their order. Texts are ASCII. The timings are rationals.
\<close>

subsection \<open>Tables\<close>

definition quoted :: "string \<Rightarrow> string \<Rightarrow> string" where "quoted a b = a @ [quote_char] @ b"

definition silence_markers :: "string list" where
  "silence_markers =
    [''silently'', ''quietly'', ''without speaking'', ''without saying'', ''without announcing'', ''without announcing anything'',
     quoted ''don'' ''t say'', ''do not say'', quoted ''don'' ''t speak'', ''do not speak'', quoted ''don'' ''t announce'', ''do not announce'',
     ''no need to say'', quoted ''don'' ''t explain'', ''just do it'', ''just do that'', ''shut up'', ''stay quiet'']"

definition progress_markers :: "string list" where
  "progress_markers =
    [''progress'', ''status'', quoted ''how'' ''s it going'', ''hows it going'', ''how is it going'', ''any update'', ''any news'', ''any movement'',
     ''still running'', ''how far along'', ''where are you'', ''check on it'', ''update me'']"

definition ambiguity_markers :: "string list" where
  "ambiguity_markers = [''which one'', ''which of them'', ''what do you mean'', ''not sure'', ''be more specific'']"

definition destructive_verbs :: "string list" where
  "destructive_verbs =
    [''delete'', ''remove'', ''erase'', ''wipe'', ''format'', ''drop'', ''purge'', ''destroy'', ''truncate'', ''reset'', ''overwrite'']"

definition latent_hints :: "string list" where
  "latent_hints =
    [''search'', ''grep'', ''scan'', ''look through'', ''go through'', ''sift through'', ''every file'', ''all files'', ''across the repo'',
     ''across the codebase'', ''whole repository'', ''entire repository'', ''whole codebase'', ''entire codebase'', ''list all'',
     ''find all'', ''compare'', ''audit'', ''run the tests'', ''run tests'', ''run the test suite'', ''test suite'', ''run tests in the'',
     ''build the'', ''refactor'', ''in detail'', ''summarize the entire'', ''investigate'', ''debug'']"

definition latency_tools :: "string list" where
  "latency_tools =
    [''files.list_directory'', ''files.read_file'', ''files.get_metadata'', ''memory.search'', ''memory.recall'', ''system.list_processes'',
     ''system.get_snapshot'', ''vision.capture'', ''vision.ocr'', ''vision.find_element'', ''vision.ask'']"

definition latency_categories :: "string list" where "latency_categories = [''files'', ''vision'']"

definition ack_table :: "(string \<times> string) list" where
  "ack_table =
    [(''test'', ''Running that now...''), (''build'', ''Running that now...''), (''vision'', ''Taking a look at the screen...''),
     (''screen'', ''Taking a look at the screen...''), (''search'', ''Looking into that...''), (''grep'', ''Looking into that...''),
     (''scan'', ''Looking through those files...''), (''file'', ''Checking those files...''), (''files'', ''Checking those files...''),
     (''directory'', ''Checking that folder...''), (''memory'', ''Looking through what I remember...'')]"

definition default_ack :: string where "default_ack = ''On it...''"

text \<open>A path, a file name or version, a quoted text, or a word with a number.\<close>

definition path_char :: "char \<Rightarrow> bool" where
  "path_char c \<longleftrightarrow> is_word_char c \<or> c \<in> set ''./-'' \<or> c = CHR 0x5C"

definition word_rx :: rx where "word_rx = Chars is_word_char"

definition quote_rx :: rx where "quote_rx = Chars (\<lambda>c. c = CHR 0x22 \<or> c = quote_char)"

definition concrete_target_rx :: rx where
  "concrete_target_rx = rx_alt
    [rx_seq [Star (Chars path_char), Chars (\<lambda>c. c = CHR ''/'' \<or> c = CHR 0x5C), Star (Chars path_char)],
     rx_seq [Boundary, word_rx, Star (Chars (\<lambda>c. is_word_char c \<or> c = CHR ''-'')), lit ''.'', Chars is_alnum, rx_opt (Chars is_alnum),
       rx_opt (Chars is_alnum), rx_opt (Chars is_alnum), rx_opt (Chars is_alnum), Boundary],
     rx_seq [quote_rx, rx_at_least 1 (Chars (\<lambda>c. c \<noteq> CHR 0x22 \<and> c \<noteq> quote_char)), quote_rx],
     rx_seq [Boundary, rx_at_least 1 word_rx, rx_at_least 1 space_rx, rx_at_least 1 (Chars is_digit),
       Star (Seq (lit ''.'') (rx_at_least 1 (Chars is_digit))), Boundary]]"

subsection \<open>Timings\<close>

record response_policy =
  po_slow :: rat
  po_acks :: "(string \<times> string) list option"
  po_timings :: "(string, rat list) dict"

definition new_policy :: "rat \<Rightarrow> (string \<times> string) list \<Rightarrow> response_policy option" where
  "new_policy slow acks =
     (if slow \<le> 0 then None else Some \<lparr>po_slow = slow, po_acks = (if acks = [] then None else Some acks), po_timings = []\<rparr>)"

definition timing_window :: nat where "timing_window = 16"

definition samples_of :: "response_policy \<Rightarrow> string \<Rightarrow> rat list" where
  "samples_of p tool = (case dict_get (po_timings p) tool of None \<Rightarrow> [] | Some ts \<Rightarrow> ts)"

definition record_tool_timing :: "string \<Rightarrow> rat \<Rightarrow> response_policy \<Rightarrow> response_policy" where
  "record_tool_timing tool ms p =
     (if ms < 0 then p
      else let ts = samples_of p tool @ [ms]
           in p\<lparr>po_timings := dict_set tool (if timing_window < length ts then drop (length ts - timing_window) ts else ts) (po_timings p)\<rparr>)"

definition observed_latency :: "response_policy \<Rightarrow> string \<Rightarrow> rat option" where
  "observed_latency p tool =
     (let ts = samples_of p tool in if ts = [] then None else Some (sum_list ts / of_nat (length ts)))"

text \<open>\<open>name.rsplit(".", 1)[0]\<close>, or the name when it has no dot.\<close>

definition category_of :: "string \<Rightarrow> string" where
  "category_of tool =
     (if CHR ''.'' \<in> set tool then rev (tl (dropWhile (\<lambda>c. c \<noteq> CHR ''.'') (rev tool))) else tool)"

definition is_latency_bearing :: "response_policy \<Rightarrow> string \<Rightarrow> bool" where
  "is_latency_bearing p tool \<longleftrightarrow>
     tool \<in> set latency_tools \<or> (case observed_latency p tool of None \<Rightarrow> False | Some ms \<Rightarrow> po_slow p \<le> ms) \<or>
     category_of tool \<in> set latency_categories"

subsection \<open>Rules\<close>

record response_decision =
  de_action :: response_action
  de_ack :: "string option"
  de_reason :: string
  de_tools :: "string list"

definition plain_decision :: "response_action \<Rightarrow> string \<Rightarrow> response_decision" where
  "plain_decision a why = \<lparr>de_action = a, de_ack = None, de_reason = why, de_tools = []\<rparr>"

definition matches_any :: "string \<Rightarrow> string list \<Rightarrow> bool" where
  "matches_any s markers \<longleftrightarrow> list_ex (\<lambda>m. sublist m s) markers"

definition ack_text_for :: "response_policy \<Rightarrow> string \<Rightarrow> string" where
  "ack_text_for p said =
     (let found = (\<lambda>table. find (\<lambda>kt. sublist (fst kt) (lower said)) table)
      in case (case po_acks p of None \<Rightarrow> None | Some acks \<Rightarrow> found acks) of
           Some (_, t) \<Rightarrow> t
         | None \<Rightarrow> (case found ack_table of Some (_, t) \<Rightarrow> t | None \<Rightarrow> default_ack))"

definition ack_decision :: "response_policy \<Rightarrow> string \<Rightarrow> string \<Rightarrow> string list \<Rightarrow> response_decision" where
  "ack_decision p said why tools =
     \<lparr>de_action = FAST_ACK_THEN_WORK, de_ack = Some (ack_text_for p said), de_reason = why, de_tools = tools\<rparr>"

definition is_unresolved_referent :: "string \<Rightarrow> turn_context \<Rightarrow> bool" where
  "is_unresolved_referent s ctx \<longleftrightarrow> contains_anaphoric_reference s \<and> tc_referents ctx = [] \<and> tc_history ctx = []"

text \<open>The text behind the first occurrence.\<close>

fun text_behind :: "string \<Rightarrow> string \<Rightarrow> string option" where
  "text_behind sep [] = (if sep = [] then Some [] else None)"
| "text_behind sep (c # s) = (if prefix sep (c # s) then Some (drop (length sep) (c # s)) else text_behind sep s)"

fun remainder_from :: "string list \<Rightarrow> string \<Rightarrow> string" where
  "remainder_from [] s = s"
| "remainder_from (v # vs) s =
     (if prefix v s then strip (drop (length v) s)
      else case text_behind ('' '' @ v @ '' '') s of Some t \<Rightarrow> strip t | None \<Rightarrow> remainder_from vs s)"

definition target_remainder :: "string \<Rightarrow> string" where
  "target_remainder s = remainder_from destructive_verbs s"

definition is_ambiguous_destructive :: "string \<Rightarrow> turn_context \<Rightarrow> bool" where
  "is_ambiguous_destructive s ctx \<longleftrightarrow>
     matches_any s destructive_verbs \<and> \<not> rx_search concrete_target_rx (target_remainder s) \<and> tc_referents ctx = []"

definition multi_step_threshold :: nat where "multi_step_threshold = 2"

definition decide :: "response_policy \<Rightarrow> string \<Rightarrow> turn_context \<Rightarrow> response_decision" where
  "decide p said ctx =
     (let txt = strip said; low = lower txt; slow = filter (is_latency_bearing p) (tc_tools ctx)
      in if txt = [] then plain_decision SILENT_ACT ''empty_utterance''
         else if matches_any low silence_markers then plain_decision SILENT_ACT ''silence_directive''
         else if matches_any low progress_markers \<and> (has_running_task ctx \<or> tc_background ctx \<noteq> []) then plain_decision REPORT_PROGRESS ''progress_query''
         else if matches_any low ambiguity_markers then plain_decision CLARIFY ''ambiguous_utterance''
         else if is_unresolved_referent low ctx then plain_decision CLARIFY ''ambiguous_referent''
         else if is_ambiguous_destructive low ctx then plain_decision CLARIFY ''ambiguous_destructive''
         else if slow \<noteq> [] then ack_decision p said ''latency_bearing_tool'' slow
         else if multi_step_threshold \<le> length (tc_tools ctx) then ack_decision p said ''multi_tool_operation'' (tc_tools ctx)
         else if po_slow p \<le> tc_latency ctx then ack_decision p said ''declared_latency'' []
         else if matches_any low latent_hints then ack_decision p said ''latency_bearing_intent'' []
         else plain_decision SPEAK_DIRECT ''default'')"

subsection \<open>Properties\<close>

text \<open>The policy keeps silent exactly for a blank text or a silence directive. It acknowledges exactly when it
  gives a text to say. It reports progress only when there is background work and the text asks for it, and it
  asks back only for an ambiguity marker, an unbound back-reference or a destructive verb that has neither a target
  nor referents. A text that hits none of these is acknowledged when it names slow work and answered otherwise.\<close>

theorem policy_precedence:
  "(de_action (decide p said ctx) = SILENT_ACT \<longleftrightarrow> strip said = [] \<or> matches_any (lower (strip said)) silence_markers) \<and>
   (de_action (decide p said ctx) = FAST_ACK_THEN_WORK \<longleftrightarrow> de_ack (decide p said ctx) = Some (ack_text_for p said)) \<and>
   (de_action (decide p said ctx) \<noteq> FAST_ACK_THEN_WORK \<longleftrightarrow> de_ack (decide p said ctx) = None) \<and>
   (de_action (decide p said ctx) \<noteq> REPORT_PROGRESS \<or> tc_background ctx \<noteq> [] \<and> matches_any (lower (strip said)) progress_markers) \<and>
   (de_action (decide p said ctx) \<noteq> CLARIFY \<or> matches_any (lower (strip said)) ambiguity_markers \<or>
      is_unresolved_referent (lower (strip said)) ctx \<or> is_ambiguous_destructive (lower (strip said)) ctx) \<and>
   (de_action (decide p said ctx) \<noteq> SPEAK_DIRECT \<or>
      list_all (\<lambda>t. \<not> is_latency_bearing p t) (tc_tools ctx) \<and> length (tc_tools ctx) < 2 \<and> tc_latency ctx < po_slow p \<and>
      \<not> matches_any (lower (strip said)) latent_hints)"
proof -
  have running: "has_running_task ctx \<or> tc_background ctx \<noteq> [] \<longleftrightarrow> tc_background ctx \<noteq> []" by (auto simp: has_running_task_def)
  have none: "filter (is_latency_bearing p) (tc_tools ctx) = [] \<longleftrightarrow> list_all (\<lambda>t. \<not> is_latency_bearing p t) (tc_tools ctx)"
    by (simp add: filter_empty_conv list_all_iff)
  show ?thesis
    by (simp add: decide_def Let_def plain_decision_def ack_decision_def none running multi_step_threshold_def not_le)
qed

text \<open>The word tables are searched inside words: with nothing to refer to, a request for information is taken
  for a destructive command without a target, because of the letters of "format", and the policy asks back.\<close>

theorem information_is_destructive:
  assumes "tc_referents ctx = []"
  shows "decide p ''give me some information'' ctx = plain_decision CLARIFY ''ambiguous_destructive''"
proof -
  have "strip ''give me some information'' = ''give me some information''" "lower ''give me some information'' = ''give me some information''"
    "\<not> matches_any ''give me some information'' silence_markers" "\<not> matches_any ''give me some information'' progress_markers"
    "\<not> matches_any ''give me some information'' ambiguity_markers" "\<not> contains_anaphoric_reference ''give me some information''"
    "matches_any ''give me some information'' destructive_verbs"
    "\<not> rx_search concrete_target_rx (target_remainder ''give me some information'')"
    by code_simp+
  then show ?thesis
    using assms by (simp add: decide_def Let_def is_ambiguous_destructive_def is_unresolved_referent_def)
qed

definition bare_context :: turn_context where
  "bare_context = \<lparr>tc_id = ''turn_a'', tc_index = 1, tc_user = [], tc_anaphoric = False, tc_tools = [], tc_referents = [], tc_history = [],
     tc_background = [], tc_latency = 0, tc_started = 0\<rparr>"

definition plain_policy :: response_policy where "plain_policy = \<lparr>po_slow = 1200, po_acks = None, po_timings = []\<rparr>"

lemma policy_precedence_witness:
  "de_action (decide plain_policy ''Just do it'' bare_context) = SILENT_ACT"
proof -
  have "matches_any (lower (strip ''Just do it'')) silence_markers" by code_simp
  with policy_precedence [of plain_policy "''Just do it''" bare_context] show ?thesis by blast
qed

lemma information_is_destructive_witness:
  "decide plain_policy ''give me some information'' bare_context = plain_decision CLARIFY ''ambiguous_destructive''"
  by (rule information_is_destructive) (simp add: bare_context_def)

text \<open>The observed latency of a tool is the mean of its most recent sixteen timings that are not negative.\<close>

theorem latency_is_recent_mean:
  "observed_latency (fold (record_tool_timing tool) ms (p\<lparr>po_timings := []\<rparr>)) tool =
   (let seen = filter (\<lambda>m. 0 \<le> m) ms; recent = drop (length seen - 16) seen
    in if seen = [] then None else Some (sum_list recent / of_nat (length recent)))"
proof -
  have "samples_of (fold (record_tool_timing tool) ms q) tool = drop (length (old @ filter (\<lambda>m. 0 \<le> m) ms) - 16) (old @ filter (\<lambda>m. 0 \<le> m) ms)"
    if "samples_of q tool = drop (length old - 16) old" for q old
    using that
  proof (induction ms arbitrary: q old)
    case (Cons m ms)
    show ?case
    proof (cases "m < 0")
      case True
      with Cons show ?thesis by (simp add: record_tool_timing_def)
    next
      case False
      have "samples_of (record_tool_timing tool m q) tool = push_bounded 16 m (drop (length old - 16) old)"
        using False Cons.prems by (simp add: record_tool_timing_def samples_of_def Let_def timing_window_def push_bounded_def)
      then have "samples_of (record_tool_timing tool m q) tool = drop (length (old @ [m]) - 16) (old @ [m])"
        by (simp only: push_bounded_drop)
      from Cons.IH [OF this] False show ?thesis by (simp del: drop_append length_append add: append_assoc [symmetric])
    qed
  qed simp
  from this [of "p\<lparr>po_timings := []\<rparr>" "[]"] show ?thesis
    by (cases "filter (\<lambda>m. 0 \<le> m) ms") (simp_all add: observed_latency_def samples_of_def Let_def)
qed

end
