(* ===== verification/Wake_Word.thy ===== *)
theory Wake_Word
  imports Py_Substitute
begin

text \<open>
  Models \<open>is_wake_phrase\<close> and \<open>strip_wake_phrase\<close> of \<open>python/tom/voice/wakeword.py\<close>, for ASCII texts and
  phrases. The pattern that the code assembles as a text is assembled from its parts.
\<close>

subsection \<open>Patterns\<close>

definition apostrophe :: char where "apostrophe = CHR 0x27"

text \<open>\<open>[\W_]\<close>.\<close>

definition mark_rx :: rx where "mark_rx = Chars (\<lambda>c. \<not> is_word_char c \<or> c = CHR ''_'')"

definition line_end :: rx where
  "line_end = Test (\<lambda>x. snd x = [] \<or> length (snd x) = 1 \<and> (of_char (hd (snd x)) :: nat) = 10)"

definition text_begin :: rx where "text_begin = Test (\<lambda>x. fst x = None)"

definition name_rx :: "string \<Rightarrow> rx" where
  "name_rx name =
     (if lower name = ''tom''
      then rx_alt [lit_ci ''tom'', lit_ci ''dom'', lit_ci ''thom'', Seq (lit_ci ''don'') (Not_ahead (lit_ci [apostrophe, CHR ''t'']))]
      else lit_ci name)"

definition wake_words :: "string \<Rightarrow> string list" where
  "wake_words phrase = split_ws (strip (filter (\<lambda>c. is_word_char c \<or> is_space c) (lower phrase)))"

definition wake_name :: "string \<Rightarrow> string" where
  "wake_name phrase = (let ws = wake_words phrase in if ws = [] then ''tom'' else last ws)"

definition greeting_rx :: rx where "greeting_rx = rx_alt (map lit_ci [''hey'', ''hi'', ''hello'', ''ok'', ''okay''])"

definition bounded_name :: "string \<Rightarrow> rx" where
  "bounded_name phrase = rx_seq [Boundary, name_rx (wake_name phrase), Boundary]"

definition gap_rx :: rx where "gap_rx = rx_seq [Star space_rx, Star mark_rx, Star space_rx]"

fun joined_words :: "string list \<Rightarrow> rx list" where
  "joined_words [] = []"
| "joined_words [w] = [lit_ci w]"
| "joined_words (w # ws) = lit_ci w # gap_rx # joined_words ws"

definition wake_rx :: "string \<Rightarrow> rx" where
  "wake_rx phrase = rx_alt
    [rx_seq [Boundary, greeting_rx, Boundary, Star mark_rx, bounded_name phrase],
     rx_seq [text_begin, Star space_rx, Star mark_rx, bounded_name phrase, Star mark_rx, line_end],
     rx_seq [text_begin, Star space_rx, Star mark_rx, bounded_name phrase, Star space_rx, one_of '',:.!?''],
     rx_seq [Boundary, rx_seq (joined_words (wake_words phrase)), Boundary]]"

definition is_wake_phrase :: "string \<Rightarrow> string \<Rightarrow> bool" where
  "is_wake_phrase txt phrase \<longleftrightarrow> txt \<noteq> [] \<and> rx_search (wake_rx phrase) txt"

definition strip_rx :: "string \<Rightarrow> rx" where
  "strip_rx phrase = rx_seq
    [text_begin, Star space_rx,
     Alt (rx_seq [rx_opt (rx_seq [greeting_rx, Boundary, Star mark_rx, Star space_rx]), bounded_name phrase, Star mark_rx, Star space_rx])
         (rx_seq [rx_seq (joined_words (wake_words phrase)), Star mark_rx, Star space_rx])]"

text \<open>\<open>s.strip(cs)\<close>.\<close>

definition strip_chars :: "string \<Rightarrow> string \<Rightarrow> string" where
  "strip_chars cs s = rev (dropWhile (\<lambda>c. c \<in> set cs) (rev (dropWhile (\<lambda>c. c \<in> set cs) s)))"

definition strip_wake_phrase :: "string \<Rightarrow> string \<Rightarrow> string" where
  "strip_wake_phrase txt phrase =
     (if txt = [] then []
      else strip_chars '' ,.!?'' (case match_at [strip_rx phrase] (None, txt) of Some (_, y) \<Rightarrow> snd y | None \<Rightarrow> txt))"

lemma wake_examples:
  "is_wake_phrase ''Hey, Tom'' ''hey tom''" "is_wake_phrase ''TOM'' ''hey tom''" "strip_wake_phrase ''Tom. Stop'' ''hey tom'' = ''Stop''"
  by code_simp+

subsection \<open>Properties\<close>

lemma dropWhile_sublist: "sublist (dropWhile P s) s"
  by (simp add: suffix_dropWhile suffix_imp_sublist)

lemma strip_chars_sublist: "sublist (strip_chars cs s) s"
proof -
  have "sublist (rev (dropWhile P (rev t))) t" for P and t :: string
    using dropWhile_sublist [of P "rev t"] by (metis rev_rev_ident sublist_rev)
  then show ?thesis unfolding strip_chars_def by (meson dropWhile_sublist sublist_order.order_trans)
qed

lemma strip_chars_ends:
  assumes "strip_chars cs s \<noteq> []"
  shows "hd (strip_chars cs s) \<notin> set cs \<and> last (strip_chars cs s) \<notin> set cs"
proof -
  let ?P = "\<lambda>c. c \<in> set cs"
  let ?t = "dropWhile ?P s"
  let ?u = "dropWhile ?P (rev ?t)"
  have u: "?u \<noteq> []" using assms unfolding strip_chars_def by (metis rev.simps(1))
  then have "\<not> ?P (hd ?u)" by (rule hd_dropWhile)
  then have "last (rev ?u) \<notin> set cs" using u by (simp add: last_rev)
  moreover have "hd (rev ?u) \<notin> set cs"
  proof -
    have t: "?t \<noteq> []" using u by (metis dropWhile.simps(1) rev.simps(1))
    then have h: "\<not> ?P (hd ?t)" by (rule hd_dropWhile)
    obtain c r where cr: "?t = c # r" using t by (cases ?t) auto
    have "dropWhile ?P (rev r @ [c]) = dropWhile ?P (rev r) @ [c]" using h cr by (simp add: dropWhile_end)
    then show ?thesis using h cr by simp
  qed
  ultimately show ?thesis by (simp add: strip_chars_def)
qed

text \<open>What is left of a transcript behind the wake phrase is a piece of the transcript that neither starts nor
  ends with a blank or a punctuation mark.\<close>

theorem command_is_spoken:
  shows "sublist (strip_wake_phrase txt phrase) txt"
    and "strip_wake_phrase txt phrase \<noteq> [] \<Longrightarrow>
      hd (strip_wake_phrase txt phrase) \<notin> set '' ,.!?'' \<and> last (strip_wake_phrase txt phrase) \<notin> set '' ,.!?''"
proof -
  have "sublist (case match_at [strip_rx phrase] (None, txt) of Some (_, y) \<Rightarrow> snd y | None \<Rightarrow> txt) txt"
  proof (cases "match_at [strip_rx phrase] (None, txt)")
    case (Some m)
    obtain ts y where m: "m = (ts, y)" by (cases m) simp
    have "suffix (snd y) txt" using rx_run_suffix [OF match_at_run [OF Some [unfolded m]]] by simp
    with Some m show ?thesis by (simp add: suffix_imp_sublist)
  qed simp
  then show "sublist (strip_wake_phrase txt phrase) txt"
    unfolding strip_wake_phrase_def by (auto intro: sublist_order.order_trans strip_chars_sublist)
  show "strip_wake_phrase txt phrase \<noteq> [] \<Longrightarrow>
      hd (strip_wake_phrase txt phrase) \<notin> set '' ,.!?'' \<and> last (strip_wake_phrase txt phrase) \<notin> set '' ,.!?''"
  proof (cases "txt = []")
    case True
    have "strip_wake_phrase [] phrase = []" unfolding strip_wake_phrase_def by (rule if_P) (rule refl)
    then show "strip_wake_phrase txt phrase \<noteq> [] \<Longrightarrow> ?thesis" unfolding True by (rule notE [rotated])
  next
    case False
    have "strip_wake_phrase txt phrase = strip_chars '' ,.!?'' (case match_at [strip_rx phrase] (None, txt) of Some (_, y) \<Rightarrow> snd y | None \<Rightarrow> txt)"
      unfolding strip_wake_phrase_def by (rule if_not_P) (rule False)
    then show "strip_wake_phrase txt phrase \<noteq> [] \<Longrightarrow> ?thesis" using strip_chars_ends by metis
  qed
qed

text \<open>A phrase without a letter or digit makes every text wake the assistant that has one.\<close>

lemma empty_phrase_wakes: "is_wake_phrase ''good night'' ''!''"
  by code_simp

end
