(* ===== verification/Turn_Executor.thy ===== *)
theory Turn_Executor
  imports Response_Policy Wake_Word Sentence_Streamer Microphone
begin

text \<open>
  Models \<open>TurnExecutor\<close> of \<open>python/tom/voice/interaction_core.py\<close>: one utterance from its transcript through
  the turn manager, the response policy, the stream of the model, the sentence streamer and speech. The
  definitions are the sections of \<open>execute\<close> between its suspension points; \<open>Interaction_Core\<close> says when each
  of them runs and whether the turn is still alive then. The speech models, the stream of the language model and the
  formatter are arguments.
\<close>

subsection \<open>A turn\<close>

record exec_result =
  xr_epoch :: nat
  xr_status :: turn_status
  xr_transcript :: string
  xr_assistant :: string
  xr_action :: "response_action option"
  xr_interrupted :: bool
  xr_reached :: bool
  xr_chunks :: nat

datatype voice_outcome = Finished exec_result | WasCancelled | Failed

text \<open>What waits behind the end of the sentence producer: the end of the turn, the handler of an exception, or the
  handler of a cancellation.\<close>

datatype joining = JoinEnd | JoinError | JoinCancel

text \<open>\<open>Waiting\<close>: the task has not run yet. \<open>Unwinding\<close>: the \<open>finally\<close> block awaits the tick task.\<close>

datatype voice_phase =
    Waiting | Hearing | Acking string | Streaming | Joining joining | Unwinding voice_outcome | Ended voice_outcome

record voice_turn =
  vt_epoch :: nat
  vt_audio :: bytes
  vt_override :: "string option"
  vt_cancelled :: bool
  vt_asked :: bool
  vt_phase :: voice_phase
  vt_transcript :: string
  vt_spoken :: "string list"
  vt_action :: "response_action option"
  vt_reached :: bool
  vt_chunks :: nat
  vt_context :: "turn_context option"
  vt_playback_done :: bool
  vt_called_back :: bool

definition new_voice_turn :: "nat \<Rightarrow> bytes \<Rightarrow> string option \<Rightarrow> voice_turn" where
  "new_voice_turn epoch audio override =
     \<lparr>vt_epoch = epoch, vt_audio = audio, vt_override = override, vt_cancelled = False, vt_asked = False, vt_phase = Waiting,
      vt_transcript = [], vt_spoken = [], vt_action = None, vt_reached = False, vt_chunks = 0, vt_context = None,
      vt_playback_done = False, vt_called_back = False\<rparr>"

definition spoken_text :: "voice_turn \<Rightarrow> string" where
  "spoken_text t = join_with '' '' (vt_spoken t)"

definition turn_result :: "voice_turn \<Rightarrow> turn_status \<Rightarrow> nat \<Rightarrow> exec_result" where
  "turn_result t status chunks =
     \<lparr>xr_epoch = vt_epoch t, xr_status = status, xr_transcript = vt_transcript t, xr_assistant = spoken_text t, xr_action = vt_action t,
      xr_interrupted = (status = TurnInterrupted), xr_reached = vt_reached t, xr_chunks = chunks\<rparr>"

definition empty_result :: "voice_turn \<Rightarrow> bool \<Rightarrow> exec_result" where
  "empty_result t intr = turn_result t (if intr then TurnInterrupted else TurnCompleted) 0"

definition unwind :: "voice_outcome \<Rightarrow> voice_turn \<Rightarrow> voice_turn" where
  "unwind out t = t\<lparr>vt_phase := Unwinding out\<rparr>"

subsection \<open>The sections\<close>

record executor =
  ex_policy :: response_policy
  ex_phrase :: string

definition strip_wake :: "executor \<Rightarrow> string \<Rightarrow> string" where
  "strip_wake ex s =
     (if ex_phrase ex \<noteq> [] \<and> is_wake_phrase s (ex_phrase ex)
      then let rest = strip_wake_phrase s (ex_phrase ex) in if rest \<noteq> [] then rest else s
      else s)"

text \<open>The exception handler: the turn is interrupted with what was said; a refused record is a second exception,
  which leaves the task.\<close>

definition fail_section :: "rat \<Rightarrow> voice_turn \<Rightarrow> turn_manager \<Rightarrow> voice_turn \<times> turn_manager" where
  "fail_section now t tm =
     (case vt_context t of
        None \<Rightarrow> (unwind (Finished (empty_result t True)) t, tm)
      | Some c \<Rightarrow> (case interrupt_turn now (Some c) (spoken_text t) tm of
                     (Inl _, tm') \<Rightarrow> (unwind Failed t, tm')
                   | (Inr _, tm') \<Rightarrow> (unwind (Finished (empty_result t True)) t, tm')))"

definition cancel_section :: "rat \<Rightarrow> voice_turn \<Rightarrow> turn_manager \<Rightarrow> voice_turn \<times> turn_manager" where
  "cancel_section now t tm =
     (case vt_context t of
        None \<Rightarrow> (unwind WasCancelled t, tm)
      | Some c \<Rightarrow> (case interrupt_turn now (Some c) (spoken_text t) tm of
                     (Inl _, tm') \<Rightarrow> (unwind Failed t, tm')
                   | (Inr _, tm') \<Rightarrow> (unwind WasCancelled t, tm')))"

text \<open>From the transcript to the first suspension behind it; the flag tells that \<open>on_speaking\<close> is called. The
  time, the identifier and the active background tasks belong to the call of \<open>start_turn\<close>.\<close>

record turn_input =
  ti_now :: rat
  ti_uid :: string
  ti_active :: "task list option"

definition plan_section :: "executor \<Rightarrow> turn_input \<Rightarrow> bool \<Rightarrow> string \<Rightarrow> voice_turn \<Rightarrow> turn_manager \<Rightarrow> voice_turn \<times> turn_manager \<times> bool" where
  "plan_section ex inp alive said t tm =
     (if \<not> alive then (unwind (Finished (empty_result t True)) t, tm, False)
      else if said = [] then (unwind (Finished (empty_result t False)) t, tm, False)
      else case start_turn (ti_uid inp) (ti_now inp) said [] [] None (ti_active inp) 0 tm of
             (Inl _, tm1) \<Rightarrow> (case fail_section (ti_now inp) t tm1 of (t', tm') \<Rightarrow> (t', tm', False))
           | (Inr c, tm1) \<Rightarrow>
               let d = decide (ex_policy ex) said c;
                   t1 = t\<lparr>vt_context := Some c, vt_action := Some (de_action d)\<rparr>
               in if de_action d = SILENT_ACT
                  then (case record_assistant_reply (ti_now inp) (Some c) [] (Some (de_action d)) [] tm1 of
                          (Inl _, tm2) \<Rightarrow> (case fail_section (ti_now inp) t1 tm2 of (t', tm') \<Rightarrow> (t', tm', False))
                        | (Inr _, tm2) \<Rightarrow> (unwind (Finished (turn_result t1 TurnCompleted 0)) t1, tm2, False))
                  else case de_ack d of
                         Some ack \<Rightarrow> if ack \<noteq> [] then (t1\<lparr>vt_phase := Acking ack, vt_reached := True\<rparr>, tm1, True)
                                     else (t1\<lparr>vt_phase := Streaming\<rparr>, tm1, True)
                       | None \<Rightarrow> (t1\<lparr>vt_phase := Streaming\<rparr>, tm1, True))"

text \<open>The first section; without a given transcript it ends in the call of the recogniser.\<close>

definition begin_section :: "executor \<Rightarrow> turn_input \<Rightarrow> bool \<Rightarrow> voice_turn \<Rightarrow> turn_manager \<Rightarrow> voice_turn \<times> turn_manager \<times> bool" where
  "begin_section ex inp alive t tm =
     (case vt_override t of
        Some s \<Rightarrow> plan_section ex inp alive s (t\<lparr>vt_transcript := s\<rparr>) tm
      | None \<Rightarrow> (t\<lparr>vt_phase := Hearing\<rparr>, tm, False))"

text \<open>The final transcript, or \<open>None\<close> when the recogniser raised. A turn that is not alive drops it.\<close>

definition heard_section ::
  "executor \<Rightarrow> turn_input \<Rightarrow> bool \<Rightarrow> string option \<Rightarrow> voice_turn \<Rightarrow> turn_manager \<Rightarrow> voice_turn \<times> turn_manager \<times> bool" where
  "heard_section ex inp alive stt t tm =
     (case (if alive then stt else None) of
        None \<Rightarrow> plan_section ex inp alive [] t tm
      | Some s \<Rightarrow> (let said = strip_wake ex (strip s) in plan_section ex inp alive said (t\<lparr>vt_transcript := said\<rparr>) tm))"

definition acked_section :: "string \<Rightarrow> voice_turn \<Rightarrow> voice_turn" where
  "acked_section ack t = t\<lparr>vt_phase := Streaming, vt_spoken := vt_spoken t @ [ack], vt_chunks := vt_chunks t + 1\<rparr>"

definition chunk_section :: "bool \<Rightarrow> string \<Rightarrow> voice_turn \<Rightarrow> voice_turn" where
  "chunk_section alive sentence t =
     (if alive then t\<lparr>vt_reached := True, vt_spoken := vt_spoken t @ [sentence], vt_chunks := vt_chunks t + 1\<rparr>
      else t\<lparr>vt_phase := Joining JoinEnd\<rparr>)"

text \<open>The producer has been reaped.\<close>

definition joined_section :: "rat \<Rightarrow> bool \<Rightarrow> joining \<Rightarrow> voice_turn \<Rightarrow> turn_manager \<Rightarrow> voice_turn \<times> turn_manager" where
  "joined_section now alive j t tm =
     (case j of
        JoinError \<Rightarrow> fail_section now t tm
      | JoinCancel \<Rightarrow> cancel_section now t tm
      | JoinEnd \<Rightarrow>
          (case (if alive then record_assistant_reply now (vt_context t) (spoken_text t) (vt_action t) [] tm
                 else interrupt_turn now (vt_context t) (spoken_text t) tm) of
             (Inl _, tm') \<Rightarrow> fail_section now t tm'
           | (Inr _, tm') \<Rightarrow> (unwind (Finished (turn_result t (if alive then TurnCompleted else TurnInterrupted) (vt_chunks t))) t, tm')))"

text \<open>The task runs with a pending cancellation. A task that never ran ends without its \<open>finally\<close> block; during
  the unwinding the exception is swallowed.\<close>

definition cancelled_section :: "rat \<Rightarrow> voice_turn \<Rightarrow> turn_manager \<Rightarrow> voice_turn \<times> turn_manager" where
  "cancelled_section now t tm =
     (let t1 = t\<lparr>vt_asked := False\<rparr>
      in case vt_phase t of
           Waiting \<Rightarrow> (t1\<lparr>vt_phase := Ended WasCancelled\<rparr>, tm)
         | Hearing \<Rightarrow> cancel_section now t1 tm
         | Acking _ \<Rightarrow> (t1\<lparr>vt_phase := Joining JoinCancel\<rparr>, tm)
         | Streaming \<Rightarrow> (t1\<lparr>vt_phase := Joining JoinCancel\<rparr>, tm)
         | Joining _ \<Rightarrow> cancel_section now t1 tm
         | _ \<Rightarrow> (t1, tm))"

subsection \<open>The producer of sentences\<close>

text \<open>\<open>_put\<close> asks before every sentence whether the turn is alive; \<open>alive k\<close> is the answer to the \<open>k\<close>-th question.\<close>

fun put_all :: "(nat \<Rightarrow> bool) \<Rightarrow> nat \<Rightarrow> string list \<Rightarrow> string list \<times> nat \<times> bool" where
  "put_all alive k [] = ([], k, True)"
| "put_all alive k (s # ss) =
     (if \<not> alive k then ([], k + 1, False)
      else case put_all alive (k + 1) ss of (qs, k', ok) \<Rightarrow> (s # qs, k', ok))"

text \<open>The flag tells that the stream of the model raises at its end.\<close>

fun produce :: "(nat \<Rightarrow> bool) \<Rightarrow> nat \<Rightarrow> string list \<Rightarrow> bool \<Rightarrow> streamer \<Rightarrow> string list" where
  "produce alive k [] raises st = (if raises then [] else fst (put_all alive k (fst (flush_streamer st))))"
| "produce alive k (d # ds) raises st =
     (if \<not> alive k then []
      else case push_chunk d st of (out, st1) \<Rightarrow>
             (case put_all alive (k + 1) out of (qs, k', ok) \<Rightarrow> if ok then qs @ produce alive k' ds raises st1 else qs))"

definition audible :: "(string \<Rightarrow> string) \<Rightarrow> string list \<Rightarrow> string list" where
  "audible fmt queue = filter (\<lambda>s. s \<noteq> []) (map fmt queue)"

definition build_prompt :: "bool \<Rightarrow> string \<Rightarrow> turn_manager \<Rightarrow> string" where
  "build_prompt include_context said tm =
     (let shown = render_model_context True tm
      in if \<not> include_context \<or> shown = [] then said else shown @ line_break @ line_break @ ''User: '' @ said)"

lemma put_all_take: "put_all alive k ss = (qs, k', ok) \<Longrightarrow> \<exists>rest. ss = qs @ rest \<and> (ok \<longrightarrow> rest = [])"
  by (induction alive k ss arbitrary: qs k' ok rule: put_all.induct) (auto split: if_splits prod.splits)

lemma put_all_alive: "(\<And>k. alive k) \<Longrightarrow> put_all alive k ss = (ss, k + length ss, True)"
  by (induction ss arbitrary: k) simp_all

lemma drain_all: "drain True st = (out, st1) \<Longrightarrow> squash (concat out) = squash (ss_buf st)"
  using drain_keeps [of True st out st1] by (metis append_Nil2 squash_Nil)

lemma produce_prefix:
  "prefix (squash (concat (produce alive k ds raises st))) (squash (ss_buf st) @ squash (concat ds))"
proof (induction ds arbitrary: k st)
  case Nil
  obtain out st1 where f: "drain True st = (out, st1)" by force
  obtain qs k' ok where p: "put_all alive k out = (qs, k', ok)" using prod_cases3 by blast
  obtain rest where "out = qs @ rest" using put_all_take [OF p] by blast
  with drain_all [OF f] have "prefix (squash (concat qs)) (squash (ss_buf st))" by (metis concat_append prefixI squash_append)
  then show ?case using f p by (simp add: flush_streamer_def)
next
  case (Cons d ds)
  obtain out st1 where c: "push_chunk d st = (out, st1)" by force
  obtain qs k' ok where p: "put_all alive (k + 1) out = (qs, k', ok)" using prod_cases3 by blast
  obtain rest where rest: "out = qs @ rest" "ok \<Longrightarrow> rest = []" using put_all_take [OF p] by blast
  have said: "squash (ss_buf st) @ squash (concat (d # ds)) = squash (concat out) @ squash (ss_buf st1) @ squash (concat ds)"
    using push_chunk_keeps [OF c] by (simp flip: append_assoc)
  show ?case
  proof (cases "alive k \<and> ok")
    case True
    then show ?thesis unfolding said using Cons.IH [of k' st1] c p rest by simp
  next
    case False
    then have "prefix (squash (concat (produce alive k (d # ds) raises st))) (squash (concat out))"
      using c p rest(1) by auto
    then show ?thesis unfolding said by (rule prefix_prefix)
  qed
qed

lemma produce_all:
  assumes "\<And>k. alive k"
  shows "squash (concat (produce alive k ds False st)) = squash (ss_buf st) @ squash (concat ds)"
proof (induction ds arbitrary: k st)
  case Nil
  obtain out st1 where f: "drain True st = (out, st1)" by force
  with drain_all [OF f] show ?case by (simp add: flush_streamer_def put_all_alive assms)
next
  case (Cons d ds)
  obtain out st1 where c: "push_chunk d st = (out, st1)" by force
  then show ?case using push_chunk_keeps [OF c] Cons.IH [of "k + 1 + length out" st1] assms
    by (simp add: put_all_alive flip: append_assoc)
qed

subsection \<open>Properties\<close>

text \<open>Whenever the turn dies and however the stream of the model ends, the sentences that are queued for speech
  are, up to whitespace, a beginning of what the model said; a turn that stays alive to the end of a stream
  without an exception queues all of it.\<close>

theorem queued_is_said:
  "prefix (squash (concat (produce alive k ds raises new_streamer))) (squash (concat ds)) \<and>
   squash (concat (produce (\<lambda>_. True) k ds False new_streamer)) = squash (concat ds)"
  using produce_prefix [of alive k ds raises new_streamer] produce_all [of "\<lambda>_. True" k ds new_streamer] by (simp add: new_streamer_def)

text \<open>C40: A silence directive is not carried out: whatever the request, when it contains one (and no reply or referent
  is too long for its schema), the turn ends as completed before the language model is asked, nothing is
  spoken, and the history gets a completed turn with an empty reply.\<close>

theorem silent_request_not_done:
  assumes "matches_any (lower (strip said)) silence_markers" and "said \<noteq> []"
    and "start_turn (ti_uid inp) (ti_now inp) said [] [] None (ti_active inp) 0 tm = (Inr c, tm1)"
    and "plan_section ex inp True said t tm = (t', tm', speaks)" and "0 < tm_limit tm1"
  shows "\<not> speaks \<and> vt_spoken t' = vt_spoken t \<and>
    (\<exists>r. vt_phase t' = Unwinding (Finished r) \<and> xr_status r = TurnCompleted \<and> xr_chunks r = 0) \<and>
    tm_current tm' = None \<and> tr_id (last (tm_history tm')) = tc_id c \<and> tr_status (last (tm_history tm')) = TurnCompleted \<and>
    tr_assistant (last (tm_history tm')) = []"
proof -
  have action: "de_action (decide (ex_policy ex) said c) = SILENT_ACT"
    using assms(1) by (auto simp: decide_def Let_def plain_decision_def)
  have "tc_id c = ''turn_'' @ ti_uid inp" "valid_turn_context c"
    using assms(3) by (auto simp: start_turn_def open_context_def Let_def split: prod.splits sum.splits option.splits if_splits)
  then have valid: "valid_turn_record (r\<lparr>tr_id := tc_id c, tr_index := tc_index c, tr_user := tc_user c, tr_assistant := [], tr_tools := []\<rparr>)" for r
    by (auto simp: valid_turn_record_def valid_turn_context_def upto_chars_def)
  obtain r where r: "record_assistant_reply (ti_now inp) (Some c) [] (Some SILENT_ACT) [] tm1 = (Inr r, tm1\<lparr>tm_history := push_bounded (tm_limit tm1) r (tm_history tm1), tm_current := None\<rparr>)"
    "tr_id r = tc_id c" "tr_status r = TurnCompleted" "tr_assistant r = []"
  proof -
    let ?r = "\<lparr>tr_id = tc_id c, tr_index = tc_index c, tr_user = tc_user c, tr_assistant = [], tr_action = Some SILENT_ACT,
      tr_status = TurnCompleted, tr_tools = [], tr_referents = tm_referents tm1, tr_started = tc_started c, tr_ended = ti_now inp\<rparr>"
    have "valid_turn_record ?r" using valid [of ?r] by simp
    with that [of ?r] show ?thesis by (simp add: record_assistant_reply_def close_turn_def Let_def)
  qed
  show ?thesis
    using assms(2-5) action r by (auto simp: plan_section_def Let_def unwind_def turn_result_def last_push_bounded)
qed

definition demo_executor :: executor where "demo_executor = \<lparr>ex_policy = plain_policy, ex_phrase = ''hey tom''\<rparr>"

definition demo_input :: turn_input where "demo_input = \<lparr>ti_now = 0, ti_uid = ''a'', ti_active = None\<rparr>"

definition demo_turn_manager :: turn_manager where
  "demo_turn_manager = \<lparr>tm_limit = 8, tm_background_limit = 8, tm_history = [], tm_referents = [], tm_background = [], tm_current = None, tm_counter = 0\<rparr>"

lemma silent_request_not_done_witness:
  "\<exists>t' tm' speaks. plan_section demo_executor demo_input True ''just do it'' (new_voice_turn 1 [] None) demo_turn_manager = (t', tm', speaks) \<and>
     \<not> speaks \<and> tr_assistant (last (tm_history tm')) = []"
proof -
  obtain t' tm' speaks where p: "plan_section demo_executor demo_input True ''just do it'' (new_voice_turn 1 [] None) demo_turn_manager = (t', tm', speaks)"
    using prod_cases3 by blast
  have m: "matches_any (lower (strip ''just do it'')) silence_markers" by code_simp
  have "map_prod (\<lambda>x. case x of Inl _ \<Rightarrow> False | Inr _ \<Rightarrow> True) tm_limit
      (start_turn (ti_uid demo_input) (ti_now demo_input) ''just do it'' [] [] None (ti_active demo_input) 0 demo_turn_manager) = (True, 8)"
    by code_simp
  then obtain c tm1 where s: "start_turn (ti_uid demo_input) (ti_now demo_input) ''just do it'' [] [] None (ti_active demo_input) 0 demo_turn_manager = (Inr c, tm1)"
    "tm_limit tm1 = 8" by (auto simp: map_prod_def split: prod.splits sum.splits)
  have "\<not> speaks \<and> tr_assistant (last (tm_history tm')) = []" using silent_request_not_done [OF m _ s(1) p] s(2) by simp
  with p show ?thesis by blast
qed

text \<open>A turn that has said more than 8000 characters cannot be closed: at its end the exception of the refused
  record leaves the task, and the turn stays open in the turn manager with its reply unrecorded.\<close>

theorem long_answer_escapes:
  assumes "vt_context t = Some c" and "8000 < length (spoken_text t)"
  shows "joined_section now alive j t tm = (unwind Failed t, tm)"
proof -
  have refused: "record_assistant_reply now (Some c) (spoken_text t) a tools tm = (Inl TurnInvalid, tm)"
    "interrupt_turn now (Some c) (spoken_text t) tm = (Inl TurnInvalid, tm)" for a tools
    using assms(2) by (simp_all add: record_assistant_reply_def interrupt_turn_def close_turn_def valid_turn_record_def upto_chars_def Let_def)
  show ?thesis by (cases j) (simp_all add: joined_section_def fail_section_def cancel_section_def assms(1) refused)
qed

definition long_turn :: voice_turn where
  "long_turn = (new_voice_turn 1 [] None)\<lparr>vt_context := Some bare_context, vt_spoken := [replicate 9000 CHR ''a'']\<rparr>"

lemma long_answer_escapes_witness: "joined_section 0 True JoinEnd long_turn demo_turn_manager = (unwind Failed long_turn, demo_turn_manager)"
  by (rule long_answer_escapes) (simp_all add: long_turn_def spoken_text_def)

text \<open>Otherwise the end of a turn is recorded: the history gets one record of this turn with exactly what was
  spoken, completed when the turn is still alive and interrupted when not, and no turn is open any more.\<close>

theorem turn_end_recorded:
  assumes "vt_context t = Some c" and "valid_turn_context c" and "tc_id c \<noteq> []" and "int (length (spoken_text t)) \<le> 8000" and "0 < tm_limit tm"
    and "joined_section now alive j t tm = (t', tm')"
  shows "tm_current tm' = None \<and> tr_id (last (tm_history tm')) = tc_id c \<and> tr_assistant (last (tm_history tm')) = spoken_text t \<and>
    tr_status (last (tm_history tm')) = (if j = JoinEnd \<and> alive then TurnCompleted else TurnInterrupted) \<and>
    (\<exists>r. tm_history tm' = push_bounded (tm_limit tm) r (tm_history tm)) \<and> vt_phase t' \<noteq> Unwinding Failed"
proof -
  have recorded: "\<exists>r. close_turn now (Some c) (spoken_text t) a [] status tm =
      (Inr r, tm\<lparr>tm_history := push_bounded (tm_limit tm) r (tm_history tm), tm_current := None\<rparr>) \<and>
      tr_id r = tc_id c \<and> tr_assistant r = spoken_text t \<and> tr_status r = status" for a status
    using assms(2-4) by (simp add: close_turn_def Let_def valid_turn_record_def valid_turn_context_def upto_chars_def)
  obtain r1 where r1: "interrupt_turn now (Some c) (spoken_text t) tm = (Inr r1, tm\<lparr>tm_history := push_bounded (tm_limit tm) r1 (tm_history tm), tm_current := None\<rparr>)"
    "tr_id r1 = tc_id c" "tr_assistant r1 = spoken_text t" "tr_status r1 = TurnInterrupted"
    using recorded unfolding interrupt_turn_def by blast
  obtain r2 where r2: "record_assistant_reply now (Some c) (spoken_text t) (vt_action t) [] tm =
      (Inr r2, tm\<lparr>tm_history := push_bounded (tm_limit tm) r2 (tm_history tm), tm_current := None\<rparr>)"
    "tr_id r2 = tc_id c" "tr_assistant r2 = spoken_text t" "tr_status r2 = TurnCompleted"
    using recorded unfolding record_assistant_reply_def by blast
  show ?thesis
    using assms(1,5,6) r1 r2 by (cases j; cases alive)
      (auto simp: joined_section_def fail_section_def cancel_section_def unwind_def last_push_bounded)
qed

lemma turn_end_recorded_witness:
  "\<exists>t' tm'. joined_section 0 False JoinEnd ((new_voice_turn 1 [] None)\<lparr>vt_context := Some bare_context, vt_spoken := [''Hello.'', ''I am'']\<rparr>) demo_turn_manager = (t', tm') \<and>
     tr_assistant (last (tm_history tm')) = ''Hello. I am'' \<and> tr_status (last (tm_history tm')) = TurnInterrupted"
proof -
  let ?t = "(new_voice_turn 1 [] None)\<lparr>vt_context := Some bare_context, vt_spoken := [''Hello.'', ''I am'']\<rparr>"
  obtain t' tm' where j: "joined_section 0 False JoinEnd ?t demo_turn_manager = (t', tm')" by force
  from turn_end_recorded [of ?t bare_context demo_turn_manager, OF _ _ _ _ _ j] j show ?thesis
    by (simp add: bare_context_def valid_turn_context_def upto_chars_def spoken_text_def demo_turn_manager_def)
qed

end
