(* ===== verification/Interaction_Core.thy ===== *)
theory Interaction_Core
  imports Turn_Executor Voice_Pipeline
begin

text \<open>
  Models \<open>TurnEpochGuard\<close>, \<open>PlaybackStopGuard\<close> and \<open>InteractionCore\<close> of
  \<open>python/tom/voice/interaction_core.py\<close>. The event loop runs one section at a time: a section is the code between
  two suspension points, and the calls that are suspended are kept in \<open>ic_calls\<close> with their owner, the loop of
  \<open>run()\<close>, a task that a timer spawned, or a caller. Every interleaving is a list of events. The gate of
  the microphone is \<open>ic_gated\<close>; the two clocks of the code are one rational.
\<close>

subsection \<open>State\<close>

record core_config =
  cc_executor :: executor
  cc_wake_enabled :: bool
  cc_wake_timeout :: rat
  cc_merge_window :: rat

record moment = turn_input + mo_in_speech :: bool

datatype core_owner = Loop | Spawned | Caller

text \<open>What a barge-in goes back to: the handler of a speech onset, the start of a turn, or its caller.\<close>

datatype after_barge = ToListening | ToTurn bytes "string option" | ToCaller

text \<open>The suspended calls. Indices are those of the turn whose task and progress the call has read.\<close>

datatype core_call =
    Opening | Greeting
  | BargeFlush nat "nat option" after_barge | BargeReap nat "nat option" after_barge
  | GateHearing bytes | Arbitrating bytes | WakeAck | TurnStarting bytes
  | StopFlush "nat option" | StopReap "nat option" | StopArbiter "nat option" | StopMicrophone

record core =
  ic_pipe :: pipeline
  ic_epoch :: nat
  ic_flushed :: "nat list"
  ic_flushes :: nat
  ic_looping :: bool
  ic_running :: bool
  ic_stopping :: bool
  ic_stopped :: bool
  ic_barging :: bool
  ic_playback :: bool
  ic_barges :: nat
  ic_greets :: bool
  ic_awake :: bool
  ic_wake_timer :: bool
  ic_stray_timers :: nat
  ic_first :: bool
  ic_timed_out :: bool
  ic_last_interaction :: rat
  ic_frames :: bytes
  ic_last_frame :: "rat option"
  ic_candidate :: "bytes option"
  ic_smart_timer :: bool
  ic_active :: "nat option"
  ic_turns :: "voice_turn list"
  ic_audio :: "bytes option"
  ic_pending :: "(bytes \<times> rat) option"
  ic_manager :: turn_manager
  ic_gated :: bool
  ic_arbiter :: bool
  ic_calls :: "(core_owner \<times> core_call) list"
  ic_raised :: bool
  ic_refused :: nat
  ic_paused_since :: "rat option"
  ic_recovered :: bool
  ic_starved_since :: "rat option"
  ic_starved_recovered :: bool

definition new_core :: "core_config \<Rightarrow> bool \<Rightarrow> bool \<Rightarrow> turn_manager \<Rightarrow> core" where
  "new_core cfg greets arbiter tm =
     \<lparr>ic_pipe = new_pipeline, ic_epoch = 0, ic_flushed = [], ic_flushes = 0, ic_looping = False, ic_running = False, ic_stopping = False,
      ic_stopped = False, ic_barging = False, ic_playback = False, ic_barges = 0, ic_greets = greets, ic_awake = (\<not> cc_wake_enabled cfg),
      ic_wake_timer = False, ic_stray_timers = 0, ic_first = True, ic_timed_out = False, ic_last_interaction = 0, ic_frames = [],
      ic_last_frame = None, ic_candidate = None, ic_smart_timer = False, ic_active = None, ic_turns = [], ic_audio = None,
      ic_pending = None, ic_manager = tm, ic_gated = False, ic_arbiter = arbiter, ic_calls = [], ic_raised = False, ic_refused = 0,
      ic_paused_since = None, ic_recovered = False, ic_starved_since = None, ic_starved_recovered = False\<rparr>"

abbreviation core_state :: "core \<Rightarrow> pipeline_state" where
  "core_state c \<equiv> vp_state (ic_pipe c)"

definition call :: "core_owner \<Rightarrow> core_call \<Rightarrow> core \<Rightarrow> core" where
  "call w k c = c\<lparr>ic_calls := ic_calls c @ [(w, k)]\<rparr>"

definition call_returns :: "core_owner \<Rightarrow> core_call \<Rightarrow> core \<Rightarrow> core" where
  "call_returns w k c = c\<lparr>ic_calls := remove1 (w, k) (ic_calls c)\<rparr>"

definition alter_turn :: "nat \<Rightarrow> (voice_turn \<Rightarrow> voice_turn) \<Rightarrow> core \<Rightarrow> core" where
  "alter_turn i f c = c\<lparr>ic_turns := (ic_turns c)[i := f (ic_turns c ! i)]\<rparr>"

definition turn_over :: "nat \<Rightarrow> core \<Rightarrow> bool" where
  "turn_over i c = (case vt_phase (ic_turns c ! i) of Ended _ \<Rightarrow> True | _ \<Rightarrow> False)"

definition turn_runs :: "core \<Rightarrow> bool" where
  "turn_runs c = (case ic_active c of None \<Rightarrow> False | Some i \<Rightarrow> \<not> turn_over i c)"

text \<open>\<open>_transition\<close>: not for an outdated epoch; an invalid transition is skipped.\<close>

definition core_transition :: "pipeline_state \<Rightarrow> nat option \<Rightarrow> core \<Rightarrow> core" where
  "core_transition s epoch c =
     c\<lparr>ic_pipe := if epoch \<noteq> None \<and> epoch \<noteq> Some (ic_epoch c) \<or> core_state c = s then ic_pipe c else move s (ic_pipe c)\<rparr>"

definition arm_wake :: "core_config \<Rightarrow> moment \<Rightarrow> core \<Rightarrow> core" where
  "arm_wake cfg m c =
     c\<lparr>ic_last_interaction := ti_now m,
       ic_wake_timer := cc_wake_enabled cfg \<and> ic_awake c \<and> 0 < cc_wake_timeout cfg \<and> core_state c = LISTENING \<and> ic_active c = None \<and>
         \<not> ic_playback c \<and> \<not> mo_in_speech m \<and> \<not> ic_stopping c \<and> \<not> ic_stopped c\<rparr>"

definition arm_if_listening :: "core_config \<Rightarrow> moment \<Rightarrow> core \<Rightarrow> core" where
  "arm_if_listening cfg m c = (if core_state c = LISTENING then arm_wake cfg m c else c)"

text \<open>\<open>_close_open_turn\<close>: \<open>None\<close> when the turn manager refuses the record.\<close>

definition close_open :: "moment \<Rightarrow> nat option \<Rightarrow> core \<Rightarrow> core option" where
  "close_open m task c =
     (case tm_current (ic_manager c) of
        None \<Rightarrow> Some c
      | Some ctx \<Rightarrow>
          (case interrupt_turn (ti_now m) (Some ctx) (case task of None \<Rightarrow> [] | Some i \<Rightarrow> spoken_text (ic_turns c ! i)) (ic_manager c) of
             (Inl _, _) \<Rightarrow> None
           | (Inr _, tm) \<Rightarrow> Some (c\<lparr>ic_manager := tm\<rparr>)))"

text \<open>An exception leaves the call: it ends the loop, or is lost with its task, or reaches the caller.\<close>

definition raise_in :: "core_owner \<Rightarrow> core \<Rightarrow> core" where
  "raise_in w c = (if w = Loop then c\<lparr>ic_raised := True, ic_looping := False, ic_running := False\<rparr> else c\<lparr>ic_raised := True\<rparr>)"

subsection \<open>Turns and barge-in\<close>

text \<open>What the utterance of a cancelled turn becomes: audio that waits to be merged with the next one.\<close>

definition pending_audio :: "core_config \<Rightarrow> rat \<Rightarrow> core \<Rightarrow> (bytes \<times> rat) option" where
  "pending_audio cfg now c =
     (case ic_audio c of
        None \<Rightarrow> None
      | Some audio \<Rightarrow>
          if core_state c \<noteq> PROCESSING \<or> ic_playback c then None
          else case ic_pending c of
                 None \<Rightarrow> Some (audio, now)
               | Some (waiting, since) \<Rightarrow>
                   if now - since \<le> cc_merge_window cfg then Some (if suffix audio waiting then waiting else waiting @ audio, since)
                   else Some (audio, now))"

definition recover_pipe :: "core \<Rightarrow> core" where
  "recover_pipe c =
     c\<lparr>ic_pipe := (case core_state c of
         ERROR \<Rightarrow> move LISTENING (move IDLE (ic_pipe c))
       | SPEAKING \<Rightarrow> move LISTENING (move IDLE (move INTERRUPTED (ic_pipe c)))
       | _ \<Rightarrow> ic_pipe c)\<rparr>"

definition merged_audio :: "core_config \<Rightarrow> rat \<Rightarrow> bytes \<Rightarrow> core \<Rightarrow> bytes" where
  "merged_audio cfg now audio c =
     (case ic_pending c of
        None \<Rightarrow> audio
      | Some (waiting, since) \<Rightarrow> if 0 \<le> now - since \<and> now - since \<le> cc_merge_window cfg then waiting @ audio else audio)"

definition commence :: "core_config \<Rightarrow> moment \<Rightarrow> bytes \<Rightarrow> string option \<Rightarrow> core \<Rightarrow> core" where
  "commence cfg m audio override c =
     (let whole = merged_audio cfg (ti_now m) audio c;
          c1 = recover_pipe (c\<lparr>ic_pending := None, ic_audio := Some whole\<rparr>);
          epoch = ic_epoch c1 + 1;
          c2 = core_transition PROCESSING (Some epoch) (c1\<lparr>ic_wake_timer := False, ic_epoch := epoch, ic_playback := False\<rparr>)
      in c2\<lparr>ic_active := Some (length (ic_turns c2)), ic_turns := ic_turns c2 @ [new_voice_turn epoch whole override]\<rparr>)"

definition after_barge_in :: "core_config \<Rightarrow> moment \<Rightarrow> after_barge \<Rightarrow> core \<Rightarrow> core" where
  "after_barge_in cfg m k c =
     (case k of
        ToListening \<Rightarrow> core_transition LISTENING None (c\<lparr>ic_frames := []\<rparr>)
      | ToTurn audio override \<Rightarrow> commence cfg m audio override c
      | ToCaller \<Rightarrow> c)"

text \<open>The end of \<open>handle_barge_in\<close>, behind the reaped turn.\<close>

definition barge_finish :: "core_config \<Rightarrow> moment \<Rightarrow> core_owner \<Rightarrow> nat \<Rightarrow> nat option \<Rightarrow> after_barge \<Rightarrow> core \<Rightarrow> core" where
  "barge_finish cfg m w epoch task k c =
     (let c1 = c\<lparr>ic_active := None, ic_candidate := None, ic_audio := None\<rparr>
      in case close_open m task c1 of
           None \<Rightarrow> raise_in w (arm_if_listening cfg m (c1\<lparr>ic_barging := False\<rparr>))
         | Some c2 \<Rightarrow>
             let c3 = core_transition LISTENING (Some epoch) (core_transition INTERRUPTED (Some epoch) c2)
             in after_barge_in cfg m k (arm_if_listening cfg m (c3\<lparr>ic_gated := False, ic_barging := False\<rparr>)))"

text \<open>A task that has ended is not waited for, even when its callback has not run.\<close>

definition barge_reap :: "core_config \<Rightarrow> moment \<Rightarrow> core_owner \<Rightarrow> nat \<Rightarrow> nat option \<Rightarrow> after_barge \<Rightarrow> core \<Rightarrow> core" where
  "barge_reap cfg m w epoch task k c =
     (case task of
        Some i \<Rightarrow> if turn_over i c then barge_finish cfg m w epoch task k c
                  else call w (BargeReap epoch task k) (alter_turn i (\<lambda>t. t\<lparr>vt_asked := True\<rparr>) c)
      | None \<Rightarrow> barge_finish cfg m w epoch task k c)"

text \<open>A new epoch and a cancelled token.\<close>

definition invalidate :: "core \<Rightarrow> core" where
  "invalidate c =
     (let c1 = c\<lparr>ic_wake_timer := False, ic_epoch := ic_epoch c + 1\<rparr>
      in case ic_active c of None \<Rightarrow> c1 | Some i \<Rightarrow> alter_turn i (\<lambda>t. t\<lparr>vt_cancelled := True\<rparr>) c1)"

definition flush_playback :: "nat \<Rightarrow> core \<Rightarrow> core" where
  "flush_playback epoch c = c\<lparr>ic_flushed := ic_flushed c @ [epoch]\<rparr>"

definition barge_start :: "core_config \<Rightarrow> moment \<Rightarrow> core_owner \<Rightarrow> after_barge \<Rightarrow> core \<Rightarrow> core" where
  "barge_start cfg m w k c =
     (let c1 = invalidate (c\<lparr>ic_barges := ic_barges c + 1, ic_barging := True, ic_pending := pending_audio cfg (ti_now m) c\<rparr>);
          epoch = ic_epoch c1
      in if ic_playback c1 \<and> epoch \<notin> set (ic_flushed c1)
         then call w (BargeFlush epoch (ic_active c) k) (flush_playback epoch c1)
         else barge_reap cfg m w epoch (ic_active c) k (c1\<lparr>ic_playback := False\<rparr>))"

text \<open>\<open>_begin_turn\<close>.\<close>

definition core_begin :: "core_config \<Rightarrow> moment \<Rightarrow> core_owner \<Rightarrow> bytes \<Rightarrow> string option \<Rightarrow> core \<Rightarrow> core" where
  "core_begin cfg m w audio override c =
     (if ic_stopping c \<or> ic_stopped c \<or> audio = [] then c
      else if turn_runs c then barge_start cfg m w (ToTurn audio override) (c\<lparr>ic_wake_timer := False\<rparr>)
      else commence cfg m audio override (c\<lparr>ic_wake_timer := False\<rparr>))"

subsection \<open>What is heard\<close>

datatype arbitration = ArbiterComplete | ArbiterContinuing | ArbiterRaised

definition speech_end :: "core_config \<Rightarrow> moment \<Rightarrow> bytes \<Rightarrow> core \<Rightarrow> core" where
  "speech_end cfg m audio c =
     (if audio = [] then c
      else let candidate = (case ic_candidate c of None \<Rightarrow> audio | Some before \<Rightarrow> before @ audio);
               c1 = c\<lparr>ic_smart_timer := False\<rparr>
           in if cc_wake_enabled cfg \<and> \<not> ic_awake c then call Loop (GateHearing candidate) c1
              else if \<not> ic_arbiter c then core_begin cfg m Loop candidate None c1
              else call Loop (Arbitrating candidate) c1)"

text \<open>The wake-word gate; an acknowledgement is played with the gate closed.\<close>

definition play_ack :: "core \<Rightarrow> core" where
  "play_ack c =
     call Loop WakeAck (core_transition SPEAKING None (c\<lparr>ic_first := False, ic_timed_out := False\<rparr>)\<lparr>ic_gated := True\<rparr>)"

definition gate_heard :: "core_config \<Rightarrow> moment \<Rightarrow> bytes \<Rightarrow> string \<Rightarrow> core \<Rightarrow> core" where
  "gate_heard cfg m candidate said c =
     (let c1 = c\<lparr>ic_candidate := None\<rparr>
      in if \<not> is_wake_phrase said (ex_phrase (cc_executor cfg)) then c1
         else let c2 = c1\<lparr>ic_awake := True, ic_last_interaction := ti_now m\<rparr>;
                  rest = strip_wake_phrase said (ex_phrase (cc_executor cfg))
              in if rest \<noteq> [] then core_begin cfg m Loop candidate (Some rest) (c2\<lparr>ic_first := False, ic_timed_out := False\<rparr>)
                 else play_ack c2)"

definition ack_played :: "core_config \<Rightarrow> moment \<Rightarrow> core \<Rightarrow> core" where
  "ack_played cfg m c = arm_wake cfg m (core_transition LISTENING None (c\<lparr>ic_gated := False\<rparr>))"

definition arbitrated :: "core_config \<Rightarrow> moment \<Rightarrow> bytes \<Rightarrow> arbitration \<Rightarrow> core \<Rightarrow> core" where
  "arbitrated cfg m candidate verdict c =
     (if verdict = ArbiterContinuing then c\<lparr>ic_candidate := Some candidate, ic_smart_timer := True\<rparr>
      else core_begin cfg m Loop candidate None (c\<lparr>ic_candidate := None\<rparr>))"

definition core_heard :: "core_config \<Rightarrow> moment \<Rightarrow> Microphone.voice_event \<Rightarrow> core \<Rightarrow> core" where
  "core_heard cfg m e c =
     (case e of
        SpeechStart _ \<Rightarrow>
          let c1 = c\<lparr>ic_wake_timer := False, ic_smart_timer := False\<rparr>
          in if turn_runs c1 then barge_start cfg m Loop ToListening c1 else after_barge_in cfg m ToListening c1
      | AudioFrame _ pcm _ _ \<Rightarrow>
          if ic_stopping c then c else c\<lparr>ic_last_frame := Some (ti_now m), ic_frames := ic_frames c @ pcm\<rparr>
      | SpeechEnd _ pcm _ \<Rightarrow> speech_end cfg m (if ic_frames c = [] then pcm else ic_frames c) (c\<lparr>ic_frames := []\<rparr>))"

definition smart_timeout :: "core \<Rightarrow> core" where
  "smart_timeout c =
     (let c1 = c\<lparr>ic_smart_timer := False\<rparr>
      in case ic_candidate c of
           None \<Rightarrow> c1
         | Some candidate \<Rightarrow> if ic_stopping c \<or> ic_stopped c then c1
                              else call Spawned (TurnStarting candidate) (c1\<lparr>ic_candidate := None\<rparr>))"

definition wake_timeout :: "core_config \<Rightarrow> core \<Rightarrow> core" where
  "wake_timeout cfg c =
     (let c1 = c\<lparr>ic_wake_timer := False\<rparr>
      in if cc_wake_enabled cfg \<and> ic_awake c \<and> core_state c = LISTENING \<and> ic_active c = None \<and> \<not> ic_playback c
         then c1\<lparr>ic_awake := False, ic_timed_out := True\<rparr> else c1)"

subsection \<open>Start, greeting and stop\<close>

text \<open>\<open>run()\<close> up to its first suspension, and behind the start of the capture. A second \<open>run()\<close> raises in its own caller
  and changes nothing; \<open>ic_refused\<close> counts these.\<close>

definition run_core :: "core \<Rightarrow> core" where
  "run_core c =
     (if ic_stopped c then c
      else if ic_running c then c\<lparr>ic_refused := ic_refused c + 1\<rparr>
      else call Loop Opening (c\<lparr>ic_running := True, ic_stopping := False\<rparr>))"

definition opened :: "core \<Rightarrow> core" where
  "opened c =
     (let c1 = (core_transition LISTENING None c)\<lparr>ic_looping := True, ic_paused_since := None, ic_recovered := False, ic_starved_since := None,
                 ic_starved_recovered := False\<rparr>
      in if ic_greets c1 then call Loop Greeting (c1\<lparr>ic_greets := False\<rparr>) else c1)"

definition greeted :: "core_config \<Rightarrow> moment \<Rightarrow> bool \<Rightarrow> core \<Rightarrow> core" where
  "greeted cfg m ok c = (if ok \<and> cc_wake_enabled cfg then arm_wake cfg m (c\<lparr>ic_awake := True\<rparr>) else c)"

definition loop_ends :: "core \<Rightarrow> core" where
  "loop_ends c = c\<lparr>ic_looping := False, ic_running := False\<rparr>"

text \<open>\<open>stop()\<close> between its suspensions: the flush, the reaped turn, the arbiter, the microphone.\<close>

definition stop_rest :: "moment \<Rightarrow> nat option \<Rightarrow> core \<Rightarrow> core" where
  "stop_rest m task c =
     (case close_open m task (c\<lparr>ic_active := None\<rparr>) of
        None \<Rightarrow> raise_in Caller (c\<lparr>ic_active := None\<rparr>)
      | Some c1 \<Rightarrow> call Caller StopMicrophone
          (c1\<lparr>ic_frames := [], ic_smart_timer := False, ic_wake_timer := False, ic_candidate := None, ic_audio := None, ic_pending := None\<rparr>))"

definition stop_arbiter :: "moment \<Rightarrow> nat option \<Rightarrow> core \<Rightarrow> core" where
  "stop_arbiter m task c = (if ic_arbiter c then call Caller (StopArbiter task) c else stop_rest m task c)"

definition stop_reap :: "moment \<Rightarrow> nat option \<Rightarrow> core \<Rightarrow> core" where
  "stop_reap m task c =
     (case task of
        Some i \<Rightarrow> if turn_over i c then stop_arbiter m task c
                  else call Caller (StopReap task) (alter_turn i (\<lambda>t. t\<lparr>vt_asked := True\<rparr>) c)
      | None \<Rightarrow> stop_arbiter m task c)"

definition stop_core :: "moment \<Rightarrow> core \<Rightarrow> core" where
  "stop_core m c =
     (if ic_stopped c then c
      else let c1 = invalidate (c\<lparr>ic_stopping := True, ic_stopped := True\<rparr>); epoch = ic_epoch c1
           in if ic_playback c1 \<and> epoch \<notin> set (ic_flushed c1) then call Caller (StopFlush (ic_active c)) (flush_playback epoch c1)
              else stop_reap m (ic_active c) (c1\<lparr>ic_playback := False\<rparr>))"

definition stop_end :: "core \<Rightarrow> core" where
  "stop_end c = (core_transition IDLE None (core_transition INTERRUPTED None c))\<lparr>ic_running := False, ic_stopping := False\<rparr>"

subsection \<open>The watchdog\<close>

text \<open>One poll. The microphone of the core always resumes, so the transition to \<open>ERROR\<close> behind a failed
  recovery is not reached; a session timeout found here leaves a scheduled timer behind.\<close>

definition inactivity :: "core_config \<Rightarrow> moment \<Rightarrow> core \<Rightarrow> core" where
  "inactivity cfg m c =
     (if cc_wake_enabled cfg \<and> ic_awake c \<and> 0 < cc_wake_timeout cfg \<and> core_state c = LISTENING \<and> ic_active c = None \<and> \<not> ic_playback c \<and>
         \<not> mo_in_speech m \<and> cc_wake_timeout cfg \<le> ti_now m - ic_last_interaction c
      then (wake_timeout cfg c)\<lparr>ic_stray_timers := ic_stray_timers c + (if ic_wake_timer c then 1 else 0)\<rparr> else c)"

definition watch_capture :: "moment \<Rightarrow> rat option \<Rightarrow> core \<Rightarrow> core" where
  "watch_capture m frame_at c =
     (case (case frame_at of None \<Rightarrow> ic_last_frame c | Some t \<Rightarrow> Some t) of
        None \<Rightarrow> c
      | Some t \<Rightarrow> if ti_now m - t < 5 then c\<lparr>ic_starved_since := None, ic_starved_recovered := False\<rparr>
                  else let c1 = c\<lparr>ic_starved_since := (case ic_starved_since c of None \<Rightarrow> Some (ti_now m) | since \<Rightarrow> since)\<rparr>
                       in if ic_starved_recovered c1 then c1 else c1\<lparr>ic_starved_recovered := True, ic_gated := False\<rparr>)"

definition watchdog :: "core_config \<Rightarrow> moment \<Rightarrow> rat option \<Rightarrow> core \<Rightarrow> core" where
  "watchdog cfg m frame_at c =
     (if core_state c \<noteq> LISTENING
      then c\<lparr>ic_paused_since := None, ic_recovered := False, ic_starved_since := None, ic_starved_recovered := False\<rparr>
      else let c1 = inactivity cfg m c
           in if ic_gated c1
              then let c2 = c1\<lparr>ic_starved_since := None, ic_starved_recovered := False\<rparr>
                   in case ic_paused_since c2 of
                        None \<Rightarrow> c2\<lparr>ic_paused_since := Some (ti_now m), ic_recovered := False\<rparr>
                      | Some since \<Rightarrow> if 1 \<le> ti_now m - since \<and> \<not> ic_recovered c2 then c2\<lparr>ic_recovered := True, ic_gated := False\<rparr> else c2
              else watch_capture m frame_at (c1\<lparr>ic_paused_since := None, ic_recovered := False\<rparr>))"

subsection \<open>The turn task\<close>

text \<open>What the task of a turn meets next: it starts, the recogniser answers, the acknowledgement has been played, a
  sentence reached playback, playback has ended, the sentences end (with an exception or not), the producer or
  the tick task has been reaped, a cancellation is delivered, the done callback runs.\<close>

datatype turn_news =
    TurnStarts | TurnHeard "string option" | AckPlayed | ChunkPlayed string | PlaybackEnds | SentencesEnd bool | ProducerReaped
  | TickReaped | CancelArrives | DoneCallback

definition alive_turn :: "nat \<Rightarrow> core \<Rightarrow> bool" where
  "alive_turn i c \<longleftrightarrow> vt_epoch (ic_turns c ! i) = ic_epoch c \<and> \<not> vt_cancelled (ic_turns c ! i)"

definition on_speaking :: "nat \<Rightarrow> core \<Rightarrow> core" where
  "on_speaking epoch c =
     (let c1 = core_transition SPEAKING (Some epoch) (c\<lparr>ic_playback := True\<rparr>) in c1\<lparr>ic_gated := (epoch = ic_epoch c \<or> ic_gated c)\<rparr>)"

definition playback_completed :: "nat \<Rightarrow> core \<Rightarrow> core" where
  "playback_completed i c =
     (let t = ic_turns c ! i
      in if vt_playback_done t then c
         else (alter_turn i (\<lambda>t. t\<lparr>vt_playback_done := True\<rparr>) c)\<lparr>ic_gated := ic_gated c \<and> vt_epoch t \<noteq> ic_epoch c\<rparr>)"

text \<open>The end of a section: the \<open>finally\<close> block of \<open>_run_turn\<close> opens the gate when \<open>execute\<close> has returned.\<close>

definition is_unwinding :: "voice_turn \<Rightarrow> bool" where
  "is_unwinding t = (case vt_phase t of Unwinding _ \<Rightarrow> True | _ \<Rightarrow> False)"

definition is_joining :: "voice_turn \<Rightarrow> bool" where
  "is_joining t = (case vt_phase t of Joining _ \<Rightarrow> True | _ \<Rightarrow> False)"

definition settle :: "nat \<Rightarrow> voice_turn \<times> turn_manager \<times> bool \<Rightarrow> core \<Rightarrow> core" where
  "settle i r c =
     (case r of (t, tm, speaks) \<Rightarrow>
        let c1 = alter_turn i (\<lambda>_. t) (c\<lparr>ic_manager := tm\<rparr>);
            c2 = (if speaks then on_speaking (vt_epoch t) c1 else c1)
        in if is_unwinding t then playback_completed i c2 else c2)"

definition on_turn_done :: "core_config \<Rightarrow> moment \<Rightarrow> nat \<Rightarrow> core \<Rightarrow> core" where
  "on_turn_done cfg m i c =
     (let c1 = (alter_turn i (\<lambda>t. t\<lparr>vt_called_back := True\<rparr>) c)
                 \<lparr>ic_active := (if ic_active c = Some i then None else ic_active c), ic_audio := None, ic_playback := False\<rparr>
      in if ic_stopping c \<or> ic_stopped c \<or> ic_barging c then c1
         else arm_wake cfg m (core_transition LISTENING None (core_transition IDLE None c1)))"

definition turn_event :: "core_config \<Rightarrow> moment \<Rightarrow> nat \<Rightarrow> turn_news \<Rightarrow> core \<Rightarrow> core option" where
  "turn_event cfg m i e c =
     (let t = ic_turns c ! i; alive = alive_turn i c; tm = ic_manager c; ex = cc_executor cfg; inp = turn_input.truncate m
      in if length (ic_turns c) \<le> i then None
         else if e = CancelArrives
         then if vt_asked t then Some (settle i (case cancelled_section (ti_now m) t tm of (t', tm') \<Rightarrow> (t', tm', False)) c) else None
         else if e = DoneCallback
         then if turn_over i c \<and> \<not> vt_called_back t then Some (on_turn_done cfg m i c) else None
         else if e = PlaybackEnds
         then if vt_phase t = Streaming \<or> is_joining t then Some (playback_completed i c) else None
         else if vt_asked t then None
         else (case (vt_phase t, e) of
                 (Waiting, TurnStarts) \<Rightarrow> Some (settle i (begin_section ex inp alive t tm) c)
               | (Hearing, TurnHeard stt) \<Rightarrow> Some (settle i (heard_section ex inp alive stt t tm) c)
               | (Acking ack, AckPlayed) \<Rightarrow> Some (settle i (acked_section ack t, tm, False) c)
               | (Streaming, ChunkPlayed s) \<Rightarrow> Some (settle i (chunk_section alive s t, tm, False) c)
               | (Streaming, SentencesEnd raised) \<Rightarrow> Some (settle i (t\<lparr>vt_phase := Joining (if raised then JoinError else JoinEnd)\<rparr>, tm, False) c)
               | (Joining j, ProducerReaped) \<Rightarrow> Some (settle i (case joined_section (ti_now m) alive j t tm of (t', tm') \<Rightarrow> (t', tm', False)) c)
               | (Unwinding out, TickReaped) \<Rightarrow> Some (settle i (t\<lparr>vt_phase := Ended out\<rparr>, tm, False) c)
               | _ \<Rightarrow> None))"

subsection \<open>Events\<close>

text \<open>The answer a suspended call gets.\<close>

datatype answer_of = Done bool | Said string | Verdict arbitration

datatype core_news =
    RunCalled | Hears Microphone.voice_event | StreamEnds | SmartTimer | WakeTimer | Watchdog "rat option" | MicOpensGate
  | BargeCalled | StopCalled | OfTurn nat turn_news | Returns core_owner core_call answer_of

text \<open>A task that was waited for has ended and its callbacks have run.\<close>

definition reaped :: "nat option \<Rightarrow> core \<Rightarrow> bool" where
  "reaped task c = (case task of None \<Rightarrow> True | Some i \<Rightarrow> turn_over i c \<and> vt_called_back (ic_turns c ! i))"

definition resume_call :: "core_config \<Rightarrow> moment \<Rightarrow> core_owner \<Rightarrow> core_call \<Rightarrow> answer_of \<Rightarrow> core \<Rightarrow> core option" where
  "resume_call cfg m w k r c =
     (case (k, r) of
        (Opening, Done _) \<Rightarrow> Some (opened c)
      | (Greeting, Done ok) \<Rightarrow> Some (greeted cfg m ok c)
      | (BargeFlush epoch task next, Done ok) \<Rightarrow>
          Some (barge_reap cfg m w epoch task next (c\<lparr>ic_flushes := ic_flushes c + (if ok then 1 else 0), ic_playback := False\<rparr>))
      | (BargeReap epoch task next, Done _) \<Rightarrow> if reaped task c then Some (barge_finish cfg m w epoch task next c) else None
      | (GateHearing audio, Said s) \<Rightarrow> Some (gate_heard cfg m audio (strip s) c)
      | (Arbitrating audio, Verdict v) \<Rightarrow> Some (arbitrated cfg m audio v c)
      | (WakeAck, Done _) \<Rightarrow> Some (ack_played cfg m c)
      | (TurnStarting audio, Done _) \<Rightarrow> Some (core_begin cfg m Spawned audio None c)
      | (StopFlush task, Done ok) \<Rightarrow> Some (stop_reap m task (c\<lparr>ic_flushes := ic_flushes c + (if ok then 1 else 0), ic_playback := False\<rparr>))
      | (StopReap task, Done _) \<Rightarrow> if reaped task c then Some (stop_arbiter m task c) else None
      | (StopArbiter task, Done _) \<Rightarrow> Some (stop_rest m task (c\<lparr>ic_arbiter := False\<rparr>))
      | (StopMicrophone, Done _) \<Rightarrow> Some (stop_end c)
      | _ \<Rightarrow> None)"

definition loop_waits :: "core \<Rightarrow> bool" where
  "loop_waits c \<longleftrightarrow> ic_looping c \<and> (\<forall>x\<in>set (ic_calls c). fst x \<noteq> Loop)"

definition core_event :: "core_config \<Rightarrow> moment \<Rightarrow> core_news \<Rightarrow> core \<Rightarrow> core option" where
  "core_event cfg m e c =
     (case e of
        RunCalled \<Rightarrow> Some (run_core c)
      | Hears v \<Rightarrow> if \<not> loop_waits c then None else if ic_stopping c then Some (loop_ends c) else Some (core_heard cfg m v c)
      | StreamEnds \<Rightarrow> if loop_waits c then Some (loop_ends c) else None
      | SmartTimer \<Rightarrow> if ic_smart_timer c then Some (smart_timeout c) else None
      | WakeTimer \<Rightarrow> if ic_wake_timer c then Some (wake_timeout cfg c)
                     else if 0 < ic_stray_timers c then Some (wake_timeout cfg (c\<lparr>ic_stray_timers := ic_stray_timers c - 1\<rparr>)) else None
      | Watchdog frame_at \<Rightarrow> if ic_looping c \<and> \<not> ic_stopping c \<and> \<not> ic_stopped c then Some (watchdog cfg m frame_at c) else None
      | MicOpensGate \<Rightarrow> Some (c\<lparr>ic_gated := False\<rparr>)
      | BargeCalled \<Rightarrow> Some (barge_start cfg m Caller ToCaller c)
      | StopCalled \<Rightarrow> Some (stop_core m c)
      | OfTurn i n \<Rightarrow> turn_event cfg m i n c
      | Returns w k r \<Rightarrow> if (w, k) \<in> set (ic_calls c) then resume_call cfg m w k r (call_returns w k c) else None)"

fun core_run :: "core_config \<Rightarrow> (moment \<times> core_news) list \<Rightarrow> core \<Rightarrow> core option" where
  "core_run cfg [] c = Some c"
| "core_run cfg ((m, e) # es) c = (case core_event cfg m e c of None \<Rightarrow> None | Some c' \<Rightarrow> core_run cfg es c')"

interpretation cm: event_machine "\<lambda>(m, e). core_event cfg m e" "core_run cfg"
  by unfold_locales (simp_all split: option.split prod.split)

end
