(* ===== verification/Interaction_Gate.thy ===== *)
theory Interaction_Gate
  imports Interaction_Core
begin

text \<open>
  What holds of the interaction core in every interleaving: who opens a closed microphone gate, and that an
  outdated turn is silent. \<open>core_sound\<close> is the invariant, with one preservation lemma per section; \<open>grows\<close> is the
  relation of epochs and turns along a run.
\<close>

subsection \<open>Who opens the gate\<close>

text \<open>A turn that is early has not spoken; one that unwinds has opened the gate when it still could. Cancelled
  turns and turns asked to cancel are outdated.\<close>

definition early :: "voice_turn \<Rightarrow> bool" where
  "early t = (case vt_phase t of Waiting \<Rightarrow> True | Hearing \<Rightarrow> True | Acking _ \<Rightarrow> True | _ \<Rightarrow> False)"

definition late :: "voice_turn \<Rightarrow> bool" where
  "late t = (case vt_phase t of Unwinding _ \<Rightarrow> True | Ended _ \<Rightarrow> True | _ \<Rightarrow> False)"

definition turn_sound :: "nat \<Rightarrow> voice_turn \<Rightarrow> bool" where
  "turn_sound e t \<longleftrightarrow> vt_epoch t \<le> e \<and> (vt_asked t \<or> vt_cancelled t \<longrightarrow> vt_epoch t < e) \<and> (early t \<longrightarrow> \<not> vt_playback_done t) \<and>
     (late t \<longrightarrow> vt_playback_done t \<or> vt_epoch t < e)"

definition call_sound :: "nat \<Rightarrow> voice_turn list \<Rightarrow> core_call \<Rightarrow> bool" where
  "call_sound e ts k =
     (case k of
        BargeFlush _ (Some i) _ \<Rightarrow> i < length ts \<and> vt_epoch (ts ! i) < e
      | StopFlush (Some i) \<Rightarrow> i < length ts \<and> vt_epoch (ts ! i) < e
      | _ \<Rightarrow> True)"

definition base :: "nat \<Rightarrow> voice_turn list \<Rightarrow> nat option \<Rightarrow> (core_owner \<times> core_call) list \<Rightarrow> bool" where
  "base e ts act calls \<longleftrightarrow> (\<forall>t\<in>set ts. turn_sound e t) \<and> (\<forall>i. act = Some i \<longrightarrow> i < length ts) \<and> (\<forall>x\<in>set calls. call_sound e ts (snd x))"

definition opens_gate :: "core_call \<Rightarrow> bool" where
  "opens_gate k = (case k of WakeAck \<Rightarrow> True | BargeFlush _ _ _ \<Rightarrow> True | BargeReap _ _ _ \<Rightarrow> True | _ \<Rightarrow> False)"

definition holds_gate :: "nat \<Rightarrow> voice_turn \<Rightarrow> bool" where
  "holds_gate e t \<longleftrightarrow> vt_epoch t = e \<and> \<not> vt_playback_done t \<and> \<not> late t"

definition owned :: "nat \<Rightarrow> voice_turn list \<Rightarrow> (core_owner \<times> core_call) list \<Rightarrow> bool" where
  "owned e ts calls \<longleftrightarrow> (\<exists>t\<in>set ts. holds_gate e t) \<or> (\<exists>x\<in>set calls. opens_gate (snd x))"

definition core_sound :: "core \<Rightarrow> bool" where
  "core_sound c \<longleftrightarrow> base (ic_epoch c) (ic_turns c) (ic_active c) (ic_calls c) \<and>
     (ic_gated c \<longrightarrow> owned (ic_epoch c) (ic_turns c) (ic_calls c) \<or> ic_stopped c \<or> ic_raised c)"

text \<open>Lemmas on the parts.\<close>

lemma turn_sound_mono: "turn_sound e t \<Longrightarrow> e \<le> e' \<Longrightarrow> turn_sound e' t"
  by (auto simp: turn_sound_def)

lemma call_sound_mono: "call_sound e ts k \<Longrightarrow> e \<le> e' \<Longrightarrow> call_sound e' ts k"
  by (auto simp: call_sound_def split: core_call.splits option.splits)

lemma base_epoch: "base e ts act calls \<Longrightarrow> e \<le> e' \<Longrightarrow> base e' ts act calls"
  unfolding base_def using turn_sound_mono call_sound_mono by blast

lemma base_none: "base e ts act calls \<Longrightarrow> base e ts None calls"
  by (simp add: base_def)

lemma base_call: "base e ts act calls \<Longrightarrow> call_sound e ts k \<Longrightarrow> base e ts act (calls @ [(w, k)])"
  by (auto simp: base_def)

lemma base_return: "base e ts act calls \<Longrightarrow> base e ts act (remove1 x calls)"
  unfolding base_def using set_remove1_subset [of x calls] by blast

lemma call_sound_append: "call_sound e ts k \<Longrightarrow> call_sound e (ts @ [t]) k"
  by (auto simp: call_sound_def nth_append split: core_call.splits option.splits)

lemma base_append: "base e ts act calls \<Longrightarrow> turn_sound e t \<Longrightarrow> base e (ts @ [t]) (Some (length ts)) calls"
  by (auto simp: base_def call_sound_append)

lemma call_sound_update:
  "call_sound e ts k \<Longrightarrow> vt_epoch t = vt_epoch (ts ! i) \<Longrightarrow> call_sound e (ts[i := t]) k"
  by (cases "i < length ts") (auto simp: call_sound_def nth_list_update list_update_beyond split: core_call.splits option.splits)

lemma base_update:
  "base e ts act calls \<Longrightarrow> turn_sound e t \<Longrightarrow> vt_epoch t = vt_epoch (ts ! i) \<Longrightarrow> base e (ts[i := t]) act calls"
  by (auto simp: base_def call_sound_update dest!: set_update_subset_insert [THEN subsetD])

lemma base_nth: "base e ts act calls \<Longrightarrow> i < length ts \<Longrightarrow> turn_sound e (ts ! i)"
  by (simp add: base_def)

lemma owned_update:
  assumes "owned e ts calls" and "holds_gate e (ts ! i) \<Longrightarrow> holds_gate e t"
  shows "owned e (ts[i := t]) calls"
proof (cases "\<exists>j<length ts. holds_gate e (ts ! j)")
  case True
  then obtain j where "j < length ts" "holds_gate e (ts ! j)" by blast
  then have "j < length (ts[i := t]) \<and> holds_gate e (ts[i := t] ! j)" using assms(2) by (cases "i = j") auto
  then show ?thesis unfolding owned_def by (metis nth_mem)
qed (use assms(1) in \<open>auto simp: owned_def in_set_conv_nth\<close>)

lemma owned_call: "opens_gate k \<Longrightarrow> owned e ts (calls @ [(w, k)])"
  by (auto simp: owned_def)

lemma owned_more: "owned e ts calls \<Longrightarrow> owned e ts (calls @ [(w, k)])"
  by (auto simp: owned_def)

lemma owned_return: "owned e ts calls \<Longrightarrow> \<not> opens_gate k \<Longrightarrow> owned e ts (remove1 (w, k) calls)"
  by (auto simp: owned_def in_set_remove1) (metis in_set_remove1 snd_conv)

lemma owned_append: "holds_gate e t \<Longrightarrow> owned e (ts @ [t]) calls"
  by (auto simp: owned_def)

definition parts :: "core \<Rightarrow> nat \<times> voice_turn list \<times> nat option \<times> (core_owner \<times> core_call) list \<times> bool \<times> bool \<times> bool" where
  "parts c = (ic_epoch c, ic_turns c, ic_active c, ic_calls c, ic_gated c, ic_stopped c, ic_raised c)"

definition core_base :: "core \<Rightarrow> bool" where
  "core_base c \<longleftrightarrow> base (ic_epoch c) (ic_turns c) (ic_active c) (ic_calls c)"

lemma sound_cong: "parts c = parts c' \<Longrightarrow> core_sound c = core_sound c'"
  by (simp add: parts_def core_sound_def)

lemma base_cong: "parts c = parts c' \<Longrightarrow> core_base c = core_base c'"
  by (simp add: parts_def core_base_def)

lemma sound_base: "core_sound c \<Longrightarrow> core_base c"
  by (simp add: core_sound_def core_base_def)

text \<open>An open gate needs no owner.\<close>

lemma open_gate_sound: "core_base c \<Longrightarrow> \<not> ic_gated c \<or> ic_stopped c \<or> ic_raised c \<Longrightarrow> core_sound c"
  by (auto simp: core_sound_def core_base_def)

lemma transition_parts [simp]: "parts (core_transition s e c) = parts c"
  by (simp add: parts_def core_transition_def)

lemma arm_wake_parts [simp]: "parts (arm_wake cfg m c) = parts c"
  by (simp add: parts_def arm_wake_def)

lemma arm_if_listening_parts [simp]: "parts (arm_if_listening cfg m c) = parts c"
  by (simp add: arm_if_listening_def)

lemma call_sound_call: "core_sound c \<Longrightarrow> call_sound (ic_epoch c) (ic_turns c) k \<Longrightarrow> core_sound (call w k c)"
  by (auto simp: core_sound_def call_def intro: base_call owned_more)

lemma call_opens: "core_base c \<Longrightarrow> call_sound (ic_epoch c) (ic_turns c) k \<Longrightarrow> opens_gate k \<Longrightarrow> core_sound (call w k c)"
  by (auto simp: core_sound_def core_base_def call_def intro: base_call owned_call)

lemma returns_sound: "core_sound c \<Longrightarrow> \<not> opens_gate k \<Longrightarrow> core_sound (call_returns w k c)"
  by (auto simp: core_sound_def call_returns_def intro: base_return owned_return)

lemma returns_base: "core_base c \<Longrightarrow> core_base (call_returns w k c)"
  by (simp add: core_base_def call_returns_def base_return)

lemma recover_pipe_fields: "parts (recover_pipe c) = parts c"
  by (simp add: recover_pipe_def parts_def split: pipeline_state.splits)

lemma core_transition_fields [simp]:
  "ic_epoch (core_transition s e c) = ic_epoch c" "ic_turns (core_transition s e c) = ic_turns c"
  "ic_active (core_transition s e c) = ic_active c" "ic_calls (core_transition s e c) = ic_calls c"
  "ic_gated (core_transition s e c) = ic_gated c" "ic_stopped (core_transition s e c) = ic_stopped c"
  "ic_raised (core_transition s e c) = ic_raised c" "ic_playback (core_transition s e c) = ic_playback c"
  "ic_manager (core_transition s e c) = ic_manager c"
  by (simp_all add: core_transition_def)

lemma recover_fields [simp]:
  "ic_epoch (recover_pipe c) = ic_epoch c" "ic_turns (recover_pipe c) = ic_turns c" "ic_calls (recover_pipe c) = ic_calls c"
  by (simp_all add: recover_pipe_def)

lemma new_turn_sound: "turn_sound e (new_voice_turn e audio override)" "holds_gate e (new_voice_turn e audio override)"
  by (simp_all add: turn_sound_def holds_gate_def new_voice_turn_def early_def late_def)

lemma commence_sound:
  assumes "core_base c"
  shows "core_sound (commence cfg m audio override c)"
proof -
  let ?e = "ic_epoch c + 1" and ?t = "\<lambda>whole. new_voice_turn (ic_epoch c + 1) whole override"
  have "base ?e (ic_turns c @ [?t whole]) (Some (length (ic_turns c))) (ic_calls c)" for whole
    by (rule base_append [OF base_epoch [OF assms [unfolded core_base_def]] new_turn_sound(1)]) simp
  then show ?thesis
    by (simp add: core_sound_def commence_def Let_def owned_append new_turn_sound)
qed

lemma after_barge_in_sound: "core_sound c \<Longrightarrow> core_sound (after_barge_in cfg m k c)"
  by (cases k) (simp_all add: after_barge_in_def commence_sound sound_base cong: sound_cong, simp add: core_sound_def)

lemma close_open_SomeD: "close_open m task c = Some c' \<Longrightarrow> \<exists>tm. c' = c\<lparr>ic_manager := tm\<rparr>"
  by (auto simp: close_open_def split: option.splits prod.splits sum.splits intro: exI [of _ "ic_manager c"])

lemma raised_sound: "core_base c \<Longrightarrow> core_sound (raise_in w c)"
  by (simp add: open_gate_sound core_base_def raise_in_def)

lemma barge_finish_sound:
  assumes "core_base c"
  shows "core_sound (barge_finish cfg m w epoch task k c)"
proof -
  let ?c1 = "c\<lparr>ic_active := None, ic_candidate := None, ic_audio := None\<rparr>"
  have base: "core_base ?c1" using assms by (simp add: core_base_def base_none)
  show ?thesis
  proof (cases "close_open m task ?c1")
    case None
    have "core_base (arm_if_listening cfg m (?c1\<lparr>ic_barging := False\<rparr>))"
      using base by (simp add: arm_if_listening_def arm_wake_def core_base_def)
    then show ?thesis using None by (simp add: barge_finish_def raised_sound)
  next
    case (Some c2)
    then obtain tm where c2: "c2 = ?c1\<lparr>ic_manager := tm\<rparr>" using close_open_SomeD by blast
    let ?c3 = "core_transition LISTENING (Some epoch) (core_transition INTERRUPTED (Some epoch) c2)"
    have "core_sound (?c3\<lparr>ic_gated := False, ic_barging := False\<rparr>)"
      using base c2 by (simp add: core_sound_def core_base_def)
    then have "core_sound (arm_if_listening cfg m (?c3\<lparr>ic_gated := False, ic_barging := False\<rparr>))"
      using sound_cong [OF arm_if_listening_parts] by blast
    then show ?thesis using Some by (simp add: barge_finish_def Let_def after_barge_in_sound)
  qed
qed

text \<open>The turn of a barge-in or a stop is outdated when it is asked to cancel.\<close>

definition outdated_task :: "nat option \<Rightarrow> core \<Rightarrow> bool" where
  "outdated_task task c = (case task of None \<Rightarrow> True | Some i \<Rightarrow> i < length (ic_turns c) \<and> vt_epoch (ic_turns c ! i) < ic_epoch c)"

lemma asked_base:
  assumes "core_base c" and "outdated_task (Some i) c"
  shows "core_base (alter_turn i (\<lambda>t. t\<lparr>vt_asked := True\<rparr>) c)"
proof -
  have "turn_sound (ic_epoch c) ((ic_turns c ! i)\<lparr>vt_asked := True\<rparr>)"
    using assms base_nth [of "ic_epoch c" "ic_turns c" _ _ i] by (auto simp: core_base_def outdated_task_def turn_sound_def early_def late_def)
  then show ?thesis using assms(1) by (simp add: core_base_def alter_turn_def base_update)
qed

lemma barge_reap_sound: "core_base c \<Longrightarrow> outdated_task task c \<Longrightarrow> core_sound (barge_reap cfg m w epoch task k c)"
  by (auto simp: barge_reap_def barge_finish_sound opens_gate_def call_sound_def intro!: call_opens asked_base split: option.splits)

lemma invalidate_base:
  assumes "core_base c"
  shows "core_base (invalidate c)" "outdated_task (ic_active c) (invalidate c)"
proof -
  have c1: "base (ic_epoch c + 1) (ic_turns c) (ic_active c) (ic_calls c)" using assms by (simp add: core_base_def base_epoch)
  {
    fix i assume i: "ic_active c = Some i"
    then have bound: "i < length (ic_turns c)" using assms by (simp add: core_base_def base_def)
    then have old: "turn_sound (ic_epoch c) (ic_turns c ! i)" using assms base_nth unfolding core_base_def by blast
    have "turn_sound (ic_epoch c + 1) ((ic_turns c ! i)\<lparr>vt_cancelled := True\<rparr>)"
      using old by (auto simp: turn_sound_def early_def late_def)
    then have "core_base (invalidate c)" using c1 i by (simp add: invalidate_def Let_def core_base_def alter_turn_def base_update)
    moreover have "vt_epoch (ic_turns c ! i) < ic_epoch c + 1" using old by (simp add: turn_sound_def)
    ultimately have "core_base (invalidate c) \<and> outdated_task (ic_active c) (invalidate c)"
      using i bound by (simp add: outdated_task_def invalidate_def alter_turn_def)
  }
  then show "core_base (invalidate c)" "outdated_task (ic_active c) (invalidate c)"
    using c1 by (cases "ic_active c"; simp add: invalidate_def core_base_def outdated_task_def)+
qed

lemma flush_call_sound: "outdated_task task c \<Longrightarrow> call_sound (ic_epoch c) (ic_turns c) (BargeFlush n task k) \<and> call_sound (ic_epoch c) (ic_turns c) (StopFlush task)"
  by (auto simp: outdated_task_def call_sound_def split: option.splits)

lemma barge_start_sound:
  assumes "core_base c"
  shows "core_sound (barge_start cfg m w k c)"
proof -
  let ?c0 = "c\<lparr>ic_barges := ic_barges c + 1, ic_barging := True, ic_pending := pending_audio cfg (ti_now m) c\<rparr>"
  let ?c1 = "invalidate ?c0"
  have c0: "core_base ?c0" using assms by (simp add: core_base_def)
  note i = invalidate_base [OF c0]
  have "core_sound (call w (BargeFlush (ic_epoch ?c1) (ic_active c) k) (flush_playback (ic_epoch ?c1) ?c1))"
    using i flush_call_sound [of "ic_active c" ?c1]
    by (intro call_opens) (simp_all add: flush_playback_def core_base_def opens_gate_def)
  moreover have "core_sound (barge_reap cfg m w (ic_epoch ?c1) (ic_active c) k (?c1\<lparr>ic_playback := False\<rparr>))"
    using i by (intro barge_reap_sound) (simp_all add: core_base_def outdated_task_def split: option.splits)
  ultimately show ?thesis by (simp add: barge_start_def Let_def)
qed

lemma core_begin_sound: "core_sound c \<Longrightarrow> core_sound (core_begin cfg m w audio override c)"
  by (auto simp: core_begin_def core_base_def intro!: barge_start_sound commence_sound dest: sound_base)

lemma sound_fields:
  "core_sound c \<Longrightarrow> parts c' = parts c \<Longrightarrow> core_sound c'"
  using sound_cong by metis

lemma base_fields: "core_base c \<Longrightarrow> parts c' = parts c \<Longrightarrow> core_base c'"
  using base_cong by metis

lemma play_ack_sound: "core_base c \<Longrightarrow> core_sound (play_ack c)"
  unfolding play_ack_def by (rule call_opens) (simp_all add: opens_gate_def call_sound_def core_base_def)

lemma gate_heard_sound:
  assumes "core_sound c"
  shows "core_sound (gate_heard cfg m candidate said c)"
proof -
  have p: "core_sound (c\<lparr>ic_candidate := x\<rparr>)"
    "core_sound (c\<lparr>ic_candidate := x, ic_awake := True, ic_last_interaction := y\<rparr>)"
    "core_sound (c\<lparr>ic_candidate := x, ic_awake := True, ic_last_interaction := y, ic_first := False, ic_timed_out := False\<rparr>)" for x y
    by (rule sound_fields [OF assms], simp add: parts_def)+
  then show ?thesis
    unfolding gate_heard_def Let_def by (simp add: core_begin_sound play_ack_sound sound_base)
qed

lemma speech_end_sound:
  assumes "core_sound c"
  shows "core_sound (speech_end cfg m audio c)"
proof -
  have "core_sound (c\<lparr>ic_smart_timer := False\<rparr>)" by (rule sound_fields [OF assms]) (simp add: parts_def)
  then show ?thesis using assms
    by (simp add: speech_end_def Let_def core_begin_sound call_sound_call call_sound_def)
qed

lemma core_heard_sound:
  assumes "core_sound c"
  shows "core_sound (core_heard cfg m e c)"
proof (cases e)
  case (SpeechStart t)
  have "core_sound (c\<lparr>ic_wake_timer := False, ic_smart_timer := False\<rparr>)" by (rule sound_fields [OF assms]) (simp add: parts_def)
  then show ?thesis using SpeechStart by (simp add: core_heard_def Let_def barge_start_sound sound_base after_barge_in_sound)
next
  case (AudioFrame xs pcm n b)
  then show ?thesis using sound_fields [OF assms] assms by (simp add: core_heard_def parts_def)
next
  case (SpeechEnd xs pcm n)
  have "core_sound (c\<lparr>ic_frames := []\<rparr>)" by (rule sound_fields [OF assms]) (simp add: parts_def)
  then show ?thesis using SpeechEnd by (simp add: core_heard_def speech_end_sound)
qed

lemma smart_timeout_sound:
  assumes "core_sound c"
  shows "core_sound (smart_timeout c)"
proof -
  have p: "core_sound (c\<lparr>ic_smart_timer := False\<rparr>)" "core_sound (c\<lparr>ic_smart_timer := False, ic_candidate := None\<rparr>)"
    by (rule sound_fields [OF assms], simp add: parts_def)+
  then show ?thesis by (simp add: smart_timeout_def Let_def call_sound_call call_sound_def split: option.split)
qed

lemma wake_timeout_parts [simp]: "parts (wake_timeout cfg c) = parts c"
  by (simp add: wake_timeout_def parts_def Let_def)

lemma arbitrated_sound:
  assumes "core_sound c"
  shows "core_sound (arbitrated cfg m candidate verdict c)"
proof -
  have "core_sound (c\<lparr>ic_candidate := None\<rparr>)" "core_sound (c\<lparr>ic_candidate := Some candidate, ic_smart_timer := True\<rparr>)"
    by (rule sound_fields [OF assms], simp add: parts_def)+
  then show ?thesis by (simp add: arbitrated_def core_begin_sound)
qed

lemma ack_played_sound: "core_base c \<Longrightarrow> core_sound (ack_played cfg m c)"
  unfolding ack_played_def by (rule open_gate_sound) (simp_all add: core_base_def arm_wake_def)

lemma inactivity_parts [simp]: "parts (inactivity cfg m c) = parts c"
  using wake_timeout_parts [of cfg c] by (simp add: inactivity_def parts_def)

lemma open_gate: "core_sound c \<Longrightarrow> parts c' = parts (c\<lparr>ic_gated := False\<rparr>) \<Longrightarrow> core_sound c'"
  by (rule open_gate_sound) (simp_all add: parts_def core_sound_def core_base_def)

lemma watchdog_parts: "parts (watchdog cfg m f c) = parts c \<or> parts (watchdog cfg m f c) = parts (c\<lparr>ic_gated := False\<rparr>)"
  using inactivity_parts [of cfg m c]
  by (auto simp: watchdog_def watch_capture_def Let_def parts_def split: option.splits if_splits)

lemma watchdog_sound: "core_sound c \<Longrightarrow> core_sound (watchdog cfg m frame_at c)"
  using watchdog_parts [of cfg m frame_at c] sound_fields open_gate by metis

lemma run_core_sound:
  assumes "core_sound c"
  shows "core_sound (run_core c)"
proof -
  have "core_sound (c\<lparr>ic_running := True, ic_stopping := False\<rparr>)" by (rule sound_fields [OF assms]) (simp add: parts_def)
  moreover have "core_sound (c\<lparr>ic_refused := ic_refused c + 1\<rparr>)" by (rule sound_fields [OF assms]) (simp add: parts_def)
  ultimately show ?thesis using assms by (simp add: run_core_def call_sound_call call_sound_def)
qed

lemma opened_sound:
  assumes "core_sound c"
  shows "core_sound (opened c)"
proof -
  have p: "parts (core_transition LISTENING None c) = parts c" by simp
  have "core_sound (opened_c)" if "parts opened_c = parts c" for opened_c using sound_fields [OF assms that] .
  then show ?thesis using p by (auto simp: opened_def Let_def call_sound_def intro!: call_sound_call) (auto simp: parts_def)
qed

lemma greeted_sound: "core_sound c \<Longrightarrow> core_sound (greeted cfg m ok c)"
  by (erule sound_fields) (simp add: greeted_def, simp add: parts_def)

lemma stop_rest_sound:
  assumes "core_sound c"
  shows "core_sound (stop_rest m task c)"
proof -
  have base: "core_base (c\<lparr>ic_active := None\<rparr>)" using sound_base [OF assms] by (simp add: core_base_def base_none)
  have s: "core_sound (c\<lparr>ic_active := None\<rparr>)" using assms by (auto simp: core_sound_def intro: base_none)
  show ?thesis
  proof (cases "close_open m task (c\<lparr>ic_active := None\<rparr>)")
    case None
    then show ?thesis using base by (simp add: stop_rest_def raised_sound)
  next
    case (Some c1)
    then obtain tm where c1: "c1 = c\<lparr>ic_active := None, ic_manager := tm\<rparr>" using close_open_SomeD by fastforce
    have "core_sound (c1\<lparr>ic_frames := [], ic_smart_timer := False, ic_wake_timer := False, ic_candidate := None, ic_audio := None, ic_pending := None\<rparr>)"
      by (rule sound_fields [OF s]) (simp add: parts_def c1)
    then show ?thesis using Some by (simp add: stop_rest_def call_sound_call call_sound_def)
  qed
qed

lemma stop_arbiter_sound: "core_sound c \<Longrightarrow> core_sound (stop_arbiter m task c)"
  by (simp add: stop_arbiter_def call_sound_call call_sound_def stop_rest_sound)

lemma asked_sound:
  assumes "core_sound c" and "outdated_task (Some i) c"
  shows "core_sound (alter_turn i (\<lambda>t. t\<lparr>vt_asked := True\<rparr>) c)"
  using assms asked_base [OF sound_base [OF assms(1)] assms(2)]
  by (auto simp: core_sound_def core_base_def alter_turn_def outdated_task_def holds_gate_def intro!: owned_update)

lemma stop_reap_sound: "core_sound c \<Longrightarrow> outdated_task task c \<Longrightarrow> core_sound (stop_reap m task c)"
  by (auto simp: stop_reap_def stop_arbiter_sound call_sound_def intro!: call_sound_call asked_sound split: option.splits)

lemma stop_core_sound:
  assumes "core_sound c"
  shows "core_sound (stop_core m c)"
proof -
  let ?c0 = "c\<lparr>ic_stopping := True, ic_stopped := True\<rparr>"
  let ?c1 = "invalidate ?c0"
  have "core_base ?c0" using sound_base [OF assms] by (simp add: core_base_def)
  note i = invalidate_base [OF this]
  have stopped: "ic_stopped ?c1" by (simp add: invalidate_def Let_def alter_turn_def split: option.split)
  then have s: "core_sound ?c1" using i(1) by (simp add: open_gate_sound)
  have "core_sound (call Caller (StopFlush (ic_active c)) (flush_playback (ic_epoch ?c1) ?c1))"
    using i flush_call_sound [of "ic_active c" ?c1] sound_fields [OF s, of "flush_playback (ic_epoch ?c1) ?c1"]
    by (intro call_sound_call) (simp_all add: flush_playback_def parts_def)
  moreover have "core_sound (stop_reap m (ic_active c) (?c1\<lparr>ic_playback := False\<rparr>))"
    using i sound_fields [OF s, of "?c1\<lparr>ic_playback := False\<rparr>"]
    by (intro stop_reap_sound) (simp_all add: outdated_task_def parts_def split: option.splits)
  ultimately show ?thesis using assms by (simp add: stop_core_def Let_def)
qed

lemma stop_end_sound: "core_sound c \<Longrightarrow> core_sound (stop_end c)"
  unfolding stop_end_def by (erule sound_fields) (simp add: parts_def)

text \<open>What a section does to its turn: the phase moves on, and only a turn that is alive starts to speak.\<close>

definition section_of :: "bool \<Rightarrow> voice_turn \<Rightarrow> voice_turn \<times> turn_manager \<times> bool \<Rightarrow> bool" where
  "section_of alive t r =
     (case r of (t', tm, speaks) \<Rightarrow>
        vt_epoch t' = vt_epoch t \<and> vt_cancelled t' = vt_cancelled t \<and> vt_playback_done t' = vt_playback_done t \<and> (vt_asked t' \<longrightarrow> vt_asked t) \<and>
        (early t' \<longrightarrow> early t) \<and> (late t' \<longrightarrow> late t \<or> is_unwinding t' \<or> vt_asked t) \<and> (speaks \<longrightarrow> alive \<and> early t \<and> \<not> late t'))"

lemmas phase_tests = early_def late_def is_unwinding_def is_joining_def

lemma fail_section_of: "section_of alive t (case fail_section now t tm of (t', tm') \<Rightarrow> (t', tm', False))"
  by (auto simp: fail_section_def section_of_def unwind_def phase_tests split: option.splits prod.splits sum.splits)

lemma cancel_section_of: "section_of alive t (case cancel_section now t tm of (t', tm') \<Rightarrow> (t', tm', False))"
  by (auto simp: cancel_section_def section_of_def unwind_def phase_tests split: option.splits prod.splits sum.splits)

lemma section_of_update:
  "section_of alive (t\<lparr>vt_transcript := s\<rparr>) r = section_of alive t r"
  "section_of alive (t\<lparr>vt_context := x, vt_action := y\<rparr>) r = section_of alive t r"
  by (simp_all add: section_of_def phase_tests split: prod.split)

lemma plan_section_of:
  assumes "early t"
  shows "section_of alive t (plan_section ex inp alive said t tm)"
proof -
  have failed: "section_of al t (a, b, False)" if "fail_section (ti_now inp) (t\<lparr>vt_context := x, vt_action := y\<rparr>) tm' = (a, b)" for x y tm' a b al
    using fail_section_of [of al "t\<lparr>vt_context := x, vt_action := y\<rparr>" "ti_now inp" tm'] that by (simp add: section_of_update)
  have failed0: "section_of al t (a, b, False)" if "fail_section (ti_now inp) t tm' = (a, b)" for tm' a b al
    using fail_section_of [of al t "ti_now inp" tm'] that by simp
  have sections: "section_of al t (unwind out t, tm', False)" "section_of al t (unwind out (t\<lparr>vt_context := x, vt_action := y\<rparr>), tm', False)"
    "section_of True t (t\<lparr>vt_context := x, vt_action := y, vt_phase := Acking ack, vt_reached := True\<rparr>, tm', True)"
    "section_of True t (t\<lparr>vt_context := x, vt_action := y, vt_phase := Streaming\<rparr>, tm', True)" for out x y tm' ack al
    using assms by (auto simp: section_of_def unwind_def phase_tests)
  obtain r tm1 where s: "start_turn (ti_uid inp) (ti_now inp) said [] [] None (ti_active inp) 0 tm = (r, tm1)" by fastforce
  have silent: "section_of alive t (plan_section ex inp alive said t tm)" if "r = Inr c" "de_action (decide (ex_policy ex) said c) = SILENT_ACT" "alive" "said \<noteq> []" for c
  proof -
    obtain q tm2 where q: "record_assistant_reply (ti_now inp) (Some c) [] (Some SILENT_ACT) [] tm1 = (q, tm2)" by fastforce
    show ?thesis using that s q by (cases q) (auto simp: plan_section_def Let_def intro: failed sections split: prod.split)
  qed
  show ?thesis
  proof (cases "\<not> alive \<or> said = []")
    case True
    then show ?thesis using sections(1) by (auto simp: plan_section_def)
  next
    case False
    show ?thesis
    proof (cases r)
      case (Inl x)
      then show ?thesis using False s by (auto simp: plan_section_def intro: failed0 split: prod.split)
    next
      case (Inr c)
      show ?thesis
      proof (cases "de_action (decide (ex_policy ex) said c) = SILENT_ACT")
        case True
        then show ?thesis using Inr False silent by simp
      next
        case spoken: False
        then show ?thesis using Inr False s sections(3,4)
          by (cases "de_ack (decide (ex_policy ex) said c)") (simp_all add: plan_section_def Let_def)
      qed
    qed
  qed
qed

lemma begin_section_of: "vt_phase t = Waiting \<Longrightarrow> section_of alive t (begin_section ex inp alive t tm)"
  using plan_section_of [of "t\<lparr>vt_transcript := s\<rparr>" alive ex inp s tm for s]
  by (auto simp: begin_section_def section_of_update section_of_def phase_tests split: option.splits)

lemma heard_section_of: "vt_phase t = Hearing \<Longrightarrow> section_of alive t (heard_section ex inp alive stt t tm)"
  using plan_section_of [of "t\<lparr>vt_transcript := s\<rparr>" alive ex inp s tm for s] plan_section_of [of t alive ex inp "[]" tm]
  by (auto simp: heard_section_def section_of_update Let_def phase_tests split: option.splits)

lemma joined_section_of: "section_of alive t (case joined_section now a j t tm of (t', tm') \<Rightarrow> (t', tm', False))"
proof (cases j)
  case JoinEnd
  have "section_of alive t (unwind out t, tm', False)" for out tm' by (auto simp: section_of_def unwind_def phase_tests)
  moreover have "section_of alive t (x, y, False)" if "fail_section now t tm' = (x, y)" for x y tm'
    using fail_section_of [of alive t now tm'] that by simp
  ultimately show ?thesis using JoinEnd by (auto simp: joined_section_def split: prod.split sum.split)
qed (simp_all add: joined_section_def fail_section_of cancel_section_of)

lemma cancelled_section_of:
  assumes "vt_asked t"
  shows "section_of alive t (case cancelled_section now t tm of (t', tm') \<Rightarrow> (t', tm', False))"
proof -
  have "section_of alive t (case cancel_section now (t\<lparr>vt_asked := False\<rparr>) tm of (t', tm') \<Rightarrow> (t', tm', False))"
    using cancel_section_of [of alive "t\<lparr>vt_asked := False\<rparr>" now tm] by (auto simp: section_of_def phase_tests split: prod.splits)
  then show ?thesis
    using assms by (cases "vt_phase t") (auto simp: cancelled_section_def section_of_def phase_tests split: prod.splits)
qed

lemma playback_done_update: "vt_playback_done t \<Longrightarrow> t\<lparr>vt_playback_done := True\<rparr> = t"
  by (cases t) simp

lemma section_turn_sound:
  assumes "turn_sound e t" and "section_of alive t (t', tm, speaks)"
  shows "turn_sound e (if is_unwinding t' then t'\<lparr>vt_playback_done := True\<rparr> else t')"
  using assms by (auto simp: turn_sound_def section_of_def phase_tests split: voice_phase.splits)

lemma settle_sound:
  assumes "core_sound c" and "i < length (ic_turns c)" and "section_of (alive_turn i c) (ic_turns c ! i) r"
  shows "core_sound (settle i r c)"
proof -
  obtain t' tm speaks where r: "r = (t', tm, speaks)" by (cases r)
  let ?t = "ic_turns c ! i" and ?e = "ic_epoch c"
  have b: "base ?e (ic_turns c) (ic_active c) (ic_calls c)" using assms(1) by (simp add: core_sound_def)
  have old: "turn_sound ?e ?t" using base_nth [OF b assms(2)] .
  let ?u = "if is_unwinding t' then t'\<lparr>vt_playback_done := True\<rparr> else t'"
  have u: "turn_sound ?e ?u" using section_turn_sound [OF old] assms(3) r by simp
  have ep: "vt_epoch t' = vt_epoch ?t" using assms(3) r by (simp add: section_of_def)
  have "base ?e ((ic_turns c)[i := ?u]) (ic_active c) (ic_calls c)" using base_update [OF b u] ep by simp
  moreover have "ic_turns (settle i r c) = (ic_turns c)[i := ?u]"
    using assms(2) by (auto simp: playback_done_update settle_def r Let_def alter_turn_def on_speaking_def playback_completed_def)
  moreover have "ic_epoch (settle i r c) = ?e" "ic_active (settle i r c) = ic_active c" "ic_calls (settle i r c) = ic_calls c"
      "ic_stopped (settle i r c) = ic_stopped c" "ic_raised (settle i r c) = ic_raised c"
    by (simp_all add: settle_def r Let_def alter_turn_def on_speaking_def playback_completed_def)
  moreover have "owned ?e ((ic_turns c)[i := ?u]) (ic_calls c) \<or> ic_stopped c \<or> ic_raised c" if g: "ic_gated (settle i r c)"
  proof (cases speaks)
    case True
    then have "holds_gate ?e t'" "\<not> is_unwinding t'" using assms(3) r old
      by (auto simp: section_of_def alive_turn_def holds_gate_def turn_sound_def phase_tests split: voice_phase.splits)
    then have "?u \<in> set ((ic_turns c)[i := ?u])" "holds_gate ?e ?u" using assms(2) by (simp_all add: set_update_memI)
    then show ?thesis unfolding owned_def by blast
  next
    case False
    have gated: "ic_gated c" and moved: "is_unwinding t' \<Longrightarrow> vt_playback_done t' \<or> vt_epoch t' \<noteq> ?e"
      using g False assms(2) by (auto simp: settle_def r Let_def alter_turn_def playback_completed_def split: if_splits)
    have "holds_gate ?e ?u" if "holds_gate ?e ?t"
      using that moved assms(3) r old by (auto simp: holds_gate_def section_of_def turn_sound_def)
    then show ?thesis using assms(1) gated owned_update unfolding core_sound_def by blast
  qed
  ultimately show ?thesis by (simp add: core_sound_def)
qed

lemma playback_completed_sound:
  assumes "core_sound c" and "i < length (ic_turns c)" and "\<not> early (ic_turns c ! i)"
  shows "core_sound (playback_completed i c)"
proof (cases "vt_playback_done (ic_turns c ! i)")
  case False
  let ?t = "ic_turns c ! i" and ?e = "ic_epoch c"
  have b: "base ?e (ic_turns c) (ic_active c) (ic_calls c)" using assms(1) by (simp add: core_sound_def)
  have "turn_sound ?e (?t\<lparr>vt_playback_done := True\<rparr>)"
    using base_nth [OF b assms(2)] assms(3) by (auto simp: turn_sound_def phase_tests split: voice_phase.splits)
  then have "base ?e ((ic_turns c)[i := ?t\<lparr>vt_playback_done := True\<rparr>]) (ic_active c) (ic_calls c)" using b by (simp add: base_update)
  moreover have "owned ?e ((ic_turns c)[i := ?t\<lparr>vt_playback_done := True\<rparr>]) (ic_calls c)" if "owned ?e (ic_turns c) (ic_calls c)" "vt_epoch ?t \<noteq> ?e"
    using that by (intro owned_update) (auto simp: holds_gate_def)
  ultimately show ?thesis
    using False assms(1) by (auto simp: playback_completed_def Let_def alter_turn_def core_sound_def)
qed (use assms(1) in \<open>simp add: playback_completed_def\<close>)

lemma on_turn_done_sound:
  assumes "core_sound c" and "i < length (ic_turns c)"
  shows "core_sound (on_turn_done cfg m i c)"
proof -
  let ?t = "ic_turns c ! i" and ?e = "ic_epoch c"
  let ?c1 = "(alter_turn i (\<lambda>t. t\<lparr>vt_called_back := True\<rparr>) c)\<lparr>ic_active := (if ic_active c = Some i then None else ic_active c), ic_audio := None, ic_playback := False\<rparr>"
  have b: "base ?e (ic_turns c) (ic_active c) (ic_calls c)" using assms(1) by (simp add: core_sound_def)
  have "turn_sound ?e (?t\<lparr>vt_called_back := True\<rparr>)" using base_nth [OF b assms(2)] by (auto simp: turn_sound_def phase_tests)
  then have "base ?e ((ic_turns c)[i := ?t\<lparr>vt_called_back := True\<rparr>]) (ic_active c) (ic_calls c)" using b by (simp add: base_update)
  moreover have "owned ?e ((ic_turns c)[i := ?t\<lparr>vt_called_back := True\<rparr>]) (ic_calls c)" if "owned ?e (ic_turns c) (ic_calls c)"
    using that by (rule owned_update) (auto simp: holds_gate_def late_def)
  ultimately have c1: "core_sound ?c1" using assms(1) by (auto simp: core_sound_def alter_turn_def base_none)
  then show ?thesis
    using sound_fields [OF c1, of "arm_wake cfg m (core_transition LISTENING None (core_transition IDLE None ?c1))"]
    by (simp add: on_turn_done_def Let_def)
qed

definition sectioned :: "nat \<Rightarrow> core \<Rightarrow> core \<Rightarrow> bool" where
  "sectioned i c c' \<longleftrightarrow> (\<exists>r. section_of (alive_turn i c) (ic_turns c ! i) r \<and> c' = settle i r c)"

lemma sectionedI: "section_of (alive_turn i c) (ic_turns c ! i) r \<Longrightarrow> sectioned i c (settle i r c)"
  unfolding sectioned_def by blast

lemma turn_event_shape:
  assumes "turn_event cfg m i e c = Some c'"
  shows "i < length (ic_turns c)"
    "sectioned i c c' \<or> e = DoneCallback \<and> c' = on_turn_done cfg m i c \<or>
     e = PlaybackEnds \<and> \<not> early (ic_turns c ! i) \<and> c' = playback_completed i c"
proof -
  let ?t = "ic_turns c ! i"
  show i: "i < length (ic_turns c)" using assms by (auto simp: turn_event_def Let_def split: if_splits)
  have moves: "section_of (alive_turn i c) ?t (acked_section ack ?t, tm, False)" if "vt_phase ?t = Acking ack" for ack tm
    using that by (auto simp: section_of_def acked_section_def phase_tests)
  have streams: "section_of (alive_turn i c) ?t (chunk_section a s ?t, tm, False)"
    "section_of (alive_turn i c) ?t (?t\<lparr>vt_phase := Joining j\<rparr>, tm, False)" if "vt_phase ?t = Streaming" for a s j tm
    using that by (auto simp: section_of_def chunk_section_def phase_tests)
  have ends: "section_of (alive_turn i c) ?t (?t\<lparr>vt_phase := Ended out\<rparr>, tm, False)" if "vt_phase ?t = Unwinding out" for out tm
    using that by (auto simp: section_of_def phase_tests)
  note sections = sectionedI [OF moves] sectionedI [OF streams(1)] sectionedI [OF streams(2)] sectionedI [OF ends]
    sectionedI [OF joined_section_of] sectionedI [OF begin_section_of] sectionedI [OF heard_section_of] sectionedI [OF cancelled_section_of]
  show "sectioned i c c' \<or> e = DoneCallback \<and> c' = on_turn_done cfg m i c \<or>
     e = PlaybackEnds \<and> \<not> early (ic_turns c ! i) \<and> c' = playback_completed i c"
  proof (cases "e = CancelArrives \<or> e = DoneCallback \<or> e = PlaybackEnds")
    case True
    then show ?thesis
      using assms i sections(8) by (auto simp: turn_event_def Let_def phase_tests split: if_splits voice_phase.splits)
  next
    case False
    then show ?thesis
      using assms i sections by (cases "vt_phase ?t"; cases e) (auto simp: turn_event_def Let_def split: if_splits)
  qed
qed

lemma turn_event_sound:
  assumes "core_sound c" and "turn_event cfg m i e c = Some c'"
  shows "core_sound c'"
  using turn_event_shape [OF assms(2)] settle_sound [OF assms(1)] on_turn_done_sound [OF assms(1)] playback_completed_sound [OF assms(1)]
  unfolding sectioned_def by blast

lemma mic_opens_sound: "core_sound c \<Longrightarrow> core_sound (c\<lparr>ic_gated := False\<rparr>)"
  by (erule open_gate) simp

lemma resume_call_sound:
  assumes "core_sound c" and "(w, k) \<in> set (ic_calls c)" and "resume_call cfg m w k r (call_returns w k c) = Some c'"
  shows "core_sound c'"
proof -
  let ?c = "call_returns w k c"
  have base: "core_base ?c" using sound_base [OF assms(1)] returns_base by blast
  have sound: "core_sound ?c" if "\<not> opens_gate k" using assms(1) that returns_sound by blast
  have k: "call_sound (ic_epoch c) (ic_turns c) k"
    using assms(1,2) by (force simp: core_sound_def base_def)
  have old: "outdated_task task (?c\<lparr>ic_flushes := n, ic_playback := False\<rparr>)" if "k = BargeFlush e task kk \<or> k = StopFlush task" for e task kk n
    using k that by (auto simp: call_sound_def outdated_task_def call_returns_def split: option.splits)
  have flushed: "core_base (?c\<lparr>ic_flushes := n, ic_playback := False\<rparr>)" for n
    by (rule base_fields [OF base]) (simp add: parts_def)
  have flushed': "core_sound (?c\<lparr>ic_flushes := n, ic_playback := False\<rparr>)" if "\<not> opens_gate k" for n
    by (rule sound_fields [OF sound [OF that]]) (simp add: parts_def)
  have arbiter: "core_sound (?c\<lparr>ic_arbiter := False\<rparr>)" if "\<not> opens_gate k"
    by (rule sound_fields [OF sound [OF that]]) (simp add: parts_def)
  have plain: "?c\<lparr>ic_flushes := ic_flushes ?c, ic_playback := False\<rparr> = ?c\<lparr>ic_playback := False\<rparr>" by simp
  note plainly = barge_reap_sound [OF flushed [of "ic_flushes ?c"] old [where n = "ic_flushes ?c"], unfolded plain]
    stop_reap_sound [OF flushed' [where n = "ic_flushes ?c"] old [where n = "ic_flushes ?c"], unfolded plain]
  note sounds = opened_sound greeted_sound barge_reap_sound [OF flushed old] barge_finish_sound [OF base] gate_heard_sound arbitrated_sound
    ack_played_sound [OF base] core_begin_sound stop_reap_sound [OF flushed' old] stop_arbiter_sound stop_rest_sound [OF arbiter] stop_end_sound
  show ?thesis
    using assms(3) sounds plainly sound by (cases k; cases r) (auto simp: resume_call_def opens_gate_def split: if_splits)
qed

lemma core_event_sound:
  assumes "core_sound c" and "core_event cfg m e c = Some c'"
  shows "core_sound c'"
proof (cases e)
  case (Hears v)
  then show ?thesis using assms core_heard_sound sound_fields [OF assms(1), of "loop_ends c"]
    by (auto simp: core_event_def loop_ends_def parts_def split: if_splits)
next
  case StreamEnds
  then show ?thesis using assms sound_fields [OF assms(1), of "loop_ends c"] by (auto simp: core_event_def loop_ends_def parts_def split: if_splits)
next
  case WakeTimer
  have "parts (wake_timeout cfg (c\<lparr>ic_stray_timers := n\<rparr>)) = parts c" for n using wake_timeout_parts by (simp add: parts_def)
  then show ?thesis using assms WakeTimer sound_fields [OF assms(1)] by (auto simp: core_event_def split: if_splits)
next
  case (OfTurn i n)
  then show ?thesis using assms turn_event_sound by (simp add: core_event_def)
next
  case (Returns w k r)
  then show ?thesis using assms resume_call_sound by (auto simp: core_event_def split: if_splits)
next
  case BargeCalled
  then show ?thesis using assms barge_start_sound [OF sound_base [OF assms(1)]] by (auto simp: core_event_def)
next
  case MicOpensGate
  then show ?thesis using assms mic_opens_sound by (auto simp: core_event_def)
qed (use assms run_core_sound smart_timeout_sound watchdog_sound stop_core_sound in \<open>auto simp: core_event_def split: if_splits\<close>)

lemma core_run_sound: "core_sound c \<Longrightarrow> core_run cfg es c = Some c' \<Longrightarrow> core_sound c'"
  by (erule cm.run_invariant [where I = core_sound]) (auto dest: core_event_sound)

lemma new_core_sound: "core_sound (new_core cfg greets arbiter tm)"
  by (simp add: core_sound_def new_core_def base_def)

subsection \<open>The gate and the epochs\<close>

text \<open>C6: The microphone is not deaf without somebody who will open it. In every interleaving of a core that has not been
  stopped and in which no exception has left a barge-in, a closed gate belongs to a turn of the current epoch that is
  not cancelled and still has its closing section to run, or to an acknowledgement or a barge-in whose end opens it.
  (The exception is that of \<open>long_answer_kills_loop\<close>: the turn manager refuses the record of an interrupted answer;
  behind it the gate stays closed with no owner. \<open>ic_raised\<close> records it for good.)\<close>

theorem gate_is_owned:
  assumes "core_run cfg es (new_core cfg greets arbiter tm) = Some c" and "ic_gated c" and "\<not> ic_stopped c" and "\<not> ic_raised c"
  shows "(\<exists>t\<in>set (ic_turns c). vt_epoch t = ic_epoch c \<and> \<not> vt_cancelled t \<and> \<not> vt_asked t \<and> \<not> vt_playback_done t \<and>
            (\<forall>out. vt_phase t \<noteq> Unwinding out \<and> vt_phase t \<noteq> Ended out)) \<or>
    (\<exists>w. (w, WakeAck) \<in> set (ic_calls c)) \<or>
    (\<exists>w e task k. (w, BargeFlush e task k) \<in> set (ic_calls c) \<or> (w, BargeReap e task k) \<in> set (ic_calls c))"
proof -
  have sound: "core_sound c" using core_run_sound [OF new_core_sound assms(1)] .
  then consider t where "t \<in> set (ic_turns c)" "holds_gate (ic_epoch c) t" | x where "x \<in> set (ic_calls c)" "opens_gate (snd x)"
    using assms(2-4) by (auto simp: core_sound_def owned_def)
  then show ?thesis
  proof cases
    case (1 t)
    then have "turn_sound (ic_epoch c) t" using sound by (simp add: core_sound_def base_def)
    with 1 have "vt_epoch t = ic_epoch c \<and> \<not> vt_cancelled t \<and> \<not> vt_asked t \<and> \<not> vt_playback_done t \<and>
        (\<forall>out. vt_phase t \<noteq> Unwinding out \<and> vt_phase t \<noteq> Ended out)"
      by (auto simp: holds_gate_def turn_sound_def late_def)
    with 1(1) show ?thesis by blast
  next
    case (2 x)
    obtain w k where "x = (w, k)" by force
    with 2 show ?thesis by (cases k) (auto simp: opens_gate_def)
  qed
qed

definition demo_core_config :: "bool \<Rightarrow> core_config" where
  "demo_core_config wake = \<lparr>cc_executor = demo_executor, cc_wake_enabled = wake, cc_wake_timeout = 30, cc_merge_window = 2\<rparr>"

definition at_time :: "rat \<Rightarrow> moment" where
  "at_time x = \<lparr>ti_now = x, ti_uid = ''a'', ti_active = None, mo_in_speech = False\<rparr>"

definition steps :: "core_news list \<Rightarrow> (moment \<times> core_news) list" where
  "steps es = map (\<lambda>e. (at_time 0, e)) es"

text \<open>A session up to the first utterance.\<close>

definition session :: "core_news list" where
  "session = [RunCalled, Returns Loop Opening (Done True), Hears (SpeechStart 0), Hears (AudioFrame [1] [1, 0] 0 True), Hears (SpeechEnd [1] [1, 0] 1)]"

lemma owned_demo:
  "map_option (\<lambda>c. (core_state c, ic_gated c, ic_calls c, ic_stopped c, ic_raised c))
     (core_run (demo_core_config True) (steps (session @ [Returns Loop (GateHearing [1, 0]) (Said ''hey tom'')])) (new_core (demo_core_config True) False False demo_turn_manager)) =
   Some (SPEAKING, True, [(Loop, WakeAck)], False, False)"
  by code_simp

lemma gate_is_owned_witness:
  "\<exists>c. core_run (demo_core_config True) (steps (session @ [Returns Loop (GateHearing [1, 0]) (Said ''hey tom'')]))
         (new_core (demo_core_config True) False False demo_turn_manager) = Some c \<and> ic_gated c \<and>
     ((\<exists>t\<in>set (ic_turns c). vt_epoch t = ic_epoch c \<and> \<not> vt_playback_done t) \<or> (\<exists>x\<in>set (ic_calls c). opens_gate (snd x)))"
proof -
  obtain c where c: "core_run (demo_core_config True) (steps (session @ [Returns Loop (GateHearing [1, 0]) (Said ''hey tom'')]))
      (new_core (demo_core_config True) False False demo_turn_manager) = Some c" "ic_gated c" "\<not> ic_stopped c" "\<not> ic_raised c"
    using owned_demo by (auto simp: map_option_case split: option.splits)
  from gate_is_owned [OF c] c show ?thesis by (force simp: opens_gate_def)
qed

subsection \<open>Outdated turns\<close>

text \<open>Epochs only grow, and a turn keeps its epoch.\<close>

definition grows :: "core \<Rightarrow> core \<Rightarrow> bool" where
  "grows c c' \<longleftrightarrow> ic_epoch c \<le> ic_epoch c' \<and> prefix (map vt_epoch (ic_turns c)) (map vt_epoch (ic_turns c'))"

lemma grows_refl [simp]: "grows c c"
  by (simp add: grows_def)

lemma grows_trans: "grows c c1 \<Longrightarrow> grows c1 c2 \<Longrightarrow> grows c c2"
  unfolding grows_def using prefix_order.trans by force

lemma grows_same: "ic_epoch c' = ic_epoch c \<Longrightarrow> ic_turns c' = ic_turns c \<Longrightarrow> grows c c'"
  by (simp add: grows_def)

lemma grows_parts: "parts c' = parts c \<Longrightarrow> grows c c'"
  by (simp add: parts_def grows_same)

lemma map_epoch_update: "vt_epoch t = vt_epoch (ts ! i) \<Longrightarrow> map vt_epoch (ts[i := t]) = map vt_epoch ts"
  by (cases "i < length ts") (auto simp: map_update list_update_beyond intro: list_update_same_conv [THEN iffD2])

lemma grows_update: "ic_epoch c' = ic_epoch c \<Longrightarrow> ic_turns c' = (ic_turns c)[i := t] \<Longrightarrow> vt_epoch t = vt_epoch (ic_turns c ! i) \<Longrightarrow> grows c c'"
  by (simp add: grows_def map_epoch_update)

lemma grows_fields:
  "grows c (c'\<lparr>ic_frames := x1\<rparr>) = grows c c'" "grows c (call w k c') = grows c c'" "grows c (c'\<lparr>ic_candidate := x2\<rparr>) = grows c c'"
  by (simp_all add: grows_def call_def)

lemma commence_grows: "grows c (commence cfg m audio override c)"
  by (simp add: grows_def commence_def Let_def)

lemma after_barge_in_grows: "grows c (after_barge_in cfg m k c)"
  by (cases k) (simp_all add: after_barge_in_def commence_grows, simp add: grows_def)

lemma barge_finish_grows: "grows c (barge_finish cfg m w e task k c)"
proof (cases "close_open m task (c\<lparr>ic_active := None, ic_candidate := None, ic_audio := None\<rparr>)")
  case None
  then show ?thesis by (auto simp: barge_finish_def Let_def raise_in_def arm_if_listening_def arm_wake_def intro: grows_same)
next
  case (Some c2)
  then obtain tm where c2: "c2 = c\<lparr>ic_active := None, ic_candidate := None, ic_audio := None, ic_manager := tm\<rparr>"
    using close_open_SomeD by blast
  have "grows c (arm_if_listening cfg m ((core_transition LISTENING (Some e) (core_transition INTERRUPTED (Some e) c2))\<lparr>ic_gated := False, ic_barging := False\<rparr>))"
    by (rule grows_same) (simp_all add: c2 arm_if_listening_def arm_wake_def)
  then show ?thesis using Some after_barge_in_grows by (simp add: barge_finish_def Let_def) (rule grows_trans)
qed

lemma asked_grows: "grows c (alter_turn i (\<lambda>t. t\<lparr>vt_asked := True\<rparr>) c)"
  by (rule grows_update [where t = "(ic_turns c ! i)\<lparr>vt_asked := True\<rparr>"]) (simp_all add: alter_turn_def)

lemma barge_reap_grows: "grows c (barge_reap cfg m w e task k c)"
  by (simp add: barge_reap_def barge_finish_grows grows_fields asked_grows split: option.split)

lemma invalidate_grows: "grows c (invalidate c)"
  by (auto simp: grows_def invalidate_def Let_def alter_turn_def map_epoch_update split: option.split)

lemma barge_start_grows: "grows c (barge_start cfg m w k c)"
proof -
  let ?c0 = "c\<lparr>ic_barges := ic_barges c + 1, ic_barging := True, ic_pending := pending_audio cfg (ti_now m) c\<rparr>"
  have "grows c ?c0" "grows ?c0 (invalidate ?c0)" by (simp_all add: grows_same invalidate_grows)
  then have g: "grows c (invalidate ?c0)" by (rule grows_trans)
  have "grows (invalidate ?c0) (barge_reap cfg m w (ic_epoch (invalidate ?c0)) (ic_active c) k ((invalidate ?c0)\<lparr>ic_playback := False\<rparr>))"
    by (rule grows_trans [OF grows_same barge_reap_grows]) simp_all
  moreover have "grows (invalidate ?c0) (flush_playback (ic_epoch (invalidate ?c0)) (invalidate ?c0))"
    by (simp add: grows_same flush_playback_def)
  ultimately show ?thesis using g by (simp add: barge_start_def Let_def grows_fields grows_trans [OF g])
qed

lemma core_begin_grows: "grows c (core_begin cfg m w audio override c)"
proof -
  have "grows c (c\<lparr>ic_wake_timer := False\<rparr>)" by (simp add: grows_same)
  then show ?thesis using barge_start_grows commence_grows grows_trans unfolding core_begin_def by (smt (verit) grows_refl)
qed

lemma begins_grow: "ic_epoch c1 = ic_epoch c \<Longrightarrow> ic_turns c1 = ic_turns c \<Longrightarrow> grows c (core_begin cfg m w audio override c1)"
  using grows_trans [OF grows_same core_begin_grows] by blast

lemma heard_grows:
  "grows c (speech_end cfg m audio c)" "grows c (core_heard cfg m e c)" "grows c (gate_heard cfg m candidate said c)"
  "grows c (arbitrated cfg m candidate v c)" "grows c (smart_timeout c)"
proof -
  show s: "grows c (speech_end cfg m audio c)" for c audio
    by (auto simp: speech_end_def Let_def call_def intro: begins_grow grows_same)
  have "grows c (barge_start cfg m Loop ToListening (c\<lparr>ic_wake_timer := False, ic_smart_timer := False\<rparr>))"
    by (rule grows_trans [OF grows_same barge_start_grows]) simp_all
  moreover have "grows c (after_barge_in cfg m ToListening (c\<lparr>ic_wake_timer := False, ic_smart_timer := False\<rparr>))"
    by (rule grows_trans [OF grows_same after_barge_in_grows]) simp_all
  moreover have "grows c (speech_end cfg m audio (c\<lparr>ic_frames := []\<rparr>))" for audio
    by (rule grows_trans [OF grows_same s]) simp_all
  ultimately show "grows c (core_heard cfg m e c)"
    by (cases e) (auto simp: core_heard_def Let_def intro: grows_same)
  show "grows c (gate_heard cfg m candidate said c)"
    by (auto simp: gate_heard_def Let_def play_ack_def call_def intro: begins_grow grows_same)
  show "grows c (arbitrated cfg m candidate v c)"
    by (auto simp: arbitrated_def intro: begins_grow grows_same)
  show "grows c (smart_timeout c)"
    by (auto simp: smart_timeout_def Let_def call_def intro: grows_same split: option.split)
qed

lemma close_open_grows: "close_open m task c = Some c' \<Longrightarrow> grows c c'"
  using close_open_SomeD by (fastforce intro: grows_same)

lemma stop_rest_grows: "grows c (stop_rest m task c)"
proof (cases "close_open m task (c\<lparr>ic_active := None\<rparr>)")
  case None
  then show ?thesis by (simp add: stop_rest_def raise_in_def grows_same)
next
  case (Some c1)
  then obtain tm where "c1 = c\<lparr>ic_active := None, ic_manager := tm\<rparr>" using close_open_SomeD by fastforce
  with Some show ?thesis by (simp add: stop_rest_def call_def grows_same)
qed

lemma stop_grows: "grows c (stop_arbiter m task c)" "grows c (stop_reap m task c)" "grows c (stop_core m c)" "grows c (stop_end c)"
proof -
  show a: "grows c (stop_arbiter m task c)" for c task by (simp add: stop_arbiter_def stop_rest_grows grows_fields)
  show r: "grows c (stop_reap m task c)" for c task by (simp add: stop_reap_def a grows_fields asked_grows split: option.split)
  let ?c1 = "invalidate (c\<lparr>ic_stopping := True, ic_stopped := True\<rparr>)"
  have i: "grows c ?c1" by (rule grows_trans [OF grows_same invalidate_grows]) simp_all
  have "grows c (stop_reap m (ic_active c) (?c1\<lparr>ic_playback := False\<rparr>))"
    by (rule grows_trans [OF i], rule grows_trans [OF grows_same r]) simp_all
  moreover have "grows c (flush_playback (ic_epoch ?c1) ?c1)" by (rule grows_trans [OF i grows_same]) (simp_all add: flush_playback_def)
  ultimately show "grows c (stop_core m c)" by (simp add: stop_core_def Let_def grows_fields)
  show "grows c (stop_end c)" by (simp add: stop_end_def grows_same)
qed

lemma settle_grows:
  assumes "i < length (ic_turns c)" and "section_of a (ic_turns c ! i) r"
  shows "grows c (settle i r c)"
  using assms by (cases r)
    (auto simp: settle_def section_of_def Let_def alter_turn_def on_speaking_def playback_completed_def grows_def map_epoch_update)

lemma turn_event_grows:
  assumes "turn_event cfg m i e c = Some c'"
  shows "grows c c'"
  using turn_event_shape [OF assms]
proof (elim disjE conjE)
  assume "i < length (ic_turns c)" and "sectioned i c c'"
  then show ?thesis by (auto simp: sectioned_def intro: settle_grows)
next
  assume "c' = on_turn_done cfg m i c"
  then show ?thesis by (auto simp: on_turn_done_def Let_def alter_turn_def arm_wake_def grows_def map_epoch_update)
next
  assume "c' = playback_completed i c"
  then show ?thesis by (auto simp: playback_completed_def Let_def alter_turn_def grows_def map_epoch_update)
qed

lemma other_grows:
  "grows c (run_core c)" "grows c (opened c)" "grows c (greeted cfg m ok c)" "grows c (wake_timeout cfg c)" "grows c (watchdog cfg m f c)"
  "grows c (loop_ends c)" "grows c (ack_played cfg m c)"
proof -
  show "grows c (run_core c)" by (simp add: run_core_def call_def grows_def)
  show "grows c (opened c)" by (simp add: opened_def Let_def call_def grows_def)
  show "grows c (greeted cfg m ok c)" by (simp add: greeted_def arm_wake_def grows_def)
  show "grows c (wake_timeout cfg c)" by (rule grows_parts) simp
  show "grows c (loop_ends c)" by (simp add: loop_ends_def grows_def)
  show "grows c (ack_played cfg m c)" by (simp add: ack_played_def arm_wake_def grows_def)
  show "grows c (watchdog cfg m f c)" using watchdog_parts [of cfg m f c] by (auto simp: parts_def grows_def)
qed

lemma resume_grows:
  assumes "resume_call cfg m w k r c = Some c'"
  shows "grows c c'"
proof -
  have flushed: "grows c (barge_reap cfg m w e task kk (c\<lparr>ic_flushes := n, ic_playback := False\<rparr>))"
    "grows c (stop_reap m task (c\<lparr>ic_flushes := n, ic_playback := False\<rparr>))" "grows c (stop_rest m task (c\<lparr>ic_arbiter := False\<rparr>))" for e task kk n
    by (rule grows_trans [OF grows_same barge_reap_grows] grows_trans [OF grows_same stop_grows(2)] grows_trans [OF grows_same stop_rest_grows]; simp)+
  have plain: "c\<lparr>ic_flushes := ic_flushes c, ic_playback := False\<rparr> = c\<lparr>ic_playback := False\<rparr>" by simp
  show ?thesis
    using assms flushed flushed(1,2) [where n = "ic_flushes c", unfolded plain] other_grows heard_grows barge_finish_grows core_begin_grows stop_grows
    by (cases k; cases r) (auto simp: resume_call_def split: if_splits)
qed

lemma core_event_grows:
  assumes "core_event cfg m e c = Some c'"
  shows "grows c c'"
proof (cases e)
  case (Returns w k r)
  have "grows c (call_returns w k c)" by (simp add: call_returns_def grows_same)
  then show ?thesis using assms Returns resume_grows grows_trans by (auto simp: core_event_def split: if_splits)
next
  case WakeTimer
  have "grows c (wake_timeout cfg (c\<lparr>ic_stray_timers := n\<rparr>))" for n by (rule grows_trans [OF grows_same other_grows(4)]) simp_all
  then show ?thesis using assms WakeTimer other_grows(4) by (auto simp: core_event_def split: if_splits)
qed (use assms other_grows heard_grows barge_start_grows stop_grows turn_event_grows in
      \<open>auto simp: core_event_def grows_same split: if_splits\<close>)

lemma core_run_grows: "core_run cfg es c = Some c' \<Longrightarrow> grows c c'"
  by (rule cm.run_preorder [where R = grows]) (auto dest: core_event_grows intro: grows_trans)

lemma grows_outdated:
  assumes "grows c c'" and "i < length (ic_turns c)" and "vt_epoch (ic_turns c ! i) < ic_epoch c"
  shows "i < length (ic_turns c') \<and> vt_epoch (ic_turns c' ! i) < ic_epoch c'"
proof -
  obtain zs where zs: "map vt_epoch (ic_turns c') = map vt_epoch (ic_turns c) @ zs" using assms(1) by (auto simp: grows_def elim: prefixE)
  then have "length (ic_turns c') = length (ic_turns c) + length zs" by (metis length_append length_map)
  moreover have "map vt_epoch (ic_turns c') ! i = vt_epoch (ic_turns c ! i)" using zs assms(2) by (simp add: nth_append)
  ultimately show ?thesis using assms by (auto simp: grows_def)
qed

text \<open>C9: Once the epoch has moved past a turn, it is silent for good: in every continuation, nothing its task does before
  its done callback changes the state of the pipeline, the gate of the microphone, the playback flag or the
  epoch, or starts another turn.\<close>

theorem stale_turn_silent:
  assumes "i < length (ic_turns c)" and "vt_epoch (ic_turns c ! i) < ic_epoch c"
    and "core_run cfg es c = Some c1" and "core_event cfg m (OfTurn i e) c1 = Some c2" and "e \<noteq> DoneCallback"
  shows "ic_pipe c2 = ic_pipe c1 \<and> ic_gated c2 = ic_gated c1 \<and> ic_playback c2 = ic_playback c1 \<and> ic_epoch c2 = ic_epoch c1 \<and>
    ic_active c2 = ic_active c1 \<and> length (ic_turns c2) = length (ic_turns c1)"
proof -
  have old: "i < length (ic_turns c1)" "vt_epoch (ic_turns c1 ! i) < ic_epoch c1"
    using grows_outdated [OF core_run_grows [OF assms(3)] assms(1,2)] by simp_all
  then have dead: "\<not> alive_turn i c1" by (simp add: alive_turn_def)
  have "turn_event cfg m i e c1 = Some c2" using assms(4) by (simp add: core_event_def)
  from turn_event_shape(2) [OF this] assms(5) consider "sectioned i c1 c2" | "c2 = playback_completed i c1" by blast
  then show ?thesis
  proof cases
    case 1
    then obtain t tm speaks where r: "section_of (alive_turn i c1) (ic_turns c1 ! i) (t, tm, speaks)" "c2 = settle i (t, tm, speaks) c1"
      unfolding sectioned_def by auto
    then have "\<not> speaks" "vt_epoch t < ic_epoch c1" using dead old by (simp_all add: section_of_def)
    then show ?thesis using r(2) old(1) by (simp add: settle_def Let_def alter_turn_def playback_completed_def)
  next
    case 2
    then show ?thesis using old by (simp add: alter_turn_def playback_completed_def Let_def)
  qed
qed

definition outdated_demo :: core where
  "outdated_demo = (new_core (demo_core_config False) False False demo_turn_manager)
     \<lparr>ic_epoch := 2, ic_gated := True, ic_turns := [(new_voice_turn 1 [1] None)\<lparr>vt_phase := Streaming\<rparr>]\<rparr>"

lemma stale_turn_silent_witness:
  "\<exists>c2. core_event (demo_core_config False) (at_time 0) (OfTurn 0 (ChunkPlayed ''Hello.'')) outdated_demo = Some c2 \<and>
     ic_gated c2 \<and> ic_playback c2 = ic_playback outdated_demo"
proof -
  obtain c2 where c2: "core_event (demo_core_config False) (at_time 0) (OfTurn 0 (ChunkPlayed ''Hello.'')) outdated_demo = Some c2"
    by (simp add: outdated_demo_def core_event_def turn_event_def new_voice_turn_def Let_def)
  have "0 < length (ic_turns outdated_demo)" "vt_epoch (ic_turns outdated_demo ! 0) < ic_epoch outdated_demo" "ic_gated outdated_demo"
    by (simp_all add: outdated_demo_def new_voice_turn_def)
  with stale_turn_silent [OF this(1,2) core_run.simps(1) c2] c2 show ?thesis by simp
qed

end
