(* ===== verification/Interaction_Turns.thy ===== *)
theory Interaction_Turns
  imports Interaction_Gate
begin

text \<open>
  What a barge-in, the wake-word gate, a stop and a split utterance do to the turns of the interaction core, and
  that a barge-in always returns.
\<close>

subsection \<open>Barge-in\<close>

lemma interrupt_closes: "interrupt_turn now ctx said tm = (Inr r, tm') \<Longrightarrow> tm_current tm' = None"
  by (auto simp: interrupt_turn_def close_turn_def Let_def split: if_splits)

lemma listening_reached:
  "core_state (core_transition LISTENING (Some (ic_epoch c)) (core_transition INTERRUPTED (Some (ic_epoch c)) c)) = LISTENING"
  by (cases "core_state c") (auto simp: core_transition_def move_def transition_pipeline_def)

text \<open>A turn that is open can be closed with what it has said.\<close>

definition closable :: "moment \<Rightarrow> nat option \<Rightarrow> core \<Rightarrow> bool" where
  "closable m task c = (close_open m task c \<noteq> None)"

lemma close_open_closes:
  assumes "closable m task c"
  shows "\<exists>tm. close_open m task c = Some (c\<lparr>ic_manager := tm\<rparr>) \<and> tm_current tm = None"
proof (cases "tm_current (ic_manager c)")
  case None
  then show ?thesis by (intro exI [of _ "ic_manager c"]) (simp add: close_open_def)
next
  case (Some ctx)
  obtain r tm where r: "interrupt_turn (ti_now m) (Some ctx) (case task of None \<Rightarrow> [] | Some i \<Rightarrow> spoken_text (ic_turns c ! i)) (ic_manager c) = (r, tm)"
    by fastforce
  then have "\<exists>x. r = Inr x" using assms Some by (cases r) (auto simp: closable_def close_open_def)
  then show ?thesis using r Some interrupt_closes by (auto simp: close_open_def)
qed

lemma close_open_cong:
  assumes "ic_manager c' = ic_manager c" and "ic_turns c' = ic_turns c"
  shows "closable m task c' = closable m task c"
  using assms by (auto simp: closable_def close_open_def split: option.splits prod.splits sum.splits)

text \<open>The end of a barge-in hands over to listening: while the epoch it has allocated is current, and unless the turn
  manager refuses to close the interrupted turn, it leaves the pipeline \<open>LISTENING\<close> and the microphone open,
  nothing active, no candidate and no open turn, whatever the pipeline was doing before.\<close>

theorem barge_in_hands_over:
  assumes "core_event cfg m (Returns w (BargeReap (ic_epoch c) task k) (Done b)) c = Some c'" and "k = ToCaller \<or> k = ToListening"
    and "closable m task c"
  shows "core_state c' = LISTENING \<and> \<not> ic_gated c' \<and> \<not> ic_barging c' \<and> ic_active c' = None \<and> ic_candidate c' = None \<and>
    tm_current (ic_manager c') = None \<and> ic_raised c' = ic_raised c \<and> ic_looping c' = ic_looping c \<and> ic_epoch c' = ic_epoch c"
proof -
  let ?c = "call_returns w (BargeReap (ic_epoch c) task k) c"
  let ?c1 = "?c\<lparr>ic_active := None, ic_candidate := None, ic_audio := None\<rparr>"
  have "closable m task ?c1" using assms(3) by (subst close_open_cong [of _ c]) (simp_all add: call_returns_def)
  from close_open_closes [OF this] obtain tm where tm: "close_open m task ?c1 = Some (?c1\<lparr>ic_manager := tm\<rparr>)" "tm_current tm = None" by blast
  have "c' = barge_finish cfg m w (ic_epoch c) task k ?c"
    using assms(1) by (auto simp: core_event_def resume_call_def split: if_splits)
  moreover have "ic_epoch (?c1\<lparr>ic_manager := tm\<rparr>) = ic_epoch c" by (simp add: call_returns_def)
  ultimately show ?thesis
    using tm assms(2) listening_reached [of "?c1\<lparr>ic_manager := tm\<rparr>"]
    by (auto simp: barge_finish_def Let_def after_barge_in_def arm_if_listening_def arm_wake_def core_transition_def call_returns_def)
qed

definition interrupted_demo :: core where
  "interrupted_demo = (new_core (demo_core_config False) False False demo_turn_manager)
     \<lparr>ic_pipe := new_pipeline\<lparr>vp_state := SPEAKING\<rparr>, ic_epoch := 2, ic_gated := True, ic_looping := True, ic_running := True, ic_barging := True, ic_active := Some 0,
      ic_turns := [(new_voice_turn 1 [1] None)\<lparr>vt_phase := Ended WasCancelled, vt_cancelled := True, vt_called_back := True,
        vt_spoken := [replicate 9000 CHR ''a'']\<rparr>],
      ic_calls := [(Loop, BargeReap 2 (Some 0) ToListening)]\<rparr>"

lemma barge_in_hands_over_witness:
  "\<exists>c'. core_event (demo_core_config False) (at_time 0) (Returns Loop (BargeReap (ic_epoch interrupted_demo) (Some 0) ToListening) (Done True)) interrupted_demo = Some c' \<and>
     core_state c' = LISTENING \<and> \<not> ic_gated c'"
proof -
  obtain c' where c': "core_event (demo_core_config False) (at_time 0) (Returns Loop (BargeReap (ic_epoch interrupted_demo) (Some 0) ToListening) (Done True)) interrupted_demo = Some c'"
    by (simp add: interrupted_demo_def core_event_def resume_call_def reaped_def call_returns_def turn_over_def new_voice_turn_def)
  have "closable (at_time 0) (Some 0) interrupted_demo"
    by (simp add: closable_def close_open_def interrupted_demo_def new_core_def demo_turn_manager_def)
  with barge_in_hands_over [OF c'] c' show ?thesis by simp
qed

text \<open>C38: When the interrupted turn has said more than a record holds, the exception of the turn manager leaves the
  barge-in before the microphone is resumed: the event loop is over and a closed gate stays closed.\<close>

theorem long_answer_kills_loop:
  assumes "core_event cfg m (Returns Loop (BargeReap e (Some i) k) (Done b)) c = Some c'"
    and "tm_current (ic_manager c) = Some ctx" and "8000 < length (spoken_text (ic_turns c ! i))"
  shows "\<not> ic_looping c' \<and> \<not> ic_running c' \<and> ic_raised c' \<and> ic_gated c' = ic_gated c \<and> tm_current (ic_manager c') = Some ctx"
proof -
  let ?c = "call_returns Loop (BargeReap e (Some i) k) c"
  have "c' = barge_finish cfg m Loop e (Some i) k ?c"
    using assms(1) by (auto simp: core_event_def resume_call_def split: if_splits)
  moreover have "close_open m (Some i) (?c\<lparr>ic_active := None, ic_candidate := None, ic_audio := None\<rparr>) = None"
    using assms(2,3) by (simp add: close_open_def call_returns_def interrupt_turn_def close_turn_def valid_turn_record_def upto_chars_def Let_def)
  ultimately show ?thesis
    using assms(2) by (simp add: barge_finish_def Let_def raise_in_def arm_if_listening_def arm_wake_def call_returns_def)
qed

definition open_demo :: core where
  "open_demo = interrupted_demo\<lparr>ic_manager := demo_turn_manager\<lparr>tm_current := Some bare_context\<rparr>\<rparr>"

lemma long_answer_kills_loop_witness:
  "\<exists>c'. core_event (demo_core_config False) (at_time 0) (Returns Loop (BargeReap 2 (Some 0) ToListening) (Done True)) open_demo = Some c' \<and>
     \<not> ic_looping c' \<and> ic_gated c'"
proof -
  obtain c' where c': "core_event (demo_core_config False) (at_time 0) (Returns Loop (BargeReap 2 (Some 0) ToListening) (Done True)) open_demo = Some c'"
    by (simp add: open_demo_def interrupted_demo_def core_event_def resume_call_def reaped_def call_returns_def turn_over_def new_voice_turn_def)
  have "tm_current (ic_manager open_demo) = Some bare_context" "8000 < length (spoken_text (ic_turns open_demo ! 0))" "ic_gated open_demo"
    by (simp_all add: open_demo_def interrupted_demo_def spoken_text_def new_voice_turn_def)
  with long_answer_kills_loop [OF c' this(1,2)] c' show ?thesis by simp
qed

subsection \<open>Sleep\<close>

text \<open>Nothing that was accepted is under way.\<close>

definition accepted :: "core_call \<Rightarrow> bool" where
  "accepted k =
     (case k of
        Arbitrating _ \<Rightarrow> True | TurnStarting _ \<Rightarrow> True | Greeting \<Rightarrow> True | BargeFlush _ _ (ToTurn _ _) \<Rightarrow> True | BargeReap _ _ (ToTurn _ _) \<Rightarrow> True
      | _ \<Rightarrow> False)"

definition asleep :: "core \<Rightarrow> bool" where
  "asleep c \<longleftrightarrow> \<not> ic_awake c \<and> \<not> ic_greets c \<and> ic_candidate c = None \<and> (\<forall>x\<in>set (ic_calls c). \<not> accepted (snd x))"

definition phrase_free :: "core_config \<Rightarrow> core_news \<Rightarrow> bool" where
  "phrase_free cfg e = (case e of Returns _ (GateHearing _) (Said s) \<Rightarrow> \<not> is_wake_phrase (strip s) (ex_phrase (cc_executor cfg)) | _ \<Rightarrow> True)"

definition still :: "core \<Rightarrow> core \<Rightarrow> bool" where
  "still c c' \<longleftrightarrow> asleep c' \<and> length (ic_turns c') = length (ic_turns c)"

lemma still_fields: "asleep c \<Longrightarrow> ic_awake c' = ic_awake c \<Longrightarrow> ic_greets c' = ic_greets c \<Longrightarrow> ic_candidate c' = ic_candidate c \<or> ic_candidate c' = None \<Longrightarrow>
    set (ic_calls c') \<subseteq> set (ic_calls c) \<Longrightarrow> length (ic_turns c') = length (ic_turns c) \<Longrightarrow> still c c'"
  by (auto simp: still_def asleep_def)

lemma still_trans: "still c c1 \<Longrightarrow> (asleep c1 \<Longrightarrow> still c1 c2) \<Longrightarrow> still c c2"
  by (simp add: still_def)

lemma still_call: "asleep c \<Longrightarrow> \<not> accepted k \<Longrightarrow> still c (call w k c)"
  by (auto simp: still_def asleep_def call_def)

lemma after_barge_in_still: "asleep c \<Longrightarrow> k = ToListening \<or> k = ToCaller \<Longrightarrow> still c (after_barge_in cfg m k c)"
  by (auto simp: after_barge_in_def core_transition_def intro: still_fields)

lemma barge_finish_still:
  assumes "asleep c" and "k = ToListening \<or> k = ToCaller"
  shows "still c (barge_finish cfg m w e task k c)"
proof (cases "close_open m task (c\<lparr>ic_active := None, ic_candidate := None, ic_audio := None\<rparr>)")
  case None
  then show ?thesis using assms
    by (auto simp: barge_finish_def Let_def raise_in_def arm_if_listening_def arm_wake_def intro: still_fields)
next
  case (Some c2)
  then obtain tm where c2: "c2 = c\<lparr>ic_active := None, ic_candidate := None, ic_audio := None, ic_manager := tm\<rparr>"
    using close_open_SomeD by blast
  let ?c3 = "arm_if_listening cfg m ((core_transition LISTENING (Some e) (core_transition INTERRUPTED (Some e) c2))\<lparr>ic_gated := False, ic_barging := False\<rparr>)"
  have "still c ?c3" using assms(1)
    by (rule still_fields) (simp_all add: c2 core_transition_def arm_if_listening_def arm_wake_def)
  then have "still c (after_barge_in cfg m k ?c3)" using still_trans after_barge_in_still [OF _ assms(2)] by blast
  then show ?thesis using Some by (simp add: barge_finish_def Let_def)
qed

lemma barge_reap_still: "asleep c \<Longrightarrow> k = ToListening \<or> k = ToCaller \<Longrightarrow> still c (barge_reap cfg m w e task k c)"
proof -
  assume a: "asleep c" "k = ToListening \<or> k = ToCaller"
  have "still c (call w (BargeReap e task k) (alter_turn i (\<lambda>t. t\<lparr>vt_asked := True\<rparr>) c))" for i
    using a by (auto simp: still_def asleep_def call_def alter_turn_def accepted_def split: after_barge.splits)
  with a show ?thesis by (auto simp: barge_reap_def barge_finish_still split: option.split)
qed

lemma invalidate_fields:
  "ic_awake (invalidate c) = ic_awake c" "ic_greets (invalidate c) = ic_greets c" "ic_candidate (invalidate c) = ic_candidate c"
  "ic_calls (invalidate c) = ic_calls c" "length (ic_turns (invalidate c)) = length (ic_turns c)"
  by (simp_all add: invalidate_def Let_def alter_turn_def split: option.split)

lemma barge_start_still:
  assumes "asleep c" and "k = ToListening \<or> k = ToCaller"
  shows "still c (barge_start cfg m w k c)"
proof -
  let ?c1 = "invalidate (c\<lparr>ic_barges := ic_barges c + 1, ic_barging := True, ic_pending := pending_audio cfg (ti_now m) c\<rparr>)"
  have i: "still c ?c1" "still c (?c1\<lparr>ic_playback := False\<rparr>)" "still c (flush_playback (ic_epoch ?c1) ?c1)"
    using assms(1) by (auto simp: still_def asleep_def invalidate_fields flush_playback_def)
  have "still c (call w (BargeFlush (ic_epoch ?c1) (ic_active c) k) (flush_playback (ic_epoch ?c1) ?c1))"
    by (rule still_trans [OF i(3) still_call]) (use assms(2) in \<open>auto simp: accepted_def\<close>)
  moreover have "still c (barge_reap cfg m w (ic_epoch ?c1) (ic_active c) k (?c1\<lparr>ic_playback := False\<rparr>))"
    using still_trans [OF i(2)] barge_reap_still assms(2) by blast
  ultimately show ?thesis by (simp add: barge_start_def Let_def)
qed

lemma heard_still:
  assumes "asleep c" and "cc_wake_enabled cfg"
  shows "still c (core_heard cfg m e c)" "still c (smart_timeout c)"
    "\<not> is_wake_phrase said (ex_phrase (cc_executor cfg)) \<Longrightarrow> still c (gate_heard cfg m candidate said c)"
proof -
  have begun: "still c (after_barge_in cfg m ToListening (c\<lparr>ic_wake_timer := False, ic_smart_timer := False\<rparr>))"
    "still c (barge_start cfg m Loop ToListening (c\<lparr>ic_wake_timer := False, ic_smart_timer := False\<rparr>))"
    using assms(1) by (auto intro!: still_trans [OF still_fields after_barge_in_still] still_trans [OF still_fields barge_start_still])
  have ended: "still c (speech_end cfg m audio (c\<lparr>ic_frames := []\<rparr>))" for audio
    using assms by (auto simp: speech_end_def Let_def still_def asleep_def call_def accepted_def)
  show "still c (core_heard cfg m e c)"
    using assms begun ended by (cases e) (auto simp: core_heard_def Let_def intro: still_fields)
  show "still c (smart_timeout c)"
    using assms(1) by (auto simp: smart_timeout_def Let_def asleep_def intro!: still_fields)
  show "still c (gate_heard cfg m candidate said c)" if "\<not> is_wake_phrase said (ex_phrase (cc_executor cfg))"
    using assms(1) that by (auto simp: gate_heard_def intro: still_fields)
qed

lemma ends_still:
  assumes "asleep c"
  shows "still c (run_core c)" "still c (opened c)" "still c (wake_timeout cfg c)" "still c (watchdog cfg m f c)" "still c (loop_ends c)"
    "still c (ack_played cfg m c)" "still c (stop_end c)"
proof -
  show "still c (run_core c)" using assms by (auto simp: run_core_def still_def asleep_def call_def accepted_def)
  show "still c (opened c)" using assms by (auto simp: opened_def Let_def core_transition_def still_def asleep_def)
  show w: "still c (wake_timeout cfg c)" using assms by (auto simp: wake_timeout_def Let_def still_def asleep_def)
  show "still c (loop_ends c)" using assms by (auto simp: loop_ends_def still_def asleep_def)
  show "still c (ack_played cfg m c)" using assms by (auto simp: ack_played_def arm_wake_def core_transition_def still_def asleep_def)
  show "still c (stop_end c)" using assms by (auto simp: stop_end_def core_transition_def still_def asleep_def)
  have "inactivity cfg m c = c" using assms by (simp add: inactivity_def asleep_def)
  then show "still c (watchdog cfg m f c)" using assms
    by (auto simp: watchdog_def watch_capture_def Let_def still_def asleep_def split: option.split)
qed

lemma stop_still:
  assumes "asleep c"
  shows "still c (stop_rest m task c)" "still c (stop_arbiter m task c)" "still c (stop_reap m task c)" "still c (stop_core m c)"
proof -
  have rest: "still c (stop_rest m task c)" if "asleep c" for c task
  proof (cases "close_open m task (c\<lparr>ic_active := None\<rparr>)")
    case None
    then show ?thesis using that by (auto simp: stop_rest_def raise_in_def intro: still_fields)
  next
    case (Some c1)
    then obtain tm where "c1 = c\<lparr>ic_active := None, ic_manager := tm\<rparr>" using close_open_SomeD by fastforce
    then show ?thesis using Some that by (auto simp: stop_rest_def call_def still_def asleep_def accepted_def)
  qed
  have arb: "still c (stop_arbiter m task c)" if "asleep c" for c task
    using that rest by (auto simp: stop_arbiter_def call_def still_def asleep_def accepted_def)
  have reap: "still c (stop_reap m task c)" if "asleep c" for c task
    using that arb by (auto simp: stop_reap_def call_def alter_turn_def still_def asleep_def accepted_def split: option.split)
  from rest arb reap assms show "still c (stop_rest m task c)" "still c (stop_arbiter m task c)" "still c (stop_reap m task c)" by blast+
  let ?c1 = "invalidate (c\<lparr>ic_stopping := True, ic_stopped := True\<rparr>)"
  have i: "still c (?c1\<lparr>ic_playback := False\<rparr>)" "still c (flush_playback (ic_epoch ?c1) ?c1)"
    using assms(1) by (auto simp: still_def asleep_def invalidate_fields flush_playback_def)
  have "still c (call Caller (StopFlush (ic_active c)) (flush_playback (ic_epoch ?c1) ?c1))"
    by (rule still_trans [OF i(2) still_call]) (auto simp: accepted_def)
  moreover have "still c (stop_reap m (ic_active c) (?c1\<lparr>ic_playback := False\<rparr>))" using still_trans [OF i(1) reap] by blast
  ultimately show "still c (stop_core m c)" using assms by (simp add: stop_core_def Let_def) (simp add: still_def)
qed

lemma settle_still: "asleep c \<Longrightarrow> still c (settle i r c)"
  by (cases r) (auto simp: settle_def Let_def alter_turn_def on_speaking_def playback_completed_def core_transition_def still_def asleep_def)

lemma turn_event_still:
  assumes "asleep c" and "turn_event cfg m i e c = Some c'"
  shows "still c c'"
proof -
  have "still c (on_turn_done cfg m i c)" "still c (playback_completed i c)"
    using assms(1) by (auto simp: on_turn_done_def playback_completed_def Let_def alter_turn_def core_transition_def arm_wake_def still_def asleep_def)
  then show ?thesis using turn_event_shape(2) [OF assms(2)] settle_still [OF assms(1)] unfolding sectioned_def by blast
qed

lemma resume_still:
  assumes "asleep c" and "(w, k) \<in> set (ic_calls c)" and "resume_call cfg m w k r (call_returns w k c) = Some c'"
    and "cc_wake_enabled cfg" and "phrase_free cfg (Returns w k r)"
  shows "still c c'"
proof -
  let ?c = "call_returns w k c"
  have ret: "still c ?c" using assms(1) by (auto simp: call_returns_def still_def asleep_def dest: notin_set_remove1 [rotated])
  then have a: "asleep ?c" by (simp add: still_def)
  have flushed: "asleep (?c\<lparr>ic_flushes := n, ic_playback := False\<rparr>)" "asleep (?c\<lparr>ic_playback := False\<rparr>)" "asleep (?c\<lparr>ic_arbiter := False\<rparr>)" for n
    using a by (simp_all add: asleep_def)
  have "\<not> accepted k" using assms(1,2) by (auto simp: asleep_def)
  then have "still ?c c'"
  proof (cases k)
    case (BargeFlush e task kk)
    with \<open>\<not> accepted k\<close> have kk: "kk = ToListening \<or> kk = ToCaller" by (auto simp: accepted_def split: after_barge.splits)
    have "still ?c (barge_reap cfg m w e task kk (?c\<lparr>ic_flushes := n, ic_playback := False\<rparr>))" "still ?c (barge_reap cfg m w e task kk (?c\<lparr>ic_playback := False\<rparr>))" for n
      using barge_reap_still [OF flushed(1) [of n] kk, of cfg m w e task] barge_reap_still [OF flushed(2) kk, of cfg m w e task] by (simp_all add: still_def)
    then show ?thesis using assms(3) BargeFlush by (cases r) (auto simp: resume_call_def)
  next
    case (BargeReap e task kk)
    with \<open>\<not> accepted k\<close> have kk: "kk = ToListening \<or> kk = ToCaller" by (auto simp: accepted_def split: after_barge.splits)
    then show ?thesis using assms(3) BargeReap barge_finish_still [OF a kk] by (cases r) (auto simp: resume_call_def split: if_splits)
  next
    case (GateHearing audio)
    then show ?thesis using assms(3,5) heard_still(3) [OF a assms(4)] by (cases r) (auto simp: resume_call_def phrase_free_def)
  next
    case (StopFlush task)
    have "still ?c (stop_reap m task (?c\<lparr>ic_flushes := n, ic_playback := False\<rparr>))" "still ?c (stop_reap m task (?c\<lparr>ic_playback := False\<rparr>))" for n
      using stop_still(3) [OF flushed(1) [of n], of m task] stop_still(3) [OF flushed(2), of m task] by (simp_all add: still_def)
    then show ?thesis using assms(3) StopFlush by (cases r) (auto simp: resume_call_def)
  next
    case (StopArbiter task)
    have "still ?c (stop_rest m task (?c\<lparr>ic_arbiter := False\<rparr>))" using stop_still(1) [OF flushed(3), of m task] by (simp add: still_def)
    then show ?thesis using assms(3) StopArbiter by (cases r) (auto simp: resume_call_def)
  next
    case (StopReap task)
    then show ?thesis using assms(3) stop_still(2) [OF a] by (cases r) (auto simp: resume_call_def split: if_splits)
  qed (use assms(3) ends_still [OF a] in \<open>cases r; auto simp: resume_call_def accepted_def\<close>)+
  then show ?thesis using ret by (simp add: still_def)
qed

lemma core_event_still:
  assumes "asleep c" and "core_event cfg m e c = Some c'" and "cc_wake_enabled cfg" and "phrase_free cfg e"
  shows "still c c'"
proof (cases e)
  case (Returns w k r)
  then show ?thesis using assms resume_still by (auto simp: core_event_def split: if_splits)
next
  case WakeTimer
  have "still c (wake_timeout cfg (c\<lparr>ic_stray_timers := n\<rparr>))" for n using assms(1) by (auto simp: wake_timeout_def Let_def still_def asleep_def)
  then show ?thesis using assms WakeTimer ends_still(3) by (auto simp: core_event_def split: if_splits)
next
  case (OfTurn i n)
  then show ?thesis using assms turn_event_still by (simp add: core_event_def)
next
  case MicOpensGate
  then show ?thesis using assms by (auto simp: core_event_def still_def asleep_def)
qed (use assms ends_still heard_still barge_start_still stop_still in \<open>auto simp: core_event_def split: if_splits\<close>)

text \<open>C10: Asleep means asleep. Take any state in which the core sleeps, no greeting is planned, no candidate
  is kept, and no suspended call goes back to audio that was accepted before (an arbitration, the start of a turn, a barge-in for
  a turn) or is the greeting. From it no turn ever begins and the core stays asleep, in every
  interleaving, as long as no text that the recogniser returns to the gate holds the phrase. A new core without a
  start-up greeting is such a state. The side conditions are needed: what was accepted while the core was awake is still answered when the session ends
  meanwhile (\<open>arbitrated_while_asleep\<close>), and the greeting wakes the core.\<close>

theorem asleep_until_phrase:
  assumes "cc_wake_enabled cfg" and "\<not> ic_awake c" and "\<not> ic_greets c" and "ic_candidate c = None"
    and "\<forall>x\<in>set (ic_calls c). \<not> accepted (snd x)"
    and "core_run cfg es c = Some c'" and "\<forall>x\<in>set es. phrase_free cfg (snd x)"
  shows "length (ic_turns c') = length (ic_turns c) \<and> \<not> ic_awake c'"
proof -
  have "still c c'"
  proof (rule cm.run_invariant [OF assms(6), where I = "still c"])
    show "still c c" using assms(2-5) by (simp add: still_def asleep_def)
    show "still c c2" if "x \<in> set es" "still c c1" "(case x of (m, e) \<Rightarrow> core_event cfg m e) c1 = Some c2" for x c1 c2
      using that core_event_still [of c1 cfg "fst x" "snd x" c2] assms(1,7) by (auto simp: still_def split: prod.splits)
  qed
  then show ?thesis by (simp add: still_def asleep_def)
qed

lemma new_core_sleeps:
  "cc_wake_enabled cfg \<Longrightarrow> \<not> ic_awake (new_core cfg False arbiter tm) \<and> \<not> ic_greets (new_core cfg False arbiter tm) \<and>
     ic_candidate (new_core cfg False arbiter tm) = None \<and> ic_calls (new_core cfg False arbiter tm) = []"
  by (simp add: new_core_def)

text \<open>The session ends while an utterance is being arbitrated: the core falls asleep, and the verdict begins a turn.\<close>

lemma arbitrated_while_asleep:
  assumes "cc_wake_enabled cfg" and "ic_wake_timer c" and "ic_awake c" and "core_state c = LISTENING" and "ic_active c = None" and "\<not> ic_playback c"
    and "(Loop, Arbitrating audio) \<in> set (ic_calls c)" and "\<not> ic_stopping c" and "\<not> ic_stopped c" and "audio \<noteq> []" and "v \<noteq> ArbiterContinuing"
  shows "\<exists>c'. core_run cfg [(m, WakeTimer), (m', Returns Loop (Arbitrating audio) (Verdict v))] c = Some c' \<and>
    \<not> ic_awake c' \<and> length (ic_turns c') = length (ic_turns c) + 1"
  using assms
  by (simp add: core_event_def wake_timeout_def resume_call_def call_returns_def arbitrated_def core_begin_def turn_runs_def commence_def
      recover_pipe_def core_transition_def Let_def)

lemma asleep_demo:
  "map_option (\<lambda>c. (core_state c, ic_calls c))
     (core_run (demo_core_config True) (steps (session @ [Returns Loop (GateHearing [1, 0]) (Said ''good night'')])) (new_core (demo_core_config True) False False demo_turn_manager)) =
   Some (LISTENING, []) \<and>
   \<not> is_wake_phrase (strip ''good night'') (ex_phrase (cc_executor (demo_core_config True)))"
  by code_simp

lemma asleep_until_phrase_witness:
  "\<exists>c. core_run (demo_core_config True) (steps (session @ [Returns Loop (GateHearing [1, 0]) (Said ''good night'')]))
         (new_core (demo_core_config True) False False demo_turn_manager) = Some c \<and> ic_turns c = [] \<and> \<not> ic_awake c"
proof -
  obtain c where c: "core_run (demo_core_config True) (steps (session @ [Returns Loop (GateHearing [1, 0]) (Said ''good night'')]))
      (new_core (demo_core_config True) False False demo_turn_manager) = Some c"
    using asleep_demo by (auto simp: map_option_case split: option.splits)
  have "\<forall>x\<in>set (steps (session @ [Returns Loop (GateHearing [1, 0]) (Said ''good night'')])). phrase_free (demo_core_config True) (snd x)"
    using asleep_demo by (simp add: steps_def session_def phrase_free_def)
  with asleep_until_phrase [OF _ _ _ _ _ c this] new_core_sleeps [of "demo_core_config True"] c show ?thesis
    by (simp add: demo_core_config_def) (simp add: new_core_def)
qed

subsection \<open>Stopping\<close>

text \<open>A stop that arrives while an acknowledgement plays leaves a stopped core \<open>IDLE\<close>; then the end of the acknowledgement
  moves it to \<open>LISTENING\<close>, and nothing moves it back.\<close>

theorem stop_during_ack_listens:
  "map_option (\<lambda>c. (core_state c, ic_stopped c, ic_stopping c, ic_running c, ic_calls c))
     (core_run (demo_core_config True)
        (steps (session @ [Returns Loop (GateHearing [1, 0]) (Said ''hey tom''), StopCalled, Returns Caller StopMicrophone (Done True), Returns Loop WakeAck (Done True)]))
        (new_core (demo_core_config True) False False demo_turn_manager)) =
   Some (LISTENING, True, False, False, [])"
  by code_simp

text \<open>The sections of \<open>stop()\<close> behind its first one, for a task other than that of turn \<open>i\<close>.\<close>

definition stop_step :: "nat \<Rightarrow> core_news \<Rightarrow> bool" where
  "stop_step i e =
     (case e of
        Returns Caller (StopFlush task) _ \<Rightarrow> task \<noteq> Some i | Returns Caller (StopReap task) _ \<Rightarrow> task \<noteq> Some i
      | Returns Caller (StopArbiter task) _ \<Rightarrow> task \<noteq> Some i | Returns Caller StopMicrophone _ \<Rightarrow> True
      | _ \<Rightarrow> False)"

definition spares :: "nat \<Rightarrow> core \<Rightarrow> core \<Rightarrow> bool" where
  "spares i c c' \<longleftrightarrow> length (ic_turns c') = length (ic_turns c) \<and> ic_turns c' ! i = ic_turns c ! i \<and> ic_epoch c' = ic_epoch c \<and>
     ic_stopped c' = ic_stopped c"

lemma stop_rest_spares: "spares i c (stop_rest m task c)"
proof (cases "close_open m task (c\<lparr>ic_active := None\<rparr>)")
  case (Some c1)
  then obtain tm where "c1 = c\<lparr>ic_active := None, ic_manager := tm\<rparr>" using close_open_SomeD by fastforce
  with Some show ?thesis by (simp add: stop_rest_def spares_def call_def)
qed (simp add: stop_rest_def spares_def raise_in_def)

lemma stop_sections_spare:
  "spares i c (stop_arbiter m task c)" "task \<noteq> Some i \<Longrightarrow> spares i c (stop_reap m task c)"
proof -
  show arb: "spares i c (stop_arbiter m task c)" for task c
    using stop_rest_spares by (simp add: stop_arbiter_def) (simp add: spares_def call_def)
  show "spares i c (stop_reap m task c)" if "task \<noteq> Some i"
    using that arb by (cases task) (auto simp: stop_reap_def, auto simp: spares_def call_def alter_turn_def)
qed

lemma stop_step_spares:
  assumes "core_event cfg m e c = Some c'" and "stop_step i e"
  shows "spares i c c'"
proof -
  obtain k r where e: "e = Returns Caller k r" using assms(2) by (auto simp: stop_step_def split: core_news.splits core_owner.splits)
  let ?c = "call_returns Caller k c"
  have c': "resume_call cfg m Caller k r ?c = Some c'" using assms(1) e by (auto simp: core_event_def split: if_splits)
  have same: "spares i ?c c2 \<Longrightarrow> spares i c c2" for c2 by (simp add: spares_def call_returns_def)
  have reap: "spares i ?c (stop_reap m task (?c\<lparr>ic_flushes := n, ic_playback := False\<rparr>))" if "task \<noteq> Some i" for task n
    using stop_sections_spare(2) [OF that, of "?c\<lparr>ic_flushes := n, ic_playback := False\<rparr>" m] by (simp add: spares_def)
  have rest: "spares i ?c (stop_rest m task (?c\<lparr>ic_arbiter := False\<rparr>))" for task
    using stop_rest_spares [of i "?c\<lparr>ic_arbiter := False\<rparr>" m task] by (simp add: spares_def)
  have mic: "spares i ?c (stop_end ?c)" by (simp add: spares_def stop_end_def core_transition_def)
  show ?thesis
  proof (cases k)
    case (StopFlush task)
    then have t: "task \<noteq> Some i" using assms(2) e by (simp add: stop_step_def)
    from c' StopFlush obtain n where "c' = stop_reap m task (?c\<lparr>ic_flushes := n, ic_playback := False\<rparr>)" by (cases r) (auto simp: resume_call_def)
    with same reap [OF t] show ?thesis by blast
  next
    case (StopReap task)
    then have "c' = stop_arbiter m task ?c" using c' by (cases r) (auto simp: resume_call_def split: if_splits)
    with same stop_sections_spare(1) show ?thesis by blast
  next
    case (StopArbiter task)
    then have "c' = stop_rest m task (?c\<lparr>ic_arbiter := False\<rparr>)" using c' by (cases r) (auto simp: resume_call_def)
    with same rest show ?thesis by blast
  next
    case StopMicrophone
    then have "c' = stop_end ?c" using c' by (cases r) (auto simp: resume_call_def)
    with same mic show ?thesis by blast
  qed (use assms(2) e in \<open>simp_all add: stop_step_def\<close>)
qed

lemma commence_begins:
  "length (ic_turns (commence cfg m audio override c)) = Suc (length (ic_turns c)) \<and> ic_stopped (commence cfg m audio override c) = ic_stopped c \<and>
   (\<exists>whole. ic_turns (commence cfg m audio override c) ! length (ic_turns c) = new_voice_turn (ic_epoch (commence cfg m audio override c)) whole override)"
  by (auto simp: commence_def Let_def recover_pipe_def core_transition_def)

text \<open>The turn a barge-in goes back to begins without a look at the flags.\<close>

lemma barge_in_begins_turn:
  assumes "core_event cfg m (Returns w (BargeReap e task (ToTurn audio override)) (Done b)) c = Some c1" and "closable m task c"
  shows "length (ic_turns c1) = Suc (length (ic_turns c)) \<and> ic_stopped c1 = ic_stopped c \<and>
    (\<exists>whole. ic_turns c1 ! length (ic_turns c) = new_voice_turn (ic_epoch c1) whole override)"
proof -
  let ?c = "call_returns w (BargeReap e task (ToTurn audio override)) c"
  have c1: "c1 = barge_finish cfg m w e task (ToTurn audio override) ?c"
    using assms(1) by (auto simp: core_event_def resume_call_def split: if_splits)
  have "closable m task (?c\<lparr>ic_active := None, ic_candidate := None, ic_audio := None\<rparr>)"
    using assms(2) by (subst close_open_cong [of _ c]) (simp_all add: call_returns_def)
  then obtain tm where "close_open m task (?c\<lparr>ic_active := None, ic_candidate := None, ic_audio := None\<rparr>) =
      Some (?c\<lparr>ic_active := None, ic_candidate := None, ic_audio := None, ic_manager := tm\<rparr>)"
    using close_open_closes by fastforce
  then obtain c4 where "c1 = commence cfg m audio override c4" "ic_turns c4 = ic_turns c" "ic_stopped c4 = ic_stopped c"
    by (force simp: c1 barge_finish_def Let_def after_barge_in_def arm_if_listening_def arm_wake_def core_transition_def call_returns_def)
  with commence_begins [of cfg m audio override c4] show ?thesis by simp
qed

text \<open>C37: A turn can outlive \<open>stop()\<close>. Take any state of a stopped core in which the start of a turn waits for the end of its
  barge-in. When the barge-in is reaped, the start does not look at the flags again and begins a new
  turn in a new epoch; and the sections of the \<open>stop()\<close> that is under way, which has read the task of an older turn, leave it
  alone. So when \<open>stop()\<close> has returned, the core is stopped, neither stopping nor running, and has a turn that
  is current, not cancelled, not asked to end, and whose task can run its first section.\<close>

theorem turn_outlives_stop:
  assumes "core_event cfg m (Returns w (BargeReap e task (ToTurn audio override)) (Done b)) c = Some c1" and "closable m task c" and "ic_stopped c"
    and "core_run cfg (es @ [(m1, Returns Caller StopMicrophone r)]) c1 = Some c2"
    and "\<forall>x\<in>set es. stop_step (length (ic_turns c)) (snd x)"
  shows "ic_stopped c2 \<and> \<not> ic_stopping c2 \<and> \<not> ic_running c2 \<and> length (ic_turns c2) = Suc (length (ic_turns c)) \<and>
    alive_turn (length (ic_turns c)) c2 \<and> vt_phase (ic_turns c2 ! length (ic_turns c)) = Waiting \<and> \<not> vt_asked (ic_turns c2 ! length (ic_turns c)) \<and>
    core_event cfg m2 (OfTurn (length (ic_turns c)) TurnStarts) c2 \<noteq> None"
proof -
  let ?i = "length (ic_turns c)"
  note begun = barge_in_begins_turn [OF assms(1,2)]
  have all: "\<forall>x\<in>set (es @ [(m1, Returns Caller StopMicrophone r)]). stop_step ?i (snd x)"
    using assms(5) by (simp add: stop_step_def)
  have kept: "spares ?i c1 c2"
  proof (rule cm.run_invariant [OF assms(4), where I = "spares ?i c1"])
    show "spares ?i c1 c1" by (simp add: spares_def)
    show "spares ?i c1 c4" if "x \<in> set (es @ [(m1, Returns Caller StopMicrophone r)])" "spares ?i c1 c3"
      "(case x of (m, e) \<Rightarrow> core_event cfg m e) c3 = Some c4" for x c3 c4
      using that all stop_step_spares [of cfg "fst x" "snd x" c3 c4 ?i] by (auto simp: spares_def split: prod.splits)
  qed
  obtain c3 where "core_event cfg m1 (Returns Caller StopMicrophone r) c3 = Some c2"
    using assms(4) by (auto simp: cm.run_append bind_eq_Some_conv split: option.splits)
  then have "c2 = stop_end (call_returns Caller StopMicrophone c3)"
    by (cases r) (auto simp: core_event_def resume_call_def split: if_splits)
  then have "\<not> ic_stopping c2 \<and> \<not> ic_running c2" by (simp add: stop_end_def)
  with kept begun assms(3) show ?thesis
    by (auto simp: spares_def alive_turn_def new_voice_turn_def core_event_def turn_event_def Let_def)
qed

text \<open>A run that gets there: a stop that arrives while the start of a turn waits for its barge-in.\<close>

definition late_start :: "core_news list" where
  "late_start =
     session @
     [Returns Loop (Arbitrating [1, 0]) (Verdict ArbiterContinuing), SmartTimer, Hears (SpeechStart 0), Hears (AudioFrame [2] [2, 0] 0 True),
      Returns Spawned (TurnStarting [1, 0]) (Done True), Hears (SpeechEnd [2] [2, 0] 1), Returns Loop (Arbitrating [2, 0]) (Verdict ArbiterComplete),
      StopCalled, OfTurn 0 CancelArrives, OfTurn 0 DoneCallback]"

definition late_reap :: core_news where
  "late_reap = Returns Loop (BargeReap 2 (Some 0) (ToTurn [2, 0] None)) (Done True)"

definition stop_returns :: "core_news list" where
  "stop_returns = [Returns Caller (StopReap (Some 0)) (Done True), Returns Caller (StopArbiter (Some 0)) (Done True)]"

definition reaping_demo :: core where
  "reaping_demo = the (core_run (demo_core_config False) (steps late_start) (new_core (demo_core_config False) False True demo_turn_manager))"

lemma late_demo:
  "map_option (\<lambda>c. (length (ic_turns c), ic_stopped c, closable (at_time 0) (Some 0) c,
       map_option ic_stopped (core_run (demo_core_config False) (steps (late_reap # stop_returns @ [Returns Caller StopMicrophone (Done True)])) c)))
     (core_run (demo_core_config False) (steps late_start) (new_core (demo_core_config False) False True demo_turn_manager)) =
   Some (1, True, True, Some True)"
  unfolding closable_def by code_simp

lemma turn_outlives_stop_witness:
  "\<exists>c2. core_run (demo_core_config False) (steps (late_reap # stop_returns @ [Returns Caller StopMicrophone (Done True)])) reaping_demo = Some c2 \<and>
     ic_stopped c2 \<and> \<not> ic_stopping c2 \<and> alive_turn 1 c2"
proof -
  have d: "length (ic_turns reaping_demo) = 1" "ic_stopped reaping_demo" "closable (at_time 0) (Some 0) reaping_demo"
    "map_option ic_stopped (core_run (demo_core_config False) (steps (late_reap # stop_returns @ [Returns Caller StopMicrophone (Done True)])) reaping_demo) = Some True"
    using late_demo unfolding reaping_demo_def by (auto simp: map_option_case split: option.splits)
  then obtain c1 c2 where c1: "core_event (demo_core_config False) (at_time 0) late_reap reaping_demo = Some c1"
      and c2: "core_run (demo_core_config False) (steps (stop_returns @ [Returns Caller StopMicrophone (Done True)])) c1 = Some c2"
    by (auto simp: steps_def split: option.splits)
  have "\<forall>x\<in>set (steps stop_returns). stop_step (length (ic_turns reaping_demo)) (snd x)"
    by (simp add: d(1) steps_def stop_returns_def stop_step_def)
  from turn_outlives_stop [OF c1 [unfolded late_reap_def] d(3,2) _ this, of "at_time 0" "Done True" c2 "at_time 0"] c1 c2 d(1) show ?thesis
    by (simp add: steps_def)
qed

subsection \<open>Utterances\<close>

definition is_frame :: "core_news \<Rightarrow> bool" where
  "is_frame e = (case e of Hears (AudioFrame _ _ _ _) \<Rightarrow> True | _ \<Rightarrow> False)"

lemma frames_keep:
  assumes "\<forall>x\<in>set es. is_frame (snd x)" and "core_run cfg es c = Some c'" and "\<not> ic_stopping c"
  shows "ic_candidate c' = ic_candidate c \<and> ic_smart_timer c' = ic_smart_timer c \<and> ic_turns c' = ic_turns c \<and> ic_calls c' = ic_calls c"
  using assms
proof (induction es arbitrary: c)
  case (Cons x es)
  obtain m e where x: "x = (m, e)" by force
  then obtain a b d f where e: "e = Hears (AudioFrame a b d f)" using Cons.prems(1) by (auto simp: is_frame_def split: core_news.splits Microphone.voice_event.splits)
  then have "core_run cfg es (c\<lparr>ic_last_frame := Some (ti_now m), ic_frames := ic_frames c @ b\<rparr>) = Some c'"
    using Cons.prems x by (auto simp: core_event_def core_heard_def split: if_splits)
  from Cons.IH [OF _ this] Cons.prems show ?case by simp
qed simp

text \<open>An unfinished utterance is lost behind a click. The onset cancels the timer that would complete the candidate; the
  segment is too short, so no end follows (see \<open>short_segment_has_no_end\<close>), and the candidate waits with
  no timer and no call that would start its turn.\<close>

theorem candidate_stranded:
  assumes "ic_candidate c = Some candidate" and "\<not> turn_runs c" and "ic_calls c = []" and "\<not> ic_stopping c"
    and "core_run cfg ((m, Hears (SpeechStart r)) # es) c = Some c'" and "\<forall>x\<in>set es. is_frame (snd x)"
  shows "ic_candidate c' = Some candidate \<and> \<not> ic_smart_timer c' \<and> ic_calls c' = [] \<and> ic_turns c' = ic_turns c"
proof -
  let ?c = "core_transition LISTENING None (c\<lparr>ic_wake_timer := False, ic_smart_timer := False, ic_frames := []\<rparr>)"
  have "core_run cfg es ?c = Some c'"
    using assms(2,4,5) by (auto simp: core_event_def core_heard_def Let_def after_barge_in_def turn_runs_def turn_over_def split: if_splits option.splits)
  moreover have "\<not> ic_stopping ?c" using assms(4) by (simp add: core_transition_def)
  ultimately have "ic_candidate c' = ic_candidate ?c \<and> ic_smart_timer c' = ic_smart_timer ?c \<and> ic_turns c' = ic_turns ?c \<and> ic_calls c' = ic_calls ?c"
    by (rule frames_keep [OF assms(6)])
  then show ?thesis using assms(1,3) by (simp add: core_transition_def)
qed

definition half_said :: core where
  "half_said = (new_core (demo_core_config False) False True demo_turn_manager)
     \<lparr>ic_pipe := new_pipeline\<lparr>vp_state := LISTENING\<rparr>, ic_looping := True, ic_running := True, ic_candidate := Some [1, 0], ic_smart_timer := True\<rparr>"

lemma candidate_stranded_witness:
  "\<exists>c'. core_run (demo_core_config False) [(at_time 0, Hears (SpeechStart 1)), (at_time 1, Hears (AudioFrame [2] [2, 0] 0 True))] half_said = Some c' \<and>
     ic_candidate c' = Some [1, 0] \<and> \<not> ic_smart_timer c' \<and> ic_calls c' = []"
proof -
  obtain c' where c': "core_run (demo_core_config False) ((at_time 0, Hears (SpeechStart 1)) # [(at_time 1, Hears (AudioFrame [2] [2, 0] 0 True))]) half_said = Some c'"
    by (simp add: core_event_def core_heard_def loop_waits_def half_said_def new_core_def Let_def turn_runs_def after_barge_in_def core_transition_def)
  have "ic_candidate half_said = Some [1, 0]" "\<not> turn_runs half_said" "ic_calls half_said = []" "\<not> ic_stopping half_said"
    by (simp_all add: half_said_def new_core_def turn_runs_def)
  from candidate_stranded [OF this c'] c' show ?thesis by (simp add: is_frame_def)
qed

text \<open>The callback of a finished turn that runs after the next turn has begun treats the core as its own: the new turn
  goes on in a pipeline that says \<open>LISTENING\<close>, and its audio is forgotten, so it cannot be merged any more.\<close>

theorem late_callback_hides_turn:
  assumes "core_event cfg m (OfTurn i DoneCallback) c = Some c'" and "ic_active c = Some j" and "j \<noteq> i" and "core_state c = PROCESSING"
    and "\<not> ic_stopping c" and "\<not> ic_stopped c" and "\<not> ic_barging c"
  shows "core_state c' = LISTENING \<and> ic_audio c' = None \<and> ic_active c' = Some j \<and> ic_turns c' ! j = ic_turns c ! j \<and> ic_epoch c' = ic_epoch c"
  using assms
  by (auto simp: core_event_def turn_event_def Let_def on_turn_done_def alter_turn_def arm_wake_def core_transition_def move_def transition_pipeline_def
      split: if_splits)

definition crossing :: "core_news list" where
  "crossing =
     session @
     [Returns Loop (Arbitrating [1, 0]) (Verdict ArbiterContinuing), SmartTimer, Hears (SpeechStart 0), Hears (AudioFrame [2] [2, 0] 0 True),
      Returns Spawned (TurnStarting [1, 0]) (Done True), OfTurn 0 TurnStarts, Hears (SpeechEnd [2] [2, 0] 1), OfTurn 0 (TurnHeard (Some [])),
      OfTurn 0 TickReaped, Returns Loop (Arbitrating [2, 0]) (Verdict ArbiterComplete)]"

lemma crossing_demo:
  "map_option (\<lambda>c. (ic_active c, core_state c, ic_stopping c, ic_stopped c, ic_barging c, turn_over 0 c, vt_called_back (ic_turns c ! 0), length (ic_turns c)))
     (core_run (demo_core_config False) (steps crossing) (new_core (demo_core_config False) False True demo_turn_manager)) =
   Some (Some 1, PROCESSING, False, False, False, True, False, 2)"
  by code_simp

lemma late_callback_hides_turn_witness:
  "\<exists>c c'. core_run (demo_core_config False) (steps crossing) (new_core (demo_core_config False) False True demo_turn_manager) = Some c \<and>
     core_event (demo_core_config False) (at_time 0) (OfTurn 0 DoneCallback) c = Some c' \<and> core_state c' = LISTENING \<and> ic_active c' = Some 1"
proof -
  obtain c where c: "core_run (demo_core_config False) (steps crossing) (new_core (demo_core_config False) False True demo_turn_manager) = Some c"
    "ic_active c = Some 1" "core_state c = PROCESSING" "\<not> ic_stopping c" "\<not> ic_stopped c" "\<not> ic_barging c" "turn_over 0 c"
    "\<not> vt_called_back (ic_turns c ! 0)" "length (ic_turns c) = 2"
    using crossing_demo by (auto simp: map_option_case split: option.splits)
  obtain c' where c': "core_event (demo_core_config False) (at_time 0) (OfTurn 0 DoneCallback) c = Some c'"
    using c by (simp add: core_event_def turn_event_def Let_def)
  from late_callback_hides_turn [OF c' c(2) _ c(3-6)] c(1) c' show ?thesis by auto
qed

subsection \<open>Progress\<close>

text \<open>Every task of a turn can end, by events of its own: the longest way has eight of them.\<close>

definition distance :: "voice_turn \<Rightarrow> nat" where
  "distance t =
     (case vt_phase t of Waiting \<Rightarrow> 7 | Hearing \<Rightarrow> 6 | Acking _ \<Rightarrow> 5 | Streaming \<Rightarrow> 4 | Joining _ \<Rightarrow> 3 | Unwinding _ \<Rightarrow> (if vt_asked t then 2 else 1)
      | Ended _ \<Rightarrow> 0)"

lemma settle_turn:
  "i < length (ic_turns c) \<Longrightarrow> vt_phase (ic_turns (settle i (t, tm, s) c) ! i) = vt_phase t \<and> vt_asked (ic_turns (settle i (t, tm, s) c) ! i) = vt_asked t \<and>
     vt_called_back (ic_turns (settle i (t, tm, s) c) ! i) = vt_called_back t \<and> ic_calls (settle i (t, tm, s) c) = ic_calls c \<and>
     length (ic_turns (settle i (t, tm, s) c)) = length (ic_turns c)"
  by (simp add: settle_def Let_def alter_turn_def on_speaking_def playback_completed_def)

lemma ending_sections:
  "vt_phase (fst (fail_section now t tm)) \<in> range Unwinding" "vt_phase (fst (cancel_section now t tm)) \<in> range Unwinding"
  by (auto simp: fail_section_def cancel_section_def unwind_def split: option.splits prod.splits sum.splits)

lemma plan_phases: "vt_phase (fst (plan_section ex inp alive said t tm)) \<in> range Acking \<union> {Streaming} \<union> range Unwinding"
  using ending_sections
  by (auto simp: plan_section_def Let_def unwind_def split: prod.splits sum.splits option.splits) (metis fst_conv rangeE ending_sections(1))+

lemma joined_phases: "vt_phase (fst (joined_section now a j t tm)) \<in> range Unwinding"
  using ending_sections(1) [of now t] ending_sections(2) [of now t]
  by (cases j) (auto simp: joined_section_def unwind_def split: prod.splits sum.splits)

lemma cancelled_phases:
  assumes "vt_asked t" and "\<forall>out. vt_phase t \<noteq> Ended out"
  shows "distance (fst (cancelled_section now t tm)) < distance t"
proof -
  have "\<not> vt_asked (fst (cancel_section now (t\<lparr>vt_asked := False\<rparr>) tm))"
    using cancel_section_of [of True "t\<lparr>vt_asked := False\<rparr>" now tm] by (auto simp: section_of_def split: prod.splits)
  moreover obtain out where "vt_phase (fst (cancel_section now (t\<lparr>vt_asked := False\<rparr>) tm)) = Unwinding out"
    using ending_sections(2) [of now "t\<lparr>vt_asked := False\<rparr>" tm] by blast
  ultimately have "distance (fst (cancel_section now (t\<lparr>vt_asked := False\<rparr>) tm)) = 1" by (simp add: distance_def)
  then show ?thesis using assms by (cases "vt_phase t") (simp_all add: cancelled_section_def Let_def distance_def)
qed

lemma settle_distance:
  assumes "i < length (ic_turns c)"
  shows "distance (ic_turns (settle i (t, tm, s) c) ! i) = distance t"
  using settle_turn [OF assms] by (simp add: distance_def split: voice_phase.split)

definition rank :: "voice_turn \<Rightarrow> nat" where
  "rank t = distance t + (if vt_called_back t then 0 else 1)"

lemma rank_zero: "i < length (ic_turns c) \<Longrightarrow> rank (ic_turns c ! i) = 0 \<Longrightarrow> reaped (Some i) c"
  by (auto simp: rank_def distance_def reaped_def turn_over_def split: voice_phase.splits if_splits)

lemma rank_bound: "rank t \<le> 8"
  by (simp add: rank_def distance_def split: voice_phase.split)

lemma section_advances:
  assumes "turn_event cfg m i e c = Some (settle i (t, tm, s) c)" and "i < length (ic_turns c)" and "distance t < distance (ic_turns c ! i)"
    and "vt_called_back t = vt_called_back (ic_turns c ! i)"
  shows "\<exists>e c'. turn_event cfg m i e c = Some c' \<and> rank (ic_turns c' ! i) < rank (ic_turns c ! i) \<and> ic_calls c' = ic_calls c \<and> length (ic_turns c') = length (ic_turns c)"
  using assms settle_turn [OF assms(2)] settle_distance [OF assms(2)] by (auto simp: rank_def intro!: exI)


lemma sections_called_back:
  "vt_called_back (fst (fail_section now t tm)) = vt_called_back t" "vt_called_back (fst (cancel_section now t tm)) = vt_called_back t"
  "vt_called_back (fst (joined_section now a j t tm)) = vt_called_back t" "vt_called_back (fst (cancelled_section now t tm)) = vt_called_back t"
proof -
  show f: "vt_called_back (fst (fail_section now t tm)) = vt_called_back t" for t tm
    by (simp add: fail_section_def unwind_def split: option.split prod.split sum.split)
  show c: "vt_called_back (fst (cancel_section now t tm)) = vt_called_back t" for t tm
    by (simp add: cancel_section_def unwind_def split: option.split prod.split sum.split)
  show "vt_called_back (fst (joined_section now a j t tm)) = vt_called_back t"
    using f c by (cases j) (auto simp: joined_section_def unwind_def split: prod.split sum.split)
  show "vt_called_back (fst (cancelled_section now t tm)) = vt_called_back t"
    by (cases "vt_phase t") (simp_all add: cancelled_section_def Let_def c)
qed

lemma plan_called_back: "vt_called_back (fst (plan_section ex inp alive said t tm)) = vt_called_back t"
  by (simp add: plan_section_def Let_def unwind_def sections_called_back(1) case_prod_beta split: sum.split option.split)

lemma turn_advances:
  assumes "i < length (ic_turns c)" and "rank (ic_turns c ! i) \<noteq> 0"
  shows "\<exists>e c'. turn_event cfg m i e c = Some c' \<and> rank (ic_turns c' ! i) < rank (ic_turns c ! i) \<and> ic_calls c' = ic_calls c \<and> length (ic_turns c') = length (ic_turns c)"
proof -
  let ?t = "ic_turns c ! i" and ?ex = "cc_executor cfg" and ?inp = "turn_input.truncate m" and ?a = "alive_turn i c"
  note advances = section_advances [OF _ assms(1)]
  show ?thesis
  proof (cases "turn_over i c")
    case True
    then have "\<not> vt_called_back ?t" using assms(2) by (auto simp: rank_def distance_def turn_over_def split: voice_phase.splits)
    then have e: "turn_event cfg m i DoneCallback c = Some (on_turn_done cfg m i c)" using True assms(1) by (simp add: turn_event_def Let_def)
    have "rank (ic_turns (on_turn_done cfg m i c) ! i) < rank ?t \<and> ic_calls (on_turn_done cfg m i c) = ic_calls c \<and> length (ic_turns (on_turn_done cfg m i c)) = length (ic_turns c)"
      using assms(1) \<open>\<not> vt_called_back ?t\<close>
      by (simp add: on_turn_done_def Let_def alter_turn_def arm_wake_def rank_def distance_def split: voice_phase.split)
    with e show ?thesis by blast
  next
    case False
    then have run: "\<forall>out. vt_phase ?t \<noteq> Ended out" by (auto simp: turn_over_def)
    show ?thesis
    proof (cases "vt_asked ?t")
      case True
      obtain t tm where r: "cancelled_section (ti_now m) ?t (ic_manager c) = (t, tm)" by force
      show ?thesis
        by (rule advances [of cfg m CancelArrives t tm False])
          (use True assms(1) r cancelled_phases [OF True run, of "ti_now m" "ic_manager c"] sections_called_back(4) [of "ti_now m" ?t "ic_manager c"] in
            \<open>simp_all add: turn_event_def\<close>)
    next
      case asked: False
      have near: "distance t \<le> 5" if "vt_phase t \<in> range Acking \<union> {Streaming} \<union> range Unwinding" for t using that by (auto simp: distance_def)
      show ?thesis
      proof (cases "vt_phase ?t")
        case Waiting
        obtain t tm s where r: "begin_section ?ex ?inp ?a ?t (ic_manager c) = (t, tm, s)" by (rule prod_cases3)
        have "distance t < distance ?t \<and> vt_called_back t = vt_called_back ?t"
        proof (cases "vt_override ?t")
          case None
          then show ?thesis using r Waiting by (auto simp: begin_section_def distance_def)
        next
          case (Some x)
          then have "t = fst (plan_section ?ex ?inp ?a x (?t\<lparr>vt_transcript := x\<rparr>) (ic_manager c))" using r by (simp add: begin_section_def)
          then show ?thesis using near [OF plan_phases, of ?ex ?inp ?a x "?t\<lparr>vt_transcript := x\<rparr>" "ic_manager c"] plan_called_back Waiting
            by (simp add: distance_def)
        qed
        then show ?thesis using r Waiting asked assms(1) by (intro advances [of cfg m TurnStarts t tm s]) (simp_all add: turn_event_def Let_def)
      next
        case Hearing
        obtain t tm s where r: "heard_section ?ex ?inp ?a None ?t (ic_manager c) = (t, tm, s)" by (rule prod_cases3)
        then have "t = fst (plan_section ?ex ?inp ?a [] ?t (ic_manager c))" by (simp add: heard_section_def)
        then have "distance t < distance ?t \<and> vt_called_back t = vt_called_back ?t"
          using near [OF plan_phases, of ?ex ?inp ?a "[]" ?t "ic_manager c"] plan_called_back Hearing by (simp add: distance_def)
        then show ?thesis using r Hearing asked assms(1) by (intro advances [of cfg m "TurnHeard None" t tm s]) (simp_all add: turn_event_def Let_def)
      next
        case (Acking ack)
        then show ?thesis using asked assms(1)
          by (intro advances [of cfg m AckPlayed "acked_section ack ?t" "ic_manager c" False]) (simp_all add: turn_event_def Let_def acked_section_def distance_def)
      next
        case Streaming
        then show ?thesis using asked assms(1)
          by (intro advances [of cfg m "SentencesEnd False" "?t\<lparr>vt_phase := Joining JoinEnd\<rparr>" "ic_manager c" False]) (simp_all add: turn_event_def Let_def distance_def)
      next
        case (Joining j)
        obtain t tm where r: "joined_section (ti_now m) ?a j ?t (ic_manager c) = (t, tm)" by force
        have "vt_phase t \<in> range Unwinding" "vt_called_back t = vt_called_back ?t" using joined_phases sections_called_back(3) r by (metis fst_conv)+
        then have "distance t < distance ?t \<and> vt_called_back t = vt_called_back ?t" using Joining by (auto simp: distance_def)
        then show ?thesis using r Joining asked assms(1) by (intro advances [of cfg m ProducerReaped t tm False]) (simp_all add: turn_event_def Let_def)
      next
        case (Unwinding out)
        then show ?thesis using asked assms(1)
          by (intro advances [of cfg m TickReaped "?t\<lparr>vt_phase := Ended out\<rparr>" "ic_manager c" False]) (simp_all add: turn_event_def Let_def distance_def)
      next
        case (Ended out)
        then show ?thesis using run by simp
      qed
    qed
  qed
qed

lemma turn_ends:
  assumes "i < length (ic_turns c)"
  shows "\<exists>es c'. core_run cfg (map (\<lambda>e. (m, OfTurn i e)) es) c = Some c' \<and> length es \<le> rank (ic_turns c ! i) \<and> reaped (Some i) c' \<and> ic_calls c' = ic_calls c"
  using assms
proof (induction "rank (ic_turns c ! i)" arbitrary: c rule: less_induct)
  case less
  show ?case
  proof (cases "rank (ic_turns c ! i) = 0")
    case True
    then show ?thesis using rank_zero less.prems by (intro exI [of _ "[]"]) simp
  next
    case False
    from turn_advances [OF less.prems False] obtain e c1 where s: "turn_event cfg m i e c = Some c1" "rank (ic_turns c1 ! i) < rank (ic_turns c ! i)"
      "ic_calls c1 = ic_calls c" "length (ic_turns c1) = length (ic_turns c)" by blast
    from less.hyps [OF s(2)] less.prems s(4) obtain es c' where
      "core_run cfg (map (\<lambda>e. (m, OfTurn i e)) es) c1 = Some c'" "length es \<le> rank (ic_turns c1 ! i)" "reaped (Some i) c'" "ic_calls c' = ic_calls c1"
      by auto
    with s show ?thesis by (intro exI [of _ "e # es"] exI [of _ c']) (simp add: core_event_def)
  qed
qed

text \<open>C18: A barge-in never hangs: from every state of the core, whatever its turn is doing, at most eight events of that turn
  alone bring the task to its end and its callbacks behind it, and then the barge-in returns.\<close>

theorem barge_in_never_stuck:
  assumes "(w, BargeReap e (Some i) k) \<in> set (ic_calls c)" and "i < length (ic_turns c)"
  shows "\<exists>es c1 c2. length es \<le> 8 \<and> core_run cfg (map (\<lambda>x. (m, OfTurn i x)) es) c = Some c1 \<and>
    core_event cfg m (Returns w (BargeReap e (Some i) k) (Done True)) c1 = Some c2"
proof -
  from turn_ends [OF assms(2)] obtain es c1 where s: "core_run cfg (map (\<lambda>x. (m, OfTurn i x)) es) c = Some c1" "length es \<le> rank (ic_turns c ! i)"
    "reaped (Some i) c1" "ic_calls c1 = ic_calls c" by blast
  have "reaped (Some i) (call_returns w (BargeReap e (Some i) k) c1)" using s(3) by (simp add: reaped_def call_returns_def turn_over_def)
  then have "core_event cfg m (Returns w (BargeReap e (Some i) k) (Done True)) c1 =
      Some (barge_finish cfg m w e (Some i) k (call_returns w (BargeReap e (Some i) k) c1))"
    using assms(1) s(4) by (simp add: core_event_def resume_call_def)
  moreover have "length es \<le> 8" using s(2) rank_bound order_trans by blast
  ultimately show ?thesis using s(1) by blast
qed

lemma barge_in_never_stuck_witness:
  "\<exists>es c1 c2. length es \<le> 8 \<and> core_run (demo_core_config False) (map (\<lambda>x. (at_time 0, OfTurn 0 x)) es) interrupted_demo = Some c1 \<and>
     core_event (demo_core_config False) (at_time 0) (Returns Loop (BargeReap 2 (Some 0) ToListening) (Done True)) c1 = Some c2"
  by (rule barge_in_never_stuck) (simp_all add: interrupted_demo_def)

subsection \<open>Split utterances\<close>

lemma close_open_pending: "close_open m task c = Some c' \<Longrightarrow> ic_pending c' = ic_pending c"
  using close_open_SomeD by fastforce

lemma barge_finish_pending: "ic_pending (barge_finish cfg m w e task ToListening c) = ic_pending c"
  by (auto simp: barge_finish_def Let_def raise_in_def arm_if_listening_def arm_wake_def after_barge_in_def core_transition_def dest: close_open_pending
      split: option.split)

lemma barge_start_pending: "ic_pending (barge_start cfg m w ToListening c) = pending_audio cfg (ti_now m) c"
  by (simp add: barge_start_def Let_def barge_reap_def barge_finish_pending call_def flush_playback_def invalidate_def alter_turn_def split: option.split)

text \<open>An utterance that continues while its first part is processed and nothing has been played is not split: the onset
  keeps the audio of the cancelled turn, and a turn that begins within the merge window has the audio of both
  parts, a later one only its own; the kept audio is used once.\<close>

theorem split_utterance_merged:
  assumes "core_state c = PROCESSING" and "\<not> ic_playback c" and "ic_audio c = Some audio" and "ic_pending c = None"
    and "ic_pending c1 = ic_pending (barge_start cfg m w ToListening c)" and "ti_now m \<le> ti_now m1"
  shows "vt_audio (last (ic_turns (commence cfg m1 rest override c1))) =
      (if ti_now m1 - ti_now m \<le> cc_merge_window cfg then audio @ rest else rest) \<and>
    ic_pending (commence cfg m1 rest override c1) = None"
  using assms
  by (simp add: commence_def Let_def merged_audio_def barge_start_pending pending_audio_def new_voice_turn_def core_transition_def recover_pipe_def)

lemma split_utterance_merged_witness:
  "vt_audio (last (ic_turns (commence (demo_core_config False) (at_time 1) [2] None
     (barge_start (demo_core_config False) (at_time 0) Loop ToListening (interrupted_demo\<lparr>ic_pipe := new_pipeline\<lparr>vp_state := PROCESSING\<rparr>, ic_audio := Some [1]\<rparr>))))) = [1, 2]"
  using split_utterance_merged [of "interrupted_demo\<lparr>ic_pipe := new_pipeline\<lparr>vp_state := PROCESSING\<rparr>, ic_audio := Some [1]\<rparr>" "[1]" _ "demo_core_config False"
      "at_time 0" Loop "at_time 1" "[2]" None, OF _ _ _ _ refl]
  by (simp add: interrupted_demo_def new_core_def at_time_def demo_core_config_def)

end
