(* ===== verification/Spec2Isabelle.thy ===== *)
theory Spec2Isabelle
  imports Resource_Governor Model_Lifecycle Confirmation Path_Policy Loop_Detector Task_Lifecycle
    Plan_Order Tool_Executor Task_Executor Conversation Agent_Machine Orchestrator Proactive
    Ipc_Client Memory_Manager Voice_Pipeline Reminder_Service Sentence_Streamer Secret_Scrubber Web_Fetch Web_Search Microphone Turn_Executor Interaction_Turns
begin

text \<open>
  A verification development for TOM, a local voice assistant written in Python. All paths below are under
  \<open>src/python/tom\<close>; a definition keeps the name of the function or class it models where HOL allows it.

  \<^bold>\<open>The program.\<close> A user speaks or types; an agent answers with a language model and tools. Around it stand a permission
  engine, a planner with a task executor, memory, reminders, a scheduler of proactive work, a governor of GPU and main
  memory, an IPC client and the voice front end. The program is one asyncio event loop: code runs without interruption from one
  \<open>await\<close> to the next. The models follow this: one definition per section between two suspension points, and an event or step
  relation that lets the sections interleave in any order. What another component or the outside answers (a model, a
  handler, the user, the clock, a random identifier, a database that refuses a write) is an argument.

  \<^bold>\<open>Theories and code.\<close>
  \<^item> \<open>Tom_Prelude\<close>: Python dictionaries as association lists that keep their order, text functions, the locales
    \<open>transition_table\<close> and \<open>event_machine\<close>, the collections \<open>handler_simps\<close> and \<open>keeps_inv\<close>.
  \<^item> \<open>Py_Regex\<close>, \<open>Py_Substitute\<close>: the part of \<open>re\<close> that the compiled patterns use, as a matcher (search as a truth value,
    and the ordered matches that \<open>sub\<close> and \<open>match\<close> need), with a declarative meaning it agrees with. \<open>Civil_Time\<close>: the part of
    \<open>datetime\<close> the personal store uses.
  \<^item> Resources: \<open>Resource_Queue\<close> (\<open>resources/policies.py\<close>), \<open>Resource_Governor\<close> (\<open>resources/manager.py\<close>; the state is the record
    \<open>governor\<close>, \<open>gov_step\<close> its steps), \<open>Model_Lifecycle\<close> (\<open>resources/model_manager.py\<close>).
  \<^item> Security: \<open>Permissions\<close>, \<open>Confirmation\<close> (with the audit log), \<open>Path_Policy\<close>, \<open>Secret_Scrubber\<close> (all \<open>security/\<close>).
  \<^item> Tools: \<open>Tool_Executor\<close> (\<open>tools/registry.py\<close>, \<open>tools/executor.py\<close>), and of \<open>tools/web.py\<close> \<open>Web_Address\<close> (addresses as
    words, URLs), \<open>Web_Fetch\<close> and \<open>Web_Search\<close>.
  \<^item> Agents (\<open>agents/\<close>, \<open>schemas/\<close>): \<open>Loop_Detector\<close>, \<open>Task_Lifecycle\<close> (tasks, task manager and its store), \<open>Plan_Order\<close> (validation and
    Kahn's algorithm), \<open>Task_Executor\<close>, \<open>Conversation\<close> (history), \<open>Agent_Machine\<close>, \<open>Orchestrator\<close>, \<open>Proactive\<close>.
  \<^item> Data: \<open>Memory_Policy\<close>, \<open>Memory_Store\<close>, \<open>Memory_Manager\<close> (\<open>memory/\<close>); \<open>Personal_Store\<close>, \<open>Reminder_Service\<close> (\<open>personal/\<close>).
  \<^item> IPC: \<open>Ipc_Transport\<close> (framing), \<open>Ipc_Client\<close> (\<open>client_event\<close> interleaves requests, the receive task, reconnection and close).
  \<^item> Voice (\<open>voice/\<close>): \<open>Voice_Pipeline\<close>, \<open>Sentence_Streamer\<close>, \<open>Microphone\<close> (with \<open>vad.py\<close>), \<open>Turn_Manager\<close>, \<open>Response_Policy\<close>,
    \<open>Wake_Word\<close>, and \<open>interaction_core.py\<close> in four theories: \<open>Turn_Executor\<close> (the sections of one turn), \<open>Interaction_Core\<close> (the
    record \<open>core\<close> and \<open>core_event\<close>), \<open>Interaction_Gate\<close> (the invariant \<open>core_sound\<close>, the gate, outdated turns) and
    \<open>Interaction_Turns\<close> (barge-in, sleep, stop, split utterances).

  \<^bold>\<open>How they interact.\<close> The executor of tools asks the model of the permission engine, a confirmation hook and the scrubber; the task
  executor runs plans of \<open>Plan_Order\<close> through it and records in the task manager; the orchestrator drives an agent, whose tools
  go through the agent's hook; the proactive scheduler creates tasks in the same manager and the reminder
  service dispatches through it; the memory manager puts policy, store and index together; the interaction core
  uses the pipeline's state table, the microphone's events, the turn manager, the response policy, the wake word and the sentence
  streamer.

  \<^bold>\<open>Interfaces.\<close> Each locale is interpreted on the code's own definitions: \<open>transition_table\<close> (a table of transitions with final
  states) for tasks, models, agents and the pipeline; \<open>grant_queue\<close> for the priority queue, on which the governor's
  invariant rests; \<open>confirmation_hook\<close> for the four hooks, for what every hook keeps of the audit log; \<open>validated_rows\<close> for
  the three tables of the personal store; \<open>event_machine\<close> (an event step and its run) for the voice pipeline and the interaction core.

  \<^bold>\<open>What the lemmas show.\<close> Per component: an invariant with one preservation lemma per operation (budgets and exclusion in the governor,
  \<open>mirrored\<close> for the task rows, \<open>tasks_ok\<close>, \<open>futures_ok\<close> and \<open>answers_ok\<close> for the IPC client, \<open>core_sound\<close> for the interaction core); the
  outcome of each operation on each branch; equivalences with a declarative meaning (patterns, scans, containment, quiet
  hours); round trips (frames, rows, times as texts); bounds and termination. Where the code does not do what its documentation or its
  context asks, a theorem states what it does, and says so in the text before it.

  \<^bold>\<open>Bounds and fuel.\<close> Nearly every function is total by structural recursion or a measure. Fuel appears where a loop of the code
  is bounded by construction: \<open>fetch_hops\<close> has one unit per permitted request (redirects + 1), \<open>drain_frames\<close> the burst of eight frames
  after which a push of the microphone suspends, \<open>redial_advance\<close> the at most four sections between two connection attempts; each
  is shown to be enough where it is used. The waiting loops of the client, the governor and the core are
  runs of events, of any length. Python integers are \<open>int\<close> or \<open>nat\<close>; PCM samples and addresses are words; times are \<open>rat\<close>.

  \<^bold>\<open>Assumed of Python.\<close> The documented behaviour of dictionaries, \<open>str\<close>, \<open>re\<close>, \<open>datetime\<close>, \<open>ipaddress\<close> (the tables of private
  networks are those of CPython from 3.11.10 and 3.12.4 on), \<open>urllib.parse\<close> and asyncio (a section is atomic; cancellation
  arrives at a suspension point; callbacks of a task run after its end). Texts that are matched by patterns are ASCII.

  \<^bold>\<open>Not modelled.\<close> Embeddings and Qdrant, speech recognition and synthesis (\<open>streaming_tts.py\<close> included), vision, model providers, the
  desktop shell: calls into libraries and devices. Routing, prompts, greetings and the speech formatter: texts and tables, whose
  results are arguments. The engine, configuration and process lifecycle: wiring. Tool handlers other than the web tools: outcomes are
  arguments of the executor. In the interaction core: heartbeats, latency reports, greeting texts and a cancellation of \<open>run()\<close>
  itself. In the turn manager: \<open>build_model_context\<close>. Logging and telemetry everywhere.
\<close>

end
